(* ===== verification/Prelude.thy ===== *)
theory Prelude
  imports Main "HOL-Library.AList"
begin

text \<open>
  Shared vocabulary of the development.

  \<^item> 64-bit integers: Go's \<^verbatim>\<open>int\<close> and \<^verbatim>\<open>int64\<close> are HOL integers, and an
    arithmetic operation whose operands the code does not bound first is wrapped by
    \<open>wrap64\<close> (two's complement).
  \<^item> Go maps: \<open>gomap\<close>, an association list. Its order stands for the order in which a
    \<^verbatim>\<open>range\<close> loop meets the entries, which Go leaves open; \<open>map_ok\<close> says that no key
    occurs twice. Nil and empty maps are both \<open>[]\<close>.
  \<^item> Fallible stateful code: \<open>('w, 'e, 'a) prog\<close> maps a world to a result
    (\<open>Inl\<close> error or \<open>Inr\<close> value) and the next world; \<open>andThen\<close> is
    \<^verbatim>\<open>if err != nil { return nil, err }\<close>.
  \<^item> \<open>gives\<close>: the predicate invariant proofs about such code go through.
\<close>

named_theorems map_simps "evaluation of association-list maps"
named_theorems gives_intros "operations that keep an invariant of the world"

section \<open>64-bit integers\<close>

definition wrap64 :: "int \<Rightarrow> int" where
  "wrap64 x = (x + 2 ^ 63) mod 2 ^ 64 - 2 ^ 63"

definition in64 :: "int \<Rightarrow> bool" where
  "in64 x \<longleftrightarrow> - (2 ^ 63) \<le> x \<and> x < 2 ^ 63"

lemma wrap64_id [simp]: "in64 x \<Longrightarrow> wrap64 x = x"
  by (simp add: wrap64_def in64_def)

lemma in64_wrap64 [simp]: "in64 (wrap64 x)"
proof -
  have "0 \<le> (x + 2 ^ 63) mod 2 ^ 64" "(x + 2 ^ 63) mod 2 ^ 64 < (2 ^ 64 :: int)"
    by simp_all
  then show ?thesis by (simp add: wrap64_def in64_def)
qed

lemma in64_small: "- 9000000000000000000 \<le> x \<Longrightarrow> x \<le> 9000000000000000000 \<Longrightarrow> in64 x"
  by (simp add: in64_def)

section \<open>Maps as association lists\<close>

type_synonym ('k, 'v) gomap = "('k \<times> 'v) list"

abbreviation mget :: "('k, 'v) gomap \<Rightarrow> 'k \<Rightarrow> 'v option" where
  "mget m k \<equiv> map_of m k"

abbreviation mput :: "'k \<Rightarrow> 'v \<Rightarrow> ('k, 'v) gomap \<Rightarrow> ('k, 'v) gomap" where
  "mput k v m \<equiv> AList.update k v m"

abbreviation mdel :: "'k \<Rightarrow> ('k, 'v) gomap \<Rightarrow> ('k, 'v) gomap" where
  "mdel k m \<equiv> AList.delete k m"

definition mlen :: "('k, 'v) gomap \<Rightarrow> int" where
  "mlen m = int (length m)"

definition mkeys :: "('k, 'v) gomap \<Rightarrow> 'k list" where
  "mkeys m = map fst m"

definition mhas :: "('k, 'v) gomap \<Rightarrow> 'k \<Rightarrow> bool" where
  "mhas m k = (mget m k \<noteq> None)"

text \<open>\<^verbatim>\<open>m[k]\<close> in an expression: the zero value for a missing key.\<close>

definition mget0 :: "'v \<Rightarrow> ('k, 'v) gomap \<Rightarrow> 'k \<Rightarrow> 'v" where
  "mget0 z m k = (case mget m k of None \<Rightarrow> z | Some v \<Rightarrow> v)"

definition map_ok :: "('k, 'v) gomap \<Rightarrow> bool" where
  "map_ok m = distinct (mkeys m)"

lemma mhas_iff: "mhas m k \<longleftrightarrow> k \<in> dom (mget m)"
  by (auto simp: mhas_def)

lemma mkeys_dom: "set (mkeys m) = dom (mget m)"
  by (simp add: mkeys_def dom_map_of_conv_image_fst)

lemma mget_mput [map_simps, simp]: "mget (mput k v m) k' = (if k' = k then Some v else mget m k')"
  by (simp add: update_conv')

lemma mget_mdel [map_simps, simp]: "mget (mdel k m) k' = (if k' = k then None else mget m k')"
  by (simp add: delete_conv')

lemma map_ok_Nil [simp]: "map_ok []"
  by (simp add: map_ok_def mkeys_def)

lemma map_ok_mput [simp]: "map_ok m \<Longrightarrow> map_ok (mput k v m)"
  by (simp add: map_ok_def mkeys_def distinct_update)

lemma map_ok_mdel [simp]: "map_ok m \<Longrightarrow> map_ok (mdel k m)"
  by (simp add: map_ok_def mkeys_def distinct_delete)

lemma mlen_card: "map_ok m \<Longrightarrow> mlen m = int (card (dom (mget m)))"
  using distinct_card [of "mkeys m"] by (simp add: map_ok_def mlen_def mkeys_dom) (simp add: mkeys_def)

lemma mlen_mput_new: "mget m k = None \<Longrightarrow> mlen (mput k v m) = mlen m + 1"
proof (induction m)
  case Nil
  then show ?case by (simp add: mlen_def)
next
  case (Cons p m)
  then show ?case by (cases p) (auto simp: mlen_def split: if_splits)
qed

lemma mlen_nonneg [simp]: "0 \<le> mlen m"
  by (simp add: mlen_def)

lemma mlen_zero_iff: "mlen m = 0 \<longleftrightarrow> m = []"
  by (simp add: mlen_def)

lemma mdel_absent: "mget m k = None \<Longrightarrow> mdel k m = m"
  by (induction m) (auto split: if_splits)

lemma mget_set: "map_ok m \<Longrightarrow> mget m k = Some v \<longleftrightarrow> (k, v) \<in> set m"
  by (simp add: map_ok_def mkeys_def)

section \<open>Errors\<close>

text \<open>
  The sentinel errors of the services by name; \<open>Errorf\<close> is an error made on the spot,
  \<open>Wrap\<close> one that carries another (\<^verbatim>\<open>%w\<close>), \<open>StoreErr\<close> a failure reported by Redis,
  MySQL or RabbitMQ, \<open>CtxErr\<close> a cancelled request, \<open>Panic\<close> a run-time panic.
\<close>

datatype err =
    ErrInvalidChunkID | ErrChunkNotFound | ErrNoActiveSeason | ErrChunkClosed
  | ErrCellAlreadyOpen | ErrCellFlagged
  | ErrMineMatchChunkOccupied | ErrMineMatchWrongChunk | ErrMineMatchNoChunk
  | ErrChunkCellOutOfWorld
  | Errorf string | Wrap string err | StoreErr | DupKeyErr | CtxErr | Panic string

definition bindE :: "'e + 'a \<Rightarrow> ('a \<Rightarrow> 'e + 'b) \<Rightarrow> 'e + 'b" where
  "bindE r k = (case r of Inl e \<Rightarrow> Inl e | Inr a \<Rightarrow> k a)"

lemma bindE_simps [simp]: "bindE (Inl e) k = Inl e" "bindE (Inr a) k = k a"
  by (simp_all add: bindE_def)

lemma bindE_Inr: "bindE r k = Inr b \<longleftrightarrow> (\<exists>a. r = Inr a \<and> k a = Inr b)"
  by (cases r) auto

text \<open>\<^verbatim>\<open>if bad { return err }\<close> in a pure function.\<close>

definition guardE :: "bool \<Rightarrow> 'e \<Rightarrow> 'e + unit" where
  "guardE bad e = (if bad then Inl e else Inr ())"

lemma guardE_simps [simp]: "guardE True e = Inl e" "guardE False e = Inr ()"
  by (simp_all add: guardE_def)

lemma guardE_Inr: "guardE b e = Inr u \<longleftrightarrow> \<not> b"
  by (cases b) simp_all

section \<open>Fallible programs over a world\<close>

type_synonym ('w, 'e, 'a) prog = "'w \<Rightarrow> ('e + 'a) \<times> 'w"

definition ret :: "'a \<Rightarrow> ('w, 'e, 'a) prog" where
  "ret a w = (Inr a, w)"

definition fail :: "'e \<Rightarrow> ('w, 'e, 'a) prog" where
  "fail e w = (Inl e, w)"

definition andThen :: "('w, 'e, 'a) prog \<Rightarrow> ('a \<Rightarrow> ('w, 'e, 'b) prog) \<Rightarrow> ('w, 'e, 'b) prog" where
  "andThen m k w = (case m w of (Inl e, w') \<Rightarrow> (Inl e, w') | (Inr a, w') \<Rightarrow> k a w')"

text \<open>\<^verbatim>\<open>_ = f()\<close>: the error is dropped, the effect stays.\<close>

definition ignoreErr :: "('w, 'e, 'a) prog \<Rightarrow> ('w, 'e, unit) prog" where
  "ignoreErr m w = (Inr (), snd (m w))"

text \<open>\<^verbatim>\<open>if err := f(); err != nil { h }\<close>: a handler that runs on the error.\<close>

definition onErr :: "('w, 'e, 'a) prog \<Rightarrow> ('e \<Rightarrow> ('w, 'e, 'a) prog) \<Rightarrow> ('w, 'e, 'a) prog" where
  "onErr m h w = (case m w of (Inl e, w') \<Rightarrow> h e w' | (Inr a, w') \<Rightarrow> (Inr a, w'))"

text \<open>A pure computation that may fail, used inside a program.\<close>

definition liftE :: "'e + 'a \<Rightarrow> ('w, 'e, 'a) prog" where
  "liftE r w = (r, w)"

fun forEach :: "('a \<Rightarrow> ('w, 'e, unit) prog) \<Rightarrow> 'a list \<Rightarrow> ('w, 'e, unit) prog" where
  "forEach f [] = ret ()"
| "forEach f (x # xs) = andThen (f x) (\<lambda>_. forEach f xs)"

lemmas prog_defs = ret_def fail_def andThen_def ignoreErr_def onErr_def liftE_def

subsection \<open>Invariants of the world\<close>

text \<open>
  \<open>gives I m P\<close>: started where \<open>I\<close> holds, \<open>m\<close> ends where \<open>I\<close> holds, on the error paths too, and
  a value it returns satisfies \<open>P\<close>. \<open>keeps I m\<close> is the part without a value.
\<close>

definition gives :: "('w \<Rightarrow> bool) \<Rightarrow> ('w, 'e, 'a) prog \<Rightarrow> ('a \<Rightarrow> bool) \<Rightarrow> bool" where
  "gives I m P \<longleftrightarrow> (\<forall>w. I w \<longrightarrow> I (snd (m w)) \<and> (\<forall>a. fst (m w) = Inr a \<longrightarrow> P a))"

abbreviation keeps :: "('w \<Rightarrow> bool) \<Rightarrow> ('w, 'e, 'a) prog \<Rightarrow> bool" where
  "keeps I m \<equiv> gives I m (\<lambda>_. True)"

lemma givesI:
  "(\<And>w. I w \<Longrightarrow> I (snd (m w))) \<Longrightarrow> (\<And>w a. I w \<Longrightarrow> fst (m w) = Inr a \<Longrightarrow> P a) \<Longrightarrow> gives I m P"
  by (simp add: gives_def)

lemma givesD: "gives I m P \<Longrightarrow> I w \<Longrightarrow> I (snd (m w))"
  and givesD_val: "gives I m P \<Longrightarrow> I w \<Longrightarrow> fst (m w) = Inr a \<Longrightarrow> P a"
  by (simp_all add: gives_def)

lemma gives_weaken: "gives I m P \<Longrightarrow> (\<And>a. P a \<Longrightarrow> Q a) \<Longrightarrow> gives I m Q"
  by (simp add: gives_def)

lemma gives_keeps: "gives I m P \<Longrightarrow> keeps I m"
  by (simp add: gives_def)

lemma gives_conj: "gives I m P \<Longrightarrow> gives J m Q \<Longrightarrow> gives (\<lambda>w. I w \<and> J w) m (\<lambda>a. P a \<and> Q a)"
  by (auto simp: gives_def)

lemma gives_ret [gives_intros]: "P a \<Longrightarrow> gives I (ret a) P"
  by (simp add: gives_def ret_def)

lemma gives_fail [gives_intros]: "gives I (fail e) P"
  by (simp add: gives_def fail_def)

lemma gives_liftE [gives_intros]: "(\<And>a. r = Inr a \<Longrightarrow> P a) \<Longrightarrow> gives I (liftE r) P"
  by (simp add: gives_def liftE_def)

lemma gives_andThen:
  assumes "gives I m R" "\<And>a. R a \<Longrightarrow> gives I (k a) P"
  shows "gives I (andThen m k) P"
proof (rule givesI)
  fix w assume "I w"
  note m = givesD [OF assms(1) this] givesD_val [OF assms(1) this]
  show "I (snd (andThen m k w))"
    using m givesD [OF assms(2)] by (auto simp: andThen_def split: prod.splits sum.splits)
  show "P a" if "fst (andThen m k w) = Inr a" for a
    using that m givesD_val [OF assms(2)] by (auto simp: andThen_def split: prod.splits sum.splits)
qed

lemma gives_onErr:
  assumes "gives I m P" "\<And>e. gives I (h e) P"
  shows "gives I (onErr m h) P"
proof (rule givesI)
  fix w assume "I w"
  note m = givesD [OF assms(1) this] givesD_val [OF assms(1) this]
  show "I (snd (onErr m h w))"
    using m givesD [OF assms(2)] by (auto simp: onErr_def split: prod.splits sum.splits)
  show "P a" if "fst (onErr m h w) = Inr a" for a
    using that m givesD_val [OF assms(2)] by (auto simp: onErr_def split: prod.splits sum.splits)
qed

lemma gives_ignoreErr: "keeps I m \<Longrightarrow> keeps I (ignoreErr m)"
  by (simp add: gives_def ignoreErr_def)

lemma gives_forEach: "(\<And>x. x \<in> set xs \<Longrightarrow> keeps I (f x)) \<Longrightarrow> keeps I (forEach f xs)"
  by (induction xs) (auto intro: gives_ret gives_andThen)

lemma gives_if [gives_intros]:
  "(b \<Longrightarrow> gives I m P) \<Longrightarrow> (\<not> b \<Longrightarrow> gives I n P) \<Longrightarrow> gives I (if b then m else n) P"
  by simp

lemma gives_case_option [gives_intros]:
  "(v = None \<Longrightarrow> gives I n P) \<Longrightarrow> (\<And>x. v = Some x \<Longrightarrow> gives I (s x) P) \<Longrightarrow>
   gives I (case v of None \<Rightarrow> n | Some x \<Rightarrow> s x) P"
  by (cases v) auto

lemma gives_case_sum [gives_intros]:
  "(\<And>x. v = Inl x \<Longrightarrow> gives I (l x) P) \<Longrightarrow> (\<And>x. v = Inr x \<Longrightarrow> gives I (r x) P) \<Longrightarrow>
   gives I (case v of Inl x \<Rightarrow> l x | Inr x \<Rightarrow> r x) P"
  by (cases v) auto

lemma gives_case_prod [gives_intros]:
  "(\<And>a b. v = (a, b) \<Longrightarrow> gives I (f a b) P) \<Longrightarrow> gives I (case v of (a, b) \<Rightarrow> f a b) P"
  by (cases v) auto

lemma gives_let [gives_intros]: "(\<And>x. x = t \<Longrightarrow> gives I (f x) P) \<Longrightarrow> gives I (let x = t in f x) P"
  by simp

text \<open>The value of a chain is forgotten by a chain that only keeps the invariant.\<close>

lemma keeps_andThen: "keeps I m \<Longrightarrow> (\<And>a. keeps I (k a)) \<Longrightarrow> keeps I (andThen m k)"
  by (rule gives_andThen) auto

lemma andThen_ret [simp]: "andThen (ret a) k = k a"
  by (simp add: andThen_def ret_def fun_eq_iff)

lemma andThen_fail [simp]: "andThen (fail e) k = fail e"
  by (simp add: andThen_def fail_def fun_eq_iff)

lemma liftE_simps [simp]: "liftE (Inr a) = ret a" "liftE (Inl e) = fail e"
  by (simp_all add: liftE_def ret_def fail_def fun_eq_iff)

lemma andThen_assoc: "andThen (andThen m k) h = andThen m (\<lambda>a. andThen (k a) h)"
  by (auto simp: andThen_def fun_eq_iff split: prod.splits sum.splits)

subsection \<open>Before and after\<close>

text \<open>
  \<open>triple P m Q E\<close>: started where \<open>P\<close> holds, a run of \<open>m\<close> that returns \<open>a\<close> ends where
  \<open>Q a\<close> holds and one that fails ends where \<open>E\<close> holds.
\<close>

definition triple ::
  "('w \<Rightarrow> bool) \<Rightarrow> ('w, 'e, 'a) prog \<Rightarrow> ('a \<Rightarrow> 'w \<Rightarrow> bool) \<Rightarrow> ('w \<Rightarrow> bool) \<Rightarrow> bool" where
  "triple P m Q E \<longleftrightarrow> (\<forall>w. P w \<longrightarrow> (case m w of (Inl e, w') \<Rightarrow> E w' | (Inr a, w') \<Rightarrow> Q a w'))"

lemma triple_andThen:
  assumes "triple P m R E" "\<And>a. triple (R a) (k a) Q E"
  shows "triple P (andThen m k) Q E"
  unfolding triple_def
proof (intro allI impI)
  fix w assume "P w"
  then have m: "case m w of (Inl e, w') \<Rightarrow> E w' | (Inr a, w') \<Rightarrow> R a w'"
    using assms(1) by (simp add: triple_def)
  obtain r w1 where r: "m w = (r, w1)" by (cases "m w")
  show "case andThen m k w of (Inl e, w') \<Rightarrow> E w' | (Inr a, w') \<Rightarrow> Q a w'"
  proof (cases r)
    case (Inl e)
    then show ?thesis using m r by (simp add: andThen_def)
  next
    case (Inr a)
    then have "R a w1" using m r by simp
    then show ?thesis using assms(2) [of a] r Inr by (simp add: andThen_def triple_def)
  qed
qed

lemma triple_ret: "(\<And>w. P w \<Longrightarrow> Q a w) \<Longrightarrow> triple P (ret a) Q E"
  by (simp add: triple_def ret_def)

lemma triple_fail: "(\<And>w. P w \<Longrightarrow> E w) \<Longrightarrow> triple P (fail e) Q E"
  by (simp add: triple_def fail_def)

lemma triple_weaken:
  "triple P m Q E \<Longrightarrow> (\<And>w. P' w \<Longrightarrow> P w) \<Longrightarrow> (\<And>a w. Q a w \<Longrightarrow> Q' a w) \<Longrightarrow> (\<And>w. E w \<Longrightarrow> E' w) \<Longrightarrow> triple P' m Q' E'"
  by (fastforce simp: triple_def split: prod.splits sum.splits)

lemma triple_onErr:
  assumes "triple P m Q R" "\<And>e. triple R (h e) Q E"
  shows "triple P (onErr m h) Q E"
  unfolding triple_def
proof (intro allI impI)
  fix w assume "P w"
  then have m: "case m w of (Inl e, w') \<Rightarrow> R w' | (Inr a, w') \<Rightarrow> Q a w'"
    using assms(1) by (simp add: triple_def)
  obtain r w1 where r: "m w = (r, w1)" by (cases "m w")
  show "case onErr m h w of (Inl e, w') \<Rightarrow> E w' | (Inr a, w') \<Rightarrow> Q a w'"
    using m r assms(2) by (cases r) (simp_all add: onErr_def triple_def)
qed

text \<open>An operation that keeps an invariant, placed in a chain that assumes it.\<close>

lemma triple_gives: "gives I m P \<Longrightarrow> triple I m (\<lambda>a w. P a \<and> I w) I"
  unfolding gives_def triple_def by (auto split: prod.splits sum.splits)

lemma triple_keeps: "keeps I m \<Longrightarrow> triple I m (\<lambda>_. I) I"
  unfolding gives_def triple_def by (auto split: prod.splits sum.splits)

lemma triple_pre: "(b \<Longrightarrow> triple P m Q E) \<Longrightarrow> triple (\<lambda>w. b \<and> P w) m Q E"
  by (auto simp: triple_def)

lemma triple_final: "triple P m (\<lambda>_. I) I \<Longrightarrow> P w \<Longrightarrow> I (snd (m w))"
  by (cases "m w") (auto simp: triple_def split: sum.splits)

text \<open>Composing triples.\<close>

lemma keeps_triple: "triple I m (\<lambda>_. I) I \<Longrightarrow> keeps I m"
  using triple_final by (auto simp: gives_def split: sum.splits prod.splits)

lemma triple_split: "(\<And>a b. triple (P a b) (m a b) Q E) \<Longrightarrow> triple (case p of (a, b) \<Rightarrow> P a b) (case p of (a, b) \<Rightarrow> m a b) Q E"
  by (cases p) simp

lemma triple_when: "(b \<Longrightarrow> triple P m Q E) \<Longrightarrow> triple (\<lambda>w. P w \<and> b) m Q E"
  by (auto simp: triple_def)

lemma triple_if: "(b \<Longrightarrow> triple P m Q E) \<Longrightarrow> (\<not> b \<Longrightarrow> triple P n Q E) \<Longrightarrow> triple P (if b then m else n) Q E"
  by simp

lemma triple_liftE: "triple P (liftE r) (\<lambda>a w. P w \<and> r = Inr a) P"
  by (simp add: triple_def liftE_def split: sum.split)

text \<open>Wrapping an error changes neither the outcome's kind nor the effect.\<close>

lemma triple_wrapErr: "triple P m Q E \<Longrightarrow> triple P (onErr m (\<lambda>e. fail (f e))) Q E"
  by (fastforce simp: triple_def onErr_def fail_def split: prod.splits sum.splits)

text \<open>\<^verbatim>\<open>fmt.Errorf("...: %w", err)\<close> on the way out; a panic passes through unchanged.\<close>

definition wrapErr :: "string \<Rightarrow> ('w, err, 'a) prog \<Rightarrow> ('w, err, 'a) prog" where
  "wrapErr msg m = onErr m (\<lambda>e. fail (case e of Panic p \<Rightarrow> Panic p | _ \<Rightarrow> Wrap msg e))"

lemma gives_wrap: "gives I m P \<Longrightarrow> gives I (wrapErr msg m) P"
  by (auto simp: wrapErr_def intro!: gives_onErr gives_fail)

lemma triple_wrap: "triple P m Q E \<Longrightarrow> triple P (wrapErr msg m) Q E"
  unfolding wrapErr_def by (rule triple_wrapErr)

text \<open>\<^verbatim>\<open>_, err := f()\<close> where the code goes on to look at the error.\<close>

definition attempt :: "('w, 'e, 'a) prog \<Rightarrow> ('w, 'e, 'e + 'a) prog" where
  "attempt m w = (case m w of (r, w') \<Rightarrow> (Inr r, w'))"

lemma keeps_attempt: "keeps I m \<Longrightarrow> keeps I (attempt m)"
  by (auto simp: gives_def attempt_def split: prod.splits)

lemma triple_attempt:
  "triple P m Q E \<Longrightarrow> triple P (attempt m) (\<lambda>r w. case r of Inl _ \<Rightarrow> E w | Inr a \<Rightarrow> Q a w) F"
  by (fastforce simp: triple_def attempt_def split: prod.splits sum.splits)

end
