(* ===== verification/GoStrings.thy ===== *)
theory GoStrings
  imports Prelude
begin

text \<open>
  What the program uses of \<^verbatim>\<open>strconv\<close>, \<^verbatim>\<open>fmt\<close> and \<^verbatim>\<open>strings\<close>, on byte strings:
  \<open>itoa\<close> is the verb \<^verbatim>\<open>%d\<close> (and \<^verbatim>\<open>strconv.FormatInt\<close> in base 10), \<open>atoi\<close> is
  \<^verbatim>\<open>strconv.Atoi\<close> and \<^verbatim>\<open>strconv.ParseInt\<close> in base 10 and 64 bits (an optional sign,
  at least one digit, nothing else, range error outside int64), \<open>split_on\<close> is
  \<^verbatim>\<open>strings.Split\<close> with a one-byte separator, \<open>trimSpace\<close> is
  \<^verbatim>\<open>strings.TrimSpace\<close> on ASCII white space.
  The lemmas give the round trip of numbers through their decimal form and the behaviour
  of \<open>split_on\<close> on joined fields.
\<close>

section \<open>Decimal printing\<close>

fun itoa_nat :: "nat \<Rightarrow> string" where
  "itoa_nat n = (if n < 10 then [char_of (48 + n)] else itoa_nat (n div 10) @ [char_of (48 + n mod 10)])"

declare itoa_nat.simps [simp del]

definition itoa :: "int \<Rightarrow> string" where
  "itoa i = (if i < 0 then CHR ''-'' # itoa_nat (nat (- i)) else itoa_nat (nat i))"

section \<open>Decimal parsing\<close>

definition is_digit :: "char \<Rightarrow> bool" where
  "is_digit c = (48 \<le> (of_char c :: nat) \<and> (of_char c :: nat) \<le> 57)"

definition digit_val :: "char \<Rightarrow> nat" where
  "digit_val c = of_char c - 48"

fun digits_val :: "nat \<Rightarrow> string \<Rightarrow> nat" where
  "digits_val acc [] = acc"
| "digits_val acc (c # cs) = digits_val (10 * acc + digit_val c) cs"

definition parse_nat :: "string \<Rightarrow> nat option" where
  "parse_nat s = (if s \<noteq> [] \<and> list_all is_digit s then Some (digits_val 0 s) else None)"

definition sign_split :: "string \<Rightarrow> bool \<times> string" where
  "sign_split s =
     (case s of [] \<Rightarrow> (False, s)
      | c # cs \<Rightarrow> if c = CHR ''-'' then (True, cs) else if c = CHR ''+'' then (False, cs) else (False, s))"

definition atoi :: "string \<Rightarrow> int option" where
  "atoi s =
     (case sign_split s of (neg, ds) \<Rightarrow>
        (case parse_nat ds of
           None \<Rightarrow> None
         | Some n \<Rightarrow> (let i = (if neg then - int n else int n) in if in64 i then Some i else None)))"

section \<open>Fields\<close>

fun split_on :: "char \<Rightarrow> string \<Rightarrow> string list" where
  "split_on c [] = [ [] ]"
| "split_on c (x # xs) =
     (if x = c then [] # split_on c xs
      else (case split_on c xs of [] \<Rightarrow> [ [x] ] | y # ys \<Rightarrow> (x # y) # ys))"

definition is_space :: "char \<Rightarrow> bool" where
  "is_space c = ((of_char c :: nat) \<in> {9, 10, 11, 12, 13, 32})"

definition trimSpace :: "string \<Rightarrow> string" where
  "trimSpace s = rev (dropWhile is_space (rev (dropWhile is_space s)))"

section \<open>Round trips\<close>

lemma digits_val_append: "digits_val acc (s @ t) = digits_val (digits_val acc s) t"
  by (induction s arbitrary: acc) auto

lemma of_char_digit: "d < 10 \<Longrightarrow> of_char (char_of (48 + d) :: char) = (48 + d :: nat)"
  by (simp add: of_char_of)

lemma digit_char [simp]: "d < 10 \<Longrightarrow> is_digit (char_of (48 + d))" "d < 10 \<Longrightarrow> digit_val (char_of (48 + d)) = d"
  by (simp_all add: is_digit_def digit_val_def of_char_digit)

lemma itoa_nat_digits: "list_all is_digit (itoa_nat n)"
proof (induction n rule: itoa_nat.induct)
  case (1 n)
  then show ?case by (subst itoa_nat.simps) auto
qed

lemma itoa_nat_nonempty: "itoa_nat n \<noteq> []"
  by (subst itoa_nat.simps) simp

lemma digits_val_itoa_nat: "digits_val 0 (itoa_nat n) = n"
proof (induction n rule: itoa_nat.induct)
  case (1 n)
  then show ?case by (subst itoa_nat.simps) (auto simp: digits_val_append)
qed

lemma parse_nat_itoa_nat [simp]: "parse_nat (itoa_nat n) = Some n"
  by (simp add: parse_nat_def itoa_nat_digits itoa_nat_nonempty digits_val_itoa_nat)

lemma itoa_nat_head_digit:
  assumes "itoa_nat n = c # cs" shows "is_digit c"
  using itoa_nat_digits [of n] assms by simp

lemma is_digit_not_sign: "is_digit c \<Longrightarrow> c \<noteq> CHR ''-'' \<and> c \<noteq> CHR ''+'' \<and> c \<noteq> CHR '':''"
  by (auto simp: is_digit_def)

lemma itoa_nat_sign [simp]: "itoa_nat n \<noteq> CHR ''-'' # cs" "itoa_nat n \<noteq> CHR ''+'' # cs"
  using itoa_nat_head_digit is_digit_not_sign by blast+

lemma sign_split_itoa_nat: "sign_split (itoa_nat n) = (False, itoa_nat n)"
  by (auto simp: sign_split_def split: list.splits)

lemma atoi_itoa [simp]: "in64 i \<Longrightarrow> atoi (itoa i) = Some i"
  by (simp add: atoi_def itoa_def sign_split_itoa_nat) (simp add: sign_split_def)

lemma itoa_nat_inj: "itoa_nat a = itoa_nat b \<longleftrightarrow> a = b"
  by (metis digits_val_itoa_nat)

lemma itoa_inj: "itoa i = itoa j \<longleftrightarrow> i = j"
proof -
  have "CHR ''-'' # s \<noteq> itoa_nat n" for s n using itoa_nat_sign(1) by metis
  then show ?thesis by (auto simp: itoa_def itoa_nat_inj)
qed

lemma itoa_no_colon: "CHR '':'' \<notin> set (itoa i)"
  using itoa_nat_digits [of "nat i"] itoa_nat_digits [of "nat (- i)"]
  by (auto simp: itoa_def list_all_iff dest: is_digit_not_sign)

lemma atoi_range: "atoi s = Some i \<Longrightarrow> in64 i"
  by (auto simp: atoi_def Let_def split: prod.splits if_splits option.splits)

lemma split_on_nonempty [simp]: "split_on c s \<noteq> []"
  by (cases s) (auto split: list.splits)

lemma split_on_none: "c \<notin> set s \<Longrightarrow> split_on c s = [s]"
  by (induction s) auto

lemma split_on_sep: "c \<notin> set s \<Longrightarrow> split_on c (s @ c # t) = s # split_on c t"
  by (induction s) auto

lemma split_on_fields_free: "f \<in> set (split_on c s) \<Longrightarrow> c \<notin> set f"
proof (induction s arbitrary: f)
  case (Cons x xs)
  then show ?case by (cases "split_on c xs") (auto split: if_splits)
qed simp

end
