(* ===== verification/Float64.thy ===== *)
theory Float64
  imports Complex_Main Prelude
begin

text \<open>
  The binary64 arithmetic of the map code. A value is a rational, an infinity or NaN; the
  two zeros are not told apart, which no operation used here can observe. A difference is
  rounded to nearest, ties to even (\<open>rnd64\<close>); multiplying a value of magnitude at most 1 by
  a power of two between 1 and 64 is exact and is not rounded. Comparisons with NaN are
  false. A conversion to int64 that is out of range, or of an infinity or NaN, gives the
  least int64, as on amd64.
\<close>

datatype f64 = Fin rat | PInf | NInf | NaN

section \<open>Rounding to nearest even\<close>

definition round_even :: "rat \<Rightarrow> int" where
  "round_even q =
     (let f = \<lfloor>q\<rfloor>; d = q - of_int f
      in if d < 1 / 2 then f else if 1 / 2 < d then f + 1 else if even f then f else f + 1)"

fun nlog2 :: "nat \<Rightarrow> nat" where
  "nlog2 n = (if n \<le> 1 then 0 else Suc (nlog2 (n div 2)))"

declare nlog2.simps [simp del]

text \<open>The exponent of the binade of \<open>x\<close>: \<open>2 ^ e \<le> \<bar>x\<bar> < 2 ^ (e + 1)\<close>.\<close>

definition flog2 :: "rat \<Rightarrow> int" where
  "flog2 x =
     (let a = \<bar>x\<bar> in
      if 1 \<le> a then int (nlog2 (nat \<lfloor>a\<rfloor>))
      else - int (nlog2 (2 * nat \<lceil>1 / a\<rceil> - 1)))"

definition pow2 :: "int \<Rightarrow> rat" where
  "pow2 e = (if 0 \<le> e then 2 ^ nat e else 1 / 2 ^ nat (- e))"

definition rnd64 :: "rat \<Rightarrow> rat" where
  "rnd64 x =
     (if x = 0 then 0
      else let e = max (- 1074) (flog2 x - 52) in of_int (round_even (x / pow2 e)) * pow2 e)"

section \<open>The operations\<close>

fun flt :: "f64 \<Rightarrow> f64 \<Rightarrow> bool" where
  "flt (Fin a) (Fin b) = (a < b)"
| "flt (Fin a) PInf = True"
| "flt NInf (Fin b) = True"
| "flt NInf PInf = True"
| "flt _ _ = False"

fun fge :: "f64 \<Rightarrow> f64 \<Rightarrow> bool" where
  "fge NaN _ = False"
| "fge _ NaN = False"
| "fge a b = (\<not> flt a b)"

fun fsub :: "f64 \<Rightarrow> f64 \<Rightarrow> f64" where
  "fsub (Fin a) (Fin b) = Fin (rnd64 (a - b))"
| "fsub (Fin a) PInf = NInf"
| "fsub (Fin a) NInf = PInf"
| "fsub PInf (Fin b) = PInf"
| "fsub PInf NInf = PInf"
| "fsub NInf (Fin b) = NInf"
| "fsub NInf PInf = NInf"
| "fsub _ _ = NaN"

text \<open>Multiplication by a positive power of two.\<close>

fun fscale :: "f64 \<Rightarrow> int \<Rightarrow> f64" where
  "fscale (Fin a) g = Fin (a * of_int g)"
| "fscale PInf g = PInf"
| "fscale NInf g = NInf"
| "fscale NaN g = NaN"

text \<open>\<^verbatim>\<open>int(math.Floor(x))\<close>.\<close>

fun ffloor_int :: "f64 \<Rightarrow> int" where
  "ffloor_int (Fin a) = (if in64 \<lfloor>a\<rfloor> then \<lfloor>a\<rfloor> else - (2 ^ 63))"
| "ffloor_int _ = - (2 ^ 63)"

section \<open>The rounding error\<close>

lemma pow2_pos [simp]: "0 < pow2 e"
  by (simp add: pow2_def)

lemma round_even_bound: "\<bar>of_int (round_even q) - q\<bar> \<le> 1 / 2"
proof -
  have 1: "0 \<le> q - of_int \<lfloor>q\<rfloor>" "q - of_int \<lfloor>q\<rfloor> < 1"
    by (simp, linarith)
  show ?thesis using 1 by (auto simp: round_even_def Let_def abs_le_iff)
qed

lemma rnd64_error:
  assumes "x \<noteq> 0"
  shows "\<bar>rnd64 x - x\<bar> \<le> pow2 (max (- 1074) (flog2 x - 52)) / 2"
proof -
  define p where "p = pow2 (max (- 1074) (flog2 x - 52))"
  have p: "0 < p" by (simp add: p_def)
  have "rnd64 x - x = (of_int (round_even (x / p)) - x / p) * p"
  proof -
    have "rnd64 x = of_int (round_even (x / p)) * p"
      using assms by (simp add: rnd64_def p_def Let_def)
    then show ?thesis using p by (simp add: left_diff_distrib)
  qed
  then have "\<bar>rnd64 x - x\<bar> = \<bar>of_int (round_even (x / p)) - x / p\<bar> * p"
    using p by (simp add: abs_mult)
  also have "\<dots> \<le> 1 / 2 * p"
    using p round_even_bound [of "x / p"] by (intro mult_right_mono) simp_all
  finally show ?thesis by (simp add: p_def)
qed

lemma pow2_mono: "a \<le> b \<Longrightarrow> pow2 a \<le> pow2 b"
proof -
  assume ab: "a \<le> b"
  consider "0 \<le> a" | "a < 0" "0 \<le> b" | "a < 0" "b < 0" by linarith
  then show ?thesis
  proof cases
    case 1 then show ?thesis using ab by (simp add: pow2_def)
  next
    case 2
    have "1 / 2 ^ nat (- a) \<le> (1 :: rat)" by simp
    also have "\<dots> \<le> 2 ^ nat b" by simp
    finally show ?thesis using 2 by (simp add: pow2_def)
  next
    case 3
    then have "(2 :: rat) ^ nat (- b) \<le> 2 ^ nat (- a)" using ab by simp
    then show ?thesis using 3 by (simp add: pow2_def frac_le)
  qed
qed

lemma flog2_le_0: "\<bar>x\<bar> \<le> 1 \<Longrightarrow> flog2 x \<le> 0"
  by (auto simp: flog2_def Let_def nlog2.simps [of "Suc 0"])

lemma rnd64_error_unit:
  assumes "\<bar>x\<bar> \<le> 1"
  shows "\<bar>rnd64 x - x\<bar> \<le> 1 / 2 ^ 53"
proof (cases "x = 0")
  case True
  then show ?thesis by (simp add: rnd64_def)
next
  case False
  have "max (- 1074) (flog2 x - 52) \<le> - 52"
    using flog2_le_0 [OF assms] by simp
  then have "pow2 (max (- 1074) (flog2 x - 52)) \<le> pow2 (- 52)" by (rule pow2_mono)
  then have "pow2 (max (- 1074) (flog2 x - 52)) / 2 \<le> 1 / 2 ^ 53"
    by (simp add: pow2_def)
  with rnd64_error [OF False] show ?thesis by linarith
qed

end
