(* ===== verification/Geometry.thy ===== *)
theory Geometry
  imports GoStrings Float64
begin

text \<open>
  The chunk grid of \<^verbatim>\<open>internal/model/chunk.go\<close> and the cell arithmetic of
  \<^verbatim>\<open>internal/model/mine_state.go\<close>: chunk identifiers and their text form, the grid of
  each level, the rectangle of a chunk, the chunks a viewport meets, the index of a cell
  and the normalisation of a cell that lies outside its chunk.
\<close>

section \<open>Constants and identifiers\<close>

definition ChunkSize :: int where "ChunkSize = 128"
definition ChunkCellCount :: int where "ChunkCellCount = ChunkSize * ChunkSize"
definition ChunkMinLevel :: int where "ChunkMinLevel = 0"
definition ChunkMaxLevel :: int where "ChunkMaxLevel = 6"

lemmas chunk_consts = ChunkSize_def ChunkCellCount_def ChunkMinLevel_def ChunkMaxLevel_def

record ChunkID =
  cRegion :: string
  cZ :: int
  cX :: int
  cY :: int

definition mkChunkID :: "string \<Rightarrow> int \<Rightarrow> int \<Rightarrow> int \<Rightarrow> ChunkID" where
  "mkChunkID r z x y = \<lparr>cRegion = r, cZ = z, cX = x, cY = y\<rparr>"

definition parseChunkCoord :: "string \<Rightarrow> string \<Rightarrow> err + int" where
  "parseChunkCoord name raw =
     (case atoi raw of
        None \<Rightarrow> Inl (Errorf (''invalid chunk '' @ name))
      | Some v \<Rightarrow> if v < 0 then Inl (Errorf (''chunk '' @ name @ '' cannot be negative'')) else Inr v)"

definition ParseChunkID :: "string \<Rightarrow> err + ChunkID" where
  "ParseChunkID raw =
     (case split_on CHR '':'' raw of
        [p0, p1, p2, p3] \<Rightarrow>
          bindE (guardE (p0 = []) (Errorf ''chunk region cannot be empty'')) (\<lambda>_.
          bindE (parseChunkCoord ''z'' p1) (\<lambda>z.
          bindE (parseChunkCoord ''x'' p2) (\<lambda>x.
          bindE (parseChunkCoord ''y'' p3) (\<lambda>y.
          Inr (mkChunkID p0 z x y)))))
      | _ \<Rightarrow> Inl (Errorf ''invalid chunk ID format''))"

definition chunkString :: "ChunkID \<Rightarrow> string" where
  "chunkString c =
     cRegion c @ CHR '':'' # itoa (cZ c) @ CHR '':'' # itoa (cX c) @ CHR '':'' # itoa (cY c)"

section \<open>Levels, rectangles and viewports\<close>

definition ChunkGridSize :: "int \<Rightarrow> err + int" where
  "ChunkGridSize level =
     (if level < ChunkMinLevel \<or> ChunkMaxLevel < level then Inl (Errorf ''chunk level out of range'')
      else Inr (2 ^ nat level))"

record ChunkBounds =
  MinX :: f64
  MinY :: f64
  MaxX :: f64
  MaxY :: f64

definition ChunkBoundsFor :: "int \<Rightarrow> int \<Rightarrow> int \<Rightarrow> err + ChunkBounds" where
  "ChunkBoundsFor level x y =
     bindE (ChunkGridSize level) (\<lambda>gridSize.
     bindE (guardE (x < 0 \<or> gridSize \<le> x \<or> y < 0 \<or> gridSize \<le> y)
             (Errorf ''chunk coordinate out of range'')) (\<lambda>_.
     let cellSize = 1 / of_int gridSize
     in Inr \<lparr>MinX = Fin (of_int x * cellSize), MinY = Fin (of_int y * cellSize),
             MaxX = Fin (of_int (x + 1) * cellSize), MaxY = Fin (of_int (y + 1) * cellSize)\<rparr>))"

definition clampChunkCoord :: "int \<Rightarrow> int \<Rightarrow> int" where
  "clampChunkCoord value gridSize =
     (if value < 0 then 0 else if gridSize \<le> value then gridSize - 1 else value)"

definition chunkEpsilon :: f64 where
  "chunkEpsilon = Fin (rnd64 (1 / 1000000000))"

definition VisibleChunkRange :: "int \<Rightarrow> ChunkBounds \<Rightarrow> err + (int \<times> int \<times> int \<times> int)" where
  "VisibleChunkRange level b =
     bindE (ChunkGridSize level) (\<lambda>gridSize.
     bindE (guardE (flt (MinX b) (Fin 0) \<or> flt (MinY b) (Fin 0) \<or> flt (Fin 1) (MaxX b) \<or> flt (Fin 1) (MaxY b)
                    \<or> fge (MinX b) (MaxX b) \<or> fge (MinY b) (MaxY b))
             (Errorf ''invalid chunk bounds'')) (\<lambda>_.
     Inr (clampChunkCoord (ffloor_int (fscale (MinX b) gridSize)) gridSize,
          clampChunkCoord (ffloor_int (fscale (MinY b) gridSize)) gridSize,
          clampChunkCoord (ffloor_int (fscale (fsub (MaxX b) chunkEpsilon) gridSize)) gridSize,
          clampChunkCoord (ffloor_int (fscale (fsub (MaxY b) chunkEpsilon) gridSize)) gridSize)))"

section \<open>Cells\<close>

definition ChunkCellIndex :: "int \<Rightarrow> int \<Rightarrow> err + int" where
  "ChunkCellIndex x y =
     (if x < 0 \<or> ChunkSize \<le> x \<or> y < 0 \<or> ChunkSize \<le> y
      then Inl (Errorf ''cell coordinate out of range'')
      else Inr (y * ChunkSize + x))"

text \<open>
  The products and sums are machine arithmetic, so they wrap. The guard leaves
  non-negative operands to \<^verbatim>\<open>/\<close> and \<^verbatim>\<open>%\<close>, where truncation and \<open>div\<close> agree.
\<close>

definition NormalizeChunkCell :: "ChunkID \<Rightarrow> int \<Rightarrow> int \<Rightarrow> err + (ChunkID \<times> int \<times> int)" where
  "NormalizeChunkCell c cellX cellY =
     bindE (ChunkGridSize (cZ c)) (\<lambda>gridSize.
     let totalCells = gridSize * ChunkSize;
         globalX = wrap64 (wrap64 (cX c * ChunkSize) + cellX);
         globalY = wrap64 (wrap64 (cY c * ChunkSize) + cellY)
     in if globalX < 0 \<or> totalCells \<le> globalX \<or> globalY < 0 \<or> totalCells \<le> globalY
        then Inl ErrChunkCellOutOfWorld
        else Inr (mkChunkID (cRegion c) (cZ c) (globalX div ChunkSize) (globalY div ChunkSize),
                  globalX mod ChunkSize, globalY mod ChunkSize))"

definition EnsurePlayableChunk :: "ChunkID \<Rightarrow> err + unit" where
  "EnsurePlayableChunk c =
     bindE (guardE (cRegion c \<noteq> ''cn'') (Errorf ''unsupported region'')) (\<lambda>_.
     bindE (guardE (cZ c \<noteq> ChunkMaxLevel) (Errorf ''mine gameplay only supports max-level chunks'')) (\<lambda>_.
     bindE (ChunkGridSize (cZ c)) (\<lambda>gridSize.
     guardE (cX c < 0 \<or> gridSize \<le> cX c \<or> cY c < 0 \<or> gridSize \<le> cY c)
       (Errorf ''chunk coordinate out of range''))))"

section \<open>Identifiers: the text form determines the chunk\<close>

definition chunkID_ok :: "ChunkID \<Rightarrow> bool" where
  "chunkID_ok c \<longleftrightarrow> cRegion c \<noteq> [] \<and> CHR '':'' \<notin> set (cRegion c)
     \<and> 0 \<le> cZ c \<and> in64 (cZ c) \<and> 0 \<le> cX c \<and> in64 (cX c) \<and> 0 \<le> cY c \<and> in64 (cY c)"

lemma mkChunkID_sel [simp]:
  "cRegion (mkChunkID r z x y) = r" "cZ (mkChunkID r z x y) = z"
  "cX (mkChunkID r z x y) = x" "cY (mkChunkID r z x y) = y"
  by (simp_all add: mkChunkID_def)

lemma mkChunkID_eta [simp]: "mkChunkID (cRegion c) (cZ c) (cX c) (cY c) = c"
  by (simp add: mkChunkID_def)

lemma parseChunkCoord_itoa [simp]: "0 \<le> v \<Longrightarrow> in64 v \<Longrightarrow> parseChunkCoord n (itoa v) = Inr v"
  by (simp add: parseChunkCoord_def)

lemma parseChunkCoord_Inr: "parseChunkCoord n s = Inr v \<Longrightarrow> 0 \<le> v \<and> in64 v"
  by (auto simp: parseChunkCoord_def atoi_range split: option.splits if_splits)

lemma split_chunkString:
  "chunkID_ok c \<Longrightarrow> split_on CHR '':'' (chunkString c) = [cRegion c, itoa (cZ c), itoa (cX c), itoa (cY c)]"
  by (simp add: chunkString_def chunkID_ok_def split_on_sep split_on_none itoa_no_colon)

lemma ParseChunkID_chunkString: "chunkID_ok c \<Longrightarrow> ParseChunkID (chunkString c) = Inr c"
  by (simp add: ParseChunkID_def split_chunkString) (simp add: chunkID_ok_def)

text \<open>Whatever parses is a well-formed identifier: a non-empty region without a colon and
  non-negative 64-bit coordinates.\<close>

lemma ParseChunkID_ok: "ParseChunkID raw = Inr c \<Longrightarrow> chunkID_ok c"
proof -
  assume *: "ParseChunkID raw = Inr c"
  then obtain p0 p1 p2 p3 where p: "split_on CHR '':'' raw = [p0, p1, p2, p3]"
    by (auto simp: ParseChunkID_def split: list.splits)
  then have "p0 \<in> set (split_on CHR '':'' raw)" by simp
  then have "CHR '':'' \<notin> set p0" by (rule split_on_fields_free)
  then show ?thesis using * p
    by (auto simp: ParseChunkID_def bindE_Inr guardE_Inr chunkID_ok_def dest: parseChunkCoord_Inr)
qed

text \<open>Identifiers as text: whatever parses is well formed (a region without a colon, 64-bit
  coordinates that are not negative), and a well-formed identifier printed by
  \<^verbatim>\<open>ChunkID.String\<close> parses back to itself; so every text that parses names the same chunk as its
  canonical form.\<close>

theorem ParseChunkID_String:
  "(chunkID_ok c \<longrightarrow> ParseChunkID (chunkString c) = Inr c) \<and>
   (ParseChunkID raw = Inr d \<longrightarrow> chunkID_ok d \<and> ParseChunkID (chunkString d) = ParseChunkID raw)"
  using ParseChunkID_chunkString ParseChunkID_ok by auto

theorem ParseChunkID_String_witness:
  "ParseChunkID (chunkString (mkChunkID ''cn'' 6 1 2)) = ParseChunkID ''cn:6:+1:02''"
proof -
  have "ParseChunkID ''cn:6:+1:02'' = Inr (mkChunkID ''cn'' 6 1 2)" by code_simp
  then show ?thesis using ParseChunkID_String [of "mkChunkID ''cn'' 6 1 2" "''cn:6:+1:02''" "mkChunkID ''cn'' 6 1 2"] by blast
qed

lemma chunkString_inj:
  assumes "chunkID_ok c" "chunkID_ok d"
  shows "chunkString c = chunkString d \<longleftrightarrow> c = d"
proof
  assume "chunkString c = chunkString d"
  then have "[cRegion c, itoa (cZ c), itoa (cX c), itoa (cY c)] = [cRegion d, itoa (cZ d), itoa (cX d), itoa (cY d)]"
    using split_chunkString [OF assms(1)] split_chunkString [OF assms(2)] by simp
  then show "c = d" by (simp add: itoa_inj)
qed simp

section \<open>Grids\<close>

lemma ChunkGridSize_Inr: "ChunkGridSize l = Inr g \<longleftrightarrow> 0 \<le> l \<and> l \<le> 6 \<and> g = 2 ^ nat l"
  by (auto simp: ChunkGridSize_def chunk_consts)

lemma ChunkGridSize_max [simp]: "ChunkGridSize ChunkMaxLevel = Inr 64"
  by (simp add: ChunkGridSize_def chunk_consts)

lemma grid_pos: "ChunkGridSize l = Inr g \<Longrightarrow> 1 \<le> g \<and> g \<le> 64"
proof -
  assume "ChunkGridSize l = Inr g"
  then have l: "nat l \<le> 6" and g: "g = 2 ^ nat l" by (auto simp: ChunkGridSize_Inr)
  have "(2 :: int) ^ nat l \<le> 2 ^ 6" by (rule power_increasing [OF l]) simp
  then show ?thesis using g by simp
qed

text \<open>A chunk inside the grid of its level; \<open>playable\<close> is what \<^verbatim>\<open>EnsurePlayableChunk\<close> lets through.\<close>

definition in_grid :: "ChunkID \<Rightarrow> bool" where
  "in_grid c \<longleftrightarrow> (\<exists>g. ChunkGridSize (cZ c) = Inr g \<and> 0 \<le> cX c \<and> cX c < g \<and> 0 \<le> cY c \<and> cY c < g)"

definition playable :: "ChunkID \<Rightarrow> bool" where
  "playable c \<longleftrightarrow> cRegion c = ''cn'' \<and> cZ c = 6 \<and> 0 \<le> cX c \<and> cX c < 64 \<and> 0 \<le> cY c \<and> cY c < 64"

lemma EnsurePlayableChunk_iff: "EnsurePlayableChunk c = Inr () \<longleftrightarrow> playable c"
  by (auto simp: EnsurePlayableChunk_def bindE_Inr guardE_Inr ChunkGridSize_Inr playable_def chunk_consts)

lemma playable_in_grid: "playable c \<Longrightarrow> in_grid c"
  by (simp add: playable_def in_grid_def ChunkGridSize_Inr)

lemma playable_ok: "playable c \<Longrightarrow> chunkID_ok c"
  by (auto simp: playable_def chunkID_ok_def in64_def)

section \<open>Cells of a chunk\<close>

definition on_board :: "int \<Rightarrow> int \<Rightarrow> bool" where
  "on_board x y \<longleftrightarrow> 0 \<le> x \<and> x < 128 \<and> 0 \<le> y \<and> y < 128"

lemma ChunkCellIndex_Inr: "ChunkCellIndex x y = Inr i \<longleftrightarrow> on_board x y \<and> i = y * 128 + x"
  by (auto simp: ChunkCellIndex_def on_board_def chunk_consts)

lemma ChunkCellIndex_board: "on_board x y \<Longrightarrow> ChunkCellIndex x y = Inr (y * 128 + x)"
  by (simp add: ChunkCellIndex_Inr)

lemma index_div: "on_board x y \<Longrightarrow> (y * 128 + x) div 128 = y"
  and index_mod: "on_board x y \<Longrightarrow> (y * 128 + x) mod 128 = x"
  by (simp_all add: on_board_def)

lemma index_range: "on_board x y \<Longrightarrow> 0 \<le> y * 128 + x \<and> y * 128 + x < 16384"
  by (simp add: on_board_def)

lemma board_of_index:
  assumes "0 \<le> i" "i < 16384"
  shows "on_board (i mod 128) (i div 128) \<and> i = i div 128 * 128 + i mod 128"
proof -
  have "i div 128 < 128" using assms by (simp add: int_div_less_self zdiv_mono1 div_less_iff_less_mult)
  then show ?thesis using assms by (simp add: on_board_def pos_imp_zdiv_nonneg_iff)
qed

text \<open>The cell index is a bijection between the cells of a chunk and \<open>0 .. 16383\<close>:
  \<^verbatim>\<open>index % 128\<close> and \<^verbatim>\<open>index / 128\<close>, which the flag response uses, undo it.\<close>

theorem ChunkCellIndex_bijection:
  "ChunkCellIndex x y = Inr i \<longleftrightarrow> 0 \<le> i \<and> i < ChunkCellCount \<and> x = i mod ChunkSize \<and> y = i div ChunkSize"
  using index_div [of x y] index_mod [of x y] index_range [of x y] board_of_index [of i]
  by (auto simp: ChunkCellIndex_Inr chunk_consts)

lemma index_inj:
  "on_board x y \<Longrightarrow> on_board x' y' \<Longrightarrow> y * 128 + x = y' * 128 + x' \<longleftrightarrow> x = x' \<and> y = y'"
  using index_div index_mod by metis

section \<open>Normalisation\<close>

lemma in_grid_bounds: "in_grid c \<Longrightarrow> 0 \<le> cX c \<and> cX c < 64 \<and> 0 \<le> cY c \<and> cY c < 64"
  unfolding in_grid_def using grid_pos by fastforce

lemma Normalize_in_grid:
  assumes c: "in_grid c" and g: "ChunkGridSize (cZ c) = Inr g"
    and x: "\<bar>cellX\<bar> \<le> 2 ^ 62" and y: "\<bar>cellY\<bar> \<le> 2 ^ 62"
  shows "NormalizeChunkCell c cellX cellY =
    (if 0 \<le> cX c * 128 + cellX \<and> cX c * 128 + cellX < g * 128
        \<and> 0 \<le> cY c * 128 + cellY \<and> cY c * 128 + cellY < g * 128
     then Inr (mkChunkID (cRegion c) (cZ c) ((cX c * 128 + cellX) div 128) ((cY c * 128 + cellY) div 128),
               (cX c * 128 + cellX) mod 128, (cY c * 128 + cellY) mod 128)
     else Inl ErrChunkCellOutOfWorld)"
proof -
  have b: "0 \<le> cX c" "cX c < 64" "0 \<le> cY c" "cY c < 64" using in_grid_bounds [OF c] by auto
  have "in64 (cX c * 128)" "in64 (cY c * 128)" "in64 (cX c * 128 + cellX)" "in64 (cY c * 128 + cellY)"
    using b x y by (auto simp: in64_def)
  then show ?thesis
    by (auto simp: NormalizeChunkCell_def g Let_def chunk_consts on_board_def)
qed

text \<open>Normalising a cell of a chunk in the grid gives a cell on a board of the same level and
  region at the same place of the world, and leaves a cell that was on its own board alone.\<close>

theorem NormalizeChunkCell_place:
  assumes "in_grid c" and "NormalizeChunkCell c cellX cellY = Inr (d, x, y)"
    and "\<bar>cellX\<bar> \<le> 2 ^ 62" and "\<bar>cellY\<bar> \<le> 2 ^ 62"
  shows "in_grid d \<and> on_board x y \<and> cRegion d = cRegion c \<and> cZ d = cZ c
    \<and> cX d * ChunkSize + x = cX c * ChunkSize + cellX \<and> cY d * ChunkSize + y = cY c * ChunkSize + cellY
    \<and> (on_board cellX cellY \<longrightarrow> d = c \<and> x = cellX \<and> y = cellY)"
proof -
  obtain g where g: "ChunkGridSize (cZ c) = Inr g" using assms(1) by (auto simp: in_grid_def)
  define gx gy where "gx = cX c * 128 + cellX" and "gy = cY c * 128 + cellY"
  have r: "0 \<le> gx" "gx < g * 128" "0 \<le> gy" "gy < g * 128"
    and d: "d = mkChunkID (cRegion c) (cZ c) (gx div 128) (gy div 128)" "x = gx mod 128" "y = gy mod 128"
    using assms(2) Normalize_in_grid [OF assms(1) g assms(3,4)]
    by (auto simp: gx_def gy_def split: if_splits)
  have "0 \<le> gx div 128" "gx div 128 < g" "0 \<le> gy div 128" "gy div 128 < g"
    using r by (simp_all add: pos_imp_zdiv_nonneg_iff div_less_iff_less_mult)
  then have "in_grid d" using g by (simp add: in_grid_def d)
  moreover have "on_board cellX cellY \<longrightarrow> gx div 128 = cX c \<and> gy div 128 = cY c \<and> x = cellX \<and> y = cellY"
    by (simp add: on_board_def d gx_def gy_def)
  moreover have "on_board x y" by (simp add: on_board_def d)
  moreover have "gx div 128 * 128 + gx mod 128 = gx" "gy div 128 * 128 + gy mod 128 = gy" by simp_all
  ultimately show ?thesis by (simp add: d chunk_consts gx_def gy_def)
qed

theorem NormalizeChunkCell_place_witness:
  "in_grid (mkChunkID ''cn'' 6 11 19) \<and> on_board 0 127
    \<and> cX (mkChunkID ''cn'' 6 11 19) * ChunkSize + 0 = cX (mkChunkID ''cn'' 6 10 20) * ChunkSize + 128"
proof -
  have n: "NormalizeChunkCell (mkChunkID ''cn'' 6 10 20) 128 (- 1) = Inr (mkChunkID ''cn'' 6 11 19, 0, 127)"
    by (simp add: NormalizeChunkCell_def ChunkGridSize_def chunk_consts Let_def in64_def)
  have "in_grid (mkChunkID ''cn'' 6 10 20)" by (simp add: in_grid_def ChunkGridSize_def chunk_consts)
  from NormalizeChunkCell_place [OF this n] show ?thesis by simp
qed


lemma VisibleChunkRange_grid:
  assumes "VisibleChunkRange level b = Inr (x0, y0, x1, y1)"
  obtains g where "ChunkGridSize level = Inr g" "0 \<le> x0" "x0 < g" "0 \<le> y0" "y0 < g" "0 \<le> x1" "x1 < g" "0 \<le> y1" "y1 < g"
proof -
  obtain g where g: "ChunkGridSize level = Inr g"
    using assms by (auto simp: VisibleChunkRange_def bindE_Inr)
  have c: "0 \<le> clampChunkCoord v g \<and> clampChunkCoord v g < g" for v
    using grid_pos [OF g] by (simp add: clampChunkCoord_def)
  show ?thesis
    using assms g c by (intro that [OF g]) (auto simp: VisibleChunkRange_def bindE_Inr)
qed

end
