(* ===== verification/Viewport.thy ===== *)
theory Viewport
  imports Geometry
begin

text \<open>
  The chunks a viewport shows: what \<^verbatim>\<open>VisibleChunkRange\<close> (\<^verbatim>\<open>internal/model/chunk.go\<close>)
  computes with binary64 arithmetic, against the exact geometry of the grid.
\<close>

section \<open>The chunks a viewport meets\<close>

lemma epsilon_bounds: "\<exists>e. chunkEpsilon = Fin e \<and> 1 / 2000000000 \<le> e \<and> e \<le> 1 / 900000000"
proof -
  have "\<bar>rnd64 (1 / 1000000000) - 1 / 1000000000\<bar> \<le> 1 / 2 ^ 53" by (rule rnd64_error_unit) simp
  then have "1 / 1000000000 - 1 / 2 ^ 53 \<le> rnd64 (1 / 1000000000)" "rnd64 (1 / 1000000000) \<le> 1 / 1000000000 + 1 / 2 ^ 53"
    unfolding abs_le_iff by linarith+
  moreover have "(1 / 2000000000 :: rat) \<le> 1 / 1000000000 - 1 / 2 ^ 53"
    and "(1 / 1000000000 + 1 / 2 ^ 53 :: rat) \<le> 1 / 900000000" by simp_all
  ultimately show ?thesis unfolding chunkEpsilon_def by (blast intro: order_trans)
qed

text \<open>The right edge of the viewport as the code computes it: a little to the left of \<open>b\<close>.\<close>

lemma right_edge:
  assumes "0 \<le> b" "b \<le> 1"
  shows "\<exists>r. fsub (Fin b) chunkEpsilon = Fin r \<and> b - 1 / 500000000 \<le> r \<and> r < b"
proof -
  obtain e where e: "chunkEpsilon = Fin e" "1 / 2000000000 \<le> e" "e \<le> 1 / 900000000"
    using epsilon_bounds by blast
  have "(1 / 900000000 :: rat) \<le> 1" by simp
  then have "b - e \<le> 1" "- 1 \<le> b - e" using assms e(2,3) by linarith+
  then have "\<bar>b - e\<bar> \<le> 1" by simp
  then have "\<bar>rnd64 (b - e) - (b - e)\<bar> \<le> 1 / 2 ^ 53" by (rule rnd64_error_unit)
  then have 1: "b - e - 1 / 2 ^ 53 \<le> rnd64 (b - e)" "rnd64 (b - e) \<le> b - e + 1 / 2 ^ 53"
    unfolding abs_le_iff by linarith+
  have "(1 / 2 ^ 53 :: rat) < 1 / 2000000000" "(1 / 900000000 + 1 / 2 ^ 53 :: rat) \<le> 1 / 500000000" by simp_all
  then have "b - 1 / 500000000 \<le> rnd64 (b - e)" "rnd64 (b - e) < b" using 1 e(2,3) by linarith+
  then show ?thesis by (simp add: e(1))
qed

lemma ffloor_int_small: "- 100 \<le> q \<Longrightarrow> q \<le> 100 \<Longrightarrow> ffloor_int (Fin q) = \<lfloor>q\<rfloor>"
proof -
  assume "- 100 \<le> q" "q \<le> 100"
  then have "\<lfloor>- 100 :: rat\<rfloor> \<le> \<lfloor>q\<rfloor>" "\<lfloor>q\<rfloor> \<le> \<lfloor>100 :: rat\<rfloor>" by (intro floor_mono; simp)+
  then show ?thesis by (simp add: in64_def)
qed

text \<open>One axis of \<^verbatim>\<open>VisibleChunkRange\<close>.\<close>

definition axis_range :: "int \<Rightarrow> f64 \<Rightarrow> f64 \<Rightarrow> int \<times> int" where
  "axis_range g a b =
     (clampChunkCoord (ffloor_int (fscale a g)) g,
      clampChunkCoord (ffloor_int (fscale (fsub b chunkEpsilon) g)) g)"

lemma scale_bounds:
  assumes "1 \<le> g" "g \<le> 64" "- 1 \<le> (q :: rat)" "q \<le> 1"
  shows "- 100 \<le> q * of_int g \<and> q * of_int g \<le> 100"
proof -
  have g: "(1 :: rat) \<le> of_int g" "of_int g \<le> (64 :: rat)" using assms(1,2) by simp_all
  have "q * of_int g \<le> 1 * of_int g" "- 1 * of_int g \<le> q * of_int g"
    by (rule mult_right_mono; use assms g in linarith)+
  then show ?thesis using g by linarith
qed

lemma axis_range_Fin:
  assumes g: "1 \<le> g" "g \<le> 64" and ab: "0 \<le> a" "a < b" "b \<le> 1"
  obtains r lo hi where "axis_range g (Fin a) (Fin b) = (lo, hi)"
    "b - 1 / 500000000 \<le> r" "r < b" "lo = \<lfloor>a * of_int g\<rfloor>" "hi = max 0 \<lfloor>r * of_int g\<rfloor>"
    "0 \<le> lo" "lo < g" "0 \<le> hi" "hi < g"
proof -
  obtain r where r: "fsub (Fin b) chunkEpsilon = Fin r" "b - 1 / 500000000 \<le> r" "r < b"
    using right_edge [of b] ab by auto
  have g0: "(0 :: rat) < of_int g" using g by simp
  have "- 1 \<le> r"
  proof -
    have "(1 / 500000000 :: rat) \<le> 1" by simp
    then show ?thesis using r(2) ab by linarith
  qed
  then have rb: "- 100 \<le> r * of_int g" "r * of_int g \<le> 100"
    using scale_bounds [OF g, of r] r(3) ab by simp_all
  have abd: "- 100 \<le> a * of_int g" "a * of_int g \<le> 100"
    using scale_bounds [OF g, of a] ab by simp_all
  have "a * of_int g < 1 * of_int g" "r * of_int g < 1 * of_int g"
    using g0 ab r(3) by (simp_all add: mult_strict_right_mono)
  then have lt: "\<lfloor>a * of_int g\<rfloor> < g" "\<lfloor>r * of_int g\<rfloor> < g" by (simp_all add: floor_less_iff)
  have "0 \<le> a * of_int g" using g0 ab by simp
  then have ge: "0 \<le> \<lfloor>a * of_int g\<rfloor>" by simp
  have "axis_range g (Fin a) (Fin b) = (\<lfloor>a * of_int g\<rfloor>, max 0 \<lfloor>r * of_int g\<rfloor>)"
    using lt ge ffloor_int_small [OF abd] ffloor_int_small [OF rb]
    by (simp add: axis_range_def r(1) clampChunkCoord_def max_def)
  then show thesis by (rule that [OF _ r(2,3) refl refl]) (use lt ge g in auto)
qed

text \<open>The range of one axis is non-empty or misses one chunk; it lies in the grid, its chunks meet
  the viewport, and every point of the viewport that is not within 2e-9 of the right edge is covered.\<close>

lemma axis_range_cover:
  assumes g: "1 \<le> g" "g \<le> 64" and ab: "0 \<le> a" "a < b" "b \<le> 1"
    and ax: "axis_range g (Fin a) (Fin b) = (lo, hi)"
  shows "0 \<le> lo \<and> lo < g \<and> 0 \<le> hi \<and> hi < g \<and> lo \<le> hi + 1"
    and "lo \<le> k \<Longrightarrow> k \<le> hi \<Longrightarrow> of_int k / of_int g < b \<and> a < of_int (k + 1) / of_int g"
    and "a \<le> p \<Longrightarrow> p < b - 1 / 500000000 \<Longrightarrow> lo \<le> \<lfloor>p * of_int g\<rfloor> \<and> \<lfloor>p * of_int g\<rfloor> \<le> hi"
proof -
  obtain r where r: "b - 1 / 500000000 \<le> r" "r < b" and lo: "lo = \<lfloor>a * of_int g\<rfloor>"
    and hi: "hi = max 0 \<lfloor>r * of_int g\<rfloor>" and bnd: "0 \<le> lo" "lo < g" "0 \<le> hi" "hi < g"
    using axis_range_Fin [OF g ab] ax by (metis prod.inject)
  have g0: "(0 :: rat) < of_int g" using g by simp
  have "(a - r) * of_int g \<le> 1 / 500000000 * of_int g"
    using r(1) ab g0 by (intro mult_right_mono) auto
  also have "\<dots> \<le> 1 / 500000000 * 64" using g by simp
  also have "\<dots> \<le> 1" by simp
  finally have "a * of_int g \<le> r * of_int g + 1" by (simp add: left_diff_distrib)
  then have "lo \<le> \<lfloor>r * of_int g + 1\<rfloor>" unfolding lo by (rule floor_mono)
  then show "0 \<le> lo \<and> lo < g \<and> 0 \<le> hi \<and> hi < g \<and> lo \<le> hi + 1" using bnd hi by simp
  show "of_int k / of_int g < b \<and> a < of_int (k + 1) / of_int g" if k: "lo \<le> k" "k \<le> hi"
  proof -
    have "of_int k < b * of_int g"
    proof (cases "k \<le> 0")
      case True
      have "0 < b * of_int g" using ab g0 by simp
      moreover have "of_int k \<le> (0 :: rat)" using True by simp
      ultimately show ?thesis by linarith
    next
      case False
      then have "k \<le> \<lfloor>r * of_int g\<rfloor>" using k(2) hi by simp
      then have "of_int k \<le> r * of_int g" by (simp add: le_floor_iff)
      also have "\<dots> < b * of_int g" using r(2) g0 by simp
      finally show ?thesis .
    qed
    moreover have "a * of_int g < of_int (k + 1)"
      using k(1) unfolding lo by (simp add: floor_le_iff)
    ultimately show ?thesis using g0 by (simp add: divide_less_eq less_divide_eq)
  qed
  show "lo \<le> \<lfloor>p * of_int g\<rfloor> \<and> \<lfloor>p * of_int g\<rfloor> \<le> hi" if p: "a \<le> p" "p < b - 1 / 500000000"
  proof -
    have "p * of_int g \<le> r * of_int g" "a * of_int g \<le> p * of_int g"
      using p r(1) g0 by (intro mult_right_mono; simp)+
    then show ?thesis unfolding lo hi by (simp add: floor_mono max.coboundedI2)
  qed
qed

lemma Visible_axes:
  assumes "VisibleChunkRange l b = Inr (x0, y0, x1, y1)"
  obtains g where "ChunkGridSize l = Inr g" "1 \<le> g" "g \<le> 64"
    "axis_range g (MinX b) (MaxX b) = (x0, x1)" "axis_range g (MinY b) (MaxY b) = (y0, y1)"
    "\<not> flt (MinX b) (Fin 0)" "\<not> flt (Fin 1) (MaxX b)" "\<not> fge (MinX b) (MaxX b)"
    "\<not> flt (MinY b) (Fin 0)" "\<not> flt (Fin 1) (MaxY b)" "\<not> fge (MinY b) (MaxY b)"
  using assms by (auto simp: VisibleChunkRange_def bindE_Inr guardE_Inr axis_range_def dest: grid_pos intro: that)


text \<open>The range of a chunk's own interval is that chunk alone.\<close>

lemma cell_interval:
  assumes g: "1 \<le> g" "g \<le> 64" and z: "0 \<le> z" "z < g"
  shows "(0 :: rat) \<le> of_int z / of_int g" "of_int z / of_int g < (of_int (z + 1) / of_int g :: rat)"
    "of_int (z + 1) / of_int g \<le> (1 :: rat)"
    "of_int z / of_int g < (of_int (z + 1) / of_int g - 1 / 500000000 :: rat)"
proof -
  have g0: "(0 :: rat) < of_int g" using g by simp
  show "(0 :: rat) \<le> of_int z / of_int g" using z g0 by simp
  have d: "of_int (z + 1) / of_int g = (of_int z / of_int g + 1 / of_int g :: rat)"
    by (simp add: add_divide_distrib)
  have k: "(1 / 64 :: rat) \<le> 1 / of_int g" using g by (simp add: frac_le)
  moreover have "(1 / 500000000 :: rat) < 1 / 64" by simp
  ultimately show "of_int z / of_int g < (of_int (z + 1) / of_int g - 1 / 500000000 :: rat)"
    unfolding d by linarith
  show "of_int z / of_int g < (of_int (z + 1) / of_int g :: rat)" unfolding d using g0 by simp
  have "of_int (z + 1) \<le> (of_int g :: rat)" using z by (simp only: of_int_le_iff)
  then show "of_int (z + 1) / of_int g \<le> (1 :: rat)" using g0 by simp
qed

lemma axis_range_self:
  assumes g: "1 \<le> g" "g \<le> 64" and z: "0 \<le> z" "z < g"
  shows "axis_range g (Fin (of_int z / of_int g)) (Fin (of_int (z + 1) / of_int g)) = (z, z)"
proof -
  have g0: "(0 :: rat) < of_int g" using g by simp
  note iv = cell_interval [OF g z]
  obtain lo hi where lh: "axis_range g (Fin (of_int z / of_int g)) (Fin (of_int (z + 1) / of_int g)) = (lo, hi)"
    by fastforce
  note c = axis_range_cover [OF g iv(1-3) lh]
  have fz: "\<lfloor>of_int z / of_int g * of_int g :: rat\<rfloor> = z" using g0 by simp
  have lz: "lo \<le> z" "z \<le> hi" using c(3) [of "of_int z / of_int g", OF order_refl iv(4)] fz by simp_all
  have "hi \<le> z"
  proof (rule ccontr)
    assume "\<not> hi \<le> z"
    then show False using c(2) [of "z + 1"] lz(1) by simp
  qed
  moreover have "z \<le> lo"
  proof (rule ccontr)
    assume n: "\<not> z \<le> lo"
    then have "of_int z / of_int g < (of_int (lo + 1) / of_int g :: rat)" using c(2) [of lo] lz(2) by simp
    then have "(of_int z :: rat) < of_int (lo + 1)" using g0 by (simp only: divide_less_cancel)
    with n show False by (simp only: of_int_less_iff)
  qed
  ultimately show ?thesis using lh lz by simp
qed

lemma VisibleChunkRange_axes:
  assumes "ChunkGridSize l = Inr g" "0 \<le> a" "a < b" "b \<le> 1" "0 \<le> c" "c < d" "d \<le> 1"
    and "axis_range g (Fin a) (Fin b) = (x0, x1)" "axis_range g (Fin c) (Fin d) = (y0, y1)"
  shows "VisibleChunkRange l \<lparr>MinX = Fin a, MinY = Fin c, MaxX = Fin b, MaxY = Fin d\<rparr> = Inr (x0, y0, x1, y1)"
  using assms by (simp add: VisibleChunkRange_def axis_range_def guardE_def not_less not_le
      del: fscale.simps ffloor_int.simps fsub.simps)


text \<open>The viewport equal to one chunk's own rectangle shows exactly that chunk.\<close>

theorem VisibleChunkRange_of_chunk:
  assumes "ChunkBoundsFor l x y = Inr b"
  shows "VisibleChunkRange l b = Inr (x, y, x, y)"
proof -
  obtain g where g: "ChunkGridSize l = Inr g" and xy: "0 \<le> x" "x < g" "0 \<le> y" "y < g"
    and b: "b = \<lparr>MinX = Fin (of_int x / of_int g), MinY = Fin (of_int y / of_int g),
                 MaxX = Fin (of_int (x + 1) / of_int g), MaxY = Fin (of_int (y + 1) / of_int g)\<rparr>"
    using assms by (auto simp: ChunkBoundsFor_def bindE_Inr guardE_Inr Let_def)
  note g1 = grid_pos [OF g, THEN conjunct1] grid_pos [OF g, THEN conjunct2]
  show ?thesis unfolding b
    by (rule VisibleChunkRange_axes [OF g cell_interval(1-3) [OF g1 xy(1,2)] cell_interval(1-3) [OF g1 xy(3,4)]
          axis_range_self [OF g1 xy(1,2)] axis_range_self [OF g1 xy(3,4)]])
qed

theorem VisibleChunkRange_of_chunk_witness:
  "\<exists>b. ChunkBoundsFor 6 10 20 = Inr b \<and> VisibleChunkRange 6 b = Inr (10, 20, 10, 20)"
proof -
  obtain b where b: "ChunkBoundsFor 6 10 20 = Inr b"
    by (simp add: ChunkBoundsFor_def ChunkGridSize_def chunk_consts Let_def)
  with VisibleChunkRange_of_chunk [OF b] show ?thesis by blast
qed

end
