(* ===== verification/Model.thy ===== *)
theory Model
  imports Viewport
begin

text \<open>
  The data of the program: the structs of \<^verbatim>\<open>internal/model\<close>, \<^verbatim>\<open>internal/matchqueue\<close>,
  \<^verbatim>\<open>internal/event\<close> and the response types of \<^verbatim>\<open>internal/dto/res\<close> that carry them.
  A time is its number of nanoseconds since the epoch and a duration a number of
  nanoseconds, a pointer that may be nil is an option. Columns that only the database
  fills in and no code reads (row ids of secondary tables, \<^verbatim>\<open>created_at\<close>,
  \<^verbatim>\<open>updated_at\<close>) are left out.
\<close>

section \<open>Seasons and chunk states\<close>

record MineSeason =
  seID :: int
  seCode :: string
  seSeed :: string
  seMineRate :: rat
  seAlgorithmVersion :: int
  seStatus :: int
  seStartedAt :: int
  seEndedAt :: "int option"

definition MineSeasonStatusActive :: int where "MineSeasonStatusActive = 1"

record MineOpenedCellSnapshot =
  ocX :: int
  ocY :: int
  ocIndex :: int
  ocOpenedBy :: int
  ocOpenedAt :: int
  ocAdjacentMines :: int

record MineChunkState =
  csSeasonID :: int
  csChunkID :: string
  csClosed :: bool
  csClosedBy :: int
  csClosedAt :: "int option"
  csClosedUntil :: "int option"
  csVersion :: int
  csOpenedCells :: "(int, MineOpenedCellSnapshot) gomap"
  csFlaggedBy :: "(int, int) gomap"

definition NewMineChunkState :: "int \<Rightarrow> string \<Rightarrow> MineChunkState" where
  "NewMineChunkState seasonID chunkID =
     \<lparr>csSeasonID = seasonID, csChunkID = chunkID, csClosed = False, csClosedBy = 0,
      csClosedAt = None, csClosedUntil = None, csVersion = 1, csOpenedCells = [], csFlaggedBy = []\<rparr>"

section \<open>Mine matches\<close>

datatype MineMatchStatus = MineMatchStatusOngoing | MineMatchStatusFinished

record MineMatchState =
  mmMatchID :: int
  mmRoomID :: string
  mmSeasonID :: int
  mmChunkID :: string
  mmStatus :: MineMatchStatus
  mmTeams :: "(int, int list) gomap"
  mmUserTeams :: "(int, int) gomap"
  mmPlayerScores :: "(int, int) gomap"
  mmLastScoreAt :: "(int, int) gomap"
  mmWinTeamNo :: "int option"
  mmStartedAt :: int
  mmFinishedAt :: "int option"

section \<open>Matches, queue and rooms\<close>

record MatchedTeam =
  mtTeamID :: int
  mtUserIDs :: "int list"

definition mkTeam :: "int \<Rightarrow> int list \<Rightarrow> MatchedTeam" where
  "mkTeam t us = \<lparr>mtTeamID = t, mtUserIDs = us\<rparr>"

record MatchQueueResult =
  mqRoomID :: string
  mqMode :: string
  mqTeams :: "MatchedTeam list"

definition MatchStatusOngoing :: int where "MatchStatusOngoing = 1"
definition MatchStatusFinished :: int where "MatchStatusFinished = 2"

record MatchRow =
  maID :: int
  maStatus :: int
  maWinTeamNo :: "int option"
  maStartedAt :: int
  maRoomID :: string
  maFinishedAt :: "int option"
  maMode :: string

record MatchPlayer =
  mpMatchID :: int
  mpUserID :: int
  mpTeamNo :: int

record MatchResultFinishedEvent =
  evEventID :: string
  evMatchID :: int
  evWinTeamNo :: int
  evMode :: string
  evOccurredAt :: int

record RankEvent =
  reEventID :: string
  reMatchID :: int
  reStatus :: int

record PlayerRank =
  prMode :: string
  prUserID :: int
  prScore :: int
  prWinCount :: int
  prLoseCount :: int
  prMatchCount :: int

datatype QueueStatus =
  QueueStatusInit | QueueStatusMatching | QueueStatusMatched | QueueStatusCancelled | QueueStatusOther string

record QueueUserState =
  quUserID :: int
  quUserName :: string
  quMode :: string
  quStatus :: QueueStatus
  quMatchID :: int
  quTicketID :: string
  quRoomID :: string
  quChunkID :: string
  quTeams :: "MatchedTeam list"
  quEnqueueTime :: int
  quUpdatedAt :: int

datatype RoomStatus = RoomStatusWaiting | RoomStatusPlaying | RoomStatusFinished

record RoomPlayer =
  rpUserID :: int
  rpUserName :: string
  rpTeamNo :: int
  rpOnline :: bool
  rpReady :: bool
  rpUpdatedAt :: int

record Room =
  roID :: string
  roMatchID :: int
  roMode :: string
  roStatus :: RoomStatus
  roTeams :: "MatchedTeam list"
  roPlayers :: "(int, RoomPlayer) gomap"

section \<open>Users\<close>

definition UserStatusNormal :: int where "UserStatusNormal = 1"
definition UserStatusBanned :: int where "UserStatusBanned = 2"
definition UserStatusDeleted :: int where "UserStatusDeleted = 3"

record User =
  usID :: int
  usUserName :: string
  usNickname :: string
  usPasswordHash :: string
  usStatus :: int

section \<open>Responses\<close>

record UserLoginResponse =
  ulToken :: string
  ulExpiresIn :: int
  ulUserID :: int
  ulUserName :: string
  ulNickname :: string

record UserDetailResponse =
  udUserName :: string
  udNickname :: string

record MatchInfoResponse =
  miID :: int
  miStatus :: int
  miWinTeamNo :: "int option"
  miStartedAt :: int
  miRoomID :: string
  miFinishedAt :: "int option"
  miMode :: string
  miPlayers :: "MatchPlayer list"

record RoomInfoResponse =
  riID :: string
  riMatchID :: int
  riMode :: string
  riStatus :: RoomStatus
  riTeams :: "MatchedTeam list"
  riPlayers :: "(int, RoomPlayer) gomap"

record JoinMatchQueueResponse =
  jrQueueStatus :: QueueStatus
  jrMatchID :: int
  jrQueueTicketID :: string
  jrMode :: string
  jrRoomID :: string
  jrChunkID :: string
  jrTeams :: "MatchedTeam list"

record StatusMatchQueueResponse =
  srUserID :: int
  srMatchID :: int
  srMode :: string
  srStatus :: QueueStatus
  srTicketID :: string
  srRoomID :: string
  srChunkID :: string
  srTeams :: "MatchedTeam list"
  srUpdatedAt :: int

record LeaderboardItemResponse =
  lbRank :: int
  lbUserID :: int
  lbScore :: int

record LeaderboardResponse =
  lrMode :: string
  lrItems :: "LeaderboardItemResponse list"

record OpenedCellResponse =
  orX :: int
  orY :: int
  orIndex :: int
  orAdjacentMines :: int
  orOpenedByUser :: int
  orOpenedByNickname :: string
  orOpenedAt :: int

record FlaggedCellResponse =
  frX :: int
  frY :: int
  frIndex :: int
  frFlaggedBy :: int

record OpenMineCellResponse =
  opChunkID :: string
  opX :: int
  opY :: int
  opIndex :: int
  opMine :: bool
  opClosed :: bool
  opClosedAt :: "int option"
  opClosedUntil :: "int option"
  opCanceled :: bool
  opReason :: string
  opAdjacentMines :: int
  opVersion :: int
  opOpenedAt :: int
  opNewOpenedCount :: int
  opMatchID :: int
  opMatchScores :: "(int, int) gomap"
  opMatchFinished :: bool
  opWinTeamNo :: "int option"
  opOpenedCells :: "OpenedCellResponse list"

record FlagMineCellResponse =
  flChunkID :: string
  flX :: int
  flY :: int
  flIndex :: int
  flFlagged :: bool
  flVersion :: int

record ChunkSummaryResponse =
  suChunkID :: string
  suRegion :: string
  suZ :: int
  suLevel :: int
  suX :: int
  suY :: int
  suBounds :: ChunkBounds
  suWidth :: int
  suHeight :: int
  suState :: string
  suClosed :: bool
  suClosedAt :: "int option"
  suClosedUntil :: "int option"
  suVersion :: int
  suOpenedCount :: int
  suClosedLeafCount :: int
  suTotalLeafCount :: int
  suClosedRatio :: rat

record ChunkSnapshotResponse =
  snChunkID :: string
  snWidth :: int
  snHeight :: int
  snClosed :: bool
  snClosedAt :: "int option"
  snClosedUntil :: "int option"
  snVersion :: int
  snOpenedCells :: "OpenedCellResponse list"
  snFlaggedCells :: "FlaggedCellResponse list"

record ChunkListResponse =
  liRegion :: string
  liLevel :: int
  liBBox :: ChunkBounds
  liChunks :: "ChunkSummaryResponse list"

end
