(* ===== verification/MineGen.thy ===== *)
theory MineGen
  imports Model "HOL-Library.Word"
begin

text \<open>
  The mine layout of a season (\<^verbatim>\<open>internal/model/mine.go\<close>). A cell is a mine when the
  first eight bytes of HMAC-SHA256 over a text that names the cell by its place in the
  world, keyed by the season's seed, read as a big-endian number, lie below
  \<^verbatim>\<open>rate * 2^64\<close>. The digest is a parameter \<open>mac\<close> (seed, message, first eight bytes as a
  64-bit word): nothing here depends on which function it is, so every statement holds for
  the real one. The product \<^verbatim>\<open>rate * float64(math.MaxUint64)\<close> is exact in binary64
  (\<^verbatim>\<open>float64(math.MaxUint64)\<close> is \<open>2 ^ 64\<close>), and the rate comes from a decimal column, so it is
  a finite number.
\<close>

type_synonym mac = "string \<Rightarrow> string \<Rightarrow> 64 word"

section \<open>The generator\<close>

definition mineMessage :: "MineSeason \<Rightarrow> string \<Rightarrow> int \<Rightarrow> int \<Rightarrow> int \<Rightarrow> string" where
  "mineMessage s region z gx gy =
     seCode s @ ''|'' @ itoa (seAlgorithmVersion s) @ ''|'' @ region @ ''|'' @ itoa z
       @ ''|'' @ itoa gx @ ''|'' @ itoa gy"

definition IsMine :: "mac \<Rightarrow> MineSeason option \<Rightarrow> ChunkID \<Rightarrow> int \<Rightarrow> int \<Rightarrow> err + bool" where
  "IsMine mac season c cellX cellY =
     (case season of
        None \<Rightarrow> Inl (Errorf ''mine season is nil'')
      | Some s \<Rightarrow>
          bindE (NormalizeChunkCell c cellX cellY) (\<lambda>(n, x, y).
          bindE (guardE (seMineRate s \<le> 0 \<or> 1 \<le> seMineRate s) (Errorf ''invalid mine rate'')) (\<lambda>_.
          let globalX = cX n * ChunkSize + x;
              globalY = cY n * ChunkSize + y;
              msg = mineMessage s (cRegion n) (cZ n) globalX globalY;
              threshold = word_of_int \<lfloor>seMineRate s * 2 ^ 64\<rfloor>
          in Inr (mac (seSeed s) msg < threshold))))"

text \<open>The offsets of the double loop, \<^verbatim>\<open>dy\<close> outside, without the cell itself.\<close>

definition neighbourOffsets :: "(int \<times> int) list" where
  "neighbourOffsets = [(- 1, - 1), (0, - 1), (1, - 1), (- 1, 0), (1, 0), (- 1, 1), (0, 1), (1, 1)]"

fun countMines ::
  "mac \<Rightarrow> MineSeason option \<Rightarrow> ChunkID \<Rightarrow> int \<Rightarrow> int \<Rightarrow> (int \<times> int) list \<Rightarrow> int \<Rightarrow> err + int" where
  "countMines mac season c x y [] count = Inr count"
| "countMines mac season c x y ((dx, dy) # ds) count =
     (case IsMine mac season c (wrap64 (x + dx)) (wrap64 (y + dy)) of
        Inl e \<Rightarrow> if e = ErrChunkCellOutOfWorld then countMines mac season c x y ds count else Inl e
      | Inr isMine \<Rightarrow> countMines mac season c x y ds (if isMine then count + 1 else count))"

definition AdjacentMineCount :: "mac \<Rightarrow> MineSeason option \<Rightarrow> ChunkID \<Rightarrow> int \<Rightarrow> int \<Rightarrow> err + int" where
  "AdjacentMineCount mac season c x y = countMines mac season c x y neighbourOffsets 0"

section \<open>The layout as a set of places of the world\<close>

definition season_ok :: "MineSeason \<Rightarrow> bool" where
  "season_ok s \<longleftrightarrow> 0 < seMineRate s \<and> seMineRate s < 1"

definition mineAt :: "mac \<Rightarrow> MineSeason \<Rightarrow> string \<Rightarrow> int \<Rightarrow> int \<Rightarrow> int \<Rightarrow> bool" where
  "mineAt mac s region z gx gy \<longleftrightarrow>
     mac (seSeed s) (mineMessage s region z gx gy) < word_of_int \<lfloor>seMineRate s * 2 ^ 64\<rfloor>"

definition worldSize :: "int \<Rightarrow> int" where
  "worldSize z = 2 ^ nat z * 128"

definition in_world :: "int \<Rightarrow> int \<Rightarrow> int \<Rightarrow> bool" where
  "in_world z gx gy \<longleftrightarrow> 0 \<le> gx \<and> gx < worldSize z \<and> 0 \<le> gy \<and> gy < worldSize z"

text \<open>The mines next to a place of the world, as a set of offsets.\<close>

definition mineNeighbours :: "mac \<Rightarrow> MineSeason \<Rightarrow> string \<Rightarrow> int \<Rightarrow> int \<Rightarrow> int \<Rightarrow> (int \<times> int) set" where
  "mineNeighbours mac s region z gx gy =
     {(dx, dy) \<in> {- 1..1} \<times> {- 1..1}. (dx, dy) \<noteq> (0, 0)
        \<and> in_world z (gx + dx) (gy + dy) \<and> mineAt mac s region z (gx + dx) (gy + dy)}"

lemma IsMine_eq:
  assumes "season_ok s" and c: "in_grid c" and "\<bar>x\<bar> \<le> 2 ^ 62" "\<bar>y\<bar> \<le> 2 ^ 62"
  shows "IsMine mac (Some s) c x y =
    (if in_world (cZ c) (cX c * 128 + x) (cY c * 128 + y)
     then Inr (mineAt mac s (cRegion c) (cZ c) (cX c * 128 + x) (cY c * 128 + y))
     else Inl ErrChunkCellOutOfWorld)"
proof -
  obtain g where g: "ChunkGridSize (cZ c) = Inr g" using c by (auto simp: in_grid_def)
  then have w: "worldSize (cZ c) = g * 128" by (auto simp: worldSize_def ChunkGridSize_Inr)
  show ?thesis
    using assms(1) Normalize_in_grid [OF c g assms(3,4)]
    by (simp add: IsMine_def guardE_def season_ok_def in_world_def w mineAt_def chunk_consts add.commute)
qed

definition mines_of_offsets :: "mac \<Rightarrow> MineSeason \<Rightarrow> string \<Rightarrow> int \<Rightarrow> int \<Rightarrow> int \<Rightarrow> (int \<times> int) list \<Rightarrow> (int \<times> int) list" where
  "mines_of_offsets mac s region z gx gy =
     filter (\<lambda>(dx, dy). in_world z (gx + dx) (gy + dy) \<and> mineAt mac s region z (gx + dx) (gy + dy))"

lemma countMines_eq:
  assumes "season_ok s" "in_grid c" "\<bar>x\<bar> \<le> 1000" "\<bar>y\<bar> \<le> 1000"
    and "\<forall>(dx, dy) \<in> set ds. \<bar>dx\<bar> \<le> 1 \<and> \<bar>dy\<bar> \<le> 1"
  shows "countMines mac (Some s) c x y ds n =
    Inr (n + int (length (mines_of_offsets mac s (cRegion c) (cZ c) (cX c * 128 + x) (cY c * 128 + y) ds)))"
  using assms(5)
proof (induction ds arbitrary: n)
  case (Cons d ds)
  obtain dx dy where d: "d = (dx, dy)" by fastforce
  have b: "\<bar>dx\<bar> \<le> 1" "\<bar>dy\<bar> \<le> 1" using Cons.prems d by auto
  have "in64 (x + dx)" "in64 (y + dy)" using assms(3,4) b by (auto simp: in64_def)
  moreover have "\<bar>x + dx\<bar> \<le> 2 ^ 62" "\<bar>y + dy\<bar> \<le> 2 ^ 62" using assms(3,4) b by auto
  note IsMine_eq [OF assms(1,2) this, where mac = mac]
  ultimately show ?case using Cons by (simp add: d mines_of_offsets_def add.assoc)
qed (simp add: mines_of_offsets_def)

lemma neighbourOffsets_set: "set neighbourOffsets = {(dx, dy) \<in> {- 1..1} \<times> {- 1..1}. (dx, dy) \<noteq> (0, 0)}"
  and neighbourOffsets_distinct: "distinct neighbourOffsets"
proof -
  have "{- 1..1} = {- 1, 0, 1 :: int}" by auto
  then show "set neighbourOffsets = {(dx, dy) \<in> {- 1..1} \<times> {- 1..1}. (dx, dy) \<noteq> (0, 0)}"
    by (auto simp: neighbourOffsets_def)
qed (simp add: neighbourOffsets_def)

lemma length_mines_of_offsets:
  "length (mines_of_offsets mac s r z gx gy neighbourOffsets) = card (mineNeighbours mac s r z gx gy)"
proof -
  have "set (mines_of_offsets mac s r z gx gy neighbourOffsets) = mineNeighbours mac s r z gx gy"
    by (auto simp: mines_of_offsets_def neighbourOffsets_set mineNeighbours_def)
  moreover have "distinct (mines_of_offsets mac s r z gx gy neighbourOffsets)"
    by (simp add: mines_of_offsets_def neighbourOffsets_distinct)
  ultimately show ?thesis using distinct_card by metis
qed

lemma AdjacentMineCount_eq:
  assumes "season_ok s" "in_grid c" "\<bar>x\<bar> \<le> 1000" "\<bar>y\<bar> \<le> 1000"
  shows "AdjacentMineCount mac (Some s) c x y =
    Inr (int (card (mineNeighbours mac s (cRegion c) (cZ c) (cX c * 128 + x) (cY c * 128 + y))))"
proof -
  have "\<forall>(dx, dy) \<in> set neighbourOffsets. \<bar>dx\<bar> \<le> 1 \<and> \<bar>dy\<bar> \<le> 1" by (simp add: neighbourOffsets_def)
  note countMines_eq [OF assms this, of mac 0]
  then show ?thesis by (simp add: AdjacentMineCount_def length_mines_of_offsets)
qed

lemma mineNeighbours_le_8: "card (mineNeighbours mac s r z gx gy) \<le> 8"
proof -
  have "mineNeighbours mac s r z gx gy \<subseteq> set neighbourOffsets"
    by (auto simp: neighbourOffsets_set mineNeighbours_def)
  then have "card (mineNeighbours mac s r z gx gy) \<le> card (set neighbourOffsets)"
    by (rule card_mono [rotated]) simp
  also have "\<dots> \<le> 8" by (simp add: neighbourOffsets_def card_insert_if)
  finally show ?thesis .
qed

text \<open>On the board of a chunk in the grid the generator never fails.\<close>

lemma board_in_world:
  assumes "in_grid c" "on_board x y"
  shows "in_world (cZ c) (cX c * 128 + x) (cY c * 128 + y)"
proof -
  obtain g where "ChunkGridSize (cZ c) = Inr g" "0 \<le> cX c" "cX c < g" "0 \<le> cY c" "cY c < g"
    using assms(1) by (auto simp: in_grid_def)
  then show ?thesis using assms(2)
    by (auto simp: in_world_def worldSize_def ChunkGridSize_Inr on_board_def)
qed

definition cellMine :: "mac \<Rightarrow> MineSeason \<Rightarrow> ChunkID \<Rightarrow> int \<Rightarrow> int \<Rightarrow> bool" where
  "cellMine mac s c x y = mineAt mac s (cRegion c) (cZ c) (cX c * 128 + x) (cY c * 128 + y)"

definition cellAdj :: "mac \<Rightarrow> MineSeason \<Rightarrow> ChunkID \<Rightarrow> int \<Rightarrow> int \<Rightarrow> int" where
  "cellAdj mac s c x y = int (card (mineNeighbours mac s (cRegion c) (cZ c) (cX c * 128 + x) (cY c * 128 + y)))"

lemma IsMine_board:
  "season_ok s \<Longrightarrow> in_grid c \<Longrightarrow> on_board x y \<Longrightarrow> IsMine mac (Some s) c x y = Inr (cellMine mac s c x y)"
  by (subst IsMine_eq) (auto simp: cellMine_def board_in_world, auto simp: on_board_def)

lemma AdjacentMineCount_board:
  "season_ok s \<Longrightarrow> in_grid c \<Longrightarrow> on_board x y \<Longrightarrow> AdjacentMineCount mac (Some s) c x y = Inr (cellAdj mac s c x y)"
  by (subst AdjacentMineCount_eq) (auto simp: cellAdj_def on_board_def)

section \<open>Properties of the layout\<close>

text \<open>\<^verbatim>\<open>AdjacentMineCount\<close> never fails on a board and is the number of the eight
  neighbouring cells, chunk borders included and places outside the world skipped, that
  \<^verbatim>\<open>IsMine\<close> calls a mine; so it lies between 0 and 8.\<close>

theorem AdjacentMineCount_counts:
  assumes "season_ok s" "in_grid c" "on_board x y"
  shows "\<exists>n. AdjacentMineCount mac (Some s) c x y = Inr n \<and> 0 \<le> n \<and> n \<le> 8
    \<and> n = int (card {(dx, dy) \<in> {- 1..1} \<times> {- 1..1}. (dx, dy) \<noteq> (0, 0) \<and> IsMine mac (Some s) c (x + dx) (y + dy) = Inr True})"
proof -
  have "IsMine mac (Some s) c (x + dx) (y + dy) = Inr True \<longleftrightarrow>
      in_world (cZ c) (cX c * 128 + x + dx) (cY c * 128 + y + dy)
      \<and> mineAt mac s (cRegion c) (cZ c) (cX c * 128 + x + dx) (cY c * 128 + y + dy)"
    if "dx \<in> {- 1..1}" "dy \<in> {- 1..1}" for dx dy
    using that assms(3) by (subst IsMine_eq [OF assms(1,2)]) (auto simp: on_board_def add.assoc)
  then have "{(dx, dy) \<in> {- 1..1} \<times> {- 1..1}. (dx, dy) \<noteq> (0, 0) \<and> IsMine mac (Some s) c (x + dx) (y + dy) = Inr True}
      = mineNeighbours mac s (cRegion c) (cZ c) (cX c * 128 + x) (cY c * 128 + y)"
    by (auto simp: mineNeighbours_def)
  then show ?thesis
    using AdjacentMineCount_board [OF assms] mineNeighbours_le_8 [of mac s "cRegion c" "cZ c"]
    by (simp add: cellAdj_def)
qed

definition exampleSeason :: MineSeason where
  "exampleSeason = \<lparr>seID = 1, seCode = ''s1-cn-mvp'', seSeed = ''seed'', seMineRate = 15 / 100,
     seAlgorithmVersion = 1, seStatus = 1, seStartedAt = 0, seEndedAt = None\<rparr>"

lemma exampleSeason_ok: "season_ok exampleSeason"
  by (simp add: season_ok_def exampleSeason_def)

lemma in_grid_example: "in_grid (mkChunkID ''cn'' 6 10 20)"
  by (simp add: in_grid_def ChunkGridSize_def chunk_consts)

theorem AdjacentMineCount_counts_witness:
  "\<exists>n. AdjacentMineCount (\<lambda>_ _. 0) (Some exampleSeason) (mkChunkID ''cn'' 6 10 20) 127 127 = Inr n \<and> 0 \<le> n \<and> n \<le> 8"
  using AdjacentMineCount_counts [OF exampleSeason_ok in_grid_example, of 127 127 "\<lambda>_ _. 0"]
  by (auto simp: on_board_def)

text \<open>The layout is one world: two ways of naming the same place of a region and level, from
  different chunks and with coordinates outside them, get the same answer from \<^verbatim>\<open>IsMine\<close>.\<close>

theorem IsMine_same_place:
  assumes "in_grid c" "in_grid d" "cRegion c = cRegion d" "cZ c = cZ d"
    and "cX c * ChunkSize + x = cX d * ChunkSize + x'" "cY c * ChunkSize + y = cY d * ChunkSize + y'"
    and "\<bar>x\<bar> \<le> 2 ^ 61" "\<bar>y\<bar> \<le> 2 ^ 61"
  shows "IsMine mac (Some s) c x y = IsMine mac (Some s) d x' y'"
proof -
  obtain g where g: "ChunkGridSize (cZ c) = Inr g" using assms(1) by (auto simp: in_grid_def)
  with assms(4) have g': "ChunkGridSize (cZ d) = Inr g" by simp
  have "\<bar>x'\<bar> \<le> 2 ^ 62" "\<bar>y'\<bar> \<le> 2 ^ 62"
    using assms(5-8) in_grid_bounds [OF assms(1)] in_grid_bounds [OF assms(2)]
    by (auto simp: chunk_consts abs_le_iff)
  moreover have "\<bar>x\<bar> \<le> 2 ^ 62" "\<bar>y\<bar> \<le> 2 ^ 62" using assms(7,8) by auto
  ultimately show ?thesis
    using Normalize_in_grid [OF assms(1) g, of x y] Normalize_in_grid [OF assms(2) g', of x' y'] assms(3-6)
    by (simp add: IsMine_def chunk_consts)
qed

theorem IsMine_same_place_witness:
  "IsMine (\<lambda>_ _. 0) (Some exampleSeason) (mkChunkID ''cn'' 6 10 20) 128 5
   = IsMine (\<lambda>_ _. 0) (Some exampleSeason) (mkChunkID ''cn'' 6 11 20) 0 5"
  by (rule IsMine_same_place) (simp_all add: in_grid_def ChunkGridSize_def chunk_consts)

end
