(* ===== verification/Flood.thy ===== *)
theory Flood
  imports Main
begin

text \<open>
  A worklist exploration with a visited set, as an interface: cells with an injective key
  on the board, a test \<open>ok\<close> that says which cells count, and the successors a counted cell
  puts on the queue. The invariant \<open>wl_inv\<close> is kept by the two kinds of step a loop body
  makes (skip a cell, take a cell); when the queue is empty the cells taken are exactly
  the ones reachable from the start.
\<close>

locale flood =
  fixes board :: "'c \<Rightarrow> bool"
    and key :: "'c \<Rightarrow> 'k"
    and ok :: "'c \<Rightarrow> bool"
    and succs :: "'c \<Rightarrow> 'c list"
  assumes ok_board: "ok c \<Longrightarrow> board c"
    and key_inj: "board c \<Longrightarrow> board d \<Longrightarrow> key c = key d \<Longrightarrow> c = d"
begin

inductive reached :: "'c \<Rightarrow> 'c \<Rightarrow> bool" for s where
  start: "ok s \<Longrightarrow> reached s s"
| step: "reached s c \<Longrightarrow> d \<in> set (succs c) \<Longrightarrow> ok d \<Longrightarrow> reached s d"

definition wl_inv :: "'c \<Rightarrow> 'c list \<Rightarrow> 'k set \<Rightarrow> 'c set \<Rightarrow> bool" where
  "wl_inv s q vis new \<longleftrightarrow>
     (\<forall>c \<in> new. reached s c)
   \<and> (\<forall>c \<in> set q. ok c \<longrightarrow> reached s c)
   \<and> (\<forall>c \<in> new. \<forall>d \<in> set (succs c). ok d \<longrightarrow> d \<in> new \<or> d \<in> set q)
   \<and> (ok s \<longrightarrow> s \<in> new \<or> s \<in> set q)
   \<and> (\<forall>c. ok c \<and> key c \<in> vis \<longrightarrow> c \<in> new)"

lemma reached_ok: "reached s c \<Longrightarrow> ok c"
  by (induction rule: reached.induct) auto

lemma wl_start: "wl_inv s [s] {} {}"
  by (auto simp: wl_inv_def intro: reached.start)

lemma wl_invI:
  assumes "\<And>c. c \<in> new \<Longrightarrow> reached s c"
    and "\<And>c. c \<in> set q \<Longrightarrow> ok c \<Longrightarrow> reached s c"
    and "\<And>c d. c \<in> new \<Longrightarrow> d \<in> set (succs c) \<Longrightarrow> ok d \<Longrightarrow> d \<in> new \<or> d \<in> set q"
    and "ok s \<Longrightarrow> s \<in> new \<or> s \<in> set q"
    and "\<And>c. ok c \<Longrightarrow> key c \<in> vis \<Longrightarrow> c \<in> new"
  shows "wl_inv s q vis new"
  using assms unfolding wl_inv_def by blast

lemma wl_invD:
  assumes "wl_inv s q vis new"
  shows "c \<in> new \<Longrightarrow> reached s c"
    and "c \<in> set q \<Longrightarrow> ok c \<Longrightarrow> reached s c"
    and "c \<in> new \<Longrightarrow> d \<in> set (succs c) \<Longrightarrow> ok d \<Longrightarrow> d \<in> new \<or> d \<in> set q"
    and "ok s \<Longrightarrow> s \<in> new \<or> s \<in> set q"
    and "ok c \<Longrightarrow> key c \<in> vis \<Longrightarrow> c \<in> new"
  using assms unfolding wl_inv_def by blast+

lemma wl_drop:
  assumes "wl_inv s (c # q) vis new" "ok c \<Longrightarrow> c \<in> new"
  shows "wl_inv s q vis new"
proof (rule wl_invI)
  note D = wl_invD [OF assms(1)]
  show "reached s d" if "d \<in> new" for d using D(1) that .
  show "reached s d" if "d \<in> set q" "ok d" for d using D(2) [of d] that by simp
  show "e \<in> new \<or> e \<in> set q" if "d \<in> new" "e \<in> set (succs d)" "ok e" for d e
    using D(3) [OF that] that(3) assms(2) by auto
  show "s \<in> new \<or> s \<in> set q" if "ok s" using D(4) [OF that] that assms(2) by auto
  show "d \<in> new" if "ok d" "key d \<in> vis" for d using D(5) that .
qed

lemma wl_skip_off_board: "wl_inv s (c # q) vis new \<Longrightarrow> \<not> board c \<Longrightarrow> wl_inv s q vis new"
  by (erule wl_drop) (auto dest: ok_board)

lemma wl_skip_seen: "wl_inv s (c # q) vis new \<Longrightarrow> key c \<in> vis \<Longrightarrow> wl_inv s q vis new"
  by (rule wl_drop, assumption) (rule wl_invD(5))

lemma wl_skip_not_ok:
  assumes "wl_inv s (c # q) vis new" "board c" "\<not> ok c"
  shows "wl_inv s q (insert (key c) vis) new"
proof (rule wl_invI)
  have "wl_inv s q vis new" using assms by (blast intro: wl_drop)
  note D = wl_invD [OF this]
  show "reached s d" if "d \<in> new" for d using D(1) that .
  show "reached s d" if "d \<in> set q" "ok d" for d using D(2) that .
  show "e \<in> new \<or> e \<in> set q" if "d \<in> new" "e \<in> set (succs d)" "ok e" for d e using D(3) that .
  show "s \<in> new \<or> s \<in> set q" if "ok s" using D(4) that .
  show "d \<in> new" if "ok d" "key d \<in> insert (key c) vis" for d
    using that D(5) key_inj [OF ok_board [OF that(1)] assms(2)] assms(3) by auto
qed

lemma wl_take:
  assumes "wl_inv s (c # q) vis new" "ok c"
  shows "wl_inv s (q @ succs c) (insert (key c) vis) (insert c new)"
proof (rule wl_invI)
  note D = wl_invD [OF assms(1)]
  have c: "reached s c" using D(2) assms(2) by simp
  show "reached s d" if "d \<in> insert c new" for d using that c D(1) by auto
  show "reached s d" if "d \<in> set (q @ succs c)" "ok d" for d
    using that reached.step [OF c] D(2) [of d] by auto
  show "e \<in> insert c new \<or> e \<in> set (q @ succs c)" if "d \<in> insert c new" "e \<in> set (succs d)" "ok e" for d e
    using that D(3) [of d e] by auto
  show "s \<in> insert c new \<or> s \<in> set (q @ succs c)" if "ok s" using D(4) [OF that] by auto
  show "d \<in> insert c new" if "ok d" "key d \<in> insert (key c) vis" for d
    using that D(5) key_inj [OF ok_board [OF that(1)] ok_board [OF assms(2)]] by auto
qed

lemma wl_take_leaf:
  assumes "wl_inv s (c # q) vis new" "ok c" "succs c = []"
  shows "wl_inv s q (insert (key c) vis) (insert c new)"
  using wl_take [OF assms(1,2)] assms(3) by simp

lemma wl_done:
  assumes "wl_inv s [] vis new"
  shows "new = {c. reached s c}"
proof -
  note D = wl_invD [OF assms]
  have "c \<in> new" if "reached s c" for c
    using that
  proof induction
    case start
    then show ?case using D(4) by simp
  next
    case (step c d)
    then show ?case using D(3) [of c d] by simp
  qed
  then show ?thesis using D(1) by blast
qed

end

end
