(* ===== verification/ZeroArea.thy ===== *)
theory ZeroArea
  imports MineGen Flood
begin

text \<open>
  Opening cells of a chunk state: \<^verbatim>\<open>openCellInState\<close> and the breadth-first
  \<^verbatim>\<open>openZeroArea\<close> of \<^verbatim>\<open>internal/service/chunk_service.go\<close>. The queue is a list, the
  visited map a set of indices. The loop stops because every iteration shortens the queue
  or puts one of the 16384 cell indices into the visited set. The section on correctness
  interprets the locale \<open>flood\<close> on the loop of the code and concludes what exactly is
  opened.
\<close>

section \<open>The operations\<close>

definition openCellInState ::
  "MineChunkState \<Rightarrow> int \<Rightarrow> int \<Rightarrow> int \<Rightarrow> int \<Rightarrow> int \<Rightarrow> int \<Rightarrow> MineChunkState" where
  "openCellInState st x y index userID openedAt adjacentMines =
     st\<lparr>csOpenedCells := mput index
            \<lparr>ocX = x, ocY = y, ocIndex = index, ocOpenedBy = userID, ocOpenedAt = openedAt,
             ocAdjacentMines = adjacentMines\<rparr> (csOpenedCells st),
        csFlaggedBy := mdel index (csFlaggedBy st)\<rparr>"

definition neighbourCells :: "int \<Rightarrow> int \<Rightarrow> (int \<times> int) list" where
  "neighbourCells x y = map (\<lambda>(dx, dy). (x + dx, y + dy)) neighbourOffsets"

function openZeroLoop ::
  "mac \<Rightarrow> MineSeason option \<Rightarrow> ChunkID \<Rightarrow> int \<Rightarrow> int \<Rightarrow> (int \<times> int) list \<Rightarrow> int set \<Rightarrow> MineChunkState
     \<Rightarrow> err + MineChunkState" where
  "openZeroLoop mac season c userID openedAt [] visited st = Inr st"
| "openZeroLoop mac season c userID openedAt ((x, y) # queue) visited st =
     (if x < 0 \<or> ChunkSize \<le> x \<or> y < 0 \<or> ChunkSize \<le> y
      then openZeroLoop mac season c userID openedAt queue visited st
      else (case ChunkCellIndex x y of
        Inl e \<Rightarrow> Inl ErrInvalidChunkID
      | Inr index \<Rightarrow>
         if index \<in> visited then openZeroLoop mac season c userID openedAt queue visited st
         else if mhas (csFlaggedBy st) index
         then openZeroLoop mac season c userID openedAt queue (insert index visited) st
         else if mhas (csOpenedCells st) index
         then openZeroLoop mac season c userID openedAt queue (insert index visited) st
         else (case IsMine mac season c x y of
           Inl e \<Rightarrow> Inl e
         | Inr isMine \<Rightarrow>
            if isMine then openZeroLoop mac season c userID openedAt queue (insert index visited) st
            else (case AdjacentMineCount mac season c x y of
              Inl e \<Rightarrow> Inl e
            | Inr adj \<Rightarrow>
               if adj \<noteq> 0
               then openZeroLoop mac season c userID openedAt queue (insert index visited)
                      (openCellInState st x y index userID openedAt adj)
               else openZeroLoop mac season c userID openedAt (queue @ neighbourCells x y)
                      (insert index visited) (openCellInState st x y index userID openedAt adj)))))"
  by pat_completeness auto

lemma card_Diff_insert_less: "finite S \<Longrightarrow> i \<in> S - v \<Longrightarrow> card (S - insert i v) < card (S - v)"
  by (rule psubset_card_mono) auto

lemma visit_decreases:
  assumes "ChunkCellIndex x y = Inr i" "i \<notin> vis"
  shows "card ({0..<16384} - insert i vis) < card ({0..<16384 :: int} - vis)"
  by (rule card_Diff_insert_less) (use assms index_range in \<open>auto simp: ChunkCellIndex_Inr\<close>)

termination openZeroLoop
  by (relation "measures [\<lambda>(_, _, _, _, _, _, visited, _). card ({0..<16384} - visited),
        \<lambda>(_, _, _, _, _, queue, _, _). length queue]")
     (auto simp: visit_decreases)

definition openZeroArea ::
  "mac \<Rightarrow> MineSeason option \<Rightarrow> MineChunkState \<Rightarrow> ChunkID \<Rightarrow> int \<Rightarrow> int \<Rightarrow> int \<Rightarrow> int \<Rightarrow> err + MineChunkState" where
  "openZeroArea mac season st c startX startY userID openedAt =
     openZeroLoop mac season c userID openedAt [(startX, startY)] {} st"

section \<open>What is opened\<close>

fun cellKey :: "int \<times> int \<Rightarrow> int" where
  "cellKey (x, y) = y * 128 + x"

fun openable :: "mac \<Rightarrow> MineSeason \<Rightarrow> ChunkID \<Rightarrow> MineChunkState \<Rightarrow> int \<times> int \<Rightarrow> bool" where
  "openable mac s c st (x, y) \<longleftrightarrow> on_board x y \<and> \<not> mhas (csFlaggedBy st) (y * 128 + x)
     \<and> \<not> mhas (csOpenedCells st) (y * 128 + x) \<and> \<not> cellMine mac s c x y"

fun zeroSuccs :: "mac \<Rightarrow> MineSeason \<Rightarrow> ChunkID \<Rightarrow> int \<times> int \<Rightarrow> (int \<times> int) list" where
  "zeroSuccs mac s c (x, y) = (if cellAdj mac s c x y = 0 then neighbourCells x y else [])"

text \<open>Two cells touch when a chess king can move from one to the other.\<close>

fun touches :: "int \<times> int \<Rightarrow> int \<times> int \<Rightarrow> bool" where
  "touches (x, y) (x', y') \<longleftrightarrow> \<bar>x' - x\<bar> \<le> 1 \<and> \<bar>y' - y\<bar> \<le> 1 \<and> (x', y') \<noteq> (x, y)"

lemma neighbourCells_touch: "d \<in> set (neighbourCells x y) \<longleftrightarrow> touches (x, y) d"
proof (cases d)
  case (Pair x' y')
  have "d \<in> set (neighbourCells x y) \<longleftrightarrow> (x' - x, y' - y) \<in> set neighbourOffsets"
    by (force simp: neighbourCells_def Pair image_iff)
  then show ?thesis by (auto simp: neighbourOffsets_set Pair)
qed

text \<open>The region a zero cell opens: the openable cells that are connected to the start through
  cells with no mine next to them.\<close>

inductive zeroReach :: "mac \<Rightarrow> MineSeason \<Rightarrow> ChunkID \<Rightarrow> MineChunkState \<Rightarrow> int \<times> int \<Rightarrow> int \<times> int \<Rightarrow> bool"
  for mac s c st start where
  zr_start: "openable mac s c st start \<Longrightarrow> zeroReach mac s c st start start"
| zr_step: "zeroReach mac s c st start (x, y) \<Longrightarrow> cellAdj mac s c x y = 0 \<Longrightarrow> touches (x, y) d
    \<Longrightarrow> openable mac s c st d \<Longrightarrow> zeroReach mac s c st start d"

interpretation zf: flood "\<lambda>(x, y). on_board x y" cellKey "openable mac s c st" "zeroSuccs mac s c"
  for mac s c st
proof unfold_locales
  show "openable mac s c st d \<Longrightarrow> case d of (x, y) \<Rightarrow> on_board x y" for d by (cases d) simp
  show "case d of (x, y) \<Rightarrow> on_board x y \<Longrightarrow> case e of (x, y) \<Rightarrow> on_board x y \<Longrightarrow> cellKey d = cellKey e \<Longrightarrow> d = e"
    for d e by (cases d; cases e) (simp add: index_inj)
qed

lemma reached_zeroReach: "zf.reached mac s c st start d \<longleftrightarrow> zeroReach mac s c st start d"
proof
  show "zf.reached mac s c st start d \<Longrightarrow> zeroReach mac s c st start d"
  proof (induction rule: zf.reached.induct)
    case start
    then show ?case by (rule zr_start)
  next
    case (step b d)
    obtain x y where b: "b = (x, y)" by (cases b)
    have "cellAdj mac s c x y = 0" "touches (x, y) d"
      using step.hyps(2) by (simp_all add: b neighbourCells_touch del: touches.simps split: if_splits)
    then show ?case using zr_step [OF step.IH [unfolded b]] step.hyps(3) by blast
  qed
  show "zeroReach mac s c st start d \<Longrightarrow> zf.reached mac s c st start d"
  proof (induction rule: zeroReach.induct)
    case zr_start
    then show ?case by (rule zf.reached.start)
  next
    case (zr_step x y d)
    have "d \<in> set (zeroSuccs mac s c (x, y))"
      using zr_step.hyps(2,3) by (simp add: neighbourCells_touch del: touches.simps)
    then show ?case by (rule zf.reached.step [OF zr_step.IH _ zr_step.hyps(4)])
  qed
qed

definition zeroSnap :: "mac \<Rightarrow> MineSeason \<Rightarrow> ChunkID \<Rightarrow> int \<Rightarrow> int \<Rightarrow> int \<Rightarrow> MineOpenedCellSnapshot" where
  "zeroSnap mac s c userID openedAt i =
     \<lparr>ocX = i mod 128, ocY = i div 128, ocIndex = i, ocOpenedBy = userID, ocOpenedAt = openedAt,
      ocAdjacentMines = cellAdj mac s c (i mod 128) (i div 128)\<rparr>"

text \<open>\<open>st\<close> is \<open>st0\<close> with the cells \<open>new\<close> opened.\<close>

definition opened_more ::
  "mac \<Rightarrow> MineSeason \<Rightarrow> ChunkID \<Rightarrow> int \<Rightarrow> int \<Rightarrow> MineChunkState \<Rightarrow> (int \<times> int) set \<Rightarrow> MineChunkState \<Rightarrow> bool" where
  "opened_more mac s c userID openedAt st0 new st \<longleftrightarrow>
     st = st0\<lparr>csOpenedCells := csOpenedCells st\<rparr>
   \<and> (map_ok (csOpenedCells st0) \<longrightarrow> map_ok (csOpenedCells st))
   \<and> (\<forall>i. mget (csOpenedCells st) i =
        (if i \<in> cellKey ` new then Some (zeroSnap mac s c userID openedAt i) else mget (csOpenedCells st0) i))"

lemma opened_more_refl: "opened_more mac s c u t st {} st"
  by (simp add: opened_more_def)

lemma opened_more_frame:
  assumes "opened_more mac s c u t st0 new st"
  shows "csFlaggedBy st = csFlaggedBy st0" "csClosed st = csClosed st0" "csVersion st = csVersion st0"
    "csSeasonID st = csSeasonID st0" "csChunkID st = csChunkID st0" "csClosedBy st = csClosedBy st0"
    "csClosedAt st = csClosedAt st0" "csClosedUntil st = csClosedUntil st0"
proof -
  have "st = st0\<lparr>csOpenedCells := csOpenedCells st\<rparr>" using assms unfolding opened_more_def by blast
  then obtain oc where "st = st0\<lparr>csOpenedCells := oc\<rparr>" by blast
  then show "csFlaggedBy st = csFlaggedBy st0" "csClosed st = csClosed st0" "csVersion st = csVersion st0"
    "csSeasonID st = csSeasonID st0" "csChunkID st = csChunkID st0" "csClosedBy st = csClosedBy st0"
    "csClosedAt st = csClosedAt st0" "csClosedUntil st = csClosedUntil st0" by simp_all
qed

lemma opened_more_get:
  "opened_more mac s c u t st0 new st \<Longrightarrow> mget (csOpenedCells st) i =
     (if i \<in> cellKey ` new then Some (zeroSnap mac s c u t i) else mget (csOpenedCells st0) i)"
  unfolding opened_more_def by blast

lemma opened_more_open:
  assumes m: "opened_more mac s c u t st0 new st" and b: "on_board x y"
    and f: "\<not> mhas (csFlaggedBy st) (y * 128 + x)"
  shows "opened_more mac s c u t st0 (insert (x, y) new)
    (openCellInState st x y (y * 128 + x) u t (cellAdj mac s c x y))"
proof -
  have fl: "mdel (y * 128 + x) (csFlaggedBy st) = csFlaggedBy st0"
    using f opened_more_frame(1) [OF m] by (simp add: mhas_def mdel_absent)
  obtain oc where st: "st = st0\<lparr>csOpenedCells := oc\<rparr>" using m unfolding opened_more_def by blast
  have g: "mget oc i = (if i \<in> cellKey ` new then Some (zeroSnap mac s c u t i) else mget (csOpenedCells st0) i)" for i
    using opened_more_get [OF m, of i] by (simp add: st)
  have ok: "map_ok (csOpenedCells st0) \<longrightarrow> map_ok oc" using m by (simp add: opened_more_def st)
  have xm: "x mod 128 = x" using b by (simp add: on_board_def)
  show ?thesis
    using fl ok xm by (auto simp: opened_more_def openCellInState_def st g zeroSnap_def index_div [OF b] index_mod [OF b])
qed

section \<open>Correctness of the loop\<close>

lemma mhas_opened_more:
  "opened_more mac s c u t st0 new st \<Longrightarrow>
   mhas (csOpenedCells st) i \<longleftrightarrow> i \<in> cellKey ` new \<or> mhas (csOpenedCells st0) i"
  by (simp add: mhas_def opened_more_get)

lemma ok_iff:
  assumes "opened_more mac s c u t st0 new st" "cellKey ` new \<subseteq> vis" "y * 128 + x \<notin> vis" "on_board x y"
  shows "openable mac s c st0 (x, y) \<longleftrightarrow>
    \<not> mhas (csFlaggedBy st) (y * 128 + x) \<and> \<not> mhas (csOpenedCells st) (y * 128 + x) \<and> \<not> cellMine mac s c x y"
  using assms opened_more_frame(1) [OF assms(1)] mhas_opened_more [OF assms(1), of "y * 128 + x"] by auto

lemma loop_induct [case_names Nil Cons]:
  assumes nil: "\<And>vis st. P [] vis st"
    and cons: "\<And>x y q vis st. P q vis st \<Longrightarrow>
      (on_board x y \<Longrightarrow> y * 128 + x \<notin> vis \<Longrightarrow> (\<And>q' st'. P q' (insert (y * 128 + x) vis) st')) \<Longrightarrow>
      P ((x, y) # q) vis st"
  shows "P q vis (st :: MineChunkState)"
proof (induction "card ({0..<16384 :: int} - vis)" arbitrary: q vis st rule: less_induct)
  case less
  show ?case
  proof (induction q)
    case Nil
    show ?case by (rule nil)
  next
    case (Cons d q)
    obtain x y where d: "d = (x, y)" by fastforce
    have "P q' (insert (y * 128 + x) vis) st'" if "on_board x y" "y * 128 + x \<notin> vis" for q' st'
      using less visit_decreases [OF ChunkCellIndex_board [OF that(1)] that(2)] .
    then show ?case unfolding d by (rule cons [OF Cons])
  qed
qed

lemma loop_off_board:
  "\<not> on_board x y \<Longrightarrow> openZeroLoop mac season c u t ((x, y) # q) vis st = openZeroLoop mac season c u t q vis st"
  by (auto simp: on_board_def chunk_consts)

lemma loop_step:
  assumes "season_ok s" "in_grid c" "on_board x y"
  shows "openZeroLoop mac (Some s) c u t ((x, y) # q) vis st =
    (if y * 128 + x \<in> vis then openZeroLoop mac (Some s) c u t q vis st
     else if mhas (csFlaggedBy st) (y * 128 + x) \<or> mhas (csOpenedCells st) (y * 128 + x) \<or> cellMine mac s c x y
     then openZeroLoop mac (Some s) c u t q (insert (y * 128 + x) vis) st
     else openZeroLoop mac (Some s) c u t (q @ zeroSuccs mac s c (x, y)) (insert (y * 128 + x) vis)
            (openCellInState st x y (y * 128 + x) u t (cellAdj mac s c x y)))"
proof -
  have "\<not> (x < 0 \<or> ChunkSize \<le> x \<or> y < 0 \<or> ChunkSize \<le> y)" using assms(3) by (auto simp: on_board_def chunk_consts)
  then show ?thesis
    by (simp add: ChunkCellIndex_board [OF assms(3)] IsMine_board [OF assms] AdjacentMineCount_board [OF assms])
qed

declare openZeroLoop.simps(2) [simp del]

lemma wl_done_zeroReach:
  "zf.wl_inv mac s c st0 start [] vis new \<Longrightarrow> new = {d. zeroReach mac s c st0 start d}"
  by (drule zf.wl_done) (simp add: reached_zeroReach)

lemma openZeroLoop_correct:
  assumes s: "season_ok s" and c: "in_grid c"
  shows "zf.wl_inv mac s c st0 start q vis new \<Longrightarrow> opened_more mac s c u t st0 new st \<Longrightarrow> cellKey ` new \<subseteq> vis \<Longrightarrow>
    \<exists>st'. openZeroLoop mac (Some s) c u t q vis st = Inr st'
        \<and> opened_more mac s c u t st0 {d. zeroReach mac s c st0 start d} st'"
proof (induction q vis st arbitrary: new rule: loop_induct)
  case (Nil vis st)
  then show ?case using wl_done_zeroReach by fastforce
next
  case (Cons x y q vis st)
  note wl = Cons.prems(1) and om = Cons.prems(2) and sub = Cons.prems(3)
  consider (off) "\<not> on_board x y" | (seen) "on_board x y" "y * 128 + x \<in> vis"
    | (unvis) "on_board x y" "y * 128 + x \<notin> vis" by blast
  then show ?case
  proof cases
    case off
    then show ?thesis using Cons.IH(1) [OF zf.wl_skip_off_board [OF wl] om sub] by (simp add: loop_off_board)
  next
    case seen
    then show ?thesis using Cons.IH(1) [OF zf.wl_skip_seen [OF wl] om sub] by (simp add: loop_step [OF s c])
  next
    case unvis
    note iff = ok_iff [OF om sub unvis(2,1)]
    show ?thesis
    proof (cases "openable mac s c st0 (x, y)")
      case False
      have "zf.wl_inv mac s c st0 start q (insert (y * 128 + x) vis) new"
        using zf.wl_skip_not_ok [OF wl _ False] unvis(1) by simp
      then show ?thesis using Cons.IH(2) [OF unvis _ om] sub False iff
        by (auto simp: loop_step [OF s c unvis(1)] unvis(2))
    next
      case True
      have f: "\<not> mhas (csFlaggedBy st) (y * 128 + x)" using True iff by blast
      have "zf.wl_inv mac s c st0 start (q @ zeroSuccs mac s c (x, y)) (insert (y * 128 + x) vis) (insert (x, y) new)"
        using zf.wl_take [OF wl True] by simp
      moreover have "cellKey ` insert (x, y) new \<subseteq> insert (y * 128 + x) vis" using sub by auto
      ultimately show ?thesis
        using Cons.IH(2) [OF unvis _ opened_more_open [OF om unvis(1) f]] True iff
        by (simp add: loop_step [OF s c unvis(1)] unvis(2) del: zeroSuccs.simps)
    qed
  qed
qed

lemma openZeroArea_correct:
  assumes "season_ok s" "in_grid c"
  shows "\<exists>st'. openZeroArea mac (Some s) st c x y u t = Inr st'
    \<and> opened_more mac s c u t st {d. zeroReach mac s c st (x, y) d} st'"
  unfolding openZeroArea_def
  by (rule openZeroLoop_correct [OF assms zf.wl_start opened_more_refl]) simp

text \<open>(C19) Opening a cell with no mine next to it: on a chunk of the grid \<^verbatim>\<open>openZeroArea\<close> always
  returns, without an error, and opens exactly the region \<open>zeroReach\<close>, each cell stamped with
  the player, the time and its number of neighbouring mines; cells opened before keep their
  record, flags and every other field of the chunk stay as they are.\<close>

theorem openZeroArea_opens_region:
  assumes "season_ok s" "in_grid c"
  shows "\<exists>st'. openZeroArea mac (Some s) st c x y userID openedAt = Inr st'
    \<and> st' = st\<lparr>csOpenedCells := csOpenedCells st'\<rparr>
    \<and> (map_ok (csOpenedCells st) \<longrightarrow> map_ok (csOpenedCells st'))
    \<and> (\<forall>i. mget (csOpenedCells st') i =
         (if \<exists>x' y'. zeroReach mac s c st (x, y) (x', y') \<and> i = y' * 128 + x'
          then Some \<lparr>ocX = i mod 128, ocY = i div 128, ocIndex = i, ocOpenedBy = userID, ocOpenedAt = openedAt,
                     ocAdjacentMines = cellAdj mac s c (i mod 128) (i div 128)\<rparr>
          else mget (csOpenedCells st) i))"
proof -
  obtain st' where r: "openZeroArea mac (Some s) st c x y userID openedAt = Inr st'"
    and m: "opened_more mac s c userID openedAt st {d. zeroReach mac s c st (x, y) d} st'"
    using openZeroArea_correct [OF assms] by blast
  have "i \<in> cellKey ` {d. zeroReach mac s c st (x, y) d} \<longleftrightarrow>
      (\<exists>x' y'. zeroReach mac s c st (x, y) (x', y') \<and> i = y' * 128 + x')" for i
    by (force simp: image_iff)
  then show ?thesis using r m unfolding opened_more_def zeroSnap_def by auto
qed

text \<open>A season without a single mine opens the whole board from any cell.\<close>

theorem openZeroArea_opens_region_witness:
  "\<exists>st'. openZeroArea (\<lambda>_ _. - 1) (Some exampleSeason) (NewMineChunkState 1 ''cn:6:10:20'')
      (mkChunkID ''cn'' 6 10 20) 5 7 1001 0 = Inr st' \<and> csFlaggedBy st' = []"
proof -
  obtain st' where "openZeroArea (\<lambda>_ _. - 1) (Some exampleSeason) (NewMineChunkState 1 ''cn:6:10:20'')
      (mkChunkID ''cn'' 6 10 20) 5 7 1001 0 = Inr st'"
    and st': "st' = NewMineChunkState 1 ''cn:6:10:20''\<lparr>csOpenedCells := csOpenedCells st'\<rparr>"
    using openZeroArea_opens_region [OF exampleSeason_ok in_grid_example, where mac = "\<lambda>_ _. - 1"
        and st = "NewMineChunkState 1 ''cn:6:10:20''" and x = 5 and y = 7 and userID = 1001 and openedAt = 0]
    by (elim exE conjE) (rule that; assumption)
  moreover obtain oc where "st' = NewMineChunkState 1 ''cn:6:10:20''\<lparr>csOpenedCells := oc\<rparr>"
    by (rule that) (rule st')
  ultimately show ?thesis by (simp add: NewMineChunkState_def)
qed

end
