(* ===== verification/World.thy ===== *)
theory World
  imports ZeroArea
begin

text \<open>
  The state the program keeps outside its functions: the MySQL tables of \<^verbatim>\<open>sql/\<close>, the
  Redis keys of \<^verbatim>\<open>internal/repository\<close>, the RabbitMQ exchange and the rooms in the memory
  of the API process. A Redis key is modelled by its parts (season and chunk, user, mode),
  a stored JSON document by the value it encodes.

  Every call of a store may fail. \<open>net\<close> is the list of outcomes the network has in store,
  one per call: \<open>Done\<close> (the call succeeds), \<open>Lost\<close> (an error, nothing happened) and
  \<open>Unacked\<close> (the effect took place, the caller sees an error). When the list is used up all
  calls succeed. \<open>clock\<close> is the list of values the next calls of \<^verbatim>\<open>time.Now\<close> return, the
  last one repeated.
\<close>

datatype outcome = Done | Lost | Unacked

record world =
  net :: "outcome list"
  clock :: "int list"
  dbUsers :: "User list"
  dbNextUserID :: int
  dbSeasons :: "MineSeason list"
  dbMatches :: "MatchRow list"
  dbMatchPlayers :: "MatchPlayer list"
  dbNextMatchID :: int
  dbRankEvents :: "RankEvent list"
  dbPlayerRanks :: "PlayerRank list"
  rdChunks :: "int \<times> string \<Rightarrow> MineChunkState option"
  rdClosed :: "int \<Rightarrow> string list"
  rdMineMatches :: "int \<Rightarrow> MineMatchState option"
  rdUserMatch :: "int \<Rightarrow> int option"
  rdChunkLock :: "int \<times> string \<Rightarrow> int option"
  rdQueues :: "string \<Rightarrow> int list"
  rdQueueUsers :: "int \<Rightarrow> QueueUserState option"
  rdLeaderboard :: "string \<Rightarrow> (int, int) gomap"
  mqEvents :: "MatchResultFinishedEvent list"
  memRooms :: "(string, Room) gomap"

type_synonym 'a io = "(world, err, 'a) prog"

definition emptyWorld :: world where
  "emptyWorld = \<lparr>net = [], clock = [], dbUsers = [], dbNextUserID = 1, dbSeasons = [], dbMatches = [], dbMatchPlayers = [],
     dbNextMatchID = 1, dbRankEvents = [], dbPlayerRanks = [], rdChunks = (\<lambda>_. None), rdClosed = (\<lambda>_. []),
     rdMineMatches = (\<lambda>_. None), rdUserMatch = (\<lambda>_. None), rdChunkLock = (\<lambda>_. None), rdQueues = (\<lambda>_. []),
     rdQueueUsers = (\<lambda>_. None), rdLeaderboard = (\<lambda>_. []), mqEvents = [], memRooms = []\<rparr>"

section \<open>Calls\<close>

definition popNet :: "world \<Rightarrow> outcome \<times> world" where
  "popNet w = (case net w of [] \<Rightarrow> (Done, w) | o1 # os \<Rightarrow> (o1, w\<lparr>net := os\<rparr>))"

text \<open>A call that reads.\<close>

definition rd :: "(world \<Rightarrow> 'a) \<Rightarrow> 'a io" where
  "rd f w = (case popNet w of (Done, w') \<Rightarrow> (Inr (f w'), w') | (_, w') \<Rightarrow> (Inl StoreErr, w'))"

text \<open>A call that writes and returns a value computed before the write.\<close>

definition wr :: "(world \<Rightarrow> 'a) \<Rightarrow> (world \<Rightarrow> world) \<Rightarrow> 'a io" where
  "wr f upd w = (case popNet w of
     (Done, w') \<Rightarrow> (Inr (f w'), upd w')
   | (Lost, w') \<Rightarrow> (Inl StoreErr, w')
   | (Unacked, w') \<Rightarrow> (Inl StoreErr, upd w'))"

definition timeNow :: "int io" where
  "timeNow w = (case clock w of
     [] \<Rightarrow> (Inr 0, w) | [t] \<Rightarrow> (Inr t, w) | t # ts \<Rightarrow> (Inr t, w\<lparr>clock := ts\<rparr>))"

section \<open>Reasoning about calls\<close>

text \<open>\<open>calm\<close>: no failure is pending. Failures are the only thing a \<open>calm\<close> world rules out.\<close>

definition calm :: "world \<Rightarrow> bool" where
  "calm w \<longleftrightarrow> net w = []"

lemma rd_calm [simp]: "net w = [] \<Longrightarrow> rd f w = (Inr (f w), w)"
  by (simp add: rd_def popNet_def)

lemma wr_calm [simp]: "net w = [] \<Longrightarrow> wr f upd w = (Inr (f w), upd w)"
  by (simp add: wr_def popNet_def)

lemma timeNow_Inr: "\<exists>t w'. timeNow w = (Inr t, w') \<and> (w' = w \<or> (\<exists>ts. w' = w\<lparr>clock := ts\<rparr>))"
  by (auto simp: timeNow_def split: list.splits)

lemma timeNow_const: "clock w = [t] \<Longrightarrow> timeNow w = (Inr t, w)"
  by (simp add: timeNow_def)

text \<open>An invariant of the stored data does not look at \<open>net\<close> and \<open>clock\<close>.\<close>

definition data_inv :: "(world \<Rightarrow> bool) \<Rightarrow> bool" where
  "data_inv I \<longleftrightarrow> (\<forall>w os. I (w\<lparr>net := os\<rparr>) = I w) \<and> (\<forall>w ts. I (w\<lparr>clock := ts\<rparr>) = I w)"

lemma data_invI [intro?]:
  "(\<And>w os. I (w\<lparr>net := os\<rparr>) = I w) \<Longrightarrow> (\<And>w ts. I (w\<lparr>clock := ts\<rparr>) = I w) \<Longrightarrow> data_inv I"
  by (simp add: data_inv_def)

lemma data_inv_conj: "data_inv I \<Longrightarrow> data_inv J \<Longrightarrow> data_inv (\<lambda>w. I w \<and> J w)"
  by (simp add: data_inv_def)

lemma popNet_inv: "data_inv I \<Longrightarrow> I w \<Longrightarrow> I (snd (popNet w))"
  by (auto simp: popNet_def data_inv_def split: list.splits)

lemma gives_rd: "data_inv I \<Longrightarrow> (\<And>w. I w \<Longrightarrow> P (f w)) \<Longrightarrow> gives I (rd f) P"
proof (rule givesI)
  fix w assume *: "data_inv I" "I w"
  then have "I (snd (popNet w))" by (rule popNet_inv)
  then show "I (snd (rd f w))" by (cases "popNet w") (auto simp: rd_def split: outcome.splits)
next
  fix w a assume *: "data_inv I" "I w" "\<And>w. I w \<Longrightarrow> P (f w)" "fst (rd f w) = Inr a"
  then have "I (snd (popNet w))" by (blast intro: popNet_inv)
  then show "P a" using * by (cases "popNet w") (auto simp: rd_def split: outcome.splits)
qed

lemma gives_wr:
  "data_inv I \<Longrightarrow> (\<And>w. I w \<Longrightarrow> I (upd w)) \<Longrightarrow> (\<And>w. I w \<Longrightarrow> P (f w)) \<Longrightarrow> gives I (wr f upd) P"
proof (rule givesI)
  fix w assume a: "data_inv I" "I w" "\<And>w. I w \<Longrightarrow> I (upd w)"
  then have "I (snd (popNet w))" by (blast intro: popNet_inv)
  then show "I (snd (wr f upd w))" using a(3) by (cases "popNet w") (auto simp: wr_def split: outcome.splits)
next
  fix w a assume *: "data_inv I" "I w" "\<And>w. I w \<Longrightarrow> P (f w)" "fst (wr f upd w) = Inr a"
  then have "I (snd (popNet w))" by (blast intro: popNet_inv)
  then show "P a" using * by (cases "popNet w") (auto simp: wr_def split: outcome.splits)
qed

lemma keeps_rd: "data_inv I \<Longrightarrow> keeps I (rd f)"
  by (rule gives_rd) auto

lemma keeps_wr: "data_inv I \<Longrightarrow> (\<And>w. I w \<Longrightarrow> I (upd w)) \<Longrightarrow> keeps I (wr f upd)"
  by (rule gives_wr) auto

lemma keeps_timeNow: "data_inv I \<Longrightarrow> keeps I timeNow"
  by (auto simp: gives_def timeNow_def data_inv_def split: list.splits)

text \<open>Reads and writes between two assertions about the stored data.\<close>

lemma triple_rd:
  assumes "data_inv P" "\<And>w. P w \<Longrightarrow> Q (f w) w" "\<And>w. P w \<Longrightarrow> E w"
  shows "triple P (rd f) Q E"
  using popNet_inv [OF assms(1)] assms(2,3)
  by (fastforce simp: triple_def rd_def split: prod.splits outcome.splits)

lemma triple_wr:
  assumes "data_inv P" "\<And>w. P w \<Longrightarrow> Q (f w) (upd w)" "\<And>w. P w \<Longrightarrow> E w" "\<And>w. P w \<Longrightarrow> E (upd w)"
  shows "triple P (wr f upd) Q E"
  using popNet_inv [OF assms(1)] assms(2-4)
  by (fastforce simp: triple_def wr_def split: prod.splits outcome.splits)

lemma triple_timeNow:
  assumes "data_inv P" "\<And>w t. P w \<Longrightarrow> Q t w"
  shows "triple P timeNow Q E"
  using assms by (auto simp: triple_def timeNow_def data_inv_def split: list.splits)

text \<open>What a call does to the stored data, failures included: \<open>same_data\<close> relates worlds that
  differ in \<open>net\<close> and \<open>clock\<close> only.\<close>

definition same_data :: "world \<Rightarrow> world \<Rightarrow> bool" where
  "same_data w w' \<longleftrightarrow> w' = w\<lparr>net := net w', clock := clock w'\<rparr>"

lemma same_data_refl [simp]: "same_data w w"
  by (simp add: same_data_def)

lemma same_dataI: "same_data w (w\<lparr>net := os, clock := ts\<rparr>)"
  by (simp add: same_data_def)

lemma same_dataE:
  assumes "same_data w w'"
  obtains os ts where "w' = w\<lparr>net := os, clock := ts\<rparr>"
  using assms unfolding same_data_def by blast

lemma same_data_trans: "same_data a b \<Longrightarrow> same_data b c \<Longrightarrow> same_data a c"
  by (elim same_dataE) (simp add: same_data_def)

lemma popNet_same: "same_data w (snd (popNet w))"
  by (simp add: popNet_def same_data_def split: list.splits)

lemma timeNow_same: "same_data w (snd (timeNow w))"
  by (simp add: timeNow_def same_data_def split: list.splits)

lemma rd_same: "same_data w (snd (rd f w))"
  using popNet_same [of w] by (cases "popNet w") (auto simp: rd_def split: outcome.splits)

lemma data_inv_same: "data_inv I \<Longrightarrow> same_data w w' \<Longrightarrow> I w' = I w"
  by (elim same_dataE) (simp add: data_inv_def)

end
