(* ===== verification/MineStores.thy ===== *)
theory MineStores
  imports World
begin

text \<open>
  The repositories the minefield uses: \<^verbatim>\<open>mine_season_repository.go\<close>,
  \<^verbatim>\<open>mine_chunk_state_repository.go\<close> and \<^verbatim>\<open>mine_match_repository.go\<close>. Behind them stand
  two contracts, stated as locales and discharged here for the repositories' own updates:
  \<open>keyed_store\<close> (with \<open>flag_index\<close> for the set of closed chunks kept beside the states) and
  \<open>lock_table\<close> (a held lock is out of reach of everybody but its owner).
\<close>

section \<open>Seasons\<close>

definition seasonOpenAt :: "int \<Rightarrow> MineSeason \<Rightarrow> bool" where
  "seasonOpenAt now s \<longleftrightarrow> seStatus s = MineSeasonStatusActive \<and> seStartedAt s \<le> now \<and>
     (case seEndedAt s of None \<Rightarrow> True | Some e \<Rightarrow> now < e)"

text \<open>\<^verbatim>\<open>ORDER BY started_at DESC, id DESC LIMIT 1\<close>.\<close>

definition seasonBefore :: "MineSeason \<Rightarrow> MineSeason \<Rightarrow> bool" where
  "seasonBefore a b \<longleftrightarrow> seStartedAt a < seStartedAt b \<or> (seStartedAt a = seStartedAt b \<and> seID a < seID b)"

fun latestSeason :: "MineSeason list \<Rightarrow> MineSeason option" where
  "latestSeason [] = None"
| "latestSeason (s # ss) =
     (case latestSeason ss of None \<Rightarrow> Some s | Some b \<Rightarrow> Some (if seasonBefore s b then b else s))"

definition GetActiveSeason :: "MineSeason option io" where
  "GetActiveSeason =
     andThen timeNow (\<lambda>now. rd (\<lambda>w. latestSeason (filter (seasonOpenAt now) (dbSeasons w))))"

lemma latestSeason_None: "latestSeason ss = None \<longleftrightarrow> ss = []"
  by (cases ss) (auto split: option.splits)

lemma seasonBefore_order: "\<not> seasonBefore b t \<Longrightarrow> \<not> seasonBefore s b \<Longrightarrow> \<not> seasonBefore s t"
  "seasonBefore s b \<Longrightarrow> \<not> seasonBefore b s" "\<not> seasonBefore s s"
  by (auto simp: seasonBefore_def)

lemma latestSeason_Some:
  "latestSeason ss = Some s \<Longrightarrow> s \<in> set ss \<and> (\<forall>t \<in> set ss. \<not> seasonBefore s t)"
proof (induction ss arbitrary: s)
  case Nil
  then show ?case by simp
next
  case (Cons a ss)
  show ?case
  proof (cases "latestSeason ss")
    case None
    then have "ss = []" by (simp add: latestSeason_None)
    then show ?thesis using Cons.prems by (simp add: seasonBefore_order)
  next
    case (Some b)
    note b = Cons.IH [OF Some]
    show ?thesis
    proof (cases "seasonBefore a b")
      case True
      then have "s = b" using Cons.prems Some by simp
      then show ?thesis using b seasonBefore_order(2) [OF True] by simp
    next
      case False
      then have "s = a" using Cons.prems Some by simp
      then show ?thesis using b False seasonBefore_order(1,3) by auto
    qed
  qed
qed

text \<open>The active season is one the query's conditions admit at the time read, and none admitted
  started later (nor, among those started together, has a larger id); there is none exactly
  when no season is admitted.\<close>

theorem GetActiveSeason_latest:
  assumes "net w = []" and "clock w = [t]" and "GetActiveSeason w = (Inr r, w')"
  shows "w' = w \<and> (case r of
      None \<Rightarrow> \<forall>s \<in> set (dbSeasons w). \<not> seasonOpenAt t s
    | Some s \<Rightarrow> s \<in> set (dbSeasons w) \<and> seasonOpenAt t s \<and>
        (\<forall>s' \<in> set (dbSeasons w). seasonOpenAt t s' \<longrightarrow>
           seStartedAt s' < seStartedAt s \<or> (seStartedAt s' = seStartedAt s \<and> seID s' \<le> seID s)))"
proof -
  let ?open = "filter (seasonOpenAt t) (dbSeasons w)"
  have r: "r = latestSeason ?open" "w' = w"
    using assms by (auto simp: GetActiveSeason_def andThen_def timeNow_const)
  show ?thesis
  proof (cases r)
    case None
    then have "?open = []" using r latestSeason_None by metis
    then show ?thesis using None r by (simp add: filter_empty_conv)
  next
    case (Some s)
    then have "s \<in> set ?open \<and> (\<forall>t \<in> set ?open. \<not> seasonBefore s t)"
      using r(1) latestSeason_Some by metis
    then show ?thesis using Some r by (auto simp: seasonBefore_def)
  qed
qed

definition twoSeasons :: world where
  "twoSeasons = emptyWorld\<lparr>clock := [50], dbSeasons := [exampleSeason, exampleSeason\<lparr>seID := 2, seStartedAt := 10\<rparr>]\<rparr>"

lemma GetActiveSeason_latest_witness:
  "seasonOpenAt 50 (exampleSeason\<lparr>seID := 2, seStartedAt := 10\<rparr>)"
proof -
  let ?s = "exampleSeason\<lparr>seID := 2, seStartedAt := 10\<rparr>"
  have "GetActiveSeason twoSeasons = (Inr (Some ?s), twoSeasons)"
    by (simp add: GetActiveSeason_def andThen_def timeNow_def twoSeasons_def emptyWorld_def exampleSeason_def
        seasonOpenAt_def MineSeasonStatusActive_def seasonBefore_def)
  then show ?thesis
    using GetActiveSeason_latest [of twoSeasons 50 "Some ?s" twoSeasons] by (simp add: twoSeasons_def emptyWorld_def)
qed

section \<open>The contract of a keyed store\<close>

text \<open>Every stored value satisfies \<open>P\<close>.\<close>

definition stored :: "('w \<Rightarrow> 'k \<Rightarrow> 'v option) \<Rightarrow> ('v \<Rightarrow> bool) \<Rightarrow> 'w \<Rightarrow> bool" where
  "stored lookup P w \<longleftrightarrow> (\<forall>k v. lookup w k = Some v \<longrightarrow> P v)"

lemma storedD: "stored lookup P w \<Longrightarrow> lookup w k = Some v \<Longrightarrow> P v"
  by (simp add: stored_def)

locale keyed_store =
  fixes lookup :: "'w \<Rightarrow> 'k \<Rightarrow> 'v option"
    and key :: "'v \<Rightarrow> 'k"
    and put :: "'v \<Rightarrow> 'w \<Rightarrow> 'w"
  assumes lookup_put: "lookup (put v w) k = (if k = key v then Some v else lookup w k)"
begin

lemma put_get [simp]: "lookup (put v w) (key v) = Some v"
  by (simp add: lookup_put)

lemma put_frame: "k \<noteq> key v \<Longrightarrow> lookup (put v w) k = lookup w k"
  by (simp add: lookup_put)

lemma stored_put: "stored lookup P w \<Longrightarrow> P v \<Longrightarrow> stored lookup P (put v w)"
  by (simp add: stored_def lookup_put)

text \<open>Values sit under their own key.\<close>

lemma keys_put: "(\<And>k v. lookup w k = Some v \<Longrightarrow> key v = k) \<Longrightarrow> lookup (put v w) k = Some u \<Longrightarrow> key u = k"
  by (auto simp: lookup_put split: if_splits)

end

text \<open>A store with an index of the keys whose value carries a flag.\<close>

locale flag_index = keyed_store lookup key put
  for lookup :: "'w \<Rightarrow> 'k \<Rightarrow> 'v option" and key :: "'v \<Rightarrow> 'k" and put :: "'v \<Rightarrow> 'w \<Rightarrow> 'w" +
  fixes flagged :: "'v \<Rightarrow> bool"
    and idx :: "'w \<Rightarrow> 'k set"
  assumes idx_put: "idx (put v w) = (if flagged v then insert (key v) (idx w) else idx w - {key v})"
begin

lemma idx_agrees_put:
  "idx w = {k. \<exists>v. lookup w k = Some v \<and> flagged v} \<Longrightarrow>
   idx (put u w) = {k. \<exists>v. lookup (put u w) k = Some v \<and> flagged v}"
  by (auto simp: idx_put lookup_put)

end

section \<open>The contract of a lock table\<close>

text \<open>
  What the matches rely on: a free lock can be taken, a held one can be released by its owner
  only. \<open>held_stays\<close> is the consequence they use: whatever the others do, in whatever order,
  a lock stays with its owner until the owner itself releases it.
\<close>

datatype ('k, 'm) lock_op = Take 'k 'm | Release 'k 'm

locale lock_table =
  fixes owner :: "'w \<Rightarrow> 'k \<Rightarrow> 'm option"
    and takeL :: "'k \<Rightarrow> 'm \<Rightarrow> 'w \<Rightarrow> 'w"
    and dropL :: "'k \<Rightarrow> 'm \<Rightarrow> 'w \<Rightarrow> 'w"
  assumes owner_take: "owner (takeL k m w) k' = (if k' = k \<and> owner w k = None then Some m else owner w k')"
    and owner_drop: "owner (dropL k m w) k' = (if k' = k \<and> owner w k = Some m then None else owner w k')"
begin

fun runOps :: "('k, 'm) lock_op list \<Rightarrow> 'w \<Rightarrow> 'w" where
  "runOps [] w = w"
| "runOps (Take k m # ops) w = runOps ops (takeL k m w)"
| "runOps (Release k m # ops) w = runOps ops (dropL k m w)"

lemma take_frees_nothing: "owner w k = Some m \<Longrightarrow> owner (takeL k' m' w) k = Some m"
  by (auto simp: owner_take)

lemma drop_other: "owner w k = Some m \<Longrightarrow> (k', m') \<noteq> (k, m) \<Longrightarrow> owner (dropL k' m' w) k = Some m"
  by (auto simp: owner_drop)

lemma held_stays: "owner w k = Some m \<Longrightarrow> Release k m \<notin> set ops \<Longrightarrow> owner (runOps ops w) k = Some m"
  by (induction ops w rule: runOps.induct) (auto simp: take_frees_nothing drop_other)

text \<open>The first taker of a free lock gets it, a second one does not.\<close>

lemma first_taker: "owner w k = None \<Longrightarrow> owner (takeL k m' (takeL k m w)) k = Some m"
  by (simp add: owner_take)

end

section \<open>Chunk states\<close>

definition storeChunk :: "MineChunkState \<Rightarrow> world \<Rightarrow> world" where
  "storeChunk st w = w\<lparr>
     rdChunks := (rdChunks w)((csSeasonID st, csChunkID st) := Some st),
     rdClosed := (rdClosed w)(csSeasonID st :=
       (if csClosed st then List.insert (csChunkID st) (rdClosed w (csSeasonID st))
        else filter (\<lambda>c. c \<noteq> csChunkID st) (rdClosed w (csSeasonID st))))\<rparr>"

definition GetState :: "int \<Rightarrow> string \<Rightarrow> MineChunkState option io" where
  "GetState seasonID chunkID = rd (\<lambda>w. rdChunks w (seasonID, chunkID))"

definition SaveState :: "MineChunkState \<Rightarrow> unit io" where
  "SaveState st = wr (\<lambda>_. ()) (storeChunk st)"

definition ListClosedLeafChunkIDs :: "int \<Rightarrow> string list io" where
  "ListClosedLeafChunkIDs seasonID = rd (\<lambda>w. rdClosed w seasonID)"

definition chunkKey :: "MineChunkState \<Rightarrow> int \<times> string" where
  "chunkKey st = (csSeasonID st, csChunkID st)"

definition closedKeys :: "world \<Rightarrow> (int \<times> string) set" where
  "closedKeys w = {(s, c). c \<in> set (rdClosed w s)}"

lemma storeChunk_frame [simp]:
  "rdMineMatches (storeChunk st w) = rdMineMatches w" "rdUserMatch (storeChunk st w) = rdUserMatch w"
  "rdChunkLock (storeChunk st w) = rdChunkLock w" "dbSeasons (storeChunk st w) = dbSeasons w"
  "dbMatches (storeChunk st w) = dbMatches w" "mqEvents (storeChunk st w) = mqEvents w"
  "net (storeChunk st w) = net w" "clock (storeChunk st w) = clock w"
  by (simp_all add: storeChunk_def)

interpretation cs: flag_index rdChunks chunkKey storeChunk csClosed closedKeys
proof unfold_locales
  show "rdChunks (storeChunk v w) k = (if k = chunkKey v then Some v else rdChunks w k)" for v w k
    by (simp add: storeChunk_def chunkKey_def)
  show "closedKeys (storeChunk v w) =
        (if csClosed v then insert (chunkKey v) (closedKeys w) else closedKeys w - {chunkKey v})" for v w
    by (auto simp: closedKeys_def storeChunk_def chunkKey_def split: if_splits)
qed

text \<open>The closed set of a season lists exactly the chunks stored as closed, each once.\<close>

definition closed_index_ok :: "world \<Rightarrow> bool" where
  "closed_index_ok w \<longleftrightarrow>
     (\<forall>s c. c \<in> set (rdClosed w s) \<longleftrightarrow> (\<exists>st. rdChunks w (s, c) = Some st \<and> csClosed st)) \<and>
     (\<forall>s. distinct (rdClosed w s))"

lemma closed_index_ok_storeChunk: "closed_index_ok w \<Longrightarrow> closed_index_ok (storeChunk st w)"
  using cs.idx_agrees_put [of w st]
  by (auto simp: closed_index_ok_def closedKeys_def storeChunk_def chunkKey_def distinct_insert)

section \<open>Match states, player bindings and chunk locks\<close>

definition storeMatch :: "MineMatchState \<Rightarrow> world \<Rightarrow> world" where
  "storeMatch st w = w\<lparr>rdMineMatches := (rdMineMatches w)(mmMatchID st := Some st)\<rparr>"

definition GetMatchState :: "int \<Rightarrow> MineMatchState option io" where
  "GetMatchState matchID = rd (\<lambda>w. rdMineMatches w matchID)"

definition SaveMatchState :: "MineMatchState \<Rightarrow> unit io" where
  "SaveMatchState st = wr (\<lambda>_. ()) (storeMatch st)"

definition GetActiveMatchByUser :: "int \<Rightarrow> MineMatchState option io" where
  "GetActiveMatchByUser userID =
     andThen (rd (\<lambda>w. rdUserMatch w userID)) (\<lambda>raw. case raw of
       None \<Rightarrow> ret None
     | Some matchID \<Rightarrow> andThen (GetMatchState matchID) (\<lambda>state. case state of
         None \<Rightarrow> ret None
       | Some st \<Rightarrow> ret (if mmStatus st \<noteq> MineMatchStatusOngoing then None else Some st)))"

definition bindUsers :: "int list \<Rightarrow> int option \<Rightarrow> world \<Rightarrow> world" where
  "bindUsers us m w = w\<lparr>rdUserMatch := (\<lambda>u. if u \<in> set us then m else rdUserMatch w u)\<rparr>"

text \<open>One pipelined transaction; an empty pipeline never reaches the network.\<close>

definition pipeUsers :: "int list \<Rightarrow> int option \<Rightarrow> unit io" where
  "pipeUsers us m = (if us = [] then ret () else wr (\<lambda>_. ()) (bindUsers us m))"

definition SetActiveMatchForUsers :: "MineMatchState \<Rightarrow> unit io" where
  "SetActiveMatchForUsers st = pipeUsers (mkeys (mmUserTeams st)) (Some (mmMatchID st))"

definition DeleteActiveMatchForUsers :: "MineMatchState \<Rightarrow> unit io" where
  "DeleteActiveMatchForUsers st = pipeUsers (mkeys (mmUserTeams st)) None"

definition GetChunkLock :: "int \<Rightarrow> string \<Rightarrow> int io" where
  "GetChunkLock seasonID chunkID =
     rd (\<lambda>w. case rdChunkLock w (seasonID, chunkID) of None \<Rightarrow> 0 | Some m \<Rightarrow> m)"

text \<open>\<^verbatim>\<open>SETNX\<close> and \<^verbatim>\<open>DEL\<close> on a lock key.\<close>

definition takeLock :: "int \<times> string \<Rightarrow> int \<Rightarrow> world \<Rightarrow> world" where
  "takeLock k m w = (if rdChunkLock w k = None then w\<lparr>rdChunkLock := (rdChunkLock w)(k \<mapsto> m)\<rparr> else w)"

definition dropLock :: "int \<times> string \<Rightarrow> world \<Rightarrow> world" where
  "dropLock k w = w\<lparr>rdChunkLock := (rdChunkLock w)(k := None)\<rparr>"

definition TryLockChunk :: "int \<Rightarrow> string \<Rightarrow> int \<Rightarrow> bool io" where
  "TryLockChunk seasonID chunkID matchID =
     wr (\<lambda>w. rdChunkLock w (seasonID, chunkID) = None) (takeLock (seasonID, chunkID) matchID)"

definition UnlockChunk :: "int \<Rightarrow> string \<Rightarrow> int \<Rightarrow> unit io" where
  "UnlockChunk seasonID chunkID matchID =
     andThen (rd (\<lambda>w. rdChunkLock w (seasonID, chunkID))) (\<lambda>raw. case raw of
       None \<Rightarrow> ret ()
     | Some lockedMatchID \<Rightarrow>
         if lockedMatchID \<noteq> matchID then ret ()
         else wr (\<lambda>_. ()) (dropLock (seasonID, chunkID)))"

text \<open>The effect of an \<^verbatim>\<open>UnlockChunk\<close> that goes through.\<close>

definition dropOwn :: "int \<times> string \<Rightarrow> int \<Rightarrow> world \<Rightarrow> world" where
  "dropOwn k m w = (if rdChunkLock w k = Some m then dropLock k w else w)"

interpretation ms: keyed_store rdMineMatches mmMatchID storeMatch
  by unfold_locales (simp add: storeMatch_def)

interpretation lk: lock_table rdChunkLock takeLock dropOwn
  by unfold_locales (auto simp: takeLock_def dropOwn_def dropLock_def)

lemma UnlockChunk_calm: "net w = [] \<Longrightarrow> UnlockChunk s c m w = (Inr (), dropOwn (s, c) m w)"
  by (simp add: UnlockChunk_def andThen_def ret_def dropOwn_def split: option.splits)

lemma GetActiveMatchByUser_calm:
  "net w = [] \<Longrightarrow> GetActiveMatchByUser u w =
     (Inr (case rdUserMatch w u of None \<Rightarrow> None | Some m \<Rightarrow>
        (case rdMineMatches w m of None \<Rightarrow> None
         | Some st \<Rightarrow> if mmStatus st = MineMatchStatusOngoing then Some st else None)), w)"
  by (simp add: GetActiveMatchByUser_def GetMatchState_def andThen_def ret_def split: option.splits)

section \<open>What the operations keep\<close>

text \<open>The repository calls written as reads and writes of the stored data.\<close>

lemma gives_GetState:
  "data_inv I \<Longrightarrow> (\<And>w. I w \<Longrightarrow> P (rdChunks w (s, c))) \<Longrightarrow> gives I (GetState s c) P"
  by (simp add: GetState_def gives_rd)

lemma keeps_SaveState: "data_inv I \<Longrightarrow> (\<And>w. I w \<Longrightarrow> I (storeChunk st w)) \<Longrightarrow> keeps I (SaveState st)"
  by (simp add: SaveState_def keeps_wr)

lemma gives_GetMatchState:
  "data_inv I \<Longrightarrow> (\<And>w. I w \<Longrightarrow> P (rdMineMatches w m)) \<Longrightarrow> gives I (GetMatchState m) P"
  by (simp add: GetMatchState_def gives_rd)

lemma keeps_SaveMatchState:
  "data_inv I \<Longrightarrow> (\<And>w. I w \<Longrightarrow> I (storeMatch st w)) \<Longrightarrow> keeps I (SaveMatchState st)"
  by (simp add: SaveMatchState_def keeps_wr)

lemma keeps_pipeUsers:
  "data_inv I \<Longrightarrow> (\<And>w. I w \<Longrightarrow> I (bindUsers us m w)) \<Longrightarrow> keeps I (pipeUsers us m)"
  by (auto simp: pipeUsers_def intro: keeps_wr gives_ret)

lemma gives_GetActiveMatchByUser:
  assumes "data_inv I" and "\<And>w. I w \<Longrightarrow> stored rdMineMatches Q w" and "P None"
    and "\<And>st. Q st \<Longrightarrow> mmStatus st = MineMatchStatusOngoing \<Longrightarrow> P (Some st)"
  shows "gives I (GetActiveMatchByUser u) P"
  unfolding GetActiveMatchByUser_def
proof (rule gives_andThen [OF keeps_rd])
  show "data_inv I" by fact
  fix raw :: "int option"
  have get: "gives I (GetMatchState m) (\<lambda>v. \<forall>st. v = Some st \<longrightarrow> Q st)" for m
    using assms(1,2) by (intro gives_GetMatchState) (auto dest: storedD)
  show "gives I (case raw of None \<Rightarrow> ret None
     | Some matchID \<Rightarrow> andThen (GetMatchState matchID) (\<lambda>state. case state of
         None \<Rightarrow> ret None
       | Some st \<Rightarrow> ret (if mmStatus st \<noteq> MineMatchStatusOngoing then None else Some st))) P"
    using assms(3,4) by (auto intro!: gives_intros gives_andThen [OF get])
qed

lemma keeps_UnlockChunk:
  assumes "data_inv I"
    and "\<And>w w'. I w \<Longrightarrow> rdChunkLock w (s, c) = Some m \<Longrightarrow> I w' \<Longrightarrow> I (dropLock (s, c) w')"
  shows "keeps I (UnlockChunk s c m)"
proof -
  let ?P = "\<lambda>raw. raw = Some m \<longrightarrow> (\<forall>w'. I w' \<longrightarrow> I (dropLock (s, c) w'))"
  have "gives I (rd (\<lambda>w. rdChunkLock w (s, c))) ?P"
    using assms by (intro gives_rd) auto
  then show ?thesis unfolding UnlockChunk_def
    using assms(1) by (auto intro!: gives_intros keeps_wr elim!: gives_andThen)
qed

end
