(* ===== verification/MatchService.thy ===== *)
theory MatchService
  imports MineStores
begin

text \<open>
  Match records: \<^verbatim>\<open>internal/service/match_service.go\<close> over
  \<^verbatim>\<open>internal/repository/match_repository.go\<close>. A MySQL transaction is the list of rows it
  has staged; they reach the tables when it commits. An auto-increment id is consumed even
  by a transaction that is rolled back.
\<close>

section \<open>Repository\<close>

record MatchTx =
  txMatches :: "MatchRow list"
  txPlayers :: "MatchPlayer list"

definition BeginTx :: "MatchTx io" where
  "BeginTx = rd (\<lambda>_. \<lparr>txMatches = [], txPlayers = []\<rparr>)"

definition RollbackTx :: "unit io" where
  "RollbackTx = rd (\<lambda>_. ())"

definition CommitTx :: "MatchTx \<Rightarrow> unit io" where
  "CommitTx tx = wr (\<lambda>_. ()) (\<lambda>w. w\<lparr>dbMatches := dbMatches w @ txMatches tx,
                                       dbMatchPlayers := dbMatchPlayers w @ txPlayers tx\<rparr>)"

definition CreateMatch :: "MatchTx \<Rightarrow> MatchRow \<Rightarrow> (int \<times> MatchTx) io" where
  "CreateMatch tx m =
     onErr (wr (\<lambda>w. (dbNextMatchID w, tx\<lparr>txMatches := txMatches tx @ [m\<lparr>maID := dbNextMatchID w\<rparr>]\<rparr>))
               (\<lambda>w. w\<lparr>dbNextMatchID := dbNextMatchID w + 1\<rparr>))
           (\<lambda>e. fail (Wrap ''err:'' e))"

text \<open>One insert; the table has a unique key on match and user.\<close>

definition insertMatchPlayer :: "MatchTx \<Rightarrow> MatchPlayer \<Rightarrow> MatchTx io" where
  "insertMatchPlayer tx mp =
     andThen (rd (\<lambda>w. \<exists>r \<in> set (dbMatchPlayers w @ txPlayers tx).
                         mpMatchID r = mpMatchID mp \<and> mpUserID r = mpUserID mp)) (\<lambda>dup.
     if dup then fail DupKeyErr else ret (tx\<lparr>txPlayers := txPlayers tx @ [mp]\<rparr>))"

fun AddMatchPlayer :: "MatchTx \<Rightarrow> MatchPlayer list \<Rightarrow> MatchTx io" where
  "AddMatchPlayer tx [] = ret tx"
| "AddMatchPlayer tx (mp # mps) = andThen (insertMatchPlayer tx mp) (\<lambda>tx'. AddMatchPlayer tx' mps)"

fun findMatch :: "int \<Rightarrow> MatchRow list \<Rightarrow> MatchRow option" where
  "findMatch i [] = None"
| "findMatch i (r # rs) = (if maID r = i then Some r else findMatch i rs)"

definition GetMatchByID :: "int \<Rightarrow> MatchRow option io" where
  "GetMatchByID matchID = rd (\<lambda>w. findMatch matchID (dbMatches w))"

text \<open>The \<^verbatim>\<open>UPDATE\<close> leaves the mode column alone.\<close>

definition updateMatchRow :: "MatchRow \<Rightarrow> world \<Rightarrow> world" where
  "updateMatchRow m w = w\<lparr>dbMatches := map (\<lambda>r. if maID r = maID m
     then r\<lparr>maStatus := maStatus m, maWinTeamNo := maWinTeamNo m, maStartedAt := maStartedAt m,
            maFinishedAt := maFinishedAt m, maRoomID := maRoomID m\<rparr> else r) (dbMatches w)\<rparr>"

definition UpdateMatch :: "MatchRow \<Rightarrow> MatchRow option io" where
  "UpdateMatch m =
     andThen (onErr (wr (\<lambda>_. ()) (updateMatchRow m)) (\<lambda>e. fail (Wrap ''err:'' e))) (\<lambda>_.
     onErr (GetMatchByID (maID m)) (\<lambda>e. fail (Wrap ''err:'' e)))"

definition GetMatchPlayers :: "int \<Rightarrow> MatchPlayer list io" where
  "GetMatchPlayers matchID = rd (\<lambda>w. filter (\<lambda>r. mpMatchID r = matchID) (dbMatchPlayers w))"

section \<open>Service\<close>

definition buildPlayerFromMatch :: "int \<Rightarrow> MatchedTeam list \<Rightarrow> MatchPlayer list" where
  "buildPlayerFromMatch matchID teams = concat (map (\<lambda>t. map (\<lambda>u.
     \<lparr>mpMatchID = matchID, mpUserID = u, mpTeamNo = mtTeamID t\<rparr>) (mtUserIDs t)) teams)"

definition newMatchRow :: "int \<Rightarrow> MatchQueueResult \<Rightarrow> MatchRow" where
  "newMatchRow now q = \<lparr>maID = 0, maStatus = MatchStatusOngoing, maWinTeamNo = None, maStartedAt = now,
     maRoomID = mqRoomID q, maFinishedAt = None, maMode = mqMode q\<rparr>"

text \<open>The statements between \<^verbatim>\<open>BeginTx\<close> and \<^verbatim>\<open>Commit\<close>.\<close>

definition stageMatch :: "MatchTx \<Rightarrow> MatchQueueResult \<Rightarrow> (int \<times> MatchTx) io" where
  "stageMatch tx q =
     andThen timeNow (\<lambda>now.
     andThen (CreateMatch tx (newMatchRow now q)) (\<lambda>(matchID, tx1).
     andThen (AddMatchPlayer tx1 (buildPlayerFromMatch matchID (mqTeams q))) (\<lambda>tx2.
     ret (matchID, tx2))))"

definition CreateMatchFromQueue :: "MatchQueueResult \<Rightarrow> int io" where
  "CreateMatchFromQueue q =
     andThen BeginTx (\<lambda>tx.
     andThen (onErr (stageMatch tx q) (\<lambda>e. andThen (ignoreErr RollbackTx) (\<lambda>_. fail e))) (\<lambda>(matchID, tx').
     andThen (CommitTx tx') (\<lambda>_. ret matchID)))"

text \<open>\<^verbatim>\<open>publisher.PublishJSON\<close> with the routing key of finished matches, which is bound to
  the queue of the rank worker. The message text of its error is in Chinese in the code.\<close>

definition PublishJSON :: "MatchResultFinishedEvent \<Rightarrow> unit io" where
  "PublishJSON e = onErr (wr (\<lambda>_. ()) (\<lambda>w. w\<lparr>mqEvents := mqEvents w @ [e]\<rparr>)) (\<lambda>x. fail (Wrap ''publish failed: '' x))"

definition SetMatchResult :: "bool \<Rightarrow> int \<Rightarrow> int \<Rightarrow> unit io" where
  "SetMatchResult publisher matchID winTeamNo =
     andThen (GetMatchByID matchID) (\<lambda>found. case found of
       None \<Rightarrow> fail (Errorf (''match with ID '' @ itoa matchID @ '' not found''))
     | Some m \<Rightarrow>
         andThen timeNow (\<lambda>now.
         andThen (UpdateMatch (m\<lparr>maWinTeamNo := Some winTeamNo, maStatus := MatchStatusFinished,
                                 maFinishedAt := Some now\<rparr>)) (\<lambda>_.
         if \<not> publisher then ret ()
         else andThen timeNow (\<lambda>t. PublishJSON
           \<lparr>evEventID = ''evt_'' @ itoa matchID, evMatchID = matchID, evWinTeamNo = winTeamNo,
            evMode = maMode m, evOccurredAt = t\<rparr>))))"

text \<open>A failing player query is logged and answered with no players.\<close>

definition getPlayerFromMatch :: "int \<Rightarrow> MatchPlayer list io" where
  "getPlayerFromMatch matchID = onErr (GetMatchPlayers matchID) (\<lambda>_. ret [])"

definition GetMatchInfo :: "int \<Rightarrow> MatchInfoResponse io" where
  "GetMatchInfo matchID =
     andThen (GetMatchByID matchID) (\<lambda>found. case found of
       None \<Rightarrow> fail (Errorf (''match with ID '' @ itoa matchID @ '' not found''))
     | Some m \<Rightarrow> andThen (getPlayerFromMatch matchID) (\<lambda>ps.
         ret \<lparr>miID = maID m, miStatus = maStatus m, miWinTeamNo = maWinTeamNo m, miStartedAt = maStartedAt m,
              miRoomID = maRoomID m, miFinishedAt = maFinishedAt m, miMode = maMode m, miPlayers = ps\<rparr>))"

section \<open>Creating a match\<close>

text \<open>The stored data without the counter of match ids, and an invariant that pins it down.\<close>

definition tables :: "world \<Rightarrow> world" where
  "tables w = w\<lparr>net := [], clock := [], dbNextMatchID := 0\<rparr>"

lemma data_inv_tables: "data_inv (\<lambda>w. tables w = W)"
  by (rule data_invI) (simp_all add: tables_def)

lemma AddMatchPlayer_stages:
  "gives (\<lambda>w. tables w = W) (AddMatchPlayer tx mps) (\<lambda>tx'. tx' = tx\<lparr>txPlayers := txPlayers tx @ mps\<rparr>)"
proof (induction mps arbitrary: tx)
  case Nil
  show ?case by (simp add: gives_ret)
next
  case (Cons mp mps)
  have "gives (\<lambda>w. tables w = W) (insertMatchPlayer tx mp) (\<lambda>tx'. tx' = tx\<lparr>txPlayers := txPlayers tx @ [mp]\<rparr>)"
    unfolding insertMatchPlayer_def
    by (rule gives_andThen [OF keeps_rd [OF data_inv_tables]]) (auto intro!: gives_intros)
  then show ?case unfolding AddMatchPlayer.simps
    by (rule gives_andThen) (use Cons.IH in simp, rule gives_weaken, rule Cons.IH, simp)
qed

text \<open>What is staged for a queue result: one match row with the players of its teams.\<close>

definition stagedFor :: "MatchQueueResult \<Rightarrow> int \<times> MatchTx \<Rightarrow> bool" where
  "stagedFor q r \<longleftrightarrow> (case r of (i, tx) \<Rightarrow>
     (\<exists>t. txMatches tx = [(newMatchRow t q)\<lparr>maID := i\<rparr>]) \<and> txPlayers tx = buildPlayerFromMatch i (mqTeams q))"

lemma stageMatch_stages:
  "gives (\<lambda>w. tables w = W) (stageMatch \<lparr>txMatches = [], txPlayers = []\<rparr> q) (stagedFor q)"
  unfolding stageMatch_def
proof (rule gives_andThen [OF keeps_timeNow [OF data_inv_tables]])
  fix t :: int
  let ?tx = "\<lparr>txMatches = [], txPlayers = []\<rparr>"
  let ?I = "\<lambda>w. tables w = W"
  have cm: "gives ?I (CreateMatch ?tx (newMatchRow t q))
      (\<lambda>(i, tx). tx = ?tx\<lparr>txMatches := [(newMatchRow t q)\<lparr>maID := i\<rparr>]\<rparr>)"
    unfolding CreateMatch_def
    by (rule gives_onErr [OF gives_wr [OF data_inv_tables]]) (auto simp: tables_def intro: gives_fail)
  show "gives ?I (andThen (CreateMatch ?tx (newMatchRow t q)) (\<lambda>(matchID, tx1).
     andThen (AddMatchPlayer tx1 (buildPlayerFromMatch matchID (mqTeams q))) (\<lambda>tx2. ret (matchID, tx2))))
     (stagedFor q)"
    by (rule gives_andThen [OF cm])
      (auto simp: stagedFor_def intro!: gives_intros gives_andThen [OF AddMatchPlayer_stages])
qed

text \<open>Everything before the commit leaves the tables alone.\<close>

lemma staging_stages:
  "gives (\<lambda>w. tables w = W)
     (andThen BeginTx (\<lambda>tx. onErr (stageMatch tx q) (\<lambda>e. andThen (ignoreErr RollbackTx) (\<lambda>_. fail e)))) (stagedFor q)"
proof (rule gives_andThen)
  show "gives (\<lambda>w. tables w = W) BeginTx (\<lambda>tx. tx = \<lparr>txMatches = [], txPlayers = []\<rparr>)"
    unfolding BeginTx_def by (rule gives_rd [OF data_inv_tables]) simp
next
  fix tx :: MatchTx assume "tx = \<lparr>txMatches = [], txPlayers = []\<rparr>"
  then show "gives (\<lambda>w. tables w = W)
      (onErr (stageMatch tx q) (\<lambda>e. andThen (ignoreErr RollbackTx) (\<lambda>_. fail e))) (stagedFor q)"
    unfolding RollbackTx_def
    by (auto intro!: gives_onErr stageMatch_stages gives_andThen gives_ignoreErr keeps_rd data_inv_tables gives_fail)
qed

lemma tables_commute:
  "tables (w\<lparr>dbMatches := ms, dbMatchPlayers := ps\<rparr>) = (tables w)\<lparr>dbMatches := ms, dbMatchPlayers := ps\<rparr>"
  by (cases w) (simp add: tables_def)

text \<open>The commit takes effect as a whole or not at all.\<close>

lemma CommitTx_outcome:
  assumes "CommitTx tx w1 = (r, w')" "tables w1 = tables w"
  shows "(tables w' = tables w \<and> r = Inl StoreErr) \<or>
    tables w' = (tables w)\<lparr>dbMatches := dbMatches w @ txMatches tx, dbMatchPlayers := dbMatchPlayers w @ txPlayers tx\<rparr>"
proof -
  obtain out w2 where w2: "popNet w1 = (out, w2)" by (cases "popNet w1")
  have t2: "tables w2 = tables w"
    using popNet_same [of w1] assms(2) by (auto simp: w2 tables_def elim!: same_dataE)
  have d2: "dbMatches w2 = dbMatches w" "dbMatchPlayers w2 = dbMatchPlayers w"
    using arg_cong [OF t2, of dbMatches] arg_cong [OF t2, of dbMatchPlayers] by (simp_all add: tables_def)
  have "tables (w2\<lparr>dbMatches := dbMatches w2 @ txMatches tx, dbMatchPlayers := dbMatchPlayers w2 @ txPlayers tx\<rparr>)
      = (tables w)\<lparr>dbMatches := dbMatches w @ txMatches tx, dbMatchPlayers := dbMatchPlayers w @ txPlayers tx\<rparr>"
    using t2 by (simp flip: t2 add: d2 tables_commute)
  then show ?thesis using assms(1) t2 by (cases out) (auto simp: CommitTx_def wr_def w2)
qed

text \<open>(C25) Creating a match is all or nothing, whatever the database does: either the tables are
  as before and the caller sees an error, or one row for the match (ongoing, with the room and
  mode of the queue result) and exactly one row for every player of its teams were added and
  nothing else changed; an id the caller gets is the id of that row.\<close>

theorem CreateMatchFromQueue_atomic:
  assumes "CreateMatchFromQueue q w = (r, w')"
  shows "(tables w' = tables w \<and> (\<exists>e. r = Inl e)) \<or>
     (\<exists>i t. tables w' = (tables w)\<lparr>
          dbMatches := dbMatches w @ [\<lparr>maID = i, maStatus = MatchStatusOngoing, maWinTeamNo = None, maStartedAt = t,
             maRoomID = mqRoomID q, maFinishedAt = None, maMode = mqMode q\<rparr>],
          dbMatchPlayers := dbMatchPlayers w @ concat (map (\<lambda>tm. map (\<lambda>u.
             \<lparr>mpMatchID = i, mpUserID = u, mpTeamNo = mtTeamID tm\<rparr>) (mtUserIDs tm)) (mqTeams q))\<rparr> \<and>
        (\<forall>j. r = Inr j \<longrightarrow> j = i))"
proof -
  let ?stage = "andThen BeginTx (\<lambda>tx. onErr (stageMatch tx q) (\<lambda>e. andThen (ignoreErr RollbackTx) (\<lambda>_. fail e)))"
  obtain x w1 where x: "?stage w = (x, w1)" by (cases "?stage w")
  have run: "CreateMatchFromQueue q w = (case x of Inl e \<Rightarrow> (Inl e, w1)
       | Inr p \<Rightarrow> (case p of (i, tx) \<Rightarrow> andThen (CommitTx tx) (\<lambda>_. ret i)) w1)"
    unfolding CreateMatchFromQueue_def andThen_assoc [symmetric]
    by (subst andThen_def) (simp add: x split: sum.splits)
  have w1: "tables w1 = tables w" and st: "\<And>p. x = Inr p \<Longrightarrow> stagedFor q p"
    using givesD [OF staging_stages [where W = "tables w" and q = q] refl]
      givesD_val [OF staging_stages [where W = "tables w" and q = q] refl] x by auto
  show ?thesis
  proof (cases x)
    case (Inl e)
    then show ?thesis using run assms w1 by simp
  next
    case (Inr p)
    obtain i tx where p: "p = (i, tx)" by (cases p)
    obtain t where tx: "txMatches tx = [(newMatchRow t q)\<lparr>maID := i\<rparr>]"
        "txPlayers tx = buildPlayerFromMatch i (mqTeams q)"
      using st [OF Inr] by (auto simp: p stagedFor_def)
    obtain rc w2 where c: "CommitTx tx w1 = (rc, w2)" by (cases "CommitTx tx w1")
    have "(r, w') = (case rc of Inl e \<Rightarrow> (Inl e, w2) | Inr _ \<Rightarrow> (Inr i, w2))"
      using run assms Inr p c by (simp add: andThen_def ret_def split: sum.splits)
    then show ?thesis using CommitTx_outcome [OF c w1] tx
      by (cases rc) (auto simp: newMatchRow_def buildPlayerFromMatch_def)
  qed
qed

definition duelResult :: MatchQueueResult where
  "duelResult = \<lparr>mqRoomID = ''r'', mqMode = ''1v1'', mqTeams = [mkTeam 1 [7], mkTeam 2 [8]]\<rparr>"

lemma CreateMatchFromQueue_atomic_witness:
  "(\<exists>w'. CreateMatchFromQueue duelResult (emptyWorld\<lparr>net := [Done, Done, Done, Done, Unacked]\<rparr>) = (Inl StoreErr, w') \<and>
     length (dbMatches w') = 1) \<and> length (dbMatches emptyWorld) = 0"
proof -
  let ?w = "emptyWorld\<lparr>net := [Done, Done, Done, Done, Unacked]\<rparr>"
  obtain r w' where c: "CreateMatchFromQueue duelResult ?w = (r, w')" by (cases "CreateMatchFromQueue duelResult ?w")
  have r: "r = Inl StoreErr" "dbMatches w' \<noteq> []"
    using c by (auto simp: CreateMatchFromQueue_def duelResult_def prog_defs BeginTx_def rd_def wr_def popNet_def
        stageMatch_def timeNow_def emptyWorld_def CreateMatch_def newMatchRow_def buildPlayerFromMatch_def mkTeam_def
        insertMatchPlayer_def CommitTx_def)
  have "length (dbMatches w') = 1"
    using CreateMatchFromQueue_atomic [OF c] r by (auto simp: tables_def emptyWorld_def dest!: arg_cong [of _ _ dbMatches])
  then show ?thesis using c r by (simp add: emptyWorld_def)
qed

section \<open>Finishing a match\<close>

lemma findMatch_map:
  "(\<And>r. maID (f r) = maID r) \<Longrightarrow> findMatch i (map f rs) = map_option f (findMatch i rs)"
  by (induction rs) auto

lemma findMatch_ID: "findMatch i rs = Some r \<Longrightarrow> maID r = i \<and> r \<in> set rs"
  by (induction rs) (auto split: if_splits)

definition finishedRow :: "world \<Rightarrow> int \<Rightarrow> bool" where
  "finishedRow w i \<longleftrightarrow> (case findMatch i (dbMatches w) of None \<Rightarrow> False
     | Some r \<Rightarrow> maStatus r = MatchStatusFinished \<and> maWinTeamNo r \<noteq> None)"

text \<open>Every published event is about a match whose row is finished and has a winner.\<close>

definition events_ok :: "world \<Rightarrow> bool" where
  "events_ok w \<longleftrightarrow> (\<forall>e \<in> set (mqEvents w). evEventID e = ''evt_'' @ itoa (evMatchID e) \<and> finishedRow w (evMatchID e))"

lemma data_inv_finishedRow: "data_inv (\<lambda>w. finishedRow w i)"
  by (rule data_invI) (simp_all add: finishedRow_def)

lemma data_inv_events_ok: "data_inv events_ok"
  by (rule data_invI) (simp_all add: events_ok_def finishedRow_def)

lemma data_inv_hasMatch: "data_inv (\<lambda>w. findMatch i (dbMatches w) \<noteq> None)"
  by (rule data_invI) simp_all

lemma findMatch_updateMatchRow:
  "findMatch i (dbMatches (updateMatchRow m w)) = map_option (\<lambda>r. if i = maID m
     then r\<lparr>maStatus := maStatus m, maWinTeamNo := maWinTeamNo m, maStartedAt := maStartedAt m,
            maFinishedAt := maFinishedAt m, maRoomID := maRoomID m\<rparr> else r) (findMatch i (dbMatches w))"
  by (cases "findMatch i (dbMatches w)") (auto simp: updateMatchRow_def findMatch_map dest: findMatch_ID)

lemma finishedRow_update:
  "maStatus m = MatchStatusFinished \<Longrightarrow> maWinTeamNo m \<noteq> None \<Longrightarrow>
   finishedRow w i \<or> (i = maID m \<and> findMatch i (dbMatches w) \<noteq> None) \<Longrightarrow> finishedRow (updateMatchRow m w) i"
proof -
  assume m: "maStatus m = MatchStatusFinished" "maWinTeamNo m \<noteq> None"
    and "finishedRow w i \<or> (i = maID m \<and> findMatch i (dbMatches w) \<noteq> None)"
  then obtain r where r: "findMatch i (dbMatches w) = Some r" and
      fin: "i \<noteq> maID m \<Longrightarrow> maStatus r = MatchStatusFinished \<and> maWinTeamNo r \<noteq> None"
    by (auto simp: finishedRow_def split: option.splits)
  show ?thesis
    using m fin r by (cases "i = maID m") (auto simp: finishedRow_def findMatch_updateMatchRow)
qed

lemma mqEvents_updateMatchRow [simp]: "mqEvents (updateMatchRow m w) = mqEvents w"
  by (simp add: updateMatchRow_def)

lemma SetMatchResult_triple:
  "triple events_ok (SetMatchResult pub i team) (\<lambda>_ w. events_ok w \<and> finishedRow w i) events_ok"
proof -
  have "data_inv (\<lambda>w. events_ok w \<and> findMatch i (dbMatches w) \<noteq> None)"
    by (rule data_inv_conj [OF data_inv_events_ok data_inv_hasMatch])
  note has = this
  have fin: "data_inv (\<lambda>w. events_ok w \<and> finishedRow w i)"
    by (rule data_inv_conj [OF data_inv_events_ok data_inv_finishedRow])
  have upd: "triple (\<lambda>w. events_ok w \<and> findMatch i (dbMatches w) \<noteq> None)
       (UpdateMatch (m\<lparr>maWinTeamNo := Some team, maStatus := MatchStatusFinished, maFinishedAt := Some now\<rparr>))
       (\<lambda>_ w. events_ok w \<and> finishedRow w i) events_ok" if "maID m = i" for m now
    unfolding UpdateMatch_def GetMatchByID_def
    by (rule triple_andThen [OF triple_wrapErr [OF triple_wr [OF has]] triple_wrapErr [OF triple_rd [OF fin]]])
      (auto simp: events_ok_def that intro!: finishedRow_update)
  have pubj: "triple (\<lambda>w. events_ok w \<and> finishedRow w i)
       (PublishJSON \<lparr>evEventID = ''evt_'' @ itoa i, evMatchID = i, evWinTeamNo = team, evMode = md, evOccurredAt = t\<rparr>)
       (\<lambda>_ w. events_ok w \<and> finishedRow w i) events_ok" for md t
    unfolding PublishJSON_def
    by (rule triple_wrapErr [OF triple_wr [OF fin]]) (auto simp: events_ok_def finishedRow_def)
  have get: "triple events_ok (GetMatchByID i)
      (\<lambda>f w. events_ok w \<and> findMatch i (dbMatches w) = f) events_ok"
    unfolding GetMatchByID_def by (rule triple_rd [OF data_inv_events_ok]) auto
  show ?thesis
    unfolding SetMatchResult_def
  proof (rule triple_andThen [OF get])
    fix f :: "MatchRow option"
    show "triple (\<lambda>w. events_ok w \<and> findMatch i (dbMatches w) = f)
       (case f of None \<Rightarrow> fail (Errorf (''match with ID '' @ itoa i @ '' not found''))
        | Some m \<Rightarrow> andThen timeNow (\<lambda>now.
            andThen (UpdateMatch (m\<lparr>maWinTeamNo := Some team, maStatus := MatchStatusFinished, maFinishedAt := Some now\<rparr>))
             (\<lambda>_. if \<not> pub then ret () else andThen timeNow (\<lambda>t. PublishJSON
               \<lparr>evEventID = ''evt_'' @ itoa i, evMatchID = i, evWinTeamNo = team, evMode = maMode m, evOccurredAt = t\<rparr>))))
       (\<lambda>_ w. events_ok w \<and> finishedRow w i) events_ok"
    proof (cases f)
      case None
      then show ?thesis by (auto intro!: triple_fail)
    next
      case (Some m)
      show ?thesis
      proof (cases "maID m = i")
        case True
        have tail: "triple (\<lambda>w. events_ok w \<and> finishedRow w i)
            (if \<not> pub then ret () else andThen timeNow (\<lambda>t. PublishJSON
               \<lparr>evEventID = ''evt_'' @ itoa i, evMatchID = i, evWinTeamNo = team, evMode = maMode m, evOccurredAt = t\<rparr>))
            (\<lambda>_ w. events_ok w \<and> finishedRow w i) events_ok"
        proof (cases pub)
          case True
          then have b: "\<not> \<not> pub" by simp
          show ?thesis unfolding if_not_P [OF b]
            by (rule triple_andThen [OF triple_timeNow [OF fin]]) (assumption, rule pubj)
        qed (simp add: triple_ret)
        have "triple (\<lambda>w. events_ok w \<and> findMatch i (dbMatches w) \<noteq> None)
          (andThen timeNow (\<lambda>now.
            andThen (UpdateMatch (m\<lparr>maWinTeamNo := Some team, maStatus := MatchStatusFinished, maFinishedAt := Some now\<rparr>))
             (\<lambda>_. if \<not> pub then ret () else andThen timeNow (\<lambda>t. PublishJSON
               \<lparr>evEventID = ''evt_'' @ itoa i, evMatchID = i, evWinTeamNo = team, evMode = maMode m, evOccurredAt = t\<rparr>))))
          (\<lambda>_ w. events_ok w \<and> finishedRow w i) events_ok"
          by (rule triple_andThen [OF triple_timeNow [OF has]])
            (assumption, rule triple_andThen [OF upd [OF True] tail])
        then show ?thesis unfolding Some option.case by (rule triple_weaken) auto
      next
        case False
        then show ?thesis unfolding Some by (auto simp: triple_def dest: findMatch_ID)
      qed
    qed
  qed
qed

text \<open>(C30) Events and rows agree under every failure of the database and the broker: a published
  event always carries the event id derived from its match, and that match's row is already
  finished with a winner; a call that reports success has finished the row.\<close>

theorem SetMatchResult_event_follows_row:
  assumes "\<forall>e \<in> set (mqEvents w). evEventID e = ''evt_'' @ itoa (evMatchID e) \<and> finishedRow w (evMatchID e)"
    and "SetMatchResult pub i team w = (r, w')"
  shows "(\<forall>e \<in> set (mqEvents w'). evEventID e = ''evt_'' @ itoa (evMatchID e) \<and> finishedRow w' (evMatchID e)) \<and>
    (r = Inr () \<longrightarrow> finishedRow w' i)"
proof -
  have "events_ok w" using assms(1) by (simp add: events_ok_def)
  then have "case SetMatchResult pub i team w of (Inl e, w') \<Rightarrow> events_ok w' | (Inr a, w') \<Rightarrow> events_ok w' \<and> finishedRow w' i"
    using SetMatchResult_triple [of pub i team] by (simp add: triple_def)
  then show ?thesis unfolding assms(2) by (cases r) (auto simp: events_ok_def)
qed

text \<open>The calm case, for the callers.\<close>

definition finishRow :: "int \<Rightarrow> int \<Rightarrow> int \<Rightarrow> world \<Rightarrow> world" where
  "finishRow i team t w = w\<lparr>dbMatches := map (\<lambda>r. if maID r = i
     then r\<lparr>maStatus := MatchStatusFinished, maWinTeamNo := Some team, maFinishedAt := Some t\<rparr> else r) (dbMatches w)\<rparr>"

definition matchEvent :: "int \<Rightarrow> int \<Rightarrow> string \<Rightarrow> int \<Rightarrow> MatchResultFinishedEvent" where
  "matchEvent i team mode t = \<lparr>evEventID = ''evt_'' @ itoa i, evMatchID = i, evWinTeamNo = team,
     evMode = mode, evOccurredAt = t\<rparr>"

definition oneMatch :: world where
  "oneMatch = emptyWorld\<lparr>clock := [9], dbMatches :=
     [(newMatchRow 3 duelResult)\<lparr>maID := 5\<rparr>]\<rparr>"

lemma SetMatchResult_event_follows_row_witness:
  "\<exists>w'. SetMatchResult True 5 1 oneMatch = (Inr (), w') \<and> finishedRow w' 5 \<and> mqEvents w' = [matchEvent 5 1 ''1v1'' 9]"
proof -
  obtain r w' where c: "SetMatchResult True 5 1 oneMatch = (r, w')" by (cases "SetMatchResult True 5 1 oneMatch")
  have v: "r = Inr ()" "mqEvents w' = [matchEvent 5 1 ''1v1'' 9]"
    using c by (auto simp: SetMatchResult_def GetMatchByID_def UpdateMatch_def updateMatchRow_def PublishJSON_def prog_defs
        rd_def wr_def popNet_def oneMatch_def emptyWorld_def timeNow_def newMatchRow_def duelResult_def matchEvent_def)
  have "finishedRow w' 5"
    using SetMatchResult_event_follows_row [OF _ c] v(1) by (simp add: oneMatch_def emptyWorld_def)
  then show ?thesis using c v by simp
qed

end
