(* ===== verification/MineMatch.thy ===== *)
theory MineMatch
  imports MatchService
begin

text \<open>
  Matches on the minefield: \<^verbatim>\<open>internal/service/mine_match_service.go\<close>. A match gets a clean
  chunk of the deepest level for itself (\<open>AssignChunkForMatch\<close>), only its players may work on
  that chunk and nowhere else (\<open>AuthorizeChunkOperation\<close>), and every cell they open is scored
  until a mine or the last safe cell ends the match (\<open>ApplyOpenResult\<close>).

  The random order in which chunks are tried is an argument (\<^verbatim>\<open>rand.Perm\<close>). Which of the
  optional collaborators the service was built with is the record \<open>wiring\<close>.
\<close>

record wiring =
  wiMine :: bool
  wiMatch :: bool
  wiMatchService :: bool
  wiPublisher :: bool

definition fullWiring :: wiring where
  "fullWiring = \<lparr>wiMine = True, wiMatch = True, wiMatchService = True, wiPublisher = True\<rparr>"

section \<open>Responses and match states\<close>

definition attachMineMatchResponse :: "OpenMineCellResponse \<Rightarrow> MineMatchState \<Rightarrow> OpenMineCellResponse" where
  "attachMineMatchResponse r st = r\<lparr>opMatchID := mmMatchID st, opMatchScores := mmPlayerScores st,
     opMatchFinished := (mmStatus st = MineMatchStatusFinished), opWinTeamNo := mmWinTeamNo st\<rparr>"

definition addTeam :: "MineMatchState \<Rightarrow> MatchedTeam \<Rightarrow> MineMatchState" where
  "addTeam st t = st\<lparr>
     mmTeams := mput (mtTeamID t) (mtUserIDs t) (mmTeams st),
     mmUserTeams := foldl (\<lambda>m u. mput u (mtTeamID t) m) (mmUserTeams st) (mtUserIDs t),
     mmPlayerScores := foldl (\<lambda>m u. mput u 0 m) (mmPlayerScores st) (mtUserIDs t)\<rparr>"

definition buildMineMatchState ::
  "int \<Rightarrow> int \<Rightarrow> string \<Rightarrow> int \<Rightarrow> string \<Rightarrow> MatchedTeam list \<Rightarrow> MineMatchState" where
  "buildMineMatchState now matchID roomID seasonID chunkID teams = foldl addTeam
     \<lparr>mmMatchID = matchID, mmRoomID = roomID, mmSeasonID = seasonID, mmChunkID = chunkID,
      mmStatus = MineMatchStatusOngoing, mmTeams = [], mmUserTeams = [], mmPlayerScores = [],
      mmLastScoreAt = [], mmWinTeamNo = None, mmStartedAt = now, mmFinishedAt = None\<rparr> teams"

section \<open>Choosing a chunk\<close>

definition isCleanChunk :: "int \<Rightarrow> string \<Rightarrow> bool io" where
  "isCleanChunk seasonID chunkID =
     andThen (GetState seasonID chunkID) (\<lambda>state. ret (case state of
       None \<Rightarrow> True
     | Some st \<Rightarrow> \<not> csClosed st \<and> mlen (csOpenedCells st) = 0 \<and> mlen (csFlaggedBy st) = 0))"

definition isCleanUnlockedChunk :: "int \<Rightarrow> string \<Rightarrow> bool io" where
  "isCleanUnlockedChunk seasonID chunkID =
     andThen (GetChunkLock seasonID chunkID) (\<lambda>lockedMatchID.
       if lockedMatchID \<noteq> 0 then ret False else isCleanChunk seasonID chunkID)"

definition candidateChunk :: "int \<Rightarrow> int \<Rightarrow> string" where
  "candidateChunk gridSize v = chunkString (mkChunkID ''cn'' ChunkMaxLevel (v mod gridSize) (v div gridSize))"

fun tryChunks :: "int \<Rightarrow> int \<Rightarrow> int \<Rightarrow> int list \<Rightarrow> string io" where
  "tryChunks gridSize seasonID matchID [] = fail ErrMineMatchNoChunk"
| "tryChunks gridSize seasonID matchID (v # vs) =
     (let chunkID = candidateChunk gridSize v in
      andThen (isCleanUnlockedChunk seasonID chunkID) (\<lambda>clean.
      if \<not> clean then tryChunks gridSize seasonID matchID vs
      else andThen (TryLockChunk seasonID chunkID matchID) (\<lambda>locked.
      if \<not> locked then tryChunks gridSize seasonID matchID vs
      else andThen (onErr (isCleanChunk seasonID chunkID) (\<lambda>e.
              andThen (ignoreErr (UnlockChunk seasonID chunkID matchID)) (\<lambda>_. fail e))) (\<lambda>stillClean.
      if \<not> stillClean
      then andThen (ignoreErr (UnlockChunk seasonID chunkID matchID)) (\<lambda>_. tryChunks gridSize seasonID matchID vs)
      else ret chunkID))))"

definition findAndLockCleanChunk :: "int list \<Rightarrow> int \<Rightarrow> int \<Rightarrow> string io" where
  "findAndLockCleanChunk perm seasonID matchID =
     andThen (liftE (ChunkGridSize ChunkMaxLevel)) (\<lambda>gridSize. tryChunks gridSize seasonID matchID perm)"

definition AssignChunkForMatch ::
  "wiring \<Rightarrow> int list \<Rightarrow> int \<Rightarrow> string \<Rightarrow> MatchedTeam list \<Rightarrow> string io" where
  "AssignChunkForMatch wi perm matchID roomID teams =
     (if \<not> wiMatch wi then ret ''''
      else andThen GetActiveSeason (\<lambda>season. case season of
        None \<Rightarrow> fail ErrNoActiveSeason
      | Some s \<Rightarrow>
          andThen (findAndLockCleanChunk perm (seID s) matchID) (\<lambda>chunkID.
          andThen timeNow (\<lambda>now.
          let state = buildMineMatchState now matchID roomID (seID s) chunkID teams;
              unlock = (\<lambda>e. andThen (ignoreErr (UnlockChunk (seID s) chunkID matchID)) (\<lambda>_. fail e))
          in andThen (onErr (SaveMatchState state) unlock) (\<lambda>_.
             andThen (onErr (SetActiveMatchForUsers state) unlock) (\<lambda>_.
             ret chunkID))))))"

section \<open>Permission\<close>

definition AuthorizeChunkOperation :: "wiring \<Rightarrow> int \<Rightarrow> int \<Rightarrow> string \<Rightarrow> MineMatchState option io" where
  "AuthorizeChunkOperation wi userID seasonID chunkID =
     (if \<not> wiMatch wi then ret None
      else andThen (GetActiveMatchByUser userID) (\<lambda>activeMatch. case activeMatch of
        Some m \<Rightarrow> if mmChunkID m \<noteq> chunkID then fail ErrMineMatchWrongChunk else ret (Some m)
      | None \<Rightarrow> andThen (GetChunkLock seasonID chunkID) (\<lambda>lockedMatchID.
          if lockedMatchID \<noteq> 0 then fail ErrMineMatchChunkOccupied else ret None)))"

section \<open>Scoring\<close>

text \<open>The cells in the order of the two loops over \<^verbatim>\<open>y\<close> and \<^verbatim>\<open>x\<close>.\<close>

definition boardCells :: "(int \<times> int) list" where
  "boardCells = concat (map (\<lambda>y. map (\<lambda>x. (x, y)) [0..ChunkSize - 1]) [0..ChunkSize - 1])"

fun countSafe :: "mac \<Rightarrow> MineSeason \<Rightarrow> ChunkID \<Rightarrow> (int \<times> int) list \<Rightarrow> int \<Rightarrow> err + int" where
  "countSafe mac season c [] n = Inr n"
| "countSafe mac season c ((x, y) # cells) n =
     bindE (IsMine mac (Some season) c x y) (\<lambda>isMine.
       countSafe mac season c cells (if \<not> isMine then n + 1 else n))"

definition allSafeCellsOpened :: "mac \<Rightarrow> MineSeason \<Rightarrow> ChunkID \<Rightarrow> MineChunkState \<Rightarrow> err + bool" where
  "allSafeCellsOpened mac season c st =
     (if mlen (csOpenedCells st) = 0 then Inr False
      else bindE (countSafe mac season c boardCells 0) (\<lambda>safeCells. Inr (mlen (csOpenedCells st) \<ge> safeCells)))"

definition opponentTeam :: "MineMatchState \<Rightarrow> int \<Rightarrow> err + int" where
  "opponentTeam st userID = (case mget (mmUserTeams st) userID of
     None \<Rightarrow> Inl (Errorf (''user '' @ itoa userID @ '' is not in mine match '' @ itoa (mmMatchID st)))
   | Some userTeam \<Rightarrow> (case filter (\<lambda>t. t \<noteq> userTeam) (mkeys (mmTeams st)) of
       [] \<Rightarrow> Inl (Errorf (''opponent team not found for mine match '' @ itoa (mmMatchID st)))
     | teamNo # _ \<Rightarrow> Inr teamNo))"

text \<open>Score of a team and the earliest of its players' last scoring times, 0 for none.\<close>

fun teamTotals :: "MineMatchState \<Rightarrow> int list \<Rightarrow> int \<Rightarrow> int \<Rightarrow> int \<times> int" where
  "teamTotals st [] teamScore teamLastScoreAt = (teamScore, teamLastScoreAt)"
| "teamTotals st (u # us) teamScore teamLastScoreAt =
     (let lastScoreAt = mget0 0 (mmLastScoreAt st) u in
      teamTotals st us (wrap64 (teamScore + mget0 0 (mmPlayerScores st) u))
        (if lastScoreAt > 0 \<and> (teamLastScoreAt = 0 \<or> lastScoreAt < teamLastScoreAt)
         then lastScoreAt else teamLastScoreAt))"

fun scoreLoop ::
  "MineMatchState \<Rightarrow> (int, int list) gomap \<Rightarrow> (int \<times> int \<times> int) option \<Rightarrow> (int \<times> int \<times> int) option" where
  "scoreLoop st [] winner = winner"
| "scoreLoop st ((teamNo, us) # rest) winner =
     (let (teamScore, teamLast) = teamTotals st us 0 0 in
      scoreLoop st rest (case winner of
        None \<Rightarrow> Some (teamNo, teamScore, teamLast)
      | Some (winnerTeam, winnerScore, winnerLast) \<Rightarrow>
          if teamScore > winnerScore
             \<or> (teamScore = winnerScore \<and> teamLast > 0 \<and> (winnerLast = 0 \<or> teamLast < winnerLast))
             \<or> (teamScore = winnerScore \<and> teamLast = winnerLast \<and> teamNo < winnerTeam)
          then Some (teamNo, teamScore, teamLast) else winner))"

definition scoreWinnerTeam :: "MineMatchState \<Rightarrow> err + int" where
  "scoreWinnerTeam st = (case scoreLoop st (mmTeams st) None of
     None \<Rightarrow> Inl (Errorf (''winner team not found for mine match '' @ itoa (mmMatchID st)))
   | Some (winnerTeam, _) \<Rightarrow> Inr winnerTeam)"

section \<open>Results\<close>

definition finishMatch ::
  "wiring \<Rightarrow> MineMatchState \<Rightarrow> int \<Rightarrow> int \<Rightarrow> OpenMineCellResponse \<Rightarrow> OpenMineCellResponse io" where
  "finishMatch wi st winTeamNo finishedAt resp =
     (if mmStatus st = MineMatchStatusFinished then ret (attachMineMatchResponse resp st)
      else andThen (if wiMatchService wi then SetMatchResult (wiPublisher wi) (mmMatchID st) winTeamNo else ret ()) (\<lambda>_.
        let st' = st\<lparr>mmStatus := MineMatchStatusFinished, mmWinTeamNo := Some winTeamNo,
                     mmFinishedAt := Some finishedAt\<rparr> in
        andThen (SaveMatchState st') (\<lambda>_.
        andThen (DeleteActiveMatchForUsers st') (\<lambda>_.
        andThen (UnlockChunk (mmSeasonID st') (mmChunkID st') (mmMatchID st')) (\<lambda>_.
        ret (attachMineMatchResponse resp st'))))))"

definition addScore :: "MineMatchState \<Rightarrow> int \<Rightarrow> int \<Rightarrow> int \<Rightarrow> MineMatchState" where
  "addScore st userID n now = st\<lparr>
     mmPlayerScores := mput userID (wrap64 (mget0 0 (mmPlayerScores st) userID + n)) (mmPlayerScores st),
     mmLastScoreAt := mput userID now (mmLastScoreAt st)\<rparr>"

definition ApplyOpenResult ::
  "mac \<Rightarrow> wiring \<Rightarrow> int \<Rightarrow> MineSeason \<Rightarrow> ChunkID \<Rightarrow> MineChunkState \<Rightarrow> OpenMineCellResponse
   \<Rightarrow> OpenMineCellResponse io" where
  "ApplyOpenResult mac wi userID season c st resp0 =
     (if \<not> wiMatch wi then ret resp0
      else andThen (GetActiveMatchByUser userID) (\<lambda>active. case active of
        None \<Rightarrow> ret resp0
      | Some matchState \<Rightarrow>
          if mmChunkID matchState \<noteq> chunkString c then ret resp0
          else let resp = attachMineMatchResponse resp0 matchState in
            if opCanceled resp then ret resp
            else if opMine resp then
              andThen (liftE (opponentTeam matchState userID)) (\<lambda>winTeamNo.
              andThen timeNow (\<lambda>now. finishMatch wi matchState winTeamNo now resp))
            else
              andThen (if opNewOpenedCount resp > 0
                 then andThen timeNow (\<lambda>now.
                   let m' = addScore matchState userID (opNewOpenedCount resp) now in
                   andThen (SaveMatchState m') (\<lambda>_. ret (m', attachMineMatchResponse resp m')))
                 else ret (matchState, resp)) (\<lambda>(m', resp').
              andThen (liftE (allSafeCellsOpened mac season c st)) (\<lambda>completed.
              if \<not> completed then ret resp'
              else andThen (liftE (scoreWinnerTeam m')) (\<lambda>winTeamNo.
                andThen timeNow (\<lambda>now. finishMatch wi m' winTeamNo now resp'))))))"

end
