(* ===== verification/MatchScore.thy ===== *)
theory MatchScore
  imports MineMatch "HOL-Library.Product_Lexorder"
begin

text \<open>
  The winner on points. The loop of \<^verbatim>\<open>scoreWinnerTeam\<close> runs over a Go map, whose order is
  random: the theorem shows that the comparison it makes is a strict total order on teams,
  so that the result is the best team whatever the order.
\<close>

section \<open>Specification\<close>

definition teamScore :: "MineMatchState \<Rightarrow> int list \<Rightarrow> int" where
  "teamScore st us = sum_list (map (mget0 0 (mmPlayerScores st)) us)"

text \<open>Earliest scoring time of a team, 0 when nobody scored.\<close>

definition earliest :: "int list \<Rightarrow> int" where
  "earliest ts = (let S = set (filter (\<lambda>t. t > 0) ts) in if S = {} then 0 else Min S)"

definition teamTime :: "MineMatchState \<Rightarrow> int list \<Rightarrow> int" where
  "teamTime st us = earliest (map (mget0 0 (mmLastScoreAt st)) us)"

text \<open>More points; at equal points the earlier time; at equal times the smaller number.\<close>

definition team_beats :: "MineMatchState \<Rightarrow> int \<times> int list \<Rightarrow> int \<times> int list \<Rightarrow> bool" where
  "team_beats st a b \<longleftrightarrow> (case (a, b) of ((t, us), (t', us')) \<Rightarrow>
     teamScore st us > teamScore st us' \<or>
     (teamScore st us = teamScore st us' \<and>
       ((teamTime st us > 0 \<and> (teamTime st us' = 0 \<or> teamTime st us < teamTime st us')) \<or>
        (teamTime st us = teamTime st us' \<and> t < t'))))"

definition scores_small :: "MineMatchState \<Rightarrow> bool" where
  "scores_small st \<longleftrightarrow> (\<forall>u. 0 \<le> mget0 0 (mmPlayerScores st) u \<and> mget0 0 (mmPlayerScores st) u \<le> 16384) \<and>
     (\<forall>(t, us) \<in> set (mmTeams st). length us \<le> 1000)"

section \<open>The totals of a team\<close>

lemma earliest_Nil [simp]: "earliest [] = 0"
  by (simp add: earliest_def)

lemma earliest_alt: "earliest ts = (if {t \<in> set ts. 0 < t} = {} then 0 else Min {t \<in> set ts. 0 < t})"
  unfolding earliest_def Let_def set_filter by (rule refl)

lemma earliest_nonneg: "0 \<le> earliest ts"
proof (cases "{t \<in> set ts. 0 < t} = {}")
  case False
  then have "Min {t \<in> set ts. 0 < t} \<in> {t \<in> set ts. 0 < t}" by (intro Min_in) auto
  then show ?thesis by (auto simp: earliest_def Let_def)
qed (simp add: earliest_def)

lemma earliest_Cons:
  "earliest (t # ts) = (if t > 0 \<and> (earliest ts = 0 \<or> t < earliest ts) then t else earliest ts)"
proof (cases "{x \<in> set ts. 0 < x} = {}")
  case True
  then have "{x \<in> set (t # ts). 0 < x} = (if t > 0 then {t} else {})" by auto
  then show ?thesis using True by (simp add: earliest_def)
next
  case False
  let ?S = "{x \<in> set ts. 0 < x}"
  have m: "earliest ts = Min ?S" using False by (auto simp: earliest_def Let_def)
  have "Min ?S \<in> ?S" using False by (intro Min_in) auto
  then have pos: "0 < Min ?S" by simp
  have set: "{x \<in> set (t # ts). 0 < x} = (if t > 0 then insert t ?S else ?S)" by auto
  have "earliest (t # ts) = Min {x \<in> set (t # ts). 0 < x}"
    unfolding earliest_alt [of "t # ts"] by (rule if_not_P) (use False in auto)
  then have "earliest (t # ts) = (if t > 0 then min t (Min ?S) else Min ?S)"
    unfolding set using False by (cases "t > 0") simp_all
  then show ?thesis using m pos by (simp add: min_def)
qed

text \<open>The accumulator of the loop is one more time.\<close>

lemma earliest_acc:
  "0 \<le> l \<Longrightarrow> earliest ((if t > 0 \<and> (l = 0 \<or> t < l) then t else l) # ts) = earliest (l # t # ts)"
  using earliest_nonneg [of ts] by (simp add: earliest_Cons) linarith

lemma teamTotals_eq:
  assumes "\<And>u. 0 \<le> mget0 0 (mmPlayerScores st) u \<and> mget0 0 (mmPlayerScores st) u \<le> 16384"
    and "0 \<le> s" "s + 16384 * int (length us) < 2 ^ 60" "0 \<le> l"
  shows "teamTotals st us s l =
     (s + teamScore st us, earliest (l # map (mget0 0 (mmLastScoreAt st)) us))"
  using assms(2-)
proof (induction us arbitrary: s l)
  case Nil
  then show ?case by (simp add: teamScore_def earliest_Cons)
next
  case (Cons u us)
  let ?p = "mget0 0 (mmPlayerScores st) u" and ?t = "mget0 0 (mmLastScoreAt st) u"
  let ?l = "if ?t > 0 \<and> (l = 0 \<or> ?t < l) then ?t else l"
  note p = assms(1) [of u]
  have "wrap64 (s + ?p) = s + ?p"
    using Cons.prems p by (intro wrap64_id) (simp add: in64_def)
  then have "teamTotals st (u # us) s l = teamTotals st us (s + ?p) ?l"
    by (simp add: Let_def)
  also have "\<dots> = (s + ?p + teamScore st us, earliest (?l # map (mget0 0 (mmLastScoreAt st)) us))"
    using Cons.prems p by (intro Cons.IH) auto
  also have "earliest (?l # map (mget0 0 (mmLastScoreAt st)) us)
      = earliest (l # ?t # map (mget0 0 (mmLastScoreAt st)) us)"
    using Cons.prems(3) by (rule earliest_acc)
  finally show ?case by (simp add: teamScore_def)
qed

lemma teamTotals_start:
  "scores_small st \<Longrightarrow> (t, us) \<in> set (mmTeams st) \<Longrightarrow> teamTotals st us 0 0 = (teamScore st us, teamTime st us)"
  by (subst teamTotals_eq) (force simp: scores_small_def teamTime_def earliest_Cons)+

section \<open>The comparison\<close>

lemma teamTime_nonneg: "0 \<le> teamTime st us"
  by (simp add: teamTime_def earliest_nonneg)

text \<open>The comparison is the lexicographic one on a key, with the teams that never scored last.\<close>

definition teamKey :: "MineMatchState \<Rightarrow> int \<times> int list \<Rightarrow> int \<times> bool \<times> int \<times> int" where
  "teamKey st a = (- teamScore st (snd a), teamTime st (snd a) = 0, teamTime st (snd a), fst a)"

lemma team_beats_key: "team_beats st a b \<longleftrightarrow> teamKey st a < teamKey st b"
  using teamTime_nonneg [of st "snd a"] teamTime_nonneg [of st "snd b"]
  by (cases a; cases b) (simp add: team_beats_def teamKey_def, linarith)

lemma team_beats_trans: "team_beats st a b \<Longrightarrow> team_beats st b c \<Longrightarrow> team_beats st a c"
  by (simp add: team_beats_key)

lemma team_beats_total: "fst a \<noteq> fst b \<Longrightarrow> team_beats st a b \<or> team_beats st b a"
  by (auto simp: team_beats_key teamKey_def)

section \<open>The loop\<close>

text \<open>The loop variables hold a team with its totals.\<close>

definition totalsOf :: "MineMatchState \<Rightarrow> int \<times> int list \<Rightarrow> int \<times> int \<times> int" where
  "totalsOf st a = (fst a, teamScore st (snd a), teamTime st (snd a))"

lemma scoreLoop_step:
  "scores_small st \<Longrightarrow> a \<in> set (mmTeams st) \<Longrightarrow>
   scoreLoop st (a # rest) (Some (totalsOf st b)) =
   scoreLoop st rest (Some (totalsOf st (if team_beats st a b then a else b)))"
  by (cases a; cases b) (auto simp: teamTotals_start totalsOf_def team_beats_def)

lemma scoreLoop_best:
  assumes "scores_small st" "set rest \<subseteq> set (mmTeams st)" "distinct (map fst (b # rest))"
  shows "\<exists>a \<in> set (b # rest). scoreLoop st rest (Some (totalsOf st b)) = Some (totalsOf st a) \<and>
           (\<forall>c \<in> set (b # rest). c \<noteq> a \<longrightarrow> team_beats st a c)"
  using assms(2,3)
proof (induction rest arbitrary: b)
  case Nil
  then show ?case by simp
next
  case (Cons c rest)
  let ?b = "if team_beats st c b then c else b"
  let ?o = "if team_beats st c b then b else c"
  have o: "team_beats st ?b ?o" using Cons.prems team_beats_total [of c b st] by auto
  have "set rest \<subseteq> set (mmTeams st)" "distinct (map fst (?b # rest))" using Cons.prems by auto
  then obtain a where a: "a \<in> set (?b # rest)" "scoreLoop st rest (Some (totalsOf st ?b)) = Some (totalsOf st a)"
      "\<forall>d \<in> set (?b # rest). d \<noteq> a \<longrightarrow> team_beats st a d"
    using Cons.IH by blast
  have ao: "team_beats st a ?o"
  proof (cases "a = ?b")
    case True
    show ?thesis by (subst True) (rule o)
  next
    case False
    then have "team_beats st a ?b" using a(3) by simp
    then show ?thesis using o by (rule team_beats_trans)
  qed
  have "\<forall>d \<in> set (b # c # rest). d \<noteq> a \<longrightarrow> team_beats st a d"
    using a(3) ao by (cases "team_beats st c b") simp_all
  moreover have "a \<in> set (b # c # rest)" using a(1) by (auto split: if_splits)
  ultimately show ?case
    using a(2) scoreLoop_step [OF assms(1), of c rest b] Cons.prems(1) by auto
qed

lemma scoreWinnerTeam_best:
  assumes "scores_small st" "map_ok (mmTeams st)" "mmTeams st \<noteq> []"
  obtains t us where "(t, us) \<in> set (mmTeams st)" "scoreWinnerTeam st = Inr t"
    "\<And>c. c \<in> set (mmTeams st) \<Longrightarrow> c \<noteq> (t, us) \<Longrightarrow> team_beats st (t, us) c"
proof -
  obtain b rest where br: "mmTeams st = b # rest" using assms(3) by (cases "mmTeams st") auto
  have "scoreLoop st (mmTeams st) None = scoreLoop st rest (Some (totalsOf st b))"
    using teamTotals_start [OF assms(1), of "fst b" "snd b"] by (cases b) (simp add: br totalsOf_def)
  moreover have "\<exists>a \<in> set (b # rest). scoreLoop st rest (Some (totalsOf st b)) = Some (totalsOf st a) \<and>
       (\<forall>c \<in> set (b # rest). c \<noteq> a \<longrightarrow> team_beats st a c)"
    using assms(2) by (intro scoreLoop_best [OF assms(1)]) (auto simp: br map_ok_def mkeys_def)
  then obtain a where a: "a \<in> set (mmTeams st)" "scoreLoop st rest (Some (totalsOf st b)) = Some (totalsOf st a)"
      "\<forall>c \<in> set (mmTeams st). c \<noteq> a \<longrightarrow> team_beats st a c"
    unfolding br by blast
  ultimately show ?thesis
    using that [of "fst a" "snd a"] by (simp add: scoreWinnerTeam_def totalsOf_def)
qed

text \<open>(C35) The winner on points is the team that beats every other one: more points, at equal points
  the team that scored first, at equal times the smaller number. The order in which the map of
  teams is iterated does not matter.\<close>

theorem scoreWinnerTeam_order_free:
  assumes "map_ok (mmTeams st)" and "mmTeams st \<noteq> []" and "scores_small st"
    and "map_ok ts" and "set ts = set (mmTeams st)"
  shows "\<exists>t us. mget (mmTeams st) t = Some us \<and> scoreWinnerTeam (st\<lparr>mmTeams := ts\<rparr>) = Inr t \<and>
    (\<forall>t' us'. mget (mmTeams st) t' = Some us' \<longrightarrow> t' \<noteq> t \<longrightarrow>
       teamScore st us > teamScore st us' \<or>
       (teamScore st us = teamScore st us' \<and>
         ((teamTime st us > 0 \<and> (teamTime st us' = 0 \<or> teamTime st us < teamTime st us')) \<or>
          (teamTime st us = teamTime st us' \<and> t < t'))))"
proof -
  let ?st = "st\<lparr>mmTeams := ts\<rparr>"
  have same: "team_beats ?st = team_beats st"
    by (auto simp: fun_eq_iff team_beats_def teamScore_def teamTime_def)
  have "scores_small ?st" "map_ok (mmTeams ?st)" "mmTeams ?st \<noteq> []"
    using assms by (auto simp: scores_small_def)
  then obtain t us where t: "(t, us) \<in> set ts" "scoreWinnerTeam ?st = Inr t"
      "\<And>c. c \<in> set ts \<Longrightarrow> c \<noteq> (t, us) \<Longrightarrow> team_beats ?st (t, us) c"
    by (rule scoreWinnerTeam_best) auto
  have "team_beats st (t, us) (t', us')" if "mget (mmTeams st) t' = Some us'" "t' \<noteq> t" for t' us'
    using t(3) [of "(t', us')"] that assms(5) map_of_SomeD same by fastforce
  then show ?thesis
    using t(1,2) assms(1,5) by (intro exI [of _ t] exI [of _ us]) (simp add: mget_set team_beats_def)
qed

definition pointsMatch :: MineMatchState where
  "pointsMatch = (buildMineMatchState 0 9 ''r'' 1 ''cn:6:10:20'' [mkTeam 1 [7], mkTeam 2 [8]])
     \<lparr>mmPlayerScores := [(7, 40), (8, 40)], mmLastScoreAt := [(7, 200), (8, 150)]\<rparr>"

lemma scoreWinnerTeam_order_free_witness:
  "scoreWinnerTeam (pointsMatch\<lparr>mmTeams := [(2, [8]), (1, [7])]\<rparr>) = Inr 2"
proof -
  have s: "scores_small pointsMatch" "mmTeams pointsMatch = [(1, [7]), (2, [8])]"
    by (auto simp: scores_small_def pointsMatch_def buildMineMatchState_def addTeam_def mkTeam_def mget0_def)
  have t: "teamScore pointsMatch [7] = 40" "teamScore pointsMatch [8] = 40"
      "teamTime pointsMatch [7] = 200" "teamTime pointsMatch [8] = 150"
    by (simp_all add: pointsMatch_def teamScore_def teamTime_def earliest_Cons mget0_def)
  have "map_ok (mmTeams pointsMatch)" "map_ok [(2 :: int, [8 :: int]), (1, [7])]"
    by (simp_all add: s map_ok_def mkeys_def)
  from scoreWinnerTeam_order_free [OF this(1) _ s(1) this(2)]
  obtain w us where w: "mget (mmTeams pointsMatch) w = Some us"
      "scoreWinnerTeam (pointsMatch\<lparr>mmTeams := [(2, [8]), (1, [7])]\<rparr>) = Inr w"
      "w = 1 \<Longrightarrow> us = [7] \<Longrightarrow> \<not> teamTime pointsMatch [8] < teamTime pointsMatch [7]"
    by (force simp: s(2) t split: if_splits)
  then show ?thesis by (auto simp: s(2) t split: if_splits)
qed

end
