(* ===== verification/ChunkService.thy ===== *)
theory ChunkService
  imports MineMatch
begin

text \<open>
  The minefield: \<^verbatim>\<open>internal/service/chunk_service.go\<close>, the part that opens and flags cells.
  A request is checked and parsed by \<open>OpenCell\<close> and \<open>FlagCell\<close> and carried out, one request per
  chunk at a time, by \<open>openCellInWorker\<close> and \<open>flagCellInWorker\<close>. The closing time \<open>dur\<close> is the
  service's \<^verbatim>\<open>closureDuration\<close> in nanoseconds.
\<close>

definition defaultChunkClosureDuration :: int where
  "defaultChunkClosureDuration = 5 * 60 * 1000000000"

fun resolveChunkClosureDuration :: "int list \<Rightarrow> int" where
  "resolveChunkClosureDuration [] = defaultChunkClosureDuration"
| "resolveChunkClosureDuration (d # ds) = (if d > 0 then d else defaultChunkClosureDuration)"

section \<open>Identifiers from requests\<close>

definition parseDemoChunkID :: "string \<Rightarrow> err + ChunkID" where
  "parseDemoChunkID raw = (case ParseChunkID raw of
     Inl e \<Rightarrow> Inl ErrInvalidChunkID
   | Inr c \<Rightarrow>
       if cRegion c \<noteq> ''cn'' then Inl ErrChunkNotFound
       else (case ChunkGridSize (cZ c) of
         Inl e \<Rightarrow> Inl ErrInvalidChunkID
       | Inr gridSize \<Rightarrow> if cX c \<ge> gridSize \<or> cY c \<ge> gridSize then Inl ErrChunkNotFound else Inr c))"

definition parsePlayableChunkID :: "string \<Rightarrow> err + ChunkID" where
  "parsePlayableChunkID raw = bindE (parseDemoChunkID raw) (\<lambda>c. case EnsurePlayableChunk c of
     Inl e \<Rightarrow> Inl ErrInvalidChunkID
   | Inr u \<Rightarrow> Inr c)"

section \<open>Loading a chunk\<close>

definition activeSeason :: "MineSeason io" where
  "activeSeason = andThen GetActiveSeason (\<lambda>season. case season of
     None \<Rightarrow> fail ErrNoActiveSeason | Some s \<Rightarrow> ret s)"

definition loadChunkState :: "int \<Rightarrow> string \<Rightarrow> MineChunkState option io" where
  "loadChunkState seasonID chunkID = GetState seasonID chunkID"

definition loadOrNewChunkState :: "int \<Rightarrow> string \<Rightarrow> MineChunkState io" where
  "loadOrNewChunkState seasonID chunkID =
     andThen (loadChunkState seasonID chunkID) (\<lambda>state. case state of
       None \<Rightarrow> ret (NewMineChunkState seasonID chunkID) | Some st \<Rightarrow> ret st)"

text \<open>The two states \<^verbatim>\<open>reopenExpiredChunk\<close> may write: the closing times filled in, and reopened.\<close>

definition fillClosure :: "int \<Rightarrow> MineChunkState \<Rightarrow> int \<Rightarrow> MineChunkState" where
  "fillClosure dur st now = (case csClosedUntil st of
     Some u \<Rightarrow> st
   | None \<Rightarrow> let closedAt = (case csClosedAt st of None \<Rightarrow> now | Some t \<Rightarrow> t)
       in st\<lparr>csClosedAt := Some closedAt, csClosedUntil := Some (closedAt + dur)\<rparr>)"

definition reopened :: "MineChunkState \<Rightarrow> MineChunkState" where
  "reopened st = st\<lparr>csClosed := False, csClosedBy := 0, csClosedAt := None, csClosedUntil := None,
     csVersion := wrap64 (csVersion st + 1)\<rparr>"

definition reopenExpiredChunk :: "int \<Rightarrow> MineChunkState \<Rightarrow> int \<Rightarrow> MineChunkState io" where
  "reopenExpiredChunk dur st now =
     (if \<not> csClosed st then ret st
      else let changed = (csClosedUntil st = None);
               st1 = fillClosure dur st now;
               closedUntil = (case csClosedUntil st1 of None \<Rightarrow> 0 | Some u \<Rightarrow> u)
        in if now < closedUntil
           then (if changed then andThen (SaveState st1) (\<lambda>_. ret st1) else ret st1)
           else andThen (SaveState (reopened st1)) (\<lambda>_. ret (reopened st1)))"

section \<open>Responses\<close>

definition openedCellResponse :: "MineOpenedCellSnapshot \<Rightarrow> OpenedCellResponse" where
  "openedCellResponse cell = \<lparr>orX = ocX cell, orY = ocY cell, orIndex = ocIndex cell,
     orAdjacentMines = ocAdjacentMines cell, orOpenedByUser = ocOpenedBy cell, orOpenedByNickname = '''',
     orOpenedAt = ocOpenedAt cell\<rparr>"

definition openedCellsResponse :: "(int, MineOpenedCellSnapshot) gomap \<Rightarrow> OpenedCellResponse list" where
  "openedCellsResponse cells = map (\<lambda>(_, cell). openedCellResponse cell) cells"

text \<open>A response whose optional fields have their zero values.\<close>

definition baseOpenResponse :: "ChunkID \<Rightarrow> int \<Rightarrow> int \<Rightarrow> int \<Rightarrow> int \<Rightarrow> int \<Rightarrow> OpenMineCellResponse" where
  "baseOpenResponse c x y index version openedAt =
     \<lparr>opChunkID = chunkString c, opX = x, opY = y, opIndex = index, opMine = False, opClosed = False,
      opClosedAt = None, opClosedUntil = None, opCanceled = False, opReason = '''', opAdjacentMines = 0,
      opVersion = version, opOpenedAt = openedAt, opNewOpenedCount = 0, opMatchID = 0, opMatchScores = [],
      opMatchFinished = False, opWinTeamNo = None, opOpenedCells = []\<rparr>"

definition alreadyOpenResponse :: "ChunkID \<Rightarrow> MineChunkState \<Rightarrow> MineOpenedCellSnapshot \<Rightarrow> OpenMineCellResponse" where
  "alreadyOpenResponse c st opened =
     (baseOpenResponse c (ocX opened) (ocY opened) (ocIndex opened) (csVersion st) (ocOpenedAt opened))
       \<lparr>opClosed := csClosed st, opAdjacentMines := ocAdjacentMines opened,
        opOpenedCells := [openedCellResponse opened]\<rparr>"

definition protectedResponse :: "ChunkID \<Rightarrow> MineChunkState \<Rightarrow> int \<Rightarrow> int \<Rightarrow> int \<Rightarrow> int \<Rightarrow> OpenMineCellResponse" where
  "protectedResponse c st x y index now =
     (baseOpenResponse c x y index (csVersion st) now)
       \<lparr>opMine := True, opCanceled := True, opReason := ''first_open_mine_protected''\<rparr>"

definition savedResponse ::
  "ChunkID \<Rightarrow> MineChunkState \<Rightarrow> int \<Rightarrow> int \<Rightarrow> int \<Rightarrow> int \<Rightarrow> bool \<Rightarrow> int \<Rightarrow> int \<Rightarrow> OpenMineCellResponse" where
  "savedResponse c st x y index now isMine adjacentMines openedBefore =
     (baseOpenResponse c x y index (csVersion st) now)
       \<lparr>opMine := isMine, opClosed := csClosed st, opClosedAt := csClosedAt st, opClosedUntil := csClosedUntil st,
        opAdjacentMines := adjacentMines, opNewOpenedCount := mlen (csOpenedCells st) - openedBefore,
        opOpenedCells := openedCellsResponse (csOpenedCells st)\<rparr>"

section \<open>Opening a cell\<close>

definition playerHasOpenedCell :: "MineChunkState \<Rightarrow> int \<Rightarrow> bool" where
  "playerHasOpenedCell st userID = (\<exists>(_, cell) \<in> set (csOpenedCells st). ocOpenedBy cell = userID)"

definition closeByMine :: "int \<Rightarrow> MineChunkState \<Rightarrow> int \<Rightarrow> int \<Rightarrow> MineChunkState" where
  "closeByMine dur st userID now =
     st\<lparr>csClosed := True, csClosedBy := userID, csClosedAt := Some now, csClosedUntil := Some (now + dur)\<rparr>"

definition bumpVersion :: "MineChunkState \<Rightarrow> MineChunkState" where
  "bumpVersion st = st\<lparr>csVersion := wrap64 (csVersion st + 1)\<rparr>"

text \<open>A safe cell: its count, and the state with the cell (or its whole zero area) opened.\<close>

definition openSafeCell ::
  "mac \<Rightarrow> MineSeason \<Rightarrow> ChunkID \<Rightarrow> MineChunkState \<Rightarrow> int \<Rightarrow> int \<Rightarrow> int \<Rightarrow> int \<Rightarrow> int \<Rightarrow> err + (MineChunkState \<times> int)" where
  "openSafeCell mac season c st x y index userID now =
     bindE (AdjacentMineCount mac (Some season) c x y) (\<lambda>adjacentMines.
     if adjacentMines = 0
     then bindE (openZeroArea mac (Some season) st c x y userID now) (\<lambda>st'. Inr (st', adjacentMines))
     else Inr (openCellInState st x y index userID now adjacentMines, adjacentMines))"

definition authorizeMineMatchOperation :: "wiring \<Rightarrow> int \<Rightarrow> int \<Rightarrow> string \<Rightarrow> MineMatchState option io" where
  "authorizeMineMatchOperation wi userID seasonID chunkID =
     (if \<not> wiMatch wi then ret None else AuthorizeChunkOperation wi userID seasonID chunkID)"

definition applyMineMatchOpenResult ::
  "mac \<Rightarrow> wiring \<Rightarrow> int \<Rightarrow> MineSeason \<Rightarrow> ChunkID \<Rightarrow> MineChunkState \<Rightarrow> OpenMineCellResponse
   \<Rightarrow> OpenMineCellResponse io" where
  "applyMineMatchOpenResult mac wi userID season c st resp =
     (if \<not> wiMatch wi then ret resp else ApplyOpenResult mac wi userID season c st resp)"

text \<open>The steps both operations begin with.\<close>

definition enterChunk :: "wiring \<Rightarrow> int \<Rightarrow> int \<Rightarrow> ChunkID \<Rightarrow> (MineSeason \<times> MineChunkState) io" where
  "enterChunk wi dur userID c =
     andThen activeSeason (\<lambda>season.
     andThen (authorizeMineMatchOperation wi userID (seID season) (chunkString c)) (\<lambda>_.
     andThen (loadOrNewChunkState (seID season) (chunkString c)) (\<lambda>st0.
     andThen timeNow (\<lambda>t.
     andThen (reopenExpiredChunk dur st0 t) (\<lambda>st.
     if csClosed st then fail ErrChunkClosed else ret (season, st))))))"

definition openCellInWorker ::
  "mac \<Rightarrow> wiring \<Rightarrow> int \<Rightarrow> int \<Rightarrow> ChunkID \<Rightarrow> int \<Rightarrow> int \<Rightarrow> OpenMineCellResponse io" where
  "openCellInWorker mac wi dur userID c x y = (case ChunkCellIndex x y of
     Inl e \<Rightarrow> fail ErrInvalidChunkID
   | Inr index \<Rightarrow>
     andThen (enterChunk wi dur userID c) (\<lambda>(season, st).
     case mget (csOpenedCells st) index of
       Some opened \<Rightarrow> applyMineMatchOpenResult mac wi userID season c st (alreadyOpenResponse c st opened)
     | None \<Rightarrow>
       if mhas (csFlaggedBy st) index then fail ErrCellFlagged
       else
         andThen timeNow (\<lambda>now.
         andThen (liftE (IsMine mac (Some season) c x y)) (\<lambda>isMine.
         if isMine \<and> \<not> playerHasOpenedCell st userID
         then applyMineMatchOpenResult mac wi userID season c st (protectedResponse c st x y index now)
         else
           andThen (liftE (if isMine then Inr (closeByMine dur st userID now, 0)
                           else openSafeCell mac season c st x y index userID now)) (\<lambda>(st1, adjacentMines).
           let st2 = bumpVersion st1 in
           andThen (SaveState st2) (\<lambda>_.
           applyMineMatchOpenResult mac wi userID season c st2
             (savedResponse c st2 x y index now isMine adjacentMines (mlen (csOpenedCells st)))))))))"

section \<open>Flagging a cell\<close>

definition setFlag :: "MineChunkState \<Rightarrow> int \<Rightarrow> int \<Rightarrow> bool \<Rightarrow> MineChunkState" where
  "setFlag st index userID flagged =
     st\<lparr>csFlaggedBy := (if flagged then mput index userID (csFlaggedBy st) else mdel index (csFlaggedBy st))\<rparr>"

definition flagCellInWorker ::
  "wiring \<Rightarrow> int \<Rightarrow> int \<Rightarrow> ChunkID \<Rightarrow> int \<Rightarrow> int \<Rightarrow> bool \<Rightarrow> FlagMineCellResponse io" where
  "flagCellInWorker wi dur userID c x y flagged = (case ChunkCellIndex x y of
     Inl e \<Rightarrow> fail ErrInvalidChunkID
   | Inr index \<Rightarrow>
     andThen (enterChunk wi dur userID c) (\<lambda>(season, st).
     if mhas (csOpenedCells st) index then fail ErrCellAlreadyOpen
     else let st' = bumpVersion (setFlag st index userID flagged) in
       andThen (SaveState st') (\<lambda>_.
       ret \<lparr>flChunkID = chunkString c, flX = x, flY = y, flIndex = index, flFlagged = flagged,
            flVersion = csVersion st'\<rparr>)))"

section \<open>The entry points\<close>

text \<open>A request as its chunk's worker receives it, and what the worker does with it.\<close>

datatype chunkOperation = OpenOp int int | FlagOp int int bool

datatype chunkReply = OpenReply OpenMineCellResponse | FlagReply FlagMineCellResponse

definition handleChunkOperation ::
  "mac \<Rightarrow> wiring \<Rightarrow> int \<Rightarrow> bool \<Rightarrow> int \<Rightarrow> ChunkID \<Rightarrow> chunkOperation \<Rightarrow> chunkReply io" where
  "handleChunkOperation mac wi dur cancelled userID c op =
     (if cancelled then fail CtxErr
      else (case op of
        OpenOp x y \<Rightarrow> andThen (openCellInWorker mac wi dur userID c x y) (\<lambda>r. ret (OpenReply r))
      | FlagOp x y f \<Rightarrow> andThen (flagCellInWorker wi dur userID c x y f) (\<lambda>r. ret (FlagReply r))))"

definition OpenCell :: "mac \<Rightarrow> wiring \<Rightarrow> int \<Rightarrow> int \<Rightarrow> string \<Rightarrow> int \<Rightarrow> int \<Rightarrow> chunkReply io" where
  "OpenCell mac wi dur userID raw x y =
     (if \<not> wiMine wi then fail ErrNoActiveSeason
      else andThen (liftE (parsePlayableChunkID raw)) (\<lambda>c. handleChunkOperation mac wi dur False userID c (OpenOp x y)))"

definition FlagCell :: "mac \<Rightarrow> wiring \<Rightarrow> int \<Rightarrow> int \<Rightarrow> string \<Rightarrow> int \<Rightarrow> int \<Rightarrow> bool \<Rightarrow> chunkReply io" where
  "FlagCell mac wi dur userID raw x y flagged =
     (if \<not> wiMine wi then fail ErrNoActiveSeason
      else andThen (liftE (parsePlayableChunkID raw)) (\<lambda>c. handleChunkOperation mac wi dur False userID c (FlagOp x y flagged)))"

end
