(* ===== verification/RoomService.thy ===== *)
theory RoomService
  imports World
begin

text \<open>
  Rooms: \<^verbatim>\<open>internal/service/room_service.go\<close>. The rooms live in the memory of the API process
  behind one mutex, so each operation is one atomic step on \<open>memRooms\<close>. The order of the
  association list \<open>roPlayers\<close> stands for the order in which a Go map is iterated.
\<close>

section \<open>Operations\<close>

fun addRoomPlayers :: "int \<Rightarrow> int list \<Rightarrow> (int, RoomPlayer) gomap \<Rightarrow> (int, RoomPlayer) gomap io" where
  "addRoomPlayers teamID [] players = ret players"
| "addRoomPlayers teamID (u # us) players =
     andThen timeNow (\<lambda>now.
     addRoomPlayers teamID us (mput u \<lparr>rpUserID = u, rpUserName = '''', rpTeamNo = teamID, rpOnline = True,
       rpReady = False, rpUpdatedAt = now\<rparr> players))"

fun roomPlayersOf :: "MatchedTeam list \<Rightarrow> (int, RoomPlayer) gomap \<Rightarrow> (int, RoomPlayer) gomap io" where
  "roomPlayersOf [] players = ret players"
| "roomPlayersOf (t # ts) players =
     andThen (addRoomPlayers (mtTeamID t) (mtUserIDs t) players) (\<lambda>players'. roomPlayersOf ts players')"

text \<open>Steps on the memory of the process do not fail.\<close>

definition readRooms :: "((string, Room) gomap \<Rightarrow> 'a) \<Rightarrow> 'a io" where
  "readRooms f w = (Inr (f (memRooms w)), w)"

definition putRoom :: "Room \<Rightarrow> unit io" where
  "putRoom r w = (Inr (), w\<lparr>memRooms := mput (roID r) r (memRooms w)\<rparr>)"

definition CreateRoom :: "string \<Rightarrow> string \<Rightarrow> int \<Rightarrow> MatchedTeam list \<Rightarrow> Room io" where
  "CreateRoom roomID mode matchID teams =
     andThen (roomPlayersOf teams []) (\<lambda>players.
     let room = \<lparr>roID = roomID, roMatchID = matchID, roMode = mode, roStatus = RoomStatusWaiting,
                 roTeams = teams, roPlayers = players\<rparr>
     in andThen (putRoom room) (\<lambda>_. ret room))"

definition roomNotFound :: "string \<Rightarrow> err" where
  "roomNotFound roomID = Errorf (''room with ID '' @ roomID @ '' not found'')"

definition GetRoom :: "string \<Rightarrow> int \<Rightarrow> RoomInfoResponse io" where
  "GetRoom roomID userID =
     andThen (readRooms (\<lambda>m. mget m roomID)) (\<lambda>found. case found of
       None \<Rightarrow> fail (roomNotFound roomID)
     | Some r \<Rightarrow> (case mget (roPlayers r) userID of
         None \<Rightarrow> fail (Errorf (''user '' @ itoa userID @ '' is not in room '' @ roomID))
       | Some p \<Rightarrow> ret \<lparr>riID = roID r, riMatchID = roMatchID r, riMode = roMode r, riStatus = roStatus r,
            riTeams = roTeams r, riPlayers = roPlayers r\<rparr>))"

definition CheckUserInRoom :: "string \<Rightarrow> int \<Rightarrow> bool io" where
  "CheckUserInRoom roomID userID = readRooms (\<lambda>m. case mget m roomID of
     None \<Rightarrow> False | Some r \<Rightarrow> mhas (roPlayers r) userID)"

definition CheckAllReady :: "Room \<Rightarrow> bool" where
  "CheckAllReady r = (\<forall>(_, p) \<in> set (roPlayers r). rpReady p)"

definition ReadyPlayer :: "string \<Rightarrow> int \<Rightarrow> unit io" where
  "ReadyPlayer roomID userID =
     andThen (readRooms (\<lambda>m. mget m roomID)) (\<lambda>found. case found of
       None \<Rightarrow> fail (roomNotFound roomID)
     | Some r \<Rightarrow>
         if roStatus r \<noteq> RoomStatusWaiting then fail (Errorf (''room '' @ roomID @ '' is not in waiting status''))
         else (case mget (roPlayers r) userID of
           None \<Rightarrow> fail (Errorf (''player with ID '' @ itoa userID @ '' not found in room '' @ roomID))
         | Some p \<Rightarrow> andThen timeNow (\<lambda>now.
             let r1 = r\<lparr>roPlayers := mput userID (p\<lparr>rpReady := True, rpUpdatedAt := now\<rparr>) (roPlayers r)\<rparr>
             in putRoom (if CheckAllReady r1 then r1\<lparr>roStatus := RoomStatusPlaying\<rparr> else r1))))"

section \<open>Rooms start when, and only when, everybody is ready\<close>

definition room_ok :: "Room \<Rightarrow> bool" where
  "room_ok r \<longleftrightarrow> map_ok (roPlayers r) \<and> (\<forall>u p. mget (roPlayers r) u = Some p \<longrightarrow> rpUserID p = u) \<and>
     (case roStatus r of
        RoomStatusWaiting \<Rightarrow> \<exists>u p. mget (roPlayers r) u = Some p \<and> \<not> rpReady p
      | RoomStatusPlaying \<Rightarrow> \<forall>u p. mget (roPlayers r) u = Some p \<longrightarrow> rpReady p
      | RoomStatusFinished \<Rightarrow> False)"

definition rooms_ok :: "world \<Rightarrow> bool" where
  "rooms_ok w \<longleftrightarrow> (\<forall>k r. mget (memRooms w) k = Some r \<longrightarrow> roID r = k \<and> room_ok r)"

lemma data_inv_rooms_ok: "data_inv rooms_ok"
  by (rule data_invI) (simp_all add: rooms_ok_def)

lemma CheckAllReady_iff:
  "map_ok (roPlayers r) \<Longrightarrow> CheckAllReady r \<longleftrightarrow> (\<forall>u p. mget (roPlayers r) u = Some p \<longrightarrow> rpReady p)"
  by (force simp: CheckAllReady_def mget_set)

lemma gives_readRooms:
  "(\<And>w. I w \<Longrightarrow> P (f (memRooms w))) \<Longrightarrow> gives I (readRooms f) P"
  by (simp add: gives_def readRooms_def)

lemma keeps_putRoom: "room_ok r \<Longrightarrow> keeps rooms_ok (putRoom r)"
  by (auto simp: gives_def putRoom_def rooms_ok_def split: if_splits)

text \<open>The players of a new room: those of the teams, none of them ready.\<close>

definition fresh_players :: "(int, RoomPlayer) gomap \<Rightarrow> bool" where
  "fresh_players m \<longleftrightarrow> map_ok m \<and> (\<forall>u p. mget m u = Some p \<longrightarrow> rpUserID p = u \<and> \<not> rpReady p)"

lemma gives_addRoomPlayers:
  assumes "data_inv I" "fresh_players m"
  shows "gives I (addRoomPlayers t us m) (\<lambda>m'. fresh_players m' \<and> dom (mget m') = dom (mget m) \<union> set us)"
  using assms(2)
proof (induction us arbitrary: m)
  case Nil
  then show ?case by (simp add: gives_ret)
next
  case (Cons u us)
  have f: "fresh_players (mput u \<lparr>rpUserID = u, rpUserName = '''', rpTeamNo = t, rpOnline = True,
      rpReady = False, rpUpdatedAt = now\<rparr> m)" for now
    using Cons.prems by (auto simp: fresh_players_def split: if_splits)
  show ?case unfolding addRoomPlayers.simps
    by (rule gives_andThen [OF keeps_timeNow [OF assms(1)]], rule gives_weaken [OF Cons.IH [OF f]]) auto
qed

lemma gives_roomPlayersOf:
  assumes "data_inv I" "fresh_players m"
  shows "gives I (roomPlayersOf ts m)
    (\<lambda>m'. fresh_players m' \<and> dom (mget m') = dom (mget m) \<union> (\<Union>t \<in> set ts. set (mtUserIDs t)))"
  using assms(2)
proof (induction ts arbitrary: m)
  case Nil
  then show ?case by (simp add: gives_ret)
next
  case (Cons t ts)
  show ?case unfolding roomPlayersOf.simps
    by (rule gives_andThen [OF gives_addRoomPlayers [OF assms(1) Cons.prems]])
      (elim conjE, rule gives_weaken [OF Cons.IH], assumption, simp add: Un_assoc)
qed

lemma keeps_CreateRoom:
  assumes "\<exists>t \<in> set teams. mtUserIDs t \<noteq> []"
  shows "keeps rooms_ok (CreateRoom roomID mode matchID teams)"
  unfolding CreateRoom_def
proof (rule gives_andThen [OF gives_roomPlayersOf [OF data_inv_rooms_ok]])
  show "fresh_players []" by (simp add: fresh_players_def)
next
  fix m :: "(int, RoomPlayer) gomap"
  let ?r = "\<lparr>roID = roomID, roMatchID = matchID, roMode = mode, roStatus = RoomStatusWaiting,
     roTeams = teams, roPlayers = m\<rparr>"
  assume m: "fresh_players m \<and> dom (mget m) = dom (mget []) \<union> (\<Union>t \<in> set teams. set (mtUserIDs t))"
  obtain t u where "t \<in> set teams" "u \<in> set (mtUserIDs t)" using assms by (metis ex_in_conv set_empty)
  then have "u \<in> dom (mget m)" using m by auto
  then obtain p where "mget m u = Some p" by auto
  then have "room_ok ?r" using m by (auto simp: room_ok_def fresh_players_def)
  then show "keeps rooms_ok (let room = ?r in andThen (putRoom room) (\<lambda>_. ret room))"
    by (auto simp: Let_def intro!: keeps_andThen keeps_putRoom gives_ret)
qed

lemma keeps_ReadyPlayer: "keeps rooms_ok (ReadyPlayer roomID userID)"
  unfolding ReadyPlayer_def
proof (rule gives_andThen [OF gives_readRooms])
  show "\<forall>r. mget (memRooms w) roomID = Some r \<longrightarrow> roID r = roomID \<and> room_ok r" if "rooms_ok w" for w
    using that by (simp add: rooms_ok_def)
next
  fix found assume f: "\<forall>r. found = Some r \<longrightarrow> roID r = roomID \<and> room_ok r"
  have ready: "keeps rooms_ok (putRoom (if CheckAllReady r1 then r1\<lparr>roStatus := RoomStatusPlaying\<rparr> else r1))"
    if "found = Some r" "roStatus r = RoomStatusWaiting" "mget (roPlayers r) userID = Some p"
      and r1: "r1 = r\<lparr>roPlayers := mput userID (p\<lparr>rpReady := True, rpUpdatedAt := now\<rparr>) (roPlayers r)\<rparr>" for r p r1 now
  proof (rule keeps_putRoom)
    have ok: "map_ok (roPlayers r)" "\<forall>u p. mget (roPlayers r) u = Some p \<longrightarrow> rpUserID p = u"
      using f that(1) by (simp_all add: room_ok_def)
    have ok1: "map_ok (roPlayers r1)" "\<forall>u p. mget (roPlayers r1) u = Some p \<longrightarrow> rpUserID p = u"
      using ok that(3) by (auto simp: r1)
    show "room_ok (if CheckAllReady r1 then r1\<lparr>roStatus := RoomStatusPlaying\<rparr> else r1)"
    proof (cases "CheckAllReady r1")
      case True
      then show ?thesis using ok1 CheckAllReady_iff [OF ok1(1)] by (simp add: room_ok_def)
    next
      case False
      moreover have "roStatus r1 = RoomStatusWaiting" using that(2) by (simp add: r1)
      ultimately show ?thesis using ok1 CheckAllReady_iff [OF ok1(1)] by (simp add: room_ok_def)
    qed
  qed
  show "keeps rooms_ok (case found of
       None \<Rightarrow> fail (roomNotFound roomID)
     | Some r \<Rightarrow>
         if roStatus r \<noteq> RoomStatusWaiting then fail (Errorf (''room '' @ roomID @ '' is not in waiting status''))
         else (case mget (roPlayers r) userID of
           None \<Rightarrow> fail (Errorf (''player with ID '' @ itoa userID @ '' not found in room '' @ roomID))
         | Some p \<Rightarrow> andThen timeNow (\<lambda>now.
             let r1 = r\<lparr>roPlayers := mput userID (p\<lparr>rpReady := True, rpUpdatedAt := now\<rparr>) (roPlayers r)\<rparr>
             in putRoom (if CheckAllReady r1 then r1\<lparr>roStatus := RoomStatusPlaying\<rparr> else r1))))"
    unfolding Let_def
    by (auto intro!: gives_intros gives_andThen [OF keeps_timeNow [OF data_inv_rooms_ok]] ready simp del: if_image_distrib)
qed

section \<open>Rooms over time\<close>

text \<open>Rooms are made for the teams of a match, which are not empty; everything else in the process
  leaves \<open>memRooms\<close> alone.\<close>

inductive room_reach :: "world \<Rightarrow> world \<Rightarrow> bool" for w0 where
  rr_start: "room_reach w0 w0"
| rr_create: "room_reach w0 w \<Longrightarrow> \<exists>t \<in> set teams. mtUserIDs t \<noteq> [] \<Longrightarrow>
    room_reach w0 (snd (CreateRoom roomID mode matchID teams w))"
| rr_ready: "room_reach w0 w \<Longrightarrow> room_reach w0 (snd (ReadyPlayer roomID userID w))"
| rr_other: "room_reach w0 w \<Longrightarrow> memRooms w' = memRooms w \<Longrightarrow> room_reach w0 w'"

lemma room_reach_ok: "room_reach w0 w \<Longrightarrow> memRooms w0 = [] \<Longrightarrow> rooms_ok w"
proof (induction rule: room_reach.induct)
  case rr_start
  then show ?case by (simp add: rooms_ok_def)
next
  case (rr_create w teams roomID mode matchID)
  then show ?case using givesD [OF keeps_CreateRoom] by blast
next
  case (rr_ready w roomID userID)
  then show ?case using givesD [OF keeps_ReadyPlayer] by blast
next
  case (rr_other w w')
  then show ?case by (simp add: rooms_ok_def)
qed

text \<open>(C34) A room plays exactly when everybody in it is ready. In every state the service can reach from no
  rooms at all: each room is filed under its own identifier, it is waiting or playing, playing
  means that every player is ready, and a waiting room always has a player who is not, so no room
  is left waiting for nobody.\<close>

theorem room_plays_when_all_ready:
  assumes "memRooms w0 = []" and "room_reach w0 w" and "mget (memRooms w) k = Some r"
  shows "roID r = k \<and> roStatus r \<in> {RoomStatusWaiting, RoomStatusPlaying}
    \<and> (roStatus r = RoomStatusPlaying \<longleftrightarrow> (\<forall>u p. mget (roPlayers r) u = Some p \<longrightarrow> rpReady p))
    \<and> (\<forall>u p. mget (roPlayers r) u = Some p \<longrightarrow> rpUserID p = u)"
proof -
  have "roID r = k" "room_ok r" using room_reach_ok [OF assms(2,1)] assms(3) by (simp_all add: rooms_ok_def)
  then show ?thesis by (cases "roStatus r") (auto simp: room_ok_def)
qed

definition duelTeams :: "MatchedTeam list" where
  "duelTeams = [mkTeam 0 [7], mkTeam 1 [8]]"

text \<open>Two players; the room starts with the second one.\<close>

definition duelRoom :: world where
  "duelRoom = snd (ReadyPlayer ''r'' 8 (snd (ReadyPlayer ''r'' 7 (snd (CreateRoom ''r'' ''1v1'' 3 duelTeams emptyWorld)))))"

lemma room_plays_when_all_ready_witness:
  "\<exists>r. mget (memRooms duelRoom) ''r'' = Some r \<and> roStatus r = RoomStatusPlaying
     \<and> (\<forall>u p. mget (roPlayers r) u = Some p \<longrightarrow> rpReady p)"
proof -
  have "room_reach emptyWorld duelRoom"
    unfolding duelRoom_def by (intro rr_ready rr_create rr_start) (simp add: duelTeams_def mkTeam_def)
  moreover have "memRooms emptyWorld = []" by (simp add: emptyWorld_def)
  moreover have "\<exists>r. mget (memRooms duelRoom) ''r'' = Some r \<and> roStatus r = RoomStatusPlaying"
    by (simp add: duelRoom_def duelTeams_def mkTeam_def CreateRoom_def ReadyPlayer_def prog_defs timeNow_def emptyWorld_def
        readRooms_def putRoom_def CheckAllReady_def Let_def)
  ultimately show ?thesis using room_plays_when_all_ready by metis
qed

text \<open>Who may declare himself ready: a player of a waiting room, whose flag is set and nobody else's; the
  room then plays if he was the last. Everybody else gets an error and the rooms stay as they
  are: an unknown room, a room that plays already, a user who is not in the room.\<close>

theorem ReadyPlayer_branches:
  assumes "clock w = [t]"
  shows "case mget (memRooms w) roomID of
      None \<Rightarrow> ReadyPlayer roomID u w = (Inl (roomNotFound roomID), w)
    | Some r \<Rightarrow>
        if roStatus r \<noteq> RoomStatusWaiting \<or> mget (roPlayers r) u = None
        then \<exists>e. ReadyPlayer roomID u w = (Inl e, w)
        else \<exists>r'. ReadyPlayer roomID u w = (Inr (), w\<lparr>memRooms := mput (roID r) r' (memRooms w)\<rparr>)
          \<and> roID r' = roID r \<and> roTeams r' = roTeams r \<and> roMatchID r' = roMatchID r
          \<and> (\<forall>v. v \<noteq> u \<longrightarrow> mget (roPlayers r') v = mget (roPlayers r) v)
          \<and> (\<exists>p. mget (roPlayers r') u = Some p \<and> rpReady p \<and> rpUpdatedAt p = t)
          \<and> roStatus r' = (if CheckAllReady r' then RoomStatusPlaying else RoomStatusWaiting)"
proof (cases "mget (memRooms w) roomID")
  case None
  then show ?thesis by (simp add: ReadyPlayer_def prog_defs readRooms_def)
next
  case (Some r)
  show ?thesis
  proof (cases "roStatus r \<noteq> RoomStatusWaiting \<or> mget (roPlayers r) u = None")
    case True
    then show ?thesis using Some by (auto simp: ReadyPlayer_def prog_defs readRooms_def split: option.split)
  next
    case False
    then obtain p where p: "roStatus r = RoomStatusWaiting" "mget (roPlayers r) u = Some p" by auto
    let ?r1 = "r\<lparr>roPlayers := mput u (p\<lparr>rpReady := True, rpUpdatedAt := t\<rparr>) (roPlayers r)\<rparr>"
    let ?r' = "if CheckAllReady ?r1 then ?r1\<lparr>roStatus := RoomStatusPlaying\<rparr> else ?r1"
    have "ReadyPlayer roomID u w = (Inr (), w\<lparr>memRooms := mput (roID r) ?r' (memRooms w)\<rparr>)"
      using Some p assms by (simp add: ReadyPlayer_def prog_defs readRooms_def timeNow_def putRoom_def)
    moreover have "CheckAllReady ?r' = CheckAllReady ?r1" by (simp add: CheckAllReady_def)
    ultimately show ?thesis using Some p by (auto intro!: exI [of _ ?r'])
  qed
qed

lemma ReadyPlayer_branches_witness:
  "ReadyPlayer ''nowhere'' 7 (emptyWorld\<lparr>clock := [1]\<rparr>) = (Inl (roomNotFound ''nowhere''), emptyWorld\<lparr>clock := [1]\<rparr>)"
  using ReadyPlayer_branches [of "emptyWorld\<lparr>clock := [1]\<rparr>" 1 "''nowhere''" 7] by (simp add: emptyWorld_def)

end
