(* ===== verification/MatchFrame.thy ===== *)
theory MatchFrame
  imports MineMatch RoomService
begin

text \<open>
  What the match code leaves alone. An assertion that no write of the match code can break
  (\<open>outside_match\<close>) survives every operation of the match services and of the
  mine match store, on their error paths too; one that the creation of a room cannot break either
  (\<open>outside_rooms\<close>) survives the rooms. Components beside the matches
  prove their invariants with these facts (\<open>match_frame\<close>). Assertions about the seasons, the chunks, the waiting queues
  and the ranks only are of this kind.
\<close>

definition stable :: "(world \<Rightarrow> bool) \<Rightarrow> (world \<Rightarrow> world) \<Rightarrow> bool" where
  "stable I upd \<longleftrightarrow> (\<forall>w. I w \<longrightarrow> I (upd w))"

lemma stableI: "(\<And>w. I w \<Longrightarrow> I (upd w)) \<Longrightarrow> stable I upd"
  and stableD: "stable I upd \<Longrightarrow> I w \<Longrightarrow> I (upd w)"
  by (simp_all add: stable_def)

lemma keeps_stable_wr: "data_inv I \<Longrightarrow> stable I upd \<Longrightarrow> keeps I (wr f upd)"
  by (rule keeps_wr) (auto dest: stableD)

text \<open>A write of the match code: the updated world differs in match fields only.\<close>

definition match_write :: "(world \<Rightarrow> world) \<Rightarrow> bool" where
  "match_write upd \<longleftrightarrow> (\<forall>w. dbSeasons (upd w) = dbSeasons w \<and> rdChunks (upd w) = rdChunks w
     \<and> rdClosed (upd w) = rdClosed w \<and> rdQueues (upd w) = rdQueues w \<and> rdQueueUsers (upd w) = rdQueueUsers w
     \<and> dbRankEvents (upd w) = dbRankEvents w \<and> dbPlayerRanks (upd w) = dbPlayerRanks w
     \<and> rdLeaderboard (upd w) = rdLeaderboard w \<and> dbUsers (upd w) = dbUsers w
     \<and> dbNextUserID (upd w) = dbNextUserID w \<and> memRooms (upd w) = memRooms w)"

definition outside_match :: "(world \<Rightarrow> bool) \<Rightarrow> bool" where
  "outside_match I \<longleftrightarrow> data_inv I \<and> (\<forall>upd. match_write upd \<longrightarrow> stable I upd)"

definition outside_rooms :: "(world \<Rightarrow> bool) \<Rightarrow> bool" where
  "outside_rooms I \<longleftrightarrow> outside_match I \<and> (\<forall>r. stable I (\<lambda>w. w\<lparr>memRooms := mput (roID r) r (memRooms w)\<rparr>))"

definition outside_data :: "(world \<Rightarrow> bool) \<Rightarrow> bool" where
  "outside_data I \<longleftrightarrow> (\<exists>J. I = (\<lambda>w. J (dbSeasons w) (rdChunks w) (rdClosed w) (rdQueues w) (rdQueueUsers w)
     (dbRankEvents w) (dbPlayerRanks w) (rdLeaderboard w)))"

lemma outside_match_inv: "outside_match I \<Longrightarrow> data_inv I"
  by (simp add: outside_match_def)

lemma outside_rooms_match: "outside_rooms I \<Longrightarrow> outside_match I"
  by (simp add: outside_rooms_def)

lemma outside_data_rooms: "outside_data I \<Longrightarrow> outside_rooms I"
  by (auto simp: outside_data_def outside_rooms_def outside_match_def match_write_def stable_def intro!: data_invI)

lemma outside_data_match: "outside_data I \<Longrightarrow> outside_match I"
  by (rule outside_rooms_match [OF outside_data_rooms])

named_theorems match_frame "operations that leave everything outside the matches alone"

text \<open>Operations that only read keep every assertion about the stored data (\<open>read_frame\<close>).\<close>

named_theorems read_frame "operations that only read"

lemmas [read_frame] = keeps_rd keeps_timeNow

lemma reads_GetMatchState [read_frame]: "data_inv I \<Longrightarrow> keeps I (GetMatchState m)"
  by (simp add: GetMatchState_def keeps_rd)

lemma reads_GetActiveMatchByUser [read_frame]: "data_inv I \<Longrightarrow> keeps I (GetActiveMatchByUser u)"
  unfolding GetActiveMatchByUser_def by (auto intro!: keeps_andThen read_frame gives_intros)

lemma reads_GetChunkLock [read_frame]: "data_inv I \<Longrightarrow> keeps I (GetChunkLock s c)"
  by (simp add: GetChunkLock_def keeps_rd)

lemma reads_GetState [read_frame]: "data_inv I \<Longrightarrow> keeps I (GetState s c)"
  by (simp add: GetState_def keeps_rd)

lemma reads_GetActiveSeason [read_frame]: "data_inv I \<Longrightarrow> keeps I GetActiveSeason"
  unfolding GetActiveSeason_def by (auto intro!: keeps_andThen read_frame)

lemma reads_AuthorizeChunkOperation [read_frame]: "data_inv I \<Longrightarrow> keeps I (AuthorizeChunkOperation wi u s c)"
  unfolding AuthorizeChunkOperation_def by (auto intro!: keeps_andThen gives_intros read_frame)

lemma reads_isCleanChunk [read_frame]: "data_inv I \<Longrightarrow> keeps I (isCleanChunk s c)"
  unfolding isCleanChunk_def by (auto intro!: keeps_andThen gives_intros read_frame)

lemma reads_isCleanUnlockedChunk [read_frame]: "data_inv I \<Longrightarrow> keeps I (isCleanUnlockedChunk s c)"
  unfolding isCleanUnlockedChunk_def by (auto intro!: keeps_andThen gives_intros read_frame)

lemmas frame_rd = keeps_rd [OF outside_match_inv]

lemmas frame_timeNow = keeps_timeNow [OF outside_match_inv]

lemmas [match_frame] = read_frame [OF outside_match_inv]

lemma frame_wr: "outside_match I \<Longrightarrow> match_write upd \<Longrightarrow> keeps I (wr f upd)"
  by (intro keeps_stable_wr) (simp_all add: outside_match_def)

lemma match_writes:
  "match_write (storeMatch st)" "match_write (bindUsers us m)" "match_write (takeLock k v)"
  "match_write (dropLock k)" "match_write (updateMatchRow r)"
  "match_write (\<lambda>w. w\<lparr>mqEvents := mqEvents w @ [e]\<rparr>)" "match_write (\<lambda>w. w\<lparr>dbNextMatchID := dbNextMatchID w + 1\<rparr>)"
  "match_write (\<lambda>w. w\<lparr>dbMatches := dbMatches w @ ms, dbMatchPlayers := dbMatchPlayers w @ ps\<rparr>)"
  by (simp_all add: match_write_def storeMatch_def bindUsers_def takeLock_def dropLock_def updateMatchRow_def)

section \<open>The stores\<close>

lemma frame_SaveMatchState [match_frame]: "outside_match I \<Longrightarrow> keeps I (SaveMatchState st)"
  by (simp add: SaveMatchState_def frame_wr match_writes)

lemma frame_pipeUsers: "outside_match I \<Longrightarrow> keeps I (pipeUsers us m)"
  by (auto simp: pipeUsers_def intro!: gives_ret frame_wr match_writes)

lemma frame_SetActiveMatchForUsers [match_frame]: "outside_match I \<Longrightarrow> keeps I (SetActiveMatchForUsers st)"
  by (simp add: SetActiveMatchForUsers_def frame_pipeUsers)

lemma frame_DeleteActiveMatchForUsers [match_frame]: "outside_match I \<Longrightarrow> keeps I (DeleteActiveMatchForUsers st)"
  by (simp add: DeleteActiveMatchForUsers_def frame_pipeUsers)

lemma frame_TryLockChunk [match_frame]: "outside_match I \<Longrightarrow> keeps I (TryLockChunk s c m)"
  by (simp add: TryLockChunk_def frame_wr match_writes)

lemma frame_UnlockChunk [match_frame]: "outside_match I \<Longrightarrow> keeps I (UnlockChunk s c m)"
  unfolding UnlockChunk_def by (auto intro!: keeps_andThen match_frame gives_intros frame_wr match_writes)

section \<open>The services\<close>

lemma frame_PublishJSON [match_frame]: "outside_match I \<Longrightarrow> keeps I (PublishJSON e)"
  unfolding PublishJSON_def by (auto intro!: gives_onErr gives_intros frame_wr match_writes)

lemma frame_UpdateMatch [match_frame]: "outside_match I \<Longrightarrow> keeps I (UpdateMatch m)"
  unfolding UpdateMatch_def GetMatchByID_def
  by (auto intro!: keeps_andThen gives_onErr gives_intros match_frame frame_wr match_writes)

lemma frame_SetMatchResult [match_frame]: "outside_match I \<Longrightarrow> keeps I (SetMatchResult p m t)"
  unfolding SetMatchResult_def GetMatchByID_def by (auto intro!: keeps_andThen gives_intros match_frame)

lemma frame_AddMatchPlayer [match_frame]: "outside_match I \<Longrightarrow> keeps I (AddMatchPlayer tx ps)"
proof (induction ps arbitrary: tx)
  case (Cons p ps)
  then show ?case
    by (auto simp: insertMatchPlayer_def intro!: keeps_andThen gives_intros match_frame)
qed (simp add: gives_ret)

lemma frame_CreateMatchFromQueue [match_frame]: "outside_match I \<Longrightarrow> keeps I (CreateMatchFromQueue q)"
  unfolding CreateMatchFromQueue_def stageMatch_def BeginTx_def RollbackTx_def CommitTx_def CreateMatch_def
  by (auto intro!: keeps_andThen gives_onErr gives_ignoreErr gives_intros match_frame frame_wr match_writes
      split: prod.splits)

lemma frame_finishMatch [match_frame]: "outside_match I \<Longrightarrow> keeps I (finishMatch wi st t now r)"
  unfolding finishMatch_def Let_def by (auto intro!: keeps_andThen gives_intros match_frame)

lemma frame_ApplyOpenResult [match_frame]: "outside_match I \<Longrightarrow> keeps I (ApplyOpenResult mac wi u s c st r)"
  unfolding ApplyOpenResult_def Let_def
  by (auto intro!: keeps_andThen gives_intros match_frame split: prod.splits)

lemma frame_tryChunks [match_frame]: "outside_match I \<Longrightarrow> keeps I (tryChunks g s m vs)"
  by (induction vs) (auto simp: Let_def intro!: keeps_andThen gives_onErr gives_ignoreErr gives_intros match_frame)

lemma frame_AssignChunkForMatch [match_frame]: "outside_match I \<Longrightarrow> keeps I (AssignChunkForMatch wi p m r ts)"
  unfolding AssignChunkForMatch_def findAndLockCleanChunk_def Let_def
  by (auto intro!: keeps_andThen gives_onErr gives_ignoreErr gives_intros match_frame)

section \<open>The rooms\<close>

lemma frame_addRoomPlayers: "outside_match I \<Longrightarrow> keeps I (addRoomPlayers t us m)"
  by (induction us arbitrary: m) (auto intro!: keeps_andThen gives_ret match_frame)

lemma frame_roomPlayersOf: "outside_match I \<Longrightarrow> keeps I (roomPlayersOf ts m)"
  by (induction ts arbitrary: m) (auto intro!: keeps_andThen gives_ret frame_addRoomPlayers)

lemma frame_putRoom: "outside_rooms I \<Longrightarrow> keeps I (putRoom r)"
  by (auto simp: gives_def putRoom_def outside_rooms_def dest: stableD)

lemma frame_CreateRoom: "outside_rooms I \<Longrightarrow> keeps I (CreateRoom r m i ts)"
  unfolding CreateRoom_def Let_def
  by (auto intro!: keeps_andThen gives_ret frame_roomPlayersOf frame_putRoom outside_rooms_match)

end
