(* ===== verification/ChunkInv.thy ===== *)
theory ChunkInv
  imports ChunkService MatchFrame
begin

text \<open>
  What is always true of the stored chunks. \<open>chunk_ok\<close> is the well-formedness of one chunk
  state, \<open>field_ok\<close> of everything stored about the minefield. Every operation keeps \<open>field_ok\<close>
  in every world: for every cell and user, at every clock, and whatever the stores answer.
\<close>

section \<open>The invariant\<close>

definition cell_ok :: "mac \<Rightarrow> MineSeason \<Rightarrow> ChunkID \<Rightarrow> int \<Rightarrow> MineOpenedCellSnapshot \<Rightarrow> bool" where
  "cell_ok mac s c i cell \<longleftrightarrow> on_board (ocX cell) (ocY cell) \<and> i = ocY cell * 128 + ocX cell \<and> ocIndex cell = i
     \<and> \<not> cellMine mac s c (ocX cell) (ocY cell) \<and> ocAdjacentMines cell = cellAdj mac s c (ocX cell) (ocY cell)"

text \<open>Closed exactly as long as the closing fields are set, and for the configured time.\<close>

definition closure_ok :: "int \<Rightarrow> MineChunkState \<Rightarrow> bool" where
  "closure_ok dur st \<longleftrightarrow>
     (if csClosed st then \<exists>t. csClosedAt st = Some t \<and> csClosedUntil st = Some (t + dur)
      else csClosedBy st = 0 \<and> csClosedAt st = None \<and> csClosedUntil st = None)"

definition chunk_ok :: "mac \<Rightarrow> int \<Rightarrow> MineSeason \<Rightarrow> ChunkID \<Rightarrow> MineChunkState \<Rightarrow> bool" where
  "chunk_ok mac dur s c st \<longleftrightarrow> csSeasonID st = seID s \<and> csChunkID st = chunkString c
     \<and> map_ok (csOpenedCells st) \<and> map_ok (csFlaggedBy st) \<and> closure_ok dur st
     \<and> (\<forall>i cell. mget (csOpenedCells st) i = Some cell \<longrightarrow> cell_ok mac s c i cell)
     \<and> (\<forall>i. mhas (csFlaggedBy st) i \<longrightarrow> 0 \<le> i \<and> i < 16384 \<and> \<not> mhas (csOpenedCells st) i)"

definition seasons_ok :: "MineSeason list \<Rightarrow> bool" where
  "seasons_ok ss \<longleftrightarrow> distinct (map seID ss) \<and> (\<forall>s \<in> set ss. season_ok s)"

definition field_ok :: "mac \<Rightarrow> int \<Rightarrow> world \<Rightarrow> bool" where
  "field_ok mac dur w \<longleftrightarrow> seasons_ok (dbSeasons w) \<and> closed_index_ok w \<and>
     (\<forall>sid cid st. rdChunks w (sid, cid) = Some st \<longrightarrow>
        (\<exists>s \<in> set (dbSeasons w). \<exists>c. playable c \<and> sid = seID s \<and> cid = chunkString c \<and> chunk_ok mac dur s c st))"

section \<open>Assertions about the minefield\<close>

text \<open>An assertion that looks at the seasons and the chunks only is out of reach of the match
  code, which writes other keys.\<close>

definition field_data :: "(world \<Rightarrow> bool) \<Rightarrow> bool" where
  "field_data I \<longleftrightarrow> (\<exists>J. I = (\<lambda>w. J (dbSeasons w) (rdChunks w) (rdClosed w)))"

lemma field_dataI: "field_data (\<lambda>w. J (dbSeasons w) (rdChunks w) (rdClosed w))"
  by (auto simp: field_data_def)

lemma field_dataD:
  "field_data I \<Longrightarrow> I w \<Longrightarrow> dbSeasons w' = dbSeasons w \<Longrightarrow> rdChunks w' = rdChunks w \<Longrightarrow> rdClosed w' = rdClosed w \<Longrightarrow> I w'"
  by (auto simp: field_data_def)

lemma field_data_inv: "field_data I \<Longrightarrow> data_inv I"
  by (auto simp: field_data_def intro!: data_invI)

lemma field_data_outside: "field_data I \<Longrightarrow> outside_match I"
proof -
  assume "field_data I"
  then obtain J where J: "I = (\<lambda>w. J (dbSeasons w) (rdChunks w) (rdClosed w))" unfolding field_data_def by (rule exE)
  have "outside_data I" unfolding outside_data_def J
    by (rule exI [of _ "\<lambda>ss cs cl _ _ _ _ _. J ss cs cl"]) (rule refl)
  then show ?thesis by (rule outside_data_match)
qed

lemma field_keeps_rd: "field_data I \<Longrightarrow> keeps I (rd f)"
  by (rule frame_rd [OF field_data_outside])

lemma field_keeps_timeNow: "field_data I \<Longrightarrow> keeps I timeNow"
  by (rule frame_timeNow [OF field_data_outside])

lemma field_keeps_applyMineMatchOpenResult:
  "field_data I \<Longrightarrow> keeps I (applyMineMatchOpenResult mac wi u s c st r)"
  unfolding applyMineMatchOpenResult_def by (auto intro!: gives_intros match_frame field_data_outside)

lemma field_keeps_authorize: "field_data I \<Longrightarrow> keeps I (authorizeMineMatchOperation wi u s c)"
  unfolding authorizeMineMatchOperation_def by (auto intro!: gives_intros match_frame field_data_outside)

section \<open>Chunk states\<close>

lemma chunk_ok_new: "chunk_ok mac dur s c (NewMineChunkState (seID s) (chunkString c))"
  by (simp add: chunk_ok_def closure_ok_def NewMineChunkState_def mhas_def)

lemma fillClosure_ok: "chunk_ok mac dur s c st \<Longrightarrow> csClosed st \<Longrightarrow> fillClosure dur st now = st"
  by (auto simp: chunk_ok_def closure_ok_def fillClosure_def)

lemma chunk_ok_reopened: "chunk_ok mac dur s c st \<Longrightarrow> chunk_ok mac dur s c (reopened st)"
  by (simp add: chunk_ok_def closure_ok_def reopened_def)

lemma chunk_ok_bumpVersion: "chunk_ok mac dur s c st \<Longrightarrow> chunk_ok mac dur s c (bumpVersion st)"
  by (simp add: chunk_ok_def closure_ok_def bumpVersion_def)

lemma chunk_ok_closeByMine: "chunk_ok mac dur s c st \<Longrightarrow> chunk_ok mac dur s c (closeByMine dur st u now)"
  by (simp add: chunk_ok_def closure_ok_def closeByMine_def)

lemma chunk_ok_setFlag:
  "chunk_ok mac dur s c st \<Longrightarrow> 0 \<le> i \<Longrightarrow> i < 16384 \<Longrightarrow> \<not> mhas (csOpenedCells st) i \<Longrightarrow> chunk_ok mac dur s c (setFlag st i u b)"
  by (auto simp: chunk_ok_def closure_ok_def setFlag_def mhas_def)

text \<open>The cells a safe opening opens: the zero area, or the cell alone.\<close>

definition newlyOpened :: "mac \<Rightarrow> MineSeason \<Rightarrow> ChunkID \<Rightarrow> MineChunkState \<Rightarrow> int \<Rightarrow> int \<Rightarrow> (int \<times> int) set" where
  "newlyOpened mac s c st x y =
     (if cellAdj mac s c x y = 0 then {d. zeroReach mac s c st (x, y) d} else {(x, y)})"

lemma zeroReach_openable: "zeroReach mac s c st a d \<Longrightarrow> openable mac s c st d"
  by (induction rule: zeroReach.induct) simp_all

lemma newlyOpened_openable:
  "openable mac s c st (x, y) \<Longrightarrow> d \<in> newlyOpened mac s c st x y \<Longrightarrow> openable mac s c st d"
  by (auto simp: newlyOpened_def dest: zeroReach_openable split: if_splits simp del: openable.simps)

lemma openSafeCell_spec:
  assumes "season_ok s" "in_grid c" "openable mac s c st (x, y)"
  obtains st' where "openSafeCell mac s c st x y (y * 128 + x) u now = Inr (st', cellAdj mac s c x y)"
    "opened_more mac s c u now st (newlyOpened mac s c st x y) st'"
proof -
  have b: "on_board x y" "\<not> mhas (csFlaggedBy st) (y * 128 + x)" using assms(3) by simp_all
  note adj = AdjacentMineCount_board [OF assms(1,2) b(1)]
  show ?thesis
  proof (cases "cellAdj mac s c x y = 0")
    case True
    obtain st' where "openZeroArea mac (Some s) st c x y u now = Inr st'"
        "opened_more mac s c u now st {d. zeroReach mac s c st (x, y) d} st'"
      using openZeroArea_correct [OF assms(1,2)] by blast
    then show ?thesis using that [of st'] adj True by (simp add: openSafeCell_def newlyOpened_def)
  next
    case False
    show ?thesis
      using that opened_more_open [OF opened_more_refl b] adj False by (simp add: openSafeCell_def newlyOpened_def)
  qed
qed

lemma chunk_ok_opened_more:
  assumes st: "chunk_ok mac dur s c st" and m: "opened_more mac s c u now st new st'"
    and new: "\<And>d. d \<in> new \<Longrightarrow> openable mac s c st d"
  shows "chunk_ok mac dur s c st'"
proof -
  have cell: "cell_ok mac s c i cell" if "mget (csOpenedCells st') i = Some cell" for i cell
  proof (cases "i \<in> cellKey ` new")
    case True
    then obtain x y where d: "(x, y) \<in> new" "i = y * 128 + x" by auto
    then have b: "on_board x y" "\<not> cellMine mac s c x y" using new by force+
    then have xy: "i mod 128 = x" "i div 128 = y" using index_div index_mod d(2) by blast+
    have "cell = zeroSnap mac s c u now i" using that True opened_more_get [OF m, of i] by simp
    then show ?thesis using b d(2) xy by (simp add: cell_ok_def zeroSnap_def)
  next
    case False
    then show ?thesis using that opened_more_get [OF m, of i] st by (simp add: chunk_ok_def)
  qed
  have flag: "\<not> mhas (csOpenedCells st') i" if "mhas (csFlaggedBy st') i" for i
  proof -
    have f: "mhas (csFlaggedBy st) i" using that opened_more_frame(1) [OF m] by simp
    have "i \<notin> cellKey ` new" using f new by force
    then show ?thesis using f st mhas_opened_more [OF m, of i] by (simp add: chunk_ok_def)
  qed
  have "map_ok (csOpenedCells st')" using m st by (simp add: opened_more_def chunk_ok_def)
  then show ?thesis
    using st cell flag opened_more_frame [OF m] by (simp add: chunk_ok_def closure_ok_def)
qed

lemma opened_more_grows:
  assumes m: "opened_more mac s c u now st new st'" and new: "\<And>d. d \<in> new \<Longrightarrow> openable mac s c st d"
  shows "mget (csOpenedCells st) \<subseteq>\<^sub>m mget (csOpenedCells st')"
  unfolding map_le_def
proof (intro ballI)
  fix i assume "i \<in> dom (mget (csOpenedCells st))"
  then obtain cell where i: "mget (csOpenedCells st) i = Some cell" by auto
  have "i \<notin> cellKey ` new" using i new by (force simp: mhas_def)
  then show "mget (csOpenedCells st) i = mget (csOpenedCells st') i" using opened_more_get [OF m, of i] by simp
qed

section \<open>Everything stored\<close>

text \<open>The invariant, with the list of seasons pinned down.\<close>

definition fieldInv :: "mac \<Rightarrow> int \<Rightarrow> MineSeason list \<Rightarrow> world \<Rightarrow> bool" where
  "fieldInv mac dur ss w \<longleftrightarrow> field_ok mac dur w \<and> dbSeasons w = ss"

lemma field_data_field_ok: "field_data (field_ok mac dur)"
  unfolding field_data_def field_ok_def closed_index_ok_def by (rule exI, rule refl)

lemma field_data_fieldInv: "field_data (fieldInv mac dur ss)"
  unfolding field_data_def fieldInv_def field_ok_def closed_index_ok_def by (rule exI, rule refl)

lemma fieldInv_lookup:
  assumes "fieldInv mac dur ss w" "rdChunks w (sid, cid) = Some st"
  shows "\<exists>s \<in> set ss. \<exists>c. playable c \<and> sid = seID s \<and> cid = chunkString c \<and> chunk_ok mac dur s c st"
proof -
  have "field_ok mac dur w" "dbSeasons w = ss" using assms(1) by (simp_all add: fieldInv_def)
  then show ?thesis using assms(2) unfolding field_ok_def by blast
qed

lemma fieldInv_stored:
  assumes "fieldInv mac dur ss w" "s \<in> set ss" "playable c" "rdChunks w (seID s, chunkString c) = Some st"
  shows "chunk_ok mac dur s c st"
proof -
  obtain s' c' where s': "s' \<in> set ss" "playable c'" "seID s = seID s'" "chunkString c = chunkString c'"
      "chunk_ok mac dur s' c' st"
    using assms(1,4) unfolding fieldInv_def field_ok_def by blast
  have "distinct (map seID ss)" using assms(1) by (auto simp: fieldInv_def field_ok_def seasons_ok_def)
  then have "s' = s" using s'(1,3) assms(2) by (auto simp: distinct_map inj_on_def)
  moreover have "c' = c" using s'(4) chunkString_inj [OF playable_ok playable_ok] assms(3) s'(2) by metis
  ultimately show ?thesis using s'(5) by simp
qed

lemma fieldInv_season: "fieldInv mac dur ss w \<Longrightarrow> s \<in> set ss \<Longrightarrow> season_ok s"
  by (auto simp: fieldInv_def field_ok_def seasons_ok_def)

lemma fieldInv_storeChunk:
  assumes "fieldInv mac dur ss w" "s \<in> set ss" "playable c" "chunk_ok mac dur s c st"
  shows "fieldInv mac dur ss (storeChunk st w)"
proof -
  have k: "chunkKey st = (seID s, chunkString c)" using assms(4) by (simp add: chunk_ok_def chunkKey_def)
  have "closed_index_ok (storeChunk st w)"
    using assms(1) by (simp add: fieldInv_def field_ok_def closed_index_ok_storeChunk)
  moreover have "\<exists>s \<in> set ss. \<exists>c. playable c \<and> sid = seID s \<and> cid = chunkString c \<and> chunk_ok mac dur s c st'"
    if "rdChunks (storeChunk st w) (sid, cid) = Some st'" for sid cid st'
    using that assms k by (auto simp: cs.lookup_put fieldInv_def field_ok_def split: if_splits)
  moreover have "seasons_ok ss" "dbSeasons w = ss" using assms(1) by (auto simp: fieldInv_def field_ok_def)
  ultimately show ?thesis by (simp add: fieldInv_def field_ok_def)
qed

section \<open>Every step keeps the invariant\<close>

text \<open>
  The contract of an assertion \<open>I\<close> about the stored field with the chunks that are worked on, all or some: what is loaded of them
  is \<open>good\<close>, what is good may be stored, and a well-formed state with at least the opened cells of a good one is good.
  Every operation on such a chunk keeps the assertion.
\<close>

locale worked_chunks =
  fixes mac :: mac and dur :: int and ss :: "MineSeason list" and worked :: "ChunkID \<Rightarrow> bool" and I :: "world \<Rightarrow> bool"
    and good :: "MineSeason \<Rightarrow> ChunkID \<Rightarrow> MineChunkState \<Rightarrow> bool"
  assumes worked_playable: "worked c \<Longrightarrow> playable c"
    and data: "field_data I"
    and seasons: "I w \<Longrightarrow> seasons_ok ss \<and> dbSeasons w = ss"
    and stored_good: "I w \<Longrightarrow> s \<in> set ss \<Longrightarrow> worked c \<Longrightarrow> rdChunks w (seID s, chunkString c) = Some st \<Longrightarrow> good s c st"
    and fresh_good: "I w \<Longrightarrow> s \<in> set ss \<Longrightarrow> worked c \<Longrightarrow> rdChunks w (seID s, chunkString c) = None \<Longrightarrow>
        good s c (NewMineChunkState (seID s) (chunkString c))"
    and good_ok: "good s c st \<Longrightarrow> chunk_ok mac dur s c st"
    and good_more: "good s c st \<Longrightarrow> chunk_ok mac dur s c st' \<Longrightarrow> mget (csOpenedCells st) \<subseteq>\<^sub>m mget (csOpenedCells st') \<Longrightarrow> good s c st'"
    and store: "I w \<Longrightarrow> s \<in> set ss \<Longrightarrow> worked c \<Longrightarrow> good s c st \<Longrightarrow> I (storeChunk st w)"
begin

lemma inv [simp]: "data_inv I"
  by (rule field_data_inv [OF data])

lemma gives_activeSeason: "gives I activeSeason (\<lambda>s. s \<in> set ss \<and> season_ok s)"
proof -
  have q: "gives I (rd (\<lambda>w. latestSeason (filter (seasonOpenAt now) (dbSeasons w))))
      (\<lambda>r. \<forall>s. r = Some s \<longrightarrow> s \<in> set ss \<and> season_ok s)" for now
    by (rule gives_rd [OF inv]) (use seasons in \<open>auto simp: seasons_ok_def dest!: latestSeason_Some\<close>)
  have "gives I GetActiveSeason (\<lambda>r. \<forall>s. r = Some s \<longrightarrow> s \<in> set ss \<and> season_ok s)"
    unfolding GetActiveSeason_def by (rule gives_andThen [OF keeps_timeNow [OF inv]]) (rule q)
  then show ?thesis unfolding activeSeason_def
    by (rule gives_andThen) (auto intro!: gives_intros)
qed

lemma gives_loadChunkState:
  assumes "s \<in> set ss" "worked c"
  shows "gives I (loadChunkState (seID s) (chunkString c))
    (\<lambda>r. good s c (case r of None \<Rightarrow> NewMineChunkState (seID s) (chunkString c) | Some st \<Rightarrow> st))"
  unfolding loadChunkState_def
  by (rule gives_GetState [OF inv]) (use assms stored_good fresh_good in \<open>auto split: option.split\<close>)

lemma gives_loadOrNew:
  assumes "s \<in> set ss" "worked c"
  shows "gives I (loadOrNewChunkState (seID s) (chunkString c)) (good s c)"
  unfolding loadOrNewChunkState_def
  by (rule gives_andThen [OF gives_loadChunkState [OF assms]]) (auto intro!: gives_intros split: option.splits)

lemma keeps_SaveState_ok: "s \<in> set ss \<Longrightarrow> worked c \<Longrightarrow> good s c st \<Longrightarrow> keeps I (SaveState st)"
  by (rule keeps_SaveState [OF inv]) (rule store)

lemma good_reopened: assumes "good s c st" shows "good s c (reopened st)"
  by (rule good_more [OF assms chunk_ok_reopened [OF good_ok [OF assms]]]) (simp add: reopened_def)

lemma gives_reopen:
  assumes "s \<in> set ss" "worked c" "good s c st"
  shows "gives I (reopenExpiredChunk dur st now) (good s c)"
proof (cases "csClosed st")
  case True
  note keep = keeps_SaveState_ok [OF assms(1,2)]
  show ?thesis
    unfolding reopenExpiredChunk_def fillClosure_ok [OF good_ok [OF assms(3)] True] Let_def
    using assms(3) good_reopened [OF assms(3)]
    by (auto intro!: gives_intros gives_andThen [OF keep])
next
  case False
  then show ?thesis using assms(3) by (simp add: reopenExpiredChunk_def gives_ret)
qed

lemma gives_enterChunk:
  assumes "worked c"
  shows "gives I (enterChunk wi dur u c) (\<lambda>(s, st). s \<in> set ss \<and> season_ok s \<and> good s c st \<and> \<not> csClosed st)"
  unfolding enterChunk_def
proof (rule gives_andThen [OF gives_activeSeason])
  fix s assume s: "s \<in> set ss \<and> season_ok s"
  show "gives I
     (andThen (authorizeMineMatchOperation wi u (seID s) (chunkString c)) (\<lambda>_.
      andThen (loadOrNewChunkState (seID s) (chunkString c)) (\<lambda>st0.
      andThen timeNow (\<lambda>t.
      andThen (reopenExpiredChunk dur st0 t) (\<lambda>st. if csClosed st then fail ErrChunkClosed else ret (s, st))))))
     (\<lambda>(s, st). s \<in> set ss \<and> season_ok s \<and> good s c st \<and> \<not> csClosed st)"
    using s assms
    by (auto intro!: gives_intros gives_andThen [OF field_keeps_authorize [OF data]] gives_andThen [OF gives_loadOrNew]
        gives_andThen [OF keeps_timeNow [OF inv]] gives_andThen [OF gives_reopen])
qed

text \<open>What a safe step or a mine makes of a good chunk.\<close>

lemma good_step:
  assumes s: "season_ok s" "in_grid c" and st: "good s c st" and b: "on_board x y"
    and new: "mget (csOpenedCells st) (y * 128 + x) = None" "\<not> mhas (csFlaggedBy st) (y * 128 + x)"
  shows "gives I (liftE (if cellMine mac s c x y then Inr (closeByMine dur st u now, 0)
           else openSafeCell mac s c st x y (y * 128 + x) u now)) (\<lambda>(st1, adj). good s c (bumpVersion st1))"
proof (cases "cellMine mac s c x y")
  case True
  have "good s c (bumpVersion (closeByMine dur st u now))"
    by (rule good_more [OF st]) (use good_ok [OF st] in \<open>simp_all add: chunk_ok_bumpVersion chunk_ok_closeByMine\<close>,
      simp add: bumpVersion_def closeByMine_def)
  then show ?thesis using True by (simp add: gives_ret)
next
  case False
  then have o: "openable mac s c st (x, y)" using new b by (simp add: mhas_def)
  obtain st' where st': "openSafeCell mac s c st x y (y * 128 + x) u now = Inr (st', cellAdj mac s c x y)"
      "opened_more mac s c u now st (newlyOpened mac s c st x y) st'"
    using openSafeCell_spec [OF s o, of u now] by metis
  have "good s c (bumpVersion st')"
  proof (rule good_more [OF st])
    show "chunk_ok mac dur s c (bumpVersion st')"
      by (rule chunk_ok_bumpVersion [OF chunk_ok_opened_more [OF good_ok [OF st] st'(2) newlyOpened_openable [OF o]]])
    show "mget (csOpenedCells st) \<subseteq>\<^sub>m mget (csOpenedCells (bumpVersion st'))"
      using opened_more_grows [OF st'(2) newlyOpened_openable [OF o]] by (simp add: bumpVersion_def)
  qed
  then show ?thesis using False st'(1) by (simp add: gives_ret)
qed

lemma keeps_openCellInWorker:
  assumes "worked c"
  shows "keeps I (openCellInWorker mac wi dur u c x y)"
proof (cases "ChunkCellIndex x y")
  case (Inl e)
  then show ?thesis by (simp add: openCellInWorker_def gives_fail)
next
  case (Inr i)
  then have b: "on_board x y" "i = y * 128 + x" by (simp_all add: ChunkCellIndex_Inr)
  have "keeps I (case p of (s, st) \<Rightarrow>
     case mget (csOpenedCells st) i of
       Some opened \<Rightarrow> applyMineMatchOpenResult mac wi u s c st (alreadyOpenResponse c st opened)
     | None \<Rightarrow>
       if mhas (csFlaggedBy st) i then fail ErrCellFlagged
       else
         andThen timeNow (\<lambda>now.
         andThen (liftE (IsMine mac (Some s) c x y)) (\<lambda>isMine.
         if isMine \<and> \<not> playerHasOpenedCell st u
         then applyMineMatchOpenResult mac wi u s c st (protectedResponse c st x y i now)
         else
           andThen (liftE (if isMine then Inr (closeByMine dur st u now, 0)
                           else openSafeCell mac s c st x y i u now)) (\<lambda>(st1, adj).
           let st2 = bumpVersion st1 in
           andThen (SaveState st2) (\<lambda>_.
           applyMineMatchOpenResult mac wi u s c st2
             (savedResponse c st2 x y i now isMine adj (mlen (csOpenedCells st))))))))"
    if p: "case p of (s, st) \<Rightarrow> s \<in> set ss \<and> season_ok s \<and> good s c st \<and> \<not> csClosed st" for p
  proof -
    obtain s st where ps: "p = (s, st)" by (cases p)
    have s: "s \<in> set ss" "season_ok s" and st: "good s c st" using p ps by auto
    have mine: "IsMine mac (Some s) c x y = Inr (cellMine mac s c x y)"
      by (rule IsMine_board [OF s(2) playable_in_grid [OF worked_playable [OF assms]] b(1)])
    note safe = good_step [OF s(2) playable_in_grid [OF worked_playable [OF assms]] st b(1), folded b(2)]
    note save = keeps_SaveState_ok [OF s(1) assms]
    show ?thesis
      unfolding ps mine prod.case liftE_simps andThen_ret Let_def
      by (auto intro!: gives_intros field_keeps_applyMineMatchOpenResult [OF data]
          gives_andThen [OF keeps_timeNow [OF inv]] gives_andThen [OF safe] gives_andThen [OF save])
  qed
  then show ?thesis unfolding openCellInWorker_def Inr sum.case
    by (rule gives_andThen [OF gives_enterChunk [OF assms]])
qed

lemma good_flag:
  assumes "good s c st" "0 \<le> i" "i < 16384" "\<not> mhas (csOpenedCells st) i"
  shows "good s c (bumpVersion (setFlag st i u b))"
  by (rule good_more [OF assms(1)])
    (use chunk_ok_bumpVersion [OF chunk_ok_setFlag [OF good_ok [OF assms(1)] assms(2-4)]] in simp, simp add: bumpVersion_def setFlag_def)

lemma keeps_flagCellInWorker:
  assumes "worked c"
  shows "keeps I (flagCellInWorker wi dur u c x y f)"
proof (cases "ChunkCellIndex x y")
  case (Inl e)
  then show ?thesis by (simp add: flagCellInWorker_def gives_fail)
next
  case (Inr i)
  then have i: "0 \<le> i" "i < 16384" using index_range by (auto simp: ChunkCellIndex_Inr)
  show ?thesis unfolding flagCellInWorker_def Inr sum.case Let_def
    by (rule gives_andThen [OF gives_enterChunk [OF assms]])
      (auto intro!: gives_intros gives_andThen [OF keeps_SaveState_ok [OF _ assms good_flag]] i)
qed

lemma keeps_handleChunkOperation: "worked c \<Longrightarrow> keeps I (handleChunkOperation mac wi dur cancelled u c op)"
  unfolding handleChunkOperation_def
  by (cases op) (auto intro!: gives_intros keeps_andThen keeps_openCellInWorker keeps_flagCellInWorker)

end

text \<open>An assertion about all chunks.\<close>

locale chunk_contract = worked_chunks mac dur ss playable I good
  for mac :: mac and dur :: int and ss :: "MineSeason list" and I :: "world \<Rightarrow> bool"
    and good :: "MineSeason \<Rightarrow> ChunkID \<Rightarrow> MineChunkState \<Rightarrow> bool"

interpretation whole: chunk_contract mac dur ss "fieldInv mac dur ss" "chunk_ok mac dur" for mac dur ss
proof unfold_locales
  show "seasons_ok ss \<and> dbSeasons w = ss" if "fieldInv mac dur ss w" for w
    using that by (auto simp: fieldInv_def field_ok_def)
qed (simp_all add: field_data_fieldInv fieldInv_stored chunk_ok_new fieldInv_storeChunk)

end
