(* ===== verification/ChunkFunc.thy ===== *)
theory ChunkFunc
  imports ChunkInv
begin

text \<open>
  What each operation of the minefield does when the stores answer: one theorem per branch of
  \<^verbatim>\<open>openCellInWorker\<close> and \<^verbatim>\<open>flagCellInWorker\<close>, errors included. \<open>at_chunk\<close> collects the situation of
  a request: the clock, the active season, the chunk and its stored state.
\<close>

section \<open>The situation of a request\<close>

definition activeMatchOf :: "world \<Rightarrow> int \<Rightarrow> MineMatchState option" where
  "activeMatchOf w u = (case rdUserMatch w u of None \<Rightarrow> None | Some m \<Rightarrow>
     (case rdMineMatches w m of None \<Rightarrow> None
      | Some st \<Rightarrow> if mmStatus st = MineMatchStatusOngoing then Some st else None))"

definition lockOwner :: "world \<Rightarrow> int \<times> string \<Rightarrow> int" where
  "lockOwner w k = (case rdChunkLock w k of None \<Rightarrow> 0 | Some m \<Rightarrow> m)"

text \<open>A player outside every match on a chunk outside every match.\<close>

definition free_player :: "wiring \<Rightarrow> world \<Rightarrow> int \<Rightarrow> int \<Rightarrow> string \<Rightarrow> bool" where
  "free_player wi w u sid cid \<longleftrightarrow> wiMatch wi \<longrightarrow> activeMatchOf w u = None \<and> lockOwner w (sid, cid) = 0"

definition loadedState :: "world \<Rightarrow> int \<Rightarrow> string \<Rightarrow> MineChunkState" where
  "loadedState w sid cid = (case rdChunks w (sid, cid) of None \<Rightarrow> NewMineChunkState sid cid | Some st \<Rightarrow> st)"

definition at_chunk :: "mac \<Rightarrow> int \<Rightarrow> world \<Rightarrow> int \<Rightarrow> MineSeason \<Rightarrow> ChunkID \<Rightarrow> MineChunkState \<Rightarrow> bool" where
  "at_chunk mac dur w t s c st \<longleftrightarrow> net w = [] \<and> clock w = [t] \<and> field_ok mac dur w
     \<and> latestSeason (filter (seasonOpenAt t) (dbSeasons w)) = Some s \<and> playable c
     \<and> st = loadedState w (seID s) (chunkString c)"

lemma GetActiveMatchByUser_of: "net w = [] \<Longrightarrow> GetActiveMatchByUser u w = (Inr (activeMatchOf w u), w)"
  by (simp add: GetActiveMatchByUser_calm activeMatchOf_def)

lemma GetChunkLock_of: "net w = [] \<Longrightarrow> GetChunkLock sid cid w = (Inr (lockOwner w (sid, cid)), w)"
  by (simp add: GetChunkLock_def lockOwner_def)

lemma activeSeason_at: "at_chunk mac dur w t s c st \<Longrightarrow> activeSeason w = (Inr s, w)"
  by (simp add: at_chunk_def activeSeason_def GetActiveSeason_def andThen_def timeNow_const ret_def)

lemma loadOrNew_at:
  "at_chunk mac dur w t s c st \<Longrightarrow> loadOrNewChunkState (seID s) (chunkString c) w = (Inr st, w)"
  by (simp add: at_chunk_def loadOrNewChunkState_def loadChunkState_def GetState_def andThen_def ret_def loadedState_def
      split: option.splits)

lemma timeNow_at: "at_chunk mac dur w t s c st \<Longrightarrow> timeNow w = (Inr t, w)"
  by (simp add: at_chunk_def timeNow_const)

lemma season_at: "at_chunk mac dur w t s c st \<Longrightarrow> s \<in> set (dbSeasons w) \<and> season_ok s"
  unfolding at_chunk_def field_ok_def seasons_ok_def using latestSeason_Some by fastforce

lemma chunk_ok_at: assumes "at_chunk mac dur w t s c st" shows "chunk_ok mac dur s c st"
proof -
  have inv: "fieldInv mac dur (dbSeasons w) w" and p: "playable c" and st: "st = loadedState w (seID s) (chunkString c)"
    using assms by (simp_all add: at_chunk_def fieldInv_def)
  show ?thesis
    using fieldInv_stored [OF inv _ p] season_at [OF assms] st chunk_ok_new
    by (cases "rdChunks w (seID s, chunkString c)") (auto simp: loadedState_def)
qed

lemma authorize_free:
  "net w = [] \<Longrightarrow> free_player wi w u sid cid \<Longrightarrow> authorizeMineMatchOperation wi u sid cid w = (Inr None, w)"
  by (simp add: authorizeMineMatchOperation_def AuthorizeChunkOperation_def free_player_def andThen_def
      GetActiveMatchByUser_of GetChunkLock_of ret_def)

lemma authorize_same: "net w = [] \<Longrightarrow> snd (authorizeMineMatchOperation wi u sid cid w) = w"
  by (auto simp: authorizeMineMatchOperation_def AuthorizeChunkOperation_def andThen_def
      GetActiveMatchByUser_of GetChunkLock_of ret_def fail_def split: option.split)

lemma apply_free:
  "net w = [] \<Longrightarrow> wiMatch wi \<longrightarrow> activeMatchOf w u = None \<Longrightarrow> applyMineMatchOpenResult mac wi u s c st r w = (Inr r, w)"
  by (simp add: applyMineMatchOpenResult_def ApplyOpenResult_def andThen_def GetActiveMatchByUser_of ret_def)

text \<open>Whether a stored chunk lets players in at \<open>t\<close>, and in which state.\<close>

definition openState :: "MineChunkState \<Rightarrow> MineChunkState" where
  "openState st = (if csClosed st then reopened st else st)"

definition stillClosed :: "MineChunkState \<Rightarrow> int \<Rightarrow> bool" where
  "stillClosed st t \<longleftrightarrow> csClosed st \<and> (\<exists>e. csClosedUntil st = Some e \<and> t < e)"

lemma reopen_calm:
  assumes "net w = []" "chunk_ok mac dur s c st"
  shows "reopenExpiredChunk dur st t w =
    (if csClosed st \<and> \<not> stillClosed st t then (Inr (reopened st), storeChunk (reopened st) w) else (Inr st, w))"
proof (cases "csClosed st")
  case True
  then obtain a where a: "csClosedAt st = Some a" "csClosedUntil st = Some (a + dur)"
    using assms(2) by (auto simp: chunk_ok_def closure_ok_def)
  show ?thesis
    using True a assms(1) fillClosure_ok [OF assms(2) True]
    by (simp add: reopenExpiredChunk_def stillClosed_def SaveState_def andThen_def ret_def)
qed (simp add: reopenExpiredChunk_def ret_def stillClosed_def)

text \<open>The world after the expired closure, if any, was lifted.\<close>

definition entered :: "MineChunkState \<Rightarrow> world \<Rightarrow> world" where
  "entered st w = (if csClosed st then storeChunk (reopened st) w else w)"

lemma entered_frame [simp]:
  "net (entered st w) = net w" "clock (entered st w) = clock w" "rdUserMatch (entered st w) = rdUserMatch w"
  "rdMineMatches (entered st w) = rdMineMatches w" "rdChunkLock (entered st w) = rdChunkLock w"
  by (simp_all add: entered_def)

lemma activeMatchOf_entered [simp]: "activeMatchOf (entered st w) u = activeMatchOf w u"
  by (simp add: activeMatchOf_def split: option.split)

lemma openState_closed [simp]: "\<not> csClosed (openState st)"
  by (simp add: openState_def reopened_def)

lemma openState_cells [simp]:
  "csOpenedCells (openState st) = csOpenedCells st" "csFlaggedBy (openState st) = csFlaggedBy st"
  "csSeasonID (openState st) = csSeasonID st" "csChunkID (openState st) = csChunkID st"
  by (simp_all add: openState_def reopened_def)

lemma enterChunk_at:
  assumes at: "at_chunk mac dur w t s c st"
  shows "enterChunk wi dur u c w =
    (case authorizeMineMatchOperation wi u (seID s) (chunkString c) w of
       (Inl e, w') \<Rightarrow> (Inl e, w')
     | (Inr a, w') \<Rightarrow> if stillClosed st t then (Inl ErrChunkClosed, w) else (Inr (s, openState st), entered st w))"
proof -
  have n: "net w = []" using at by (simp add: at_chunk_def)
  obtain r where r: "authorizeMineMatchOperation wi u (seID s) (chunkString c) w = (r, w)"
    using authorize_same [OF n, of wi u "seID s" "chunkString c"]
    by (cases "authorizeMineMatchOperation wi u (seID s) (chunkString c) w") auto
  have cl: "csClosed (reopened st) = False" by (simp add: reopened_def)
  show ?thesis
    using n activeSeason_at [OF at] loadOrNew_at [OF at] timeNow_at [OF at]
    by (cases r) (auto simp: enterChunk_def andThen_def r reopen_calm [OF n chunk_ok_at [OF at]] ret_def fail_def
        stillClosed_def openState_def entered_def cl)
qed

section \<open>Opening\<close>

lemma openable_openState [simp]: "openable mac s c (openState st) d = openable mac s c st d"
  by (cases d) simp

lemma enter_free:
  assumes "at_chunk mac dur w t s c st" "free_player wi w u (seID s) (chunkString c)"
  shows "enterChunk wi dur u c w =
    (if stillClosed st t then (Inl ErrChunkClosed, w) else (Inr (s, openState st), entered st w))"
  using enterChunk_at [OF assms(1)] authorize_free [OF _ assms(2)] assms(1) by (simp add: at_chunk_def)

lemma apply_free_entered:
  assumes "at_chunk mac dur w t s c st" "free_player wi w u (seID s) (chunkString c)"
  shows "applyMineMatchOpenResult mac wi u s c st1 r (entered st w) = (Inr r, entered st w)"
    and "applyMineMatchOpenResult mac wi u s c st1 r (storeChunk st2 (entered st w)) = (Inr r, storeChunk st2 (entered st w))"
proof -
  have "net w = []" "wiMatch wi \<longrightarrow> activeMatchOf w u = None"
    using assms by (auto simp: at_chunk_def free_player_def)
  moreover have "activeMatchOf (storeChunk st2 (entered st w)) u = activeMatchOf w u"
    by (simp add: activeMatchOf_def split: option.split)
  ultimately show "applyMineMatchOpenResult mac wi u s c st1 r (entered st w) = (Inr r, entered st w)"
    "applyMineMatchOpenResult mac wi u s c st1 r (storeChunk st2 (entered st w)) = (Inr r, storeChunk st2 (entered st w))"
    by (intro apply_free; simp)+
qed

lemma cell_mine_at: "at_chunk mac dur w t s c st \<Longrightarrow> on_board x y \<Longrightarrow> IsMine mac (Some s) c x y = Inr (cellMine mac s c x y)"
proof -
  assume at: "at_chunk mac dur w t s c st" and b: "on_board x y"
  have "season_ok s" "in_grid c" using season_at [OF at] at playable_in_grid by (auto simp: at_chunk_def)
  then show ?thesis using b by (rule IsMine_board)
qed

lemma timeNow_entered: "at_chunk mac dur w t s c st \<Longrightarrow> timeNow (entered st w) = (Inr t, entered st w)"
  by (simp add: at_chunk_def timeNow_const)

lemma playerHasOpenedCell_openState [simp]: "playerHasOpenedCell (openState st) u = playerHasOpenedCell st u"
  by (simp add: playerHasOpenedCell_def)

lemma cellKey_inj: "(\<And>d. d \<in> S \<Longrightarrow> on_board (fst d) (snd d)) \<Longrightarrow> inj_on cellKey S"
proof (rule inj_onI)
  fix a b assume S: "\<And>d. d \<in> S \<Longrightarrow> on_board (fst d) (snd d)" "a \<in> S" "b \<in> S" "cellKey a = cellKey b"
  then show "a = b" using S(1) [OF S(2)] S(1) [OF S(3)] by (cases a; cases b) (simp add: index_inj)
qed

text \<open>The reported number of new cells is the size of the area.\<close>

lemma opened_more_count:
  assumes m: "opened_more mac s c u t st new st'" and ok: "map_ok (csOpenedCells st)"
    and new: "\<And>d. d \<in> new \<Longrightarrow> openable mac s c st d"
  shows "mlen (csOpenedCells st') - mlen (csOpenedCells st) = int (card new)"
proof -
  let ?o = "dom (mget (csOpenedCells st))" and ?k = "cellKey ` new"
  have ok': "map_ok (csOpenedCells st')" using m ok by (simp add: opened_more_def)
  have b: "on_board (fst d) (snd d)" if "d \<in> new" for d using new [OF that] by (cases d) simp
  have dom: "dom (mget (csOpenedCells st')) = ?o \<union> ?k"
    using opened_more_get [OF m] by (auto simp: dom_def split: if_splits)
  have "finite (dom (mget (csOpenedCells st')))" by (rule finite_dom_map_of)
  then have fin: "finite ?k" unfolding dom by simp
  have "?o \<inter> ?k = {}" using new by (force simp: mhas_def)
  then have "card (?o \<union> ?k) = card ?o + card ?k" using fin by (simp add: card_Un_disjoint finite_dom_map_of)
  moreover have "card ?k = card new" by (rule card_image [OF cellKey_inj]) (rule b)
  ultimately show ?thesis by (simp add: mlen_card [OF ok] mlen_card [OF ok'] dom)
qed

text \<open>The two runs of a step that changes the chunk, for every player whom \<open>enterChunk\<close> lets in: what is saved, and what is
  handed to the match, if any.\<close>

lemma open_safe_run:
  assumes at: "at_chunk mac dur w t s c st" and enter: "enterChunk wi dur u c w = (Inr (s, openState st), entered st w)"
    and b: "on_board x y" and o: "openable mac s c st (x, y)"
  obtains st1 where "opened_more mac s c u t (openState st) (newlyOpened mac s c (openState st) x y) st1"
    "mlen (csOpenedCells st1) - mlen (csOpenedCells st) = int (card (newlyOpened mac s c (openState st) x y))"
    "openCellInWorker mac wi dur u c x y w = applyMineMatchOpenResult mac wi u s c (bumpVersion st1)
       (savedResponse c (bumpVersion st1) x y (y * 128 + x) t False (cellAdj mac s c x y) (mlen (csOpenedCells st)))
       (storeChunk (bumpVersion st1) (entered st w))"
proof -
  let ?st = "openState st" and ?i = "y * 128 + x"
  have so: "season_ok s" and g: "in_grid c" and n: "net w = []"
    using season_at [OF at] at playable_in_grid by (auto simp: at_chunk_def)
  have o': "openable mac s c ?st (x, y)" using o by simp
  obtain st1 where st1: "openSafeCell mac s c ?st x y ?i u t = Inr (st1, cellAdj mac s c x y)"
    and m: "opened_more mac s c u t ?st (newlyOpened mac s c ?st x y) st1"
    using openSafeCell_spec [OF so g o'] by metis
  have ok: "chunk_ok mac dur s c st" by (rule chunk_ok_at [OF at])
  have cnt: "mlen (csOpenedCells st1) - mlen (csOpenedCells st) = int (card (newlyOpened mac s c ?st x y))"
    using opened_more_count [OF m _ newlyOpened_openable [OF o']] ok by (simp add: chunk_ok_def)
  have nf: "mget (csOpenedCells st) ?i = None" "\<not> mhas (csFlaggedBy st) ?i" "\<not> cellMine mac s c x y"
    using o by (simp_all add: mhas_def)
  have "openCellInWorker mac wi dur u c x y w = applyMineMatchOpenResult mac wi u s c (bumpVersion st1)
       (savedResponse c (bumpVersion st1) x y ?i t False (cellAdj mac s c x y) (mlen (csOpenedCells st)))
       (storeChunk (bumpVersion st1) (entered st w))"
    using n nf st1 timeNow_entered [OF at] cell_mine_at [OF at b]
    by (simp add: openCellInWorker_def ChunkCellIndex_board [OF b] andThen_def enter ret_def SaveState_def Let_def)
  then show ?thesis by (rule that [OF m cnt])
qed

lemma open_mine_run:
  assumes at: "at_chunk mac dur w t s c st" and enter: "enterChunk wi dur u c w = (Inr (s, openState st), entered st w)"
    and b: "on_board x y" and mine: "cellMine mac s c x y"
    and new: "\<not> mhas (csOpenedCells st) (y * 128 + x)" "\<not> mhas (csFlaggedBy st) (y * 128 + x)"
  shows "openCellInWorker mac wi dur u c x y w =
    (if playerHasOpenedCell st u
     then applyMineMatchOpenResult mac wi u s c (bumpVersion (closeByMine dur (openState st) u t))
       (savedResponse c (bumpVersion (closeByMine dur (openState st) u t)) x y (y * 128 + x) t True 0 (mlen (csOpenedCells st)))
       (storeChunk (bumpVersion (closeByMine dur (openState st) u t)) (entered st w))
     else applyMineMatchOpenResult mac wi u s c (openState st) (protectedResponse c (openState st) x y (y * 128 + x) t) (entered st w))"
  using new mine at timeNow_entered [OF at] cell_mine_at [OF at b]
  by (simp add: at_chunk_def openCellInWorker_def ChunkCellIndex_board [OF b] andThen_def enter ret_def SaveState_def mhas_def Let_def)

text \<open>(C14) Opening a safe cell: the player gets the number of mines next to it, the stored chunk gains exactly the
  zero area of the cell (or the cell alone) with correct counts, everything opened before and every flag stays,
  the version goes up by one, no other chunk changes, and the reported number of newly
  opened cells is the size of what was added.\<close>

theorem openCellInWorker_safe:
  assumes at: "at_chunk mac dur w t s c st" and free: "free_player wi w u (seID s) (chunkString c)"
    and b: "on_board x y" and nc: "\<not> stillClosed st t" and o: "openable mac s c st (x, y)"
  shows "\<exists>st' resp. openCellInWorker mac wi dur u c x y w = (Inr resp, storeChunk st' (entered st w))
    \<and> (\<forall>i. mget (csOpenedCells st') i =
         (if i \<in> cellKey ` newlyOpened mac s c (openState st) x y then Some (zeroSnap mac s c u t i)
          else mget (csOpenedCells st) i))
    \<and> csFlaggedBy st' = csFlaggedBy st \<and> \<not> csClosed st'
    \<and> csSeasonID st' = seID s \<and> csChunkID st' = chunkString c
    \<and> csVersion st' = wrap64 (csVersion (openState st) + 1)
    \<and> opMine resp = False \<and> opCanceled resp = False \<and> opIndex resp = y * 128 + x \<and> opVersion resp = csVersion st'
    \<and> opAdjacentMines resp = cellAdj mac s c x y \<and> opOpenedAt resp = t
    \<and> opNewOpenedCount resp = int (card (newlyOpened mac s c (openState st) x y))"
proof -
  let ?i = "y * 128 + x"
  have ok: "chunk_ok mac dur s c st" by (rule chunk_ok_at [OF at])
  have enter: "enterChunk wi dur u c w = (Inr (s, openState st), entered st w)" using nc by (simp add: enter_free [OF at free])
  obtain st1 where m: "opened_more mac s c u t (openState st) (newlyOpened mac s c (openState st) x y) st1"
    and cnt: "mlen (csOpenedCells st1) - mlen (csOpenedCells st) = int (card (newlyOpened mac s c (openState st) x y))"
    and run: "openCellInWorker mac wi dur u c x y w = applyMineMatchOpenResult mac wi u s c (bumpVersion st1)
       (savedResponse c (bumpVersion st1) x y ?i t False (cellAdj mac s c x y) (mlen (csOpenedCells st)))
       (storeChunk (bumpVersion st1) (entered st w))"
    by (rule open_safe_run [OF at enter b o])
  show ?thesis
    by (intro exI conjI, rule run [unfolded apply_free_entered(2) [OF at free]])
      (use ok opened_more_frame [OF m] opened_more_get [OF m] cnt in
        \<open>simp_all add: bumpVersion_def savedResponse_def baseOpenResponse_def chunk_ok_def\<close>)
qed

text \<open>(C20) Stepping on a mine: a player who has opened a cell of the chunk before closes it, for the
  configured time from now; nothing opened or flagged is lost, and the chunk is listed among
  the closed ones.\<close>

theorem openCellInWorker_mine:
  assumes at: "at_chunk mac dur w t s c st" and free: "free_player wi w u (seID s) (chunkString c)"
    and b: "on_board x y" and nc: "\<not> stillClosed st t" and mine: "cellMine mac s c x y"
    and new: "\<not> mhas (csOpenedCells st) (y * 128 + x)" "\<not> mhas (csFlaggedBy st) (y * 128 + x)"
    and vet: "playerHasOpenedCell st u"
  shows "\<exists>st' resp. openCellInWorker mac wi dur u c x y w = (Inr resp, storeChunk st' (entered st w))
    \<and> csClosed st' \<and> csClosedBy st' = u \<and> csClosedAt st' = Some t \<and> csClosedUntil st' = Some (t + dur)
    \<and> csOpenedCells st' = csOpenedCells st \<and> csFlaggedBy st' = csFlaggedBy st
    \<and> csVersion st' = wrap64 (csVersion (openState st) + 1)
    \<and> chunkString c \<in> set (rdClosed (storeChunk st' (entered st w)) (seID s))
    \<and> opMine resp \<and> opClosed resp \<and> opClosedUntil resp = Some (t + dur) \<and> opNewOpenedCount resp = 0"
proof -
  have ok: "chunk_ok mac dur s c st" by (rule chunk_ok_at [OF at])
  have enter: "enterChunk wi dur u c w = (Inr (s, openState st), entered st w)" using nc by (simp add: enter_free [OF at free])
  note run = open_mine_run [OF at enter b mine new, unfolded if_P [OF vet] apply_free_entered(2) [OF at free]]
  show ?thesis
    by (intro exI conjI, rule run)
      (use ok in \<open>simp_all add: bumpVersion_def closeByMine_def savedResponse_def baseOpenResponse_def chunk_ok_def
        storeChunk_def\<close>)
qed

text \<open>The first-step protection and the repeated opening: a mine under a player who has opened nothing
  on the chunk, and a cell that is open already, change nothing that is stored; the one is
  reported as a cancelled mine, the other with what was recorded for the cell.\<close>

theorem openCellInWorker_harmless:
  assumes at: "at_chunk mac dur w t s c st" and free: "free_player wi w u (seID s) (chunkString c)"
    and b: "on_board x y" and nc: "\<not> csClosed st"
  shows "(cellMine mac s c x y \<and> \<not> mhas (csOpenedCells st) (y * 128 + x) \<and> \<not> mhas (csFlaggedBy st) (y * 128 + x)
      \<and> \<not> playerHasOpenedCell st u \<longrightarrow>
      (\<exists>resp. openCellInWorker mac wi dur u c x y w = (Inr resp, w) \<and> opMine resp \<and> opCanceled resp
         \<and> \<not> opClosed resp \<and> opNewOpenedCount resp = 0 \<and> opVersion resp = csVersion st))
    \<and> (\<forall>cell. mget (csOpenedCells st) (y * 128 + x) = Some cell \<longrightarrow>
      (\<exists>resp. openCellInWorker mac wi dur u c x y w = (Inr resp, w) \<and> \<not> opMine resp \<and> opNewOpenedCount resp = 0
         \<and> opX resp = x \<and> opY resp = y \<and> opAdjacentMines resp = cellAdj mac s c x y))"
proof (intro conjI impI allI)
  let ?i = "y * 128 + x"
  have n: "net w = []" and st: "openState st = st" "entered st w = w" "\<not> stillClosed st t"
    using at nc by (simp_all add: at_chunk_def openState_def entered_def stillClosed_def)
  note ap = apply_free_entered(1) [OF at free, unfolded st]
  assume "cellMine mac s c x y \<and> \<not> mhas (csOpenedCells st) ?i \<and> \<not> mhas (csFlaggedBy st) ?i \<and> \<not> playerHasOpenedCell st u"
  then have run: "openCellInWorker mac wi dur u c x y w = (Inr (protectedResponse c st x y ?i t), w)"
    using n st timeNow_at [OF at] cell_mine_at [OF at b] ap
    by (simp add: openCellInWorker_def ChunkCellIndex_board [OF b] andThen_def enter_free [OF at free] ret_def mhas_def)
  show "\<exists>resp. openCellInWorker mac wi dur u c x y w = (Inr resp, w) \<and> opMine resp \<and> opCanceled resp
         \<and> \<not> opClosed resp \<and> opNewOpenedCount resp = 0 \<and> opVersion resp = csVersion st"
    by (intro exI conjI, rule run) (simp_all add: protectedResponse_def baseOpenResponse_def)
next
  let ?i = "y * 128 + x"
  fix cell assume cell: "mget (csOpenedCells st) ?i = Some cell"
  have st: "openState st = st" "entered st w = w" "\<not> stillClosed st t"
    using nc by (simp_all add: openState_def entered_def stillClosed_def)
  note ap = apply_free_entered(1) [OF at free, unfolded st]
  have run: "openCellInWorker mac wi dur u c x y w = (Inr (alreadyOpenResponse c st cell), w)"
    using st ap cell
    by (simp add: openCellInWorker_def ChunkCellIndex_board [OF b] andThen_def enter_free [OF at free] ret_def)
  have "cell_ok mac s c ?i cell" using chunk_ok_at [OF at] cell by (simp add: chunk_ok_def)
  then have "ocX cell = x" "ocY cell = y" "ocAdjacentMines cell = cellAdj mac s c x y"
    using b by (auto simp: cell_ok_def index_inj)
  then show "\<exists>resp. openCellInWorker mac wi dur u c x y w = (Inr resp, w) \<and> \<not> opMine resp \<and> opNewOpenedCount resp = 0
         \<and> opX resp = x \<and> opY resp = y \<and> opAdjacentMines resp = cellAdj mac s c x y"
    by - (intro exI conjI, rule run, simp_all add: alreadyOpenResponse_def baseOpenResponse_def)
qed

section \<open>Flagging, and who is turned away\<close>

text \<open>(C38) Flagging a cell that is not open sets or clears that one flag and nothing else on the
  chunk, raises the version by one, and leaves all other chunks alone; an open cell cannot be
  flagged, and a flagged cell cannot be opened.\<close>

theorem flagCellInWorker_branches:
  assumes at: "at_chunk mac dur w t s c st" and free: "free_player wi w u (seID s) (chunkString c)"
    and b: "on_board x y" and nc: "\<not> stillClosed st t"
  shows "(\<not> mhas (csOpenedCells st) (y * 128 + x) \<longrightarrow>
      (\<exists>st' resp. flagCellInWorker wi dur u c x y f w = (Inr resp, storeChunk st' (entered st w))
        \<and> (\<forall>i. mget (csFlaggedBy st') i =
             (if i = y * 128 + x then if f then Some u else None else mget (csFlaggedBy st) i))
        \<and> csOpenedCells st' = csOpenedCells st \<and> \<not> csClosed st'
        \<and> csSeasonID st' = seID s \<and> csChunkID st' = chunkString c
        \<and> csVersion st' = wrap64 (csVersion (openState st) + 1)
        \<and> flFlagged resp = f \<and> flIndex resp = y * 128 + x \<and> flVersion resp = csVersion st'))
    \<and> (mhas (csOpenedCells st) (y * 128 + x) \<longrightarrow>
        flagCellInWorker wi dur u c x y f w = (Inl ErrCellAlreadyOpen, entered st w))
    \<and> (mhas (csFlaggedBy st) (y * 128 + x) \<longrightarrow>
        openCellInWorker mac wi dur u c x y w = (Inl ErrCellFlagged, entered st w))"
proof (intro conjI impI)
  let ?i = "y * 128 + x"
  have n: "net w = []" using at by (simp add: at_chunk_def)
  have ok: "chunk_ok mac dur s c st" by (rule chunk_ok_at [OF at])
  note enter = enter_free [OF at free]
  {
    assume no: "\<not> mhas (csOpenedCells st) ?i"
    let ?st = "bumpVersion (setFlag (openState st) ?i u f)"
    have run: "flagCellInWorker wi dur u c x y f w =
       (Inr \<lparr>flChunkID = chunkString c, flX = x, flY = y, flIndex = ?i, flFlagged = f, flVersion = csVersion ?st\<rparr>,
        storeChunk ?st (entered st w))"
      using n nc no by (simp add: flagCellInWorker_def ChunkCellIndex_board [OF b] andThen_def enter ret_def SaveState_def Let_def)
    show "\<exists>st' resp. flagCellInWorker wi dur u c x y f w = (Inr resp, storeChunk st' (entered st w))
        \<and> (\<forall>i. mget (csFlaggedBy st') i = (if i = ?i then if f then Some u else None else mget (csFlaggedBy st) i))
        \<and> csOpenedCells st' = csOpenedCells st \<and> \<not> csClosed st'
        \<and> csSeasonID st' = seID s \<and> csChunkID st' = chunkString c
        \<and> csVersion st' = wrap64 (csVersion (openState st) + 1)
        \<and> flFlagged resp = f \<and> flIndex resp = ?i \<and> flVersion resp = csVersion st'"
    proof (intro exI conjI, rule run)
      have cl: "\<not> csClosed (openState st)" by simp
      show "\<forall>i. mget (csFlaggedBy ?st) i = (if i = ?i then if f then Some u else None else mget (csFlaggedBy st) i)"
        by (simp add: bumpVersion_def setFlag_def)
    qed (use ok in \<open>simp_all add: bumpVersion_def setFlag_def chunk_ok_def\<close>)
  }
  show "flagCellInWorker wi dur u c x y f w = (Inl ErrCellAlreadyOpen, entered st w)" if "mhas (csOpenedCells st) ?i"
    using that nc by (simp add: flagCellInWorker_def ChunkCellIndex_board [OF b] andThen_def enter fail_def)
  show "openCellInWorker mac wi dur u c x y w = (Inl ErrCellFlagged, entered st w)" if fl: "mhas (csFlaggedBy st) ?i"
  proof -
    have "mget (csOpenedCells st) ?i = None" using fl ok by (auto simp: chunk_ok_def mhas_def)
    then show ?thesis
      using fl nc by (simp add: openCellInWorker_def ChunkCellIndex_board [OF b] andThen_def enter fail_def)
  qed
qed


end
