(* ===== verification/ChunkViews.thy ===== *)
theory ChunkViews
  imports ChunkFunc
begin

text \<open>
  What clients are shown of the minefield: \<^verbatim>\<open>GetChunkSummary\<close>, \<^verbatim>\<open>GetChunkSnapshot\<close> and
  \<^verbatim>\<open>ListChunks\<close> of \<^verbatim>\<open>internal/service/chunk_service.go\<close>, with the demo answers of a service
  without stores. They are not pure: a closed chunk whose time is over is reopened and saved.
\<close>

section \<open>Closed leaves below a chunk\<close>

text \<open>The callers have checked the level; the code's shift would panic above the deepest one.\<close>

definition leafRangeForChunk :: "ChunkID \<Rightarrow> int \<times> int \<times> int \<times> int" where
  "leafRangeForChunk c =
     (let scale = 2 ^ nat (ChunkMaxLevel - cZ c) in
      (wrap64 (cX c * scale), wrap64 (cY c * scale),
       wrap64 (wrap64 (cX c + 1) * scale), wrap64 (wrap64 (cY c + 1) * scale)))"

definition totalLeafCountForLevel :: "int \<Rightarrow> int" where
  "totalLeafCountForLevel level = (let scale = 2 ^ nat (ChunkMaxLevel - level) in scale * scale)"

definition leafInRange :: "ChunkID \<Rightarrow> string \<Rightarrow> bool" where
  "leafInRange c raw = (case ParseChunkID raw of
     Inl e \<Rightarrow> False
   | Inr l \<Rightarrow> (case leafRangeForChunk c of (minX, minY, maxX, maxY) \<Rightarrow>
       cRegion l = cRegion c \<and> cZ l = ChunkMaxLevel \<and>
       cX l \<ge> minX \<and> cX l < maxX \<and> cY l \<ge> minY \<and> cY l < maxY))"

definition countClosedLeaves :: "ChunkID \<Rightarrow> string list \<Rightarrow> int" where
  "countClosedLeaves c closedLeafIDs = int (length (filter (leafInRange c) closedLeafIDs))"

section \<open>Summaries\<close>

definition buildBaseChunkSummary :: "ChunkID \<Rightarrow> err + ChunkSummaryResponse" where
  "buildBaseChunkSummary c = (case ChunkBoundsFor (cZ c) (cX c) (cY c) of
     Inl e \<Rightarrow> Inl ErrInvalidChunkID
   | Inr bounds \<Rightarrow> Inr
      \<lparr>suChunkID = chunkString c, suRegion = cRegion c, suZ = cZ c, suLevel = cZ c, suX = cX c, suY = cY c,
       suBounds = bounds, suWidth = ChunkSize, suHeight = ChunkSize, suState = ''normal'', suClosed = False,
       suClosedAt = None, suClosedUntil = None, suVersion = 1, suOpenedCount = 0, suClosedLeafCount = 0,
       suTotalLeafCount = totalLeafCountForLevel (cZ c), suClosedRatio = 0\<rparr>)"

definition applyMineStateToSummary :: "ChunkSummaryResponse \<Rightarrow> MineChunkState option \<Rightarrow> ChunkSummaryResponse" where
  "applyMineStateToSummary su state = (case state of
     None \<Rightarrow> su\<lparr>suState := ''normal'', suClosed := False, suClosedAt := None, suClosedUntil := None,
                suOpenedCount := 0, suVersion := 1\<rparr>
   | Some st \<Rightarrow> su\<lparr>suClosed := csClosed st, suClosedAt := csClosedAt st, suClosedUntil := csClosedUntil st,
                suVersion := csVersion st, suOpenedCount := mlen (csOpenedCells st),
                suState := (if csClosed st then ''closed''
                            else if mlen (csOpenedCells st) > 0 then ''opening'' else ''normal'')\<rparr>)"

text \<open>The ratio is a quotient by a power of four, which binary64 represents exactly.\<close>

definition applyClosedLeafAggregate :: "ChunkSummaryResponse \<Rightarrow> ChunkID \<Rightarrow> string list \<Rightarrow> ChunkSummaryResponse" where
  "applyClosedLeafAggregate su c closedLeafIDs =
     (let total = totalLeafCountForLevel (cZ c);
          closedN = countClosedLeaves c closedLeafIDs;
          su1 = su\<lparr>suTotalLeafCount := total, suClosedLeafCount := closedN,
                   suClosedRatio := (if total > 0 then of_int closedN / of_int total else suClosedRatio su)\<rparr>;
          su2 = (if cZ c = ChunkMaxLevel then su1\<lparr>suClosed := (suClosed su1 \<or> closedN = 1)\<rparr> else su1)
      in su2\<lparr>suState := (if closedN = total \<and> total > 0 then ''closed''
                         else if closedN > 0 then ''closing''
                         else if suOpenedCount su2 > 0 then ''opening'' else ''normal'')\<rparr>)"

definition reopenIfStored :: "int \<Rightarrow> MineChunkState option \<Rightarrow> int \<Rightarrow> MineChunkState option io" where
  "reopenIfStored dur state now = (case state of
     None \<Rightarrow> ret None | Some st \<Rightarrow> andThen (reopenExpiredChunk dur st now) (\<lambda>st'. ret (Some st')))"

section \<open>Demo answers\<close>

text \<open>The nicknames are the UTF-8 bytes of the Chinese text for ``demo player'' and a letter.\<close>

definition demoName :: "char \<Rightarrow> string" where
  "demoName l = [CHR 0xE6, CHR 0xBC, CHR 0x94, CHR 0xE7, CHR 0xA4, CHR 0xBA,
                 CHR 0xE7, CHR 0x8E, CHR 0xA9, CHR 0xE5, CHR 0xAE, CHR 0xB6, l]"

definition demoOpenedAt :: int where
  "demoOpenedAt = 1779674400 * 1000000000"

text \<open>The demo code computes with the coordinates of a parsed chunk of the grid.\<close>

definition buildDemoOpenedCells :: "ChunkID \<Rightarrow> OpenedCellResponse list" where
  "buildDemoOpenedCells c =
     (let offsetX = (cX c * 11) mod 28; offsetY = (cY c * 7) mod 28 in
      concat (map (\<lambda>y. map (\<lambda>x.
        let player = (if (x + y) mod 2 = 0 then (1001, demoName CHR ''A'') else (1002, demoName CHR ''B'')) in
        \<lparr>orX = x, orY = y, orIndex = (case ChunkCellIndex x y of Inl e \<Rightarrow> 0 | Inr i \<Rightarrow> i), orAdjacentMines = 0,
         orOpenedByUser = fst player, orOpenedByNickname = snd player, orOpenedAt = demoOpenedAt\<rparr>)
        [38 + offsetX..53 + offsetX]) [42 + offsetY..57 + offsetY]))"

definition demoChunkState :: "ChunkID \<Rightarrow> string" where
  "demoChunkState c =
     (let score = (cX c * 31 + cY c * 17 + cZ c * 13) mod 23 in
      if score = 0 \<or> score = 7 then ''closed''
      else if score = 3 \<or> score = 11 then ''hot''
      else if score = 5 \<or> score = 19 then ''opening'' else ''normal'')"

definition demoOpenedCount :: "ChunkID \<Rightarrow> int" where
  "demoOpenedCount c =
     (if cZ c = ChunkMaxLevel then int (length (buildDemoOpenedCells c))
      else 80 + (cX c * 43 + cY c * 29 + cZ c * 97) mod 600)"

definition buildDemoChunkSummary :: "ChunkID \<Rightarrow> err + ChunkSummaryResponse" where
  "buildDemoChunkSummary c = bindE (buildBaseChunkSummary c) (\<lambda>su.
     Inr (su\<lparr>suState := demoChunkState c, suClosed := (demoChunkState c = ''closed''),
             suVersion := 1 + cZ c * 10000 + cY c * 100 + cX c, suOpenedCount := demoOpenedCount c\<rparr>))"

section \<open>The three queries\<close>

definition GetChunkSummary :: "wiring \<Rightarrow> int \<Rightarrow> string \<Rightarrow> ChunkSummaryResponse io" where
  "GetChunkSummary wi dur raw =
     andThen (liftE (parseDemoChunkID raw)) (\<lambda>c.
     if \<not> wiMine wi then liftE (buildDemoChunkSummary c)
     else
       andThen (liftE (buildBaseChunkSummary c)) (\<lambda>su.
       andThen activeSeason (\<lambda>season.
       andThen (if cZ c = ChunkMaxLevel
         then andThen (loadChunkState (seID season) (chunkString c)) (\<lambda>state.
              andThen timeNow (\<lambda>now.
              andThen (reopenIfStored dur state now) (\<lambda>state'.
              ret (applyMineStateToSummary su state'))))
         else ret su) (\<lambda>su1.
       andThen (ListClosedLeafChunkIDs (seID season)) (\<lambda>closedLeafIDs.
       ret (applyClosedLeafAggregate su1 c closedLeafIDs))))))"

text \<open>\<^verbatim>\<open>%\<close> and \<^verbatim>\<open>/\<close> truncate towards zero.\<close>

definition goDiv :: "int \<Rightarrow> int \<Rightarrow> int" where
  "goDiv a b = (if 0 \<le> a then a div b else - ((- a) div b))"

definition goMod :: "int \<Rightarrow> int \<Rightarrow> int" where
  "goMod a b = a - goDiv a b * b"

definition flaggedCellsResponse :: "(int, int) gomap \<Rightarrow> FlaggedCellResponse list" where
  "flaggedCellsResponse flags = map (\<lambda>(index, userID).
     \<lparr>frX = goMod index ChunkSize, frY = goDiv index ChunkSize, frIndex = index, frFlaggedBy = userID\<rparr>) flags"

definition snapshotBase :: "ChunkID \<Rightarrow> bool \<Rightarrow> int \<Rightarrow> OpenedCellResponse list \<Rightarrow> ChunkSnapshotResponse" where
  "snapshotBase c isClosed version cells =
     \<lparr>snChunkID = chunkString c, snWidth = ChunkSize, snHeight = ChunkSize, snClosed = isClosed, snClosedAt = None,
      snClosedUntil = None, snVersion = version, snOpenedCells = cells, snFlaggedCells = []\<rparr>"

definition buildSnapshotFromState :: "ChunkID \<Rightarrow> MineChunkState option \<Rightarrow> ChunkSnapshotResponse" where
  "buildSnapshotFromState c state = (case state of
     None \<Rightarrow> snapshotBase c False 1 []
   | Some st \<Rightarrow> (snapshotBase c (csClosed st) (csVersion st) (openedCellsResponse (csOpenedCells st)))
       \<lparr>snClosedAt := csClosedAt st, snClosedUntil := csClosedUntil st,
        snFlaggedCells := flaggedCellsResponse (csFlaggedBy st)\<rparr>)"

definition GetChunkSnapshot :: "wiring \<Rightarrow> int \<Rightarrow> string \<Rightarrow> ChunkSnapshotResponse io" where
  "GetChunkSnapshot wi dur raw =
     andThen (liftE (parseDemoChunkID raw)) (\<lambda>c.
     andThen (liftE (buildDemoChunkSummary c)) (\<lambda>su.
     if wiMine wi
     then
       (if cZ c \<noteq> ChunkMaxLevel then ret (snapshotBase c (suClosed su) (suVersion su) [])
        else
          andThen activeSeason (\<lambda>season.
          andThen (loadChunkState (seID season) (chunkString c)) (\<lambda>state.
          andThen timeNow (\<lambda>now.
          andThen (reopenIfStored dur state now) (\<lambda>state'.
          ret (buildSnapshotFromState c state'))))))
     else ret (snapshotBase c (suClosed su) (suVersion su) (buildDemoOpenedCells c))))"

text \<open>The chunks of a range, row by row.\<close>

definition rangeChunks :: "int \<Rightarrow> int \<Rightarrow> int \<Rightarrow> int \<Rightarrow> int \<Rightarrow> ChunkID list" where
  "rangeChunks level minX minY maxX maxY =
     concat (map (\<lambda>y. map (\<lambda>x. mkChunkID ''cn'' level x y) [minX..maxX]) [minY..maxY])"

fun loadLeaves :: "int \<Rightarrow> int \<Rightarrow> int \<Rightarrow> ChunkID list \<Rightarrow> (string, MineChunkState option) gomap
     \<Rightarrow> (string, MineChunkState option) gomap io" where
  "loadLeaves dur seasonID now [] leafStates = ret leafStates"
| "loadLeaves dur seasonID now (c # cs) leafStates =
     andThen (loadChunkState seasonID (chunkString c)) (\<lambda>state.
     andThen (reopenIfStored dur state now) (\<lambda>state'.
     loadLeaves dur seasonID now cs (mput (chunkString c) state' leafStates)))"

definition listedSummary :: "wiring \<Rightarrow> int \<Rightarrow> (string, MineChunkState option) gomap \<Rightarrow> string list \<Rightarrow> ChunkID
     \<Rightarrow> err + ChunkSummaryResponse" where
  "listedSummary wi level leafStates closedLeafIDs c =
     bindE (buildDemoChunkSummary c) (\<lambda>demo.
     if wiMine wi
     then bindE (buildBaseChunkSummary c) (\<lambda>su.
       let su1 = (if level = ChunkMaxLevel then applyMineStateToSummary su (mget0 None leafStates (suChunkID su)) else su)
       in Inr (applyClosedLeafAggregate su1 c closedLeafIDs))
     else Inr demo)"

fun listSummaries :: "wiring \<Rightarrow> int \<Rightarrow> (string, MineChunkState option) gomap \<Rightarrow> string list \<Rightarrow> ChunkID list
     \<Rightarrow> err + ChunkSummaryResponse list" where
  "listSummaries wi level leafStates closedLeafIDs [] = Inr []"
| "listSummaries wi level leafStates closedLeafIDs (c # cs) =
     bindE (listedSummary wi level leafStates closedLeafIDs c) (\<lambda>su.
     bindE (listSummaries wi level leafStates closedLeafIDs cs) (\<lambda>sus. Inr (su # sus)))"

text \<open>A slice of negative capacity panics.\<close>

definition ListChunks :: "wiring \<Rightarrow> int \<Rightarrow> int \<Rightarrow> ChunkBounds \<Rightarrow> ChunkListResponse io" where
  "ListChunks wi dur level bbox = (case VisibleChunkRange level bbox of
     Inl e \<Rightarrow> fail ErrInvalidChunkID
   | Inr (minX, minY, maxX, maxY) \<Rightarrow>
     let cs = rangeChunks level minX minY maxX maxY in
     andThen (if wiMine wi
       then andThen activeSeason (\<lambda>season.
            andThen (if level = ChunkMaxLevel
              then andThen timeNow (\<lambda>now. loadLeaves dur (seID season) now cs [])
              else ret []) (\<lambda>leafStates.
            andThen (ListClosedLeafChunkIDs (seID season)) (\<lambda>closedLeafIDs.
            ret (leafStates, closedLeafIDs))))
       else ret ([], [])) (\<lambda>(leafStates, closedLeafIDs).
     if wrap64 (wrap64 (maxX - minX + 1) * wrap64 (maxY - minY + 1)) < 0
     then fail (Panic ''makeslice: cap out of range'')
     else andThen (liftE (listSummaries wi level leafStates closedLeafIDs cs)) (\<lambda>chunks.
       ret \<lparr>liRegion = ''cn'', liLevel = level, liBBox = bbox, liChunks = chunks\<rparr>)))"

end
