(* ===== verification/ChunkExample.thy ===== *)
theory ChunkExample
  imports ChunkFunc
begin

text \<open>
  A concrete field on which the theorems of \<open>ChunkFunc\<close> are applied: an authentication code
  that mines every tenth row of the world, and the chunk \<^verbatim>\<open>cn:6:10:20\<close> with one cell opened by
  player 1001 and one flagged by player 1002.
\<close>

definition rowMac :: mac where
  "rowMac key msg = (if last msg = CHR ''9'' then 0 else - 1)"

lemma last_itoa: "0 \<le> n \<Longrightarrow> last (itoa n) = char_of (48 + nat n mod 10)"
  by (simp add: itoa_def itoa_nat.simps [of "nat n"])

lemma last_message: "last (mineMessage s r z gx gy) = last (itoa gy)"
proof -
  have "itoa gy \<noteq> []" by (simp add: itoa_def itoa_nat_nonempty)
  then show ?thesis by (simp add: mineMessage_def)
qed

lemma rowMac_mineAt:
  assumes "0 \<le> gy"
  shows "mineAt rowMac exampleSeason r z gx gy \<longleftrightarrow> gy mod 10 = 9"
proof -
  let ?thr = "word_of_int \<lfloor>(15 / 100 :: rat) * 2 ^ 64\<rfloor> :: 64 word"
  have fl: "\<lfloor>(15 / 100 :: rat) * 2 ^ 64\<rfloor> = 2767011611056432742" by (simp add: floor_eq_iff)
  have t: "(0 :: 64 word) < ?thr" unfolding fl by simp
  have m: "\<not> (- 1 :: 64 word) < ?thr" by (simp add: not_less word_order.extremum)
  have "CHR ''9'' = char_of (57 :: nat)" by code_simp
  moreover have "(char_of (48 + nat gy mod 10) = (char_of (57 :: nat) :: char)) \<longleftrightarrow> nat gy mod 10 = 9"
  proof
    assume "char_of (48 + nat gy mod 10) = (char_of (57 :: nat) :: char)"
    then have "(of_char (char_of (48 + nat gy mod 10) :: char) :: nat) = of_char (char_of (48 + 9 :: nat) :: char)" by simp
    then show "nat gy mod 10 = 9" by (simp add: of_char_digit)
  qed simp
  ultimately have "last (mineMessage exampleSeason r z gx gy) = CHR ''9'' \<longleftrightarrow> nat gy mod 10 = 9"
    using assms by (simp only: last_message last_itoa)
  moreover have "nat gy mod 10 = 9 \<longleftrightarrow> gy mod 10 = 9"
  proof -
    obtain n where "gy = int n" using assms by (rule nonneg_int_cases)
    then show ?thesis by simp presburger
  qed
  ultimately show ?thesis using t m by (simp add: mineAt_def rowMac_def exampleSeason_def)
qed

definition exC :: ChunkID where
  "exC = mkChunkID ''cn'' 6 10 20"

lemma exC_playable: "playable exC"
  by (simp add: exC_def playable_def)

lemma exC_string: "chunkString exC = ''cn:6:10:20''"
  by code_simp

lemma exC_parse: "ParseChunkID ''cn:6:10:20'' = Inr exC"
  using ParseChunkID_chunkString [OF playable_ok [OF exC_playable]] by (simp add: exC_string)

lemma rowMac_mine: "on_board x y \<Longrightarrow> cellMine rowMac exampleSeason exC x y \<longleftrightarrow> (2560 + y) mod 10 = 9"
  by (simp add: cellMine_def exC_def on_board_def rowMac_mineAt)

text \<open>Three rows away from a mined row no mine is near.\<close>

lemma rowMac_adj_0: "y \<in> {2..7} \<Longrightarrow> cellAdj rowMac exampleSeason exC x y = 0"
proof -
  assume y: "y \<in> {2..7}"
  have "mineNeighbours rowMac exampleSeason ''cn'' 6 (1280 + x) (2560 + y) = {}"
    unfolding mineNeighbours_def
  proof (intro equalityI subsetI, clarsimp)
    fix dx dy :: int assume d: "- 1 \<le> dy" "dy \<le> 1"
      and m: "mineAt rowMac exampleSeason ''cn'' 6 (1280 + x + dx) (2560 + y + dy)"
    then have "(2560 + y + dy) mod 10 = 9" using y by (subst (asm) rowMac_mineAt) auto
    moreover have "y + dy \<in> {1, 2, 3, 4, 5, 6, 7, 8}" using y d by auto
    ultimately show False by (auto simp: add.assoc)
  qed simp
  then show ?thesis by (simp only: cellAdj_def exC_def mkChunkID_sel) simp
qed

definition exSt :: MineChunkState where
  "exSt = (NewMineChunkState 1 ''cn:6:10:20'')
     \<lparr>csOpenedCells := [(389, \<lparr>ocX = 5, ocY = 3, ocIndex = 389, ocOpenedBy = 1001, ocOpenedAt = 10, ocAdjacentMines = 0\<rparr>)],
      csFlaggedBy := [(0, 1002)], csVersion := 3\<rparr>"

definition exStClosed :: MineChunkState where
  "exStClosed = closeByMine 60 exSt 1001 20"

lemma exSt_ok: "chunk_ok rowMac 60 exampleSeason exC exSt"
  using rowMac_adj_0 [of 3 5] rowMac_mine [of 5 3]
  by (auto simp: chunk_ok_def closure_ok_def cell_ok_def exSt_def NewMineChunkState_def exC_string exampleSeason_def
      map_ok_def mkeys_def mhas_def on_board_def split: if_splits)

lemma exStClosed_ok: "chunk_ok rowMac 60 exampleSeason exC exStClosed"
  unfolding exStClosed_def by (rule chunk_ok_closeByMine [OF exSt_ok])

text \<open>The world with one stored chunk at time 50.\<close>

definition fieldWith :: "MineChunkState \<Rightarrow> world" where
  "fieldWith st = emptyWorld\<lparr>clock := [50], dbSeasons := [exampleSeason],
     rdChunks := (\<lambda>_. None)((1, ''cn:6:10:20'') := Some st),
     rdClosed := (\<lambda>_. [])(1 := (if csClosed st then [''cn:6:10:20''] else []))\<rparr>"

lemma at_fieldWith:
  assumes "chunk_ok rowMac 60 exampleSeason exC st"
  shows "at_chunk rowMac 60 (fieldWith st) 50 exampleSeason exC st"
proof -
  have "seID exampleSeason = 1" "seasons_ok [exampleSeason]" "seasonOpenAt 50 exampleSeason"
    using exampleSeason_ok by (simp_all add: seasons_ok_def seasonOpenAt_def exampleSeason_def MineSeasonStatusActive_def)
  then show ?thesis
    using assms exC_playable exC_string
    by (auto simp: at_chunk_def fieldWith_def field_ok_def closed_index_ok_def emptyWorld_def loadedState_def split: if_splits)
qed

lemma free_fieldWith: "free_player wi (fieldWith st) u sid cid"
  by (simp add: free_player_def fieldWith_def emptyWorld_def activeMatchOf_def lockOwner_def)

lemma exSt_facts: "\<not> csClosed exSt" "\<not> stillClosed exSt 50" "playerHasOpenedCell exSt 1001" "\<not> playerHasOpenedCell exSt 1002"
  "stillClosed exStClosed 50"
  by (simp_all add: exSt_def exStClosed_def closeByMine_def NewMineChunkState_def stillClosed_def playerHasOpenedCell_def)

section \<open>Witnesses\<close>

lemma openCellInWorker_safe_witness:
  "\<exists>st' resp. openCellInWorker rowMac fullWiring 60 1002 exC 7 8 (fieldWith exSt)
      = (Inr resp, storeChunk st' (fieldWith exSt)) \<and> \<not> opMine resp \<and> csVersion st' = 4"
proof -
  have o: "openable rowMac exampleSeason exC exSt (7, 8)"
    using rowMac_mine [of 7 8] by (simp add: on_board_def exSt_def NewMineChunkState_def mhas_def)
  have e: "entered exSt w = w" "openState exSt = exSt" "csVersion exSt = 3" for w
    using exSt_facts(1) by (simp_all add: entered_def openState_def exSt_def)
  have "on_board 7 8" by (simp add: on_board_def)
  from openCellInWorker_safe [OF at_fieldWith [OF exSt_ok] free_fieldWith this exSt_facts(2) o, of fullWiring 1002]
  show ?thesis unfolding e by (elim exE conjE) (intro exI conjI, assumption, simp_all add: in64_def)
qed

lemma openCellInWorker_mine_witness:
  "\<exists>st' resp. openCellInWorker rowMac fullWiring 60 1001 exC 7 9 (fieldWith exSt)
      = (Inr resp, storeChunk st' (fieldWith exSt)) \<and> csClosed st' \<and> csClosedUntil st' = Some 110"
proof -
  have b: "on_board 7 9" by (simp add: on_board_def)
  have m: "cellMine rowMac exampleSeason exC 7 9" using rowMac_mine [OF b] by simp
  have n: "\<not> mhas (csOpenedCells exSt) (9 * 128 + 7)" "\<not> mhas (csFlaggedBy exSt) (9 * 128 + 7)"
    by (simp_all add: exSt_def NewMineChunkState_def mhas_def)
  have e: "entered exSt w = w" for w using exSt_facts(1) by (simp add: entered_def)
  from openCellInWorker_mine [OF at_fieldWith [OF exSt_ok] free_fieldWith b exSt_facts(2) m n exSt_facts(3), of fullWiring]
  show ?thesis unfolding e by (elim exE conjE) (intro exI conjI, assumption, simp_all)
qed

lemma openCellInWorker_harmless_witness:
  "(\<exists>resp. openCellInWorker rowMac fullWiring 60 1002 exC 7 9 (fieldWith exSt) = (Inr resp, fieldWith exSt) \<and> opCanceled resp)"
proof -
  have b: "on_board 7 9" by (simp add: on_board_def)
  have m: "cellMine rowMac exampleSeason exC 7 9" using rowMac_mine [OF b] by simp
  have n: "\<not> mhas (csOpenedCells exSt) (9 * 128 + 7)" "\<not> mhas (csFlaggedBy exSt) (9 * 128 + 7)"
    by (simp_all add: exSt_def NewMineChunkState_def mhas_def)
  show ?thesis
    using openCellInWorker_harmless [OF at_fieldWith [OF exSt_ok] free_fieldWith b exSt_facts(1), where wi = fullWiring and u = 1002]
      m n exSt_facts(4) by blast
qed

lemma flagCellInWorker_branches_witness:
  "(\<exists>st' resp. flagCellInWorker fullWiring 60 1002 exC 7 9 True (fieldWith exSt) = (Inr resp, storeChunk st' (fieldWith exSt))
      \<and> csVersion st' = 4)
   \<and> openCellInWorker rowMac fullWiring 60 1001 exC 0 0 (fieldWith exSt) = (Inl ErrCellFlagged, fieldWith exSt)"
proof
  have e: "entered exSt w = w" "openState exSt = exSt" "csVersion exSt = 3" for w
    using exSt_facts(1) by (simp_all add: entered_def openState_def exSt_def)
  have b: "on_board 7 9" "on_board 0 0" by (simp_all add: on_board_def)
  have n: "\<not> mhas (csOpenedCells exSt) (9 * 128 + 7)" "mhas (csFlaggedBy exSt) (0 * 128 + 0)"
    by (simp_all add: exSt_def NewMineChunkState_def mhas_def)
  note br = flagCellInWorker_branches [OF at_fieldWith [OF exSt_ok] free_fieldWith _ exSt_facts(2), where wi = fullWiring, unfolded e]
  show "\<exists>st' resp. flagCellInWorker fullWiring 60 1002 exC 7 9 True (fieldWith exSt) = (Inr resp, storeChunk st' (fieldWith exSt))
      \<and> csVersion st' = 4"
    using br [where u = 1002 and f = True, OF b(1), THEN conjunct1, THEN mp, OF n(1)]
    by (elim exE conjE) (intro exI conjI, assumption, simp add: in64_def)
  show "openCellInWorker rowMac fullWiring 60 1001 exC 0 0 (fieldWith exSt) = (Inl ErrCellFlagged, fieldWith exSt)"
    using br [where u = 1001, OF b(2)] n(2) by blast
qed


end
