(* ===== verification/FieldSafety.thy ===== *)
theory FieldSafety
  imports ChunkViews ChunkExample
begin

text \<open>
  The minefield over time: the requests of all players, the queries and everything the other
  services do, in any order and with every failure of the stores. \<open>field_reach\<close> is the set of
  worlds this can lead to from an empty field, and \<open>field_ok\<close> holds in all of them.
\<close>

section \<open>The queries keep the invariant\<close>

lemma parseDemoChunkID_Inr:
  assumes "parseDemoChunkID raw = Inr c"
  shows "ParseChunkID raw = Inr c" "cRegion c = ''cn''" "chunkID_ok c" "in_grid c"
proof -
  obtain g where p: "ParseChunkID raw = Inr c" "cRegion c = ''cn''" "ChunkGridSize (cZ c) = Inr g" "cX c < g" "cY c < g"
    using assms unfolding parseDemoChunkID_def by (auto split: sum.splits if_splits)
  then show "ParseChunkID raw = Inr c" "cRegion c = ''cn''" by simp_all
  show "chunkID_ok c" by (rule ParseChunkID_ok [OF p(1)])
  then show "in_grid c" using p by (auto simp: in_grid_def chunkID_ok_def)
qed

lemma parseDemo_leaf_playable: "parseDemoChunkID raw = Inr c \<Longrightarrow> cZ c = ChunkMaxLevel \<Longrightarrow> playable c"
  using parseDemoChunkID_Inr [of raw c]
  by (auto simp: playable_def in_grid_def chunk_consts ChunkGridSize_Inr)

lemma parseDemoChunkID_playable: "ParseChunkID raw = Inr c \<Longrightarrow> playable c \<Longrightarrow> parseDemoChunkID raw = Inr c"
  by (auto simp: parseDemoChunkID_def playable_def ChunkGridSize_def chunk_consts)

lemma EnsurePlayable_case:
  "(case EnsurePlayableChunk c of Inl e \<Rightarrow> Inl ErrInvalidChunkID | Inr u \<Rightarrow> Inr c) =
   (if playable c then Inr c else Inl ErrInvalidChunkID)"
  using EnsurePlayableChunk_iff [of c] by (cases "EnsurePlayableChunk c") auto

lemma parsePlayableChunkID_iff: "parsePlayableChunkID raw = Inr c \<longleftrightarrow> ParseChunkID raw = Inr c \<and> playable c"
  unfolding parsePlayableChunkID_def EnsurePlayable_case
  by (auto simp: bindE_Inr parseDemoChunkID_playable dest: parseDemoChunkID_Inr(1) split: if_splits)

text \<open>The gate of the game: a request reaches a worker exactly when its chunk identifier parses to a
  chunk of the deepest level inside the grid, the canonical text of such a chunk always
  passes, and every refusal is one of the two errors the handler knows.\<close>

theorem parsePlayableChunkID_gate:
  "(parsePlayableChunkID raw = Inr c \<longleftrightarrow> ParseChunkID raw = Inr c \<and> cRegion c = ''cn'' \<and> cZ c = 6 \<and>
      cX c \<in> {0..63} \<and> cY c \<in> {0..63}) \<and>
   (\<forall>x \<in> {0..63}. \<forall>y \<in> {0..63}. parsePlayableChunkID (chunkString (mkChunkID ''cn'' 6 x y)) = Inr (mkChunkID ''cn'' 6 x y)) \<and>
   (\<forall>e. parsePlayableChunkID raw = Inl e \<longrightarrow> e = ErrInvalidChunkID \<or> e = ErrChunkNotFound)"
proof (intro conjI ballI allI impI)
  show "parsePlayableChunkID raw = Inr c \<longleftrightarrow> ParseChunkID raw = Inr c \<and> cRegion c = ''cn'' \<and> cZ c = 6 \<and>
      cX c \<in> {0..63} \<and> cY c \<in> {0..63}"
    by (auto simp: parsePlayableChunkID_iff playable_def)
  show "parsePlayableChunkID (chunkString (mkChunkID ''cn'' 6 x y)) = Inr (mkChunkID ''cn'' 6 x y)"
    if "x \<in> {0..63}" "y \<in> {0..63}" for x y
    using that by (simp add: parsePlayableChunkID_iff playable_def ParseChunkID_chunkString chunkID_ok_def in64_def)
  show "e = ErrInvalidChunkID \<or> e = ErrChunkNotFound" if "parsePlayableChunkID raw = Inl e" for e
    using that unfolding parsePlayableChunkID_def EnsurePlayable_case
    by (auto simp: parseDemoChunkID_def bindE_def split: sum.splits if_splits)
qed

lemma parsePlayableChunkID_gate_witness:
  "parsePlayableChunkID (chunkString (mkChunkID ''cn'' 6 10 20)) = Inr (mkChunkID ''cn'' 6 10 20)"
  using parsePlayableChunkID_gate [of "[]" "mkChunkID ''cn'' 6 10 20"] by simp

lemma keeps_parsed:
  assumes "\<And>c. parseDemoChunkID raw = Inr c \<Longrightarrow> keeps I (k c)"
  shows "keeps I (andThen (liftE (parseDemoChunkID raw)) k)"
  by (rule gives_andThen [OF gives_liftE [where P = "\<lambda>c. parseDemoChunkID raw = Inr c"]]) (auto intro: assms)

lemma rangeChunks_playable:
  assumes "VisibleChunkRange ChunkMaxLevel b = Inr (x0, y0, x1, y1)" "c \<in> set (rangeChunks ChunkMaxLevel x0 y0 x1 y1)"
  shows "playable c"
proof -
  have "0 \<le> x0" "x1 < 64" "0 \<le> y0" "y1 < 64"
    by (rule VisibleChunkRange_grid [OF assms(1)]; simp add: ChunkGridSize_max)+
  then show ?thesis using assms(2) by (auto simp: rangeChunks_def playable_def chunk_consts)
qed

text \<open>The queries keep every assertion that meets the contract of the chunks.\<close>

context chunk_contract
begin

lemma gives_reopenIfStored:
  assumes "s \<in> set ss" "playable c" "\<forall>st. state = Some st \<longrightarrow> good s c st"
  shows "keeps I (reopenIfStored dur state now)"
  unfolding reopenIfStored_def
  using assms by (auto intro!: gives_intros gives_andThen [OF gives_reopen])

lemma keeps_list: "keeps I (ListClosedLeafChunkIDs s)"
  unfolding ListClosedLeafChunkIDs_def by (rule keeps_rd [OF inv])

text \<open>Loading a leaf, reopening it if its time is over, and using the result.\<close>

lemma keeps_viewLeaf:
  assumes "s \<in> set ss" "parseDemoChunkID raw = Inr c" "cZ c = ChunkMaxLevel"
  shows "keeps I (andThen (loadChunkState (seID s) (chunkString c)) (\<lambda>state.
        andThen timeNow (\<lambda>now. andThen (reopenIfStored dur state now) (\<lambda>state'. ret (f state')))))"
  using assms parseDemo_leaf_playable [OF assms(2,3)]
  by (auto intro!: gives_andThen [OF gives_loadChunkState] gives_andThen [OF keeps_timeNow [OF inv]]
      gives_andThen [OF gives_reopenIfStored] gives_ret)

lemma keeps_GetChunkSummary: "keeps I (GetChunkSummary wi dur raw)"
proof -
  have leaf: "keeps I (if cZ c = ChunkMaxLevel
      then andThen (loadChunkState (seID s) (chunkString c)) (\<lambda>state.
        andThen timeNow (\<lambda>now. andThen (reopenIfStored dur state now) (\<lambda>state'. ret (applyMineStateToSummary su state'))))
      else ret su)" if "parseDemoChunkID raw = Inr c" "s \<in> set ss" for c s su
    using that by (auto intro!: gives_ret keeps_viewLeaf)
  show ?thesis unfolding GetChunkSummary_def
    by (rule keeps_parsed)
      (auto intro!: gives_ret gives_liftE gives_andThen [OF gives_liftE [where P = "\<lambda>_. True"]]
        gives_andThen [OF gives_activeSeason] gives_andThen [OF leaf] gives_andThen [OF keeps_list])
qed

lemma keeps_GetChunkSnapshot: "keeps I (GetChunkSnapshot wi dur raw)"
  unfolding GetChunkSnapshot_def
  by (rule keeps_parsed)
    (auto intro!: gives_intros gives_andThen [OF gives_activeSeason] keeps_viewLeaf
        gives_andThen [OF gives_liftE [where P = "\<lambda>_. True"]])

lemma keeps_loadLeaves:
  "s \<in> set ss \<Longrightarrow> (\<And>c. c \<in> set cs \<Longrightarrow> playable c) \<Longrightarrow> keeps I (loadLeaves dur (seID s) now cs m)"
proof (induction cs arbitrary: m)
  case Nil
  show ?case by (simp add: gives_ret)
next
  case (Cons c cs)
  have "playable c" using Cons.prems by simp
  then show ?case unfolding loadLeaves.simps
    using Cons by (auto intro!: gives_andThen [OF gives_loadChunkState] gives_andThen [OF gives_reopenIfStored])
qed

lemma keeps_ListChunks: "keeps I (ListChunks wi dur level b)"
proof (cases "VisibleChunkRange level b")
  case (Inl e)
  then show ?thesis by (simp add: ListChunks_def gives_fail)
next
  case (Inr r)
  obtain x0 y0 x1 y1 where r: "r = (x0, y0, x1, y1)" by (cases r)
  have leaves: "keeps I (if level = ChunkMaxLevel
     then andThen timeNow (\<lambda>now. loadLeaves dur (seID s) now (rangeChunks level x0 y0 x1 y1) []) else ret [])"
    if "s \<in> set ss" for s
    using that rangeChunks_playable Inr r
    by (auto intro!: gives_ret gives_andThen [OF keeps_timeNow [OF inv]] keeps_loadLeaves)
  have "keeps I (if wiMine wi
      then andThen activeSeason (\<lambda>season.
        andThen (if level = ChunkMaxLevel
          then andThen timeNow (\<lambda>now. loadLeaves dur (seID season) now (rangeChunks level x0 y0 x1 y1) []) else ret []) (\<lambda>leafStates.
        andThen (ListClosedLeafChunkIDs (seID season)) (\<lambda>closedLeafIDs. ret (leafStates, closedLeafIDs))))
      else ret ([], []))"
    by (auto intro!: gives_ret gives_andThen [OF gives_activeSeason] gives_andThen [OF leaves] gives_andThen [OF keeps_list])
  note first = this
  show ?thesis unfolding ListChunks_def Inr r sum.case prod.case Let_def
    by (rule keeps_andThen [OF first])
      (auto intro!: gives_intros gives_andThen [OF gives_liftE [where P = "\<lambda>_. True"]] split: prod.splits)
qed

text \<open>The requests.\<close>

lemma keeps_OpenCell: "keeps I (OpenCell mac wi dur u raw x y)"
  unfolding OpenCell_def
  by (auto simp: parsePlayableChunkID_iff intro!: gives_intros keeps_handleChunkOperation
      gives_andThen [OF gives_liftE [where P = playable]])

lemma keeps_FlagCell: "keeps I (FlagCell mac wi dur u raw x y f)"
  unfolding FlagCell_def
  by (auto simp: parsePlayableChunkID_iff intro!: gives_intros keeps_handleChunkOperation
      gives_andThen [OF gives_liftE [where P = playable]])

end

section \<open>Over time\<close>

text \<open>Requests and queries of the chunk service, and anything that leaves seasons and chunks
  alone: the match, queue, room and rank services, time, failures.\<close>

inductive field_reach :: "mac \<Rightarrow> int \<Rightarrow> world \<Rightarrow> world \<Rightarrow> bool" for mac dur w0 where
  fr_start: "field_reach mac dur w0 w0"
| fr_open: "field_reach mac dur w0 w \<Longrightarrow> field_reach mac dur w0 (snd (OpenCell mac wi dur u raw x y w))"
| fr_flag: "field_reach mac dur w0 w \<Longrightarrow> field_reach mac dur w0 (snd (FlagCell mac wi dur u raw x y f w))"
| fr_summary: "field_reach mac dur w0 w \<Longrightarrow> field_reach mac dur w0 (snd (GetChunkSummary wi dur raw w))"
| fr_snapshot: "field_reach mac dur w0 w \<Longrightarrow> field_reach mac dur w0 (snd (GetChunkSnapshot wi dur raw w))"
| fr_list: "field_reach mac dur w0 w \<Longrightarrow> field_reach mac dur w0 (snd (ListChunks wi dur level b w))"
| fr_other: "field_reach mac dur w0 w \<Longrightarrow> dbSeasons w' = dbSeasons w \<Longrightarrow> rdChunks w' = rdChunks w \<Longrightarrow>
    rdClosed w' = rdClosed w \<Longrightarrow> field_reach mac dur w0 w'"

definition emptyField :: "world \<Rightarrow> bool" where
  "emptyField w \<longleftrightarrow> seasons_ok (dbSeasons w) \<and> rdChunks w = (\<lambda>_. None) \<and> rdClosed w = (\<lambda>_. [])"

lemma emptyField_inv: "emptyField w \<Longrightarrow> fieldInv mac dur (dbSeasons w) w"
  by (simp add: emptyField_def fieldInv_def field_ok_def closed_index_ok_def)

lemma field_reach_inv:
  assumes "emptyField w0"
  shows "field_reach mac dur w0 w \<Longrightarrow> fieldInv mac dur (dbSeasons w0) w"
proof (induction rule: field_reach.induct)
  case fr_start
  show ?case by (rule emptyField_inv [OF assms])
next
  case (fr_other w w')
  then show ?case using field_dataD [OF field_data_fieldInv] by blast
qed (blast intro: givesD [OF whole.keeps_OpenCell] givesD [OF whole.keeps_FlagCell] givesD [OF whole.keeps_GetChunkSummary]
      givesD [OF whole.keeps_GetChunkSnapshot] givesD [OF whole.keeps_ListChunks])+

text \<open>(C1) The minefield never lies. From an empty field, after any sequence of openings, flaggings and queries
  by any players, under every failure of the stores and whatever the other services did: each
  stored state belongs to a season and a chunk of the deepest level; every opened cell is
  filed under its own index on the board, is not a mine, and carries the number of mines next to
  it; no cell is flagged and opened at once; a chunk is closed exactly while its closing times
  are set, and for the configured time; and the set of closed chunks lists exactly those.\<close>

theorem minefield_never_lies:
  assumes "emptyField w0" and "field_reach mac dur w0 w" and "rdChunks w (sid, cid) = Some st"
  shows "\<exists>s \<in> set (dbSeasons w0). \<exists>c. sid = seID s \<and> cid = chunkString c \<and> playable c
    \<and> csSeasonID st = sid \<and> csChunkID st = cid
    \<and> (\<forall>i cell. mget (csOpenedCells st) i = Some cell \<longrightarrow>
         ocX cell \<in> {0..127} \<and> ocY cell \<in> {0..127} \<and> i = ocY cell * 128 + ocX cell \<and> ocIndex cell = i
         \<and> \<not> mineAt mac s ''cn'' 6 (cX c * 128 + ocX cell) (cY c * 128 + ocY cell)
         \<and> ocAdjacentMines cell = int (card (mineNeighbours mac s ''cn'' 6 (cX c * 128 + ocX cell) (cY c * 128 + ocY cell)))
         \<and> mget (csFlaggedBy st) i = None)
    \<and> (csClosed st \<longleftrightarrow> csClosedUntil st \<noteq> None)
    \<and> (csClosed st \<longrightarrow> (\<exists>t. csClosedAt st = Some t \<and> csClosedUntil st = Some (t + dur)))
    \<and> (csClosed st \<longleftrightarrow> cid \<in> set (rdClosed w sid))"
proof -
  have inv: "fieldInv mac dur (dbSeasons w0) w" by (rule field_reach_inv [OF assms(1,2)])
  then obtain s c where s: "s \<in> set (dbSeasons w0)" "playable c" "sid = seID s" "cid = chunkString c"
      and ok: "chunk_ok mac dur s c st"
    using fieldInv_lookup assms(3) by blast
  have c: "cRegion c = ''cn''" "cZ c = 6" using s(2) by (simp_all add: playable_def)
  have "ocX cell \<in> {0..127} \<and> ocY cell \<in> {0..127} \<and> i = ocY cell * 128 + ocX cell \<and> ocIndex cell = i
         \<and> \<not> mineAt mac s ''cn'' 6 (cX c * 128 + ocX cell) (cY c * 128 + ocY cell)
         \<and> ocAdjacentMines cell = int (card (mineNeighbours mac s ''cn'' 6 (cX c * 128 + ocX cell) (cY c * 128 + ocY cell)))
         \<and> mget (csFlaggedBy st) i = None" if i: "mget (csOpenedCells st) i = Some cell" for i cell
  proof -
    have "cell_ok mac s c i cell" "mget (csFlaggedBy st) i = None"
      using i ok by (auto simp: chunk_ok_def mhas_def)
    then show ?thesis using c by (auto simp: cell_ok_def on_board_def cellMine_def cellAdj_def)
  qed
  moreover have "csClosed st \<longleftrightarrow> cid \<in> set (rdClosed w sid)"
    using inv assms(3) unfolding fieldInv_def field_ok_def closed_index_ok_def by simp
  ultimately show ?thesis
    using s ok c by (intro bexI [OF _ s(1)] exI [of _ c])
      (simp add: chunk_ok_def closure_ok_def split: if_splits; force)
qed

definition virginField :: world where
  "virginField = emptyWorld\<lparr>clock := [50], dbSeasons := [exampleSeason]\<rparr>"

lemma virginField_at:
  "at_chunk rowMac 60 virginField 50 exampleSeason exC (NewMineChunkState 1 ''cn:6:10:20'')"
proof -
  have "seID exampleSeason = 1" "seasons_ok [exampleSeason]" "seasonOpenAt 50 exampleSeason"
    using exampleSeason_ok by (simp_all add: seasons_ok_def seasonOpenAt_def exampleSeason_def MineSeasonStatusActive_def)
  then show ?thesis
    using exC_playable exC_string
    by (simp add: at_chunk_def virginField_def field_ok_def closed_index_ok_def emptyWorld_def loadedState_def)
qed

lemma virginField_enter:
  "net virginField = []" "parsePlayableChunkID ''cn:6:10:20'' = Inr exC"
  "enterChunk fullWiring 60 1001 exC virginField = (Inr (exampleSeason, NewMineChunkState 1 ''cn:6:10:20''), virginField)"
proof -
  have free: "free_player fullWiring virginField 1001 (seID exampleSeason) (chunkString exC)"
    by (simp add: free_player_def virginField_def emptyWorld_def activeMatchOf_def lockOwner_def)
  have "\<not> csClosed (NewMineChunkState 1 ''cn:6:10:20'')" by (simp add: NewMineChunkState_def)
  then show "enterChunk fullWiring 60 1001 exC virginField = (Inr (exampleSeason, NewMineChunkState 1 ''cn:6:10:20''), virginField)"
    using enter_free [OF virginField_at free] by (simp add: stillClosed_def entered_def openState_def)
  show "net virginField = []" by (simp add: virginField_def emptyWorld_def)
  show "parsePlayableChunkID ''cn:6:10:20'' = Inr exC"
    using exC_parse exC_playable by (simp add: parsePlayableChunkID_iff)
qed

lemma virginField_flag:
  "\<exists>r w st. FlagCell rowMac fullWiring 60 1001 ''cn:6:10:20'' 7 9 True virginField = (Inr (FlagReply r), w)
     \<and> rdChunks w (1, ''cn:6:10:20'') = Some st \<and> csFlaggedBy st = [(1159, 1001)]"
proof -
  have b: "on_board 7 9" by (simp add: on_board_def)
  show ?thesis using virginField_enter
    by (simp add: FlagCell_def fullWiring_def handleChunkOperation_def flagCellInWorker_def ChunkCellIndex_board [OF b]
        andThen_def ret_def SaveState_def Let_def storeChunk_def NewMineChunkState_def bumpVersion_def setFlag_def mhas_def)
qed

lemma minefield_never_lies_witness:
  "\<exists>w st. field_reach rowMac 60 virginField w \<and> rdChunks w (1, ''cn:6:10:20'') = Some st
     \<and> (csClosed st \<longleftrightarrow> ''cn:6:10:20'' \<in> set (rdClosed w 1))"
proof -
  let ?w = "snd (FlagCell rowMac fullWiring 60 1001 ''cn:6:10:20'' 7 9 True virginField)"
  have r: "field_reach rowMac 60 virginField ?w" by (rule fr_flag [OF fr_start])
  obtain st where st: "rdChunks ?w (1, ''cn:6:10:20'') = Some st" using virginField_flag by fastforce
  have "emptyField virginField"
    using exampleSeason_ok by (simp add: emptyField_def virginField_def emptyWorld_def seasons_ok_def)
  from minefield_never_lies [OF this r st] r st show ?thesis by blast
qed

end
