(* ===== verification/MatchQueue.thy ===== *)
theory MatchQueue
  imports MineMatch RoomService
begin

text \<open>
  Match making: \<^verbatim>\<open>internal/service/match_queue_service.go\<close> over
  \<^verbatim>\<open>internal/repository/match_queue_repository.go\<close>. One mutex makes each of \<open>Join\<close>, \<open>Status\<close> and
  \<open>Cancel\<close> one step. A waiting queue is a Redis list per mode, the state of a player one
  document per user. The texts of the errors are Chinese in the code and English here.

  The random order in which chunks are tried for a match is the argument \<open>perm\<close> that
  \<open>AssignChunkForMatch\<close> takes.
\<close>

section \<open>Repository\<close>

definition pushQueue :: "string \<Rightarrow> int \<Rightarrow> world \<Rightarrow> world" where
  "pushQueue mode u w = w\<lparr>rdQueues := (rdQueues w)(mode := rdQueues w mode @ [u])\<rparr>"

definition Enqueue :: "string \<Rightarrow> int \<Rightarrow> unit io" where
  "Enqueue mode userID = wr (\<lambda>_. ()) (pushQueue mode userID)"

definition QueueLen :: "string \<Rightarrow> int io" where
  "QueueLen mode = rd (\<lambda>w. int (length (rdQueues w mode)))"

definition popQueue :: "string \<Rightarrow> int \<Rightarrow> world \<Rightarrow> world" where
  "popQueue mode n w = w\<lparr>rdQueues := (rdQueues w)(mode := drop (nat n) (rdQueues w mode))\<rparr>"

definition DequeueBatch :: "string \<Rightarrow> int \<Rightarrow> int list io" where
  "DequeueBatch mode n = wr (\<lambda>w. take (nat n) (rdQueues w mode)) (popQueue mode n)"

definition dropFromQueue :: "string \<Rightarrow> int \<Rightarrow> world \<Rightarrow> world" where
  "dropFromQueue mode u w = w\<lparr>rdQueues := (rdQueues w)(mode := filter (\<lambda>v. v \<noteq> u) (rdQueues w mode))\<rparr>"

definition RemoveFromQueue :: "string \<Rightarrow> int \<Rightarrow> unit io" where
  "RemoveFromQueue mode userID = wr (\<lambda>_. ()) (dropFromQueue mode userID)"

definition GetUserStatus :: "int \<Rightarrow> QueueUserState option io" where
  "GetUserStatus userID = rd (\<lambda>w. rdQueueUsers w userID)"

definition storeUser :: "QueueUserState \<Rightarrow> world \<Rightarrow> world" where
  "storeUser st w = w\<lparr>rdQueueUsers := (rdQueueUsers w)(quUserID st := Some st)\<rparr>"

definition SetUserStatus :: "QueueUserState \<Rightarrow> unit io" where
  "SetUserStatus st = wr (\<lambda>_. ()) (storeUser st)"

definition forgetUser :: "int \<Rightarrow> world \<Rightarrow> world" where
  "forgetUser u w = w\<lparr>rdQueueUsers := (rdQueueUsers w)(u := None)\<rparr>"

definition DeleteUserStatus :: "int \<Rightarrow> unit io" where
  "DeleteUserStatus userID = wr (\<lambda>_. ()) (forgetUser userID)"

interpretation qu: keyed_store rdQueueUsers quUserID storeUser
  by unfold_locales (simp add: storeUser_def)

section \<open>Groups\<close>

definition getPlayerCount :: "string \<Rightarrow> int" where
  "getPlayerCount mode = (if mode = ''1v1'' then 2 else if mode = ''2v2'' then 4 else 0)"

definition generateQueueTicketID :: "string io" where
  "generateQueueTicketID = andThen timeNow (\<lambda>now. ret (''qt_'' @ itoa now))"

definition generateRoomID :: "string io" where
  "generateRoomID = andThen timeNow (\<lambda>now. ret (''r_'' @ itoa now))"

text \<open>\<^verbatim>\<open>userIDs[i]\<close> panics when fewer players came out of the queue than asked for.\<close>

definition buildTeams :: "string \<Rightarrow> int list \<Rightarrow> err + MatchedTeam list" where
  "buildTeams mode userIDs =
     (if mode = ''1v1'' then
        (case userIDs of a # b # _ \<Rightarrow> Inr [mkTeam 0 [a], mkTeam 1 [b]] | _ \<Rightarrow> Inl (Panic ''index out of range''))
      else if mode = ''2v2'' then
        (case userIDs of a # b # c # d # _ \<Rightarrow> Inr [mkTeam 0 [a, b], mkTeam 1 [c, d]]
         | _ \<Rightarrow> Inl (Panic ''index out of range''))
      else Inr [])"

text \<open>\<open>None\<close>: not enough players yet.\<close>

definition FindMatchGroup :: "string \<Rightarrow> (MatchedTeam list \<times> string) option io" where
  "FindMatchGroup mode =
     (let required = getPlayerCount mode in
      if required \<le> 0 then fail (Errorf (''invalid match mode: '' @ mode))
      else
        andThen (wrapErr ''queue length failed: '' (QueueLen mode)) (\<lambda>len.
        if len < required then ret None
        else
          andThen (wrapErr (''dequeue failed for mode '' @ mode @ '': '') (DequeueBatch mode required)) (\<lambda>userIDs.
          andThen generateRoomID (\<lambda>roomID.
          andThen (liftE (buildTeams mode userIDs)) (\<lambda>teams.
          ret (Some (teams, roomID)))))))"

section \<open>Updating the players of a group\<close>

definition teamUsers :: "MatchedTeam list \<Rightarrow> int list" where
  "teamUsers teams = concat (map mtUserIDs teams)"

definition markMatched :: "MatchedTeam list \<Rightarrow> string \<Rightarrow> int \<Rightarrow> int \<Rightarrow> QueueUserState \<Rightarrow> QueueUserState" where
  "markMatched teams roomID matchID now st = st\<lparr>quStatus := QueueStatusMatched, quRoomID := roomID,
     quMatchID := matchID, quTeams := teams, quUpdatedAt := now\<rparr>"

text \<open>The loop of the two updates: read the player's document, change it, write it back.\<close>

fun updateUsers :: "(QueueUserState \<Rightarrow> QueueUserState) \<Rightarrow> int list \<Rightarrow> unit io" where
  "updateUsers f [] = ret ()"
| "updateUsers f (u # us) =
     andThen (wrapErr ''get queue state failed: '' (GetUserStatus u)) (\<lambda>state. case state of
       None \<Rightarrow> updateUsers f us
     | Some st \<Rightarrow> andThen (wrapErr ''update queue state failed: '' (SetUserStatus (f st))) (\<lambda>_. updateUsers f us))"

definition updateUserStateToMatched :: "MatchedTeam list \<Rightarrow> string \<Rightarrow> int \<Rightarrow> unit io" where
  "updateUserStateToMatched teams roomID matchID =
     andThen timeNow (\<lambda>now. updateUsers (markMatched teams roomID matchID now) (teamUsers teams))"

definition updateUserStateChunk :: "MatchedTeam list \<Rightarrow> string \<Rightarrow> unit io" where
  "updateUserStateChunk teams chunkID =
     andThen timeNow (\<lambda>now. updateUsers (\<lambda>st. st\<lparr>quChunkID := chunkID, quUpdatedAt := now\<rparr>) (teamUsers teams))"

definition backToWaiting :: "int \<Rightarrow> QueueUserState \<Rightarrow> QueueUserState" where
  "backToWaiting now st = st\<lparr>quStatus := QueueStatusMatching, quMatchID := 0, quRoomID := '''', quChunkID := '''',
     quUpdatedAt := now\<rparr>"

fun restoreUsers :: "string \<Rightarrow> int list \<Rightarrow> unit io" where
  "restoreUsers mode [] = ret ()"
| "restoreUsers mode (u # us) =
     andThen (wrapErr ''get queue state failed: '' (GetUserStatus u)) (\<lambda>state. case state of
       None \<Rightarrow> restoreUsers mode us
     | Some st \<Rightarrow>
         andThen timeNow (\<lambda>now.
         andThen (wrapErr ''restore queue state failed: '' (SetUserStatus (backToWaiting now st))) (\<lambda>_.
         andThen (wrapErr ''re-enqueue failed: '' (Enqueue mode u)) (\<lambda>_.
         restoreUsers mode us))))"

definition restoreMatchedUsers :: "MatchedTeam list \<Rightarrow> string \<Rightarrow> unit io" where
  "restoreMatchedUsers teams mode = restoreUsers mode (teamUsers teams)"

section \<open>The three requests\<close>

definition buildJoinResponse :: "QueueUserState option \<Rightarrow> JoinMatchQueueResponse io" where
  "buildJoinResponse state = (case state of
     None \<Rightarrow> fail (Panic ''nil pointer dereference'')
   | Some st \<Rightarrow> ret \<lparr>jrQueueStatus = quStatus st, jrMatchID = quMatchID st, jrQueueTicketID = quTicketID st,
       jrMode = quMode st, jrRoomID = quRoomID st, jrChunkID = quChunkID st, jrTeams = quTeams st\<rparr>)"

definition newQueueUser :: "int \<Rightarrow> string \<Rightarrow> string \<Rightarrow> int \<Rightarrow> QueueUserState" where
  "newQueueUser u mode ticket now = \<lparr>quUserID = u, quUserName = '''', quMode = mode, quStatus = QueueStatusMatching,
     quMatchID = 0, quTicketID = ticket, quRoomID = '''', quChunkID = '''', quTeams = [],
     quEnqueueTime = now, quUpdatedAt = now\<rparr>"

text \<open>What happens once a group has come out of the queue.\<close>

definition startMatch :: "wiring \<Rightarrow> int list \<Rightarrow> string \<Rightarrow> MatchedTeam list \<Rightarrow> string \<Rightarrow> unit io" where
  "startMatch wi perm mode teams roomID =
     andThen (onErr (CreateMatchFromQueue \<lparr>mqRoomID = roomID, mqMode = mode, mqTeams = teams\<rparr>)
       (\<lambda>e. andThen (wrapErr ''restore players failed: '' (restoreMatchedUsers teams mode))
              (\<lambda>_. fail (Errorf ''creating the match failed'')))) (\<lambda>matchID.
     andThen (wrapErr ''update queue state failed: '' (updateUserStateToMatched teams roomID matchID)) (\<lambda>_.
     andThen (if wiMatch wi \<and> mode = ''1v1'' then
         andThen (onErr (AssignChunkForMatch wi perm matchID roomID teams)
           (\<lambda>e. andThen (wrapErr ''assigning a chunk failed; restore players failed: '' (restoreMatchedUsers teams mode))
                  (\<lambda>_. fail (Wrap ''assigning a chunk failed: '' e)))) (\<lambda>chunkID.
         wrapErr ''update chunk failed: '' (updateUserStateChunk teams chunkID))
       else ret ()) (\<lambda>_.
     andThen (CreateRoom roomID mode matchID teams) (\<lambda>_. ret ()))))"

text \<open>A player who is neither waiting nor matched: he enters the queue, and if that completes a
  group its match is started.\<close>

definition joinNew :: "wiring \<Rightarrow> int list \<Rightarrow> int \<Rightarrow> string \<Rightarrow> JoinMatchQueueResponse io" where
  "joinNew wi perm userID mode =
     andThen timeNow (\<lambda>now.
     andThen generateQueueTicketID (\<lambda>ticketID.
     andThen (wrapErr ''set queue state failed: '' (SetUserStatus (newQueueUser userID mode ticketID now))) (\<lambda>_.
     andThen (wrapErr ''join queue failed: '' (Enqueue mode userID)) (\<lambda>_.
     andThen (wrapErr ''find group failed: '' (FindMatchGroup mode)) (\<lambda>group.
     andThen (case group of None \<Rightarrow> ret () | Some (teams, roomID) \<Rightarrow> startMatch wi perm mode teams roomID) (\<lambda>_.
     andThen (wrapErr ''get queue state failed: '' (GetUserStatus userID)) (\<lambda>state.
     buildJoinResponse state)))))))"

definition Join :: "wiring \<Rightarrow> int list \<Rightarrow> int \<Rightarrow> string \<Rightarrow> JoinMatchQueueResponse io" where
  "Join wi perm userID rawMode =
     (let mode = trimSpace rawMode in
      if mode = '''' then fail (Errorf ''mode must not be empty'')
      else
        andThen (wrapErr ''get queue state failed: '' (GetUserStatus userID)) (\<lambda>state.
        case state of
          Some st \<Rightarrow>
            if quStatus st = QueueStatusMatching \<or> quStatus st = QueueStatusMatched then buildJoinResponse (Some st)
            else andThen (wrapErr ''delete queue state failed: '' (DeleteUserStatus userID)) (\<lambda>_. joinNew wi perm userID mode)
        | None \<Rightarrow> joinNew wi perm userID mode))"

definition noQueueState :: err where
  "noQueueState = Errorf ''no queue state''"

definition statusResponse :: "int \<Rightarrow> int \<Rightarrow> QueueUserState \<Rightarrow> StatusMatchQueueResponse" where
  "statusResponse userID matchID st = \<lparr>srUserID = userID, srMatchID = matchID, srMode = quMode st,
     srStatus = quStatus st, srTicketID = quTicketID st, srRoomID = quRoomID st, srChunkID = quChunkID st,
     srTeams = quTeams st, srUpdatedAt = quUpdatedAt st\<rparr>"

definition Status :: "int \<Rightarrow> StatusMatchQueueResponse io" where
  "Status userID =
     andThen (wrapErr ''get queue state failed: '' (GetUserStatus userID)) (\<lambda>state. case state of
       None \<Rightarrow> fail noQueueState
     | Some st \<Rightarrow> ret (statusResponse userID (quMatchID st) st))"

definition Cancel :: "int \<Rightarrow> StatusMatchQueueResponse io" where
  "Cancel userID =
     andThen (wrapErr ''get queue state failed: '' (GetUserStatus userID)) (\<lambda>state. case state of
       None \<Rightarrow> fail noQueueState
     | Some st \<Rightarrow>
         if quStatus st \<noteq> QueueStatusMatching then fail (Errorf ''cancelling is not allowed now'')
         else
           andThen (wrapErr ''remove from queue failed: '' (RemoveFromQueue (quMode st) userID)) (\<lambda>_.
           andThen timeNow (\<lambda>now.
           let st' = st\<lparr>quStatus := QueueStatusCancelled, quUpdatedAt := now\<rparr> in
           andThen (wrapErr ''update queue state failed: '' (SetUserStatus st')) (\<lambda>_.
           ret (statusResponse userID 0 st')))))"

end
