(* ===== verification/MatchQueueInv.thy ===== *)
theory MatchQueueInv
  imports MatchQueue MatchFrame
begin

text \<open>
  The waiting queues are sound at all times: whatever fails in Redis, MySQL or the broker, a player
  stands in at most one queue, at most once, and only while his state says that he is waiting
  for that very mode. So no player is ever put into two matches at a time.
\<close>

section \<open>The invariant\<close>

definition queue_ok :: "world \<Rightarrow> bool" where
  "queue_ok w \<longleftrightarrow> (\<forall>mode. distinct (rdQueues w mode)) \<and>
     (\<forall>mode. \<forall>u \<in> set (rdQueues w mode). \<exists>st. rdQueueUsers w u = Some st \<and> quStatus st = QueueStatusMatching \<and> quMode st = mode) \<and>
     (\<forall>u st. rdQueueUsers w u = Some st \<longrightarrow> quUserID st = u)"

text \<open>The players \<open>out\<close>, who asked for \<open>mode\<close>, are in no queue: they have just been taken out
  of it to form a group, or are about to enter it.\<close>

definition queue_out :: "string \<Rightarrow> int set \<Rightarrow> world \<Rightarrow> bool" where
  "queue_out mode out w \<longleftrightarrow> queue_ok w \<and> (\<forall>m. set (rdQueues w m) \<inter> out = {})
     \<and> (\<forall>u \<in> out. \<forall>st. rdQueueUsers w u = Some st \<longrightarrow> quMode st = mode)"

lemma queue_out_empty [simp]: "queue_out mode {} = queue_ok"
  by (simp add: queue_out_def fun_eq_iff)

lemma queue_out_ok: "queue_out mode out w \<Longrightarrow> queue_ok w"
  by (simp add: queue_out_def)

lemma queue_out_mono: "queue_out mode out w \<Longrightarrow> out' \<subseteq> out \<Longrightarrow> queue_out mode out' w"
  by (auto simp: queue_out_def)

lemma queue_okD:
  assumes "queue_ok w"
  shows "distinct (rdQueues w mode)"
    and "u \<in> set (rdQueues w mode) \<Longrightarrow> \<exists>st. rdQueueUsers w u = Some st \<and> quStatus st = QueueStatusMatching \<and> quMode st = mode"
    and "rdQueueUsers w u = Some st \<Longrightarrow> quUserID st = u"
  using assms by (simp_all add: queue_ok_def)

lemma queue_outD:
  assumes "queue_out mode out w" "u \<in> out"
  shows "u \<notin> set (rdQueues w m)" and "rdQueueUsers w u = Some st \<Longrightarrow> quMode st = mode \<and> quUserID st = u"
  using assms by (auto simp: queue_out_def queue_ok_def)

lemma outside_queue_data: "outside_data (queue_out mode out)"
  unfolding outside_data_def queue_out_def queue_ok_def by (rule exI, rule refl)

lemmas outside_queue_out = outside_data_match [OF outside_queue_data]

lemma outside_queue_ok: "outside_match queue_ok"
  using outside_queue_out [of "''''" "{}"] by simp

lemma data_inv_queue [simp]: "data_inv (queue_out mode out)" "data_inv queue_ok"
  by (rule outside_match_inv [OF outside_queue_out], rule outside_match_inv [OF outside_queue_ok])

lemma data_inv_user [simp]: "data_inv (\<lambda>w. rdQueueUsers w u = v)"
  by (simp add: data_inv_def)

section \<open>Single writes\<close>

lemma queue_okI:
  assumes "\<And>m. distinct (rdQueues w m)"
    and "\<And>m u. u \<in> set (rdQueues w m) \<Longrightarrow> \<exists>st. rdQueueUsers w u = Some st \<and> quStatus st = QueueStatusMatching \<and> quMode st = m"
    and "\<And>u st. rdQueueUsers w u = Some st \<Longrightarrow> quUserID st = u"
  shows "queue_ok w"
  using assms by (simp add: queue_ok_def)

text \<open>Writing the state of a player who is in no queue is always safe.\<close>

lemma storeUser_out:
  assumes out: "queue_out mode out w" and st: "quUserID st \<in> out" "quMode st = mode"
  shows "queue_out mode out (storeUser st w)"
proof -
  let ?w = "storeUser st w"
  have q: "rdQueues ?w m = rdQueues w m"
    and u: "rdQueueUsers ?w v = (if v = quUserID st then Some st else rdQueueUsers w v)" for m v
    by (simp_all add: storeUser_def)
  have ok: "queue_ok w" using out by (rule queue_out_ok)
  have "queue_ok ?w"
  proof (rule queue_okI)
    fix m v assume "v \<in> set (rdQueues ?w m)"
    then have v: "v \<in> set (rdQueues w m)" by (simp add: q)
    then have "v \<noteq> quUserID st" using queue_outD(1) [OF out st(1)] by metis
    then show "\<exists>st. rdQueueUsers ?w v = Some st \<and> quStatus st = QueueStatusMatching \<and> quMode st = m"
      using queue_okD(2) [OF ok v] by (simp add: u)
  next
    fix v sv assume "rdQueueUsers ?w v = Some sv"
    then show "quUserID sv = v" using queue_okD(3) [OF ok, of v sv] by (simp add: u split: if_splits)
  qed (simp add: q queue_okD(1) [OF ok])
  then show ?thesis using out st(2) by (simp add: queue_out_def q u)
qed

lemma pushQueue_out:
  assumes out: "queue_out mode out w" and u: "u \<in> out"
    and st: "rdQueueUsers w u = Some st" "quStatus st = QueueStatusMatching"
  shows "queue_out mode (out - {u}) (pushQueue mode u w)"
proof -
  let ?w = "pushQueue mode u w"
  have q: "rdQueues ?w m = (if m = mode then rdQueues w m @ [u] else rdQueues w m)"
    and us: "rdQueueUsers ?w = rdQueueUsers w" for m
    by (simp_all add: pushQueue_def)
  have ok: "queue_ok w" using out by (rule queue_out_ok)
  have new: "u \<notin> set (rdQueues w m)" for m using queue_outD(1) [OF out u] .
  have "queue_ok ?w"
  proof (rule queue_okI)
    fix m v assume "v \<in> set (rdQueues ?w m)"
    then consider "v \<in> set (rdQueues w m)" | "v = u" "m = mode" by (auto simp: q split: if_splits)
    then show "\<exists>st. rdQueueUsers ?w v = Some st \<and> quStatus st = QueueStatusMatching \<and> quMode st = m"
      by cases (use queue_okD(2) [OF ok] queue_outD(2) [OF out u st(1)] st us in auto)
  qed (use new queue_okD(1,3) [OF ok] in \<open>auto simp: q us\<close>)
  moreover have "set (rdQueues ?w m) \<inter> (out - {u}) = {}" for m
    using out by (auto simp: q queue_out_def)
  moreover have "\<forall>v \<in> out - {u}. \<forall>s. rdQueueUsers ?w v = Some s \<longrightarrow> quMode s = mode"
    using out by (auto simp: us queue_out_def)
  ultimately show ?thesis by (simp add: queue_out_def)
qed

lemma popQueue_out:
  assumes ok: "queue_ok w"
  shows "queue_out mode (set (take (nat n) (rdQueues w mode))) (popQueue mode n w)"
proof -
  let ?q = "rdQueues w mode" and ?w = "popQueue mode n w"
  let ?t = "take (nat n) ?q"
  have q: "rdQueues ?w m = (if m = mode then drop (nat n) ?q else rdQueues w m)" and u: "rdQueueUsers ?w = rdQueueUsers w" for m
    by (simp_all add: popQueue_def)
  have mode: "v \<in> set (rdQueues w m) \<Longrightarrow> rdQueueUsers w v = Some s \<Longrightarrow> quMode s = m" for v m s
    using queue_okD(2) [OF ok, of v m] by auto
  have "queue_ok ?w"
    by (rule queue_okI) (use queue_okD [OF ok] in \<open>auto simp: q u dest: in_set_dropD split: if_splits\<close>)
  moreover have "set (rdQueues ?w m) \<inter> set ?t = {}" for m
  proof (cases "m = mode")
    case True
    then show ?thesis using set_take_disj_set_drop_if_distinct [OF queue_okD(1) [OF ok], of "nat n" "nat n"] by (auto simp: q)
  next
    case False
    show ?thesis
    proof (rule ccontr)
      assume "set (rdQueues ?w m) \<inter> set ?t \<noteq> {}"
      then obtain v where v: "v \<in> set (rdQueues w m)" "v \<in> set ?q"
        using False by (auto simp: q dest: in_set_takeD)
      then show False using queue_okD(2) [OF ok v(1)] mode [OF v(2)] False by auto
    qed
  qed
  moreover have "\<forall>v \<in> set ?t. \<forall>s. rdQueueUsers ?w v = Some s \<longrightarrow> quMode s = mode"
    using mode by (auto simp: u dest: in_set_takeD)
  ultimately show ?thesis by (simp add: queue_out_def)
qed

text \<open>A player who leaves the one queue he can be in is in none.\<close>

lemma dropFromQueue_out:
  assumes ok: "queue_ok w" and st: "rdQueueUsers w u = Some st"
  shows "queue_out (quMode st) {u} (dropFromQueue (quMode st) u w)"
proof -
  let ?w = "dropFromQueue (quMode st) u w"
  have q: "rdQueues ?w m = (if m = quMode st then filter (\<lambda>v. v \<noteq> u) (rdQueues w m) else rdQueues w m)"
    and us: "rdQueueUsers ?w = rdQueueUsers w" for m
    by (simp_all add: dropFromQueue_def)
  have "queue_ok ?w"
    by (rule queue_okI) (use queue_okD [OF ok] in \<open>auto simp: q us split: if_splits\<close>)
  moreover have "u \<notin> set (rdQueues ?w m)" for m
    using queue_okD(2) [OF ok, of u m] st by (auto simp: q)
  ultimately show ?thesis using st by (simp add: queue_out_def us)
qed

lemma waiting_unless:
  assumes ok: "queue_ok w" and st: "\<And>st. rdQueueUsers w u = Some st \<Longrightarrow> quStatus st \<noteq> QueueStatusMatching"
  shows "u \<notin> set (rdQueues w m)"
  using queue_okD(2) [OF ok, of u m] st by auto

lemma forgetUser_out:
  assumes ok: "queue_ok w" and st: "\<And>st. rdQueueUsers w u = Some st \<Longrightarrow> quStatus st \<noteq> QueueStatusMatching"
  shows "queue_out mode {u} (forgetUser u w)"
proof -
  let ?w = "forgetUser u w"
  have q: "rdQueues ?w = rdQueues w" and us: "rdQueueUsers ?w v = (if v = u then None else rdQueueUsers w v)" for v
    by (simp_all add: forgetUser_def)
  have no: "u \<notin> set (rdQueues w m)" for m using waiting_unless [OF ok st] .
  have "queue_ok ?w"
  proof (rule queue_okI)
    fix m v assume "v \<in> set (rdQueues ?w m)"
    then have "v \<in> set (rdQueues w m)" "v \<noteq> u" using no by (auto simp: q)
    then show "\<exists>st. rdQueueUsers ?w v = Some st \<and> quStatus st = QueueStatusMatching \<and> quMode st = m"
      using queue_okD(2) [OF ok] by (simp add: us)
  qed (use queue_okD(1,3) [OF ok] in \<open>auto simp: q us split: if_splits\<close>)
  then show ?thesis using no by (simp add: queue_out_def q us)
qed

section \<open>The operations\<close>

lemma keeps_updateUsers:
  assumes "set us \<subseteq> out" "\<And>st. quUserID (f st) = quUserID st" "\<And>st. quMode (f st) = quMode st"
  shows "keeps (queue_out mode out) (updateUsers f us)"
  using assms(1)
proof (induction us)
  case (Cons u us)
  then have u: "u \<in> out" and IH: "keeps (queue_out mode out) (updateUsers f us)" by simp_all
  have get: "gives (queue_out mode out) (wrapErr msg (GetUserStatus u))
      (\<lambda>v. \<forall>st. v = Some st \<longrightarrow> quUserID st = u \<and> quMode st = mode)" for msg
    unfolding GetUserStatus_def by (intro gives_wrap gives_rd data_inv_queue) (auto dest: queue_outD(2) [OF _ u])
  have set_st: "keeps (queue_out mode out) (wrapErr msg (SetUserStatus (f st)))"
    if "quUserID st = u" "quMode st = mode" for msg st
    unfolding SetUserStatus_def using that u assms(2,3)
    by (intro gives_wrap keeps_wr data_inv_queue) (auto intro: storeUser_out)
  show ?case
    by (auto intro!: gives_andThen [OF get] gives_case_option keeps_andThen set_st IH)
qed (simp add: gives_ret)

lemma keeps_updateUserStateToMatched:
  "set (teamUsers teams) \<subseteq> out \<Longrightarrow> keeps (queue_out mode out) (updateUserStateToMatched teams r m)"
  unfolding updateUserStateToMatched_def
  by (auto intro!: keeps_andThen keeps_timeNow keeps_updateUsers simp: markMatched_def)

lemma keeps_updateUserStateChunk:
  "set (teamUsers teams) \<subseteq> out \<Longrightarrow> keeps (queue_out mode out) (updateUserStateChunk teams c)"
  unfolding updateUserStateChunk_def by (auto intro!: keeps_andThen keeps_timeNow keeps_updateUsers)

text \<open>The state of \<open>u\<close> says that he waits, and he is about to be put into the queue.\<close>

definition about_to_wait :: "string \<Rightarrow> int set \<Rightarrow> int \<Rightarrow> world \<Rightarrow> bool" where
  "about_to_wait mode out u w \<longleftrightarrow> queue_out mode out w
     \<and> (\<exists>st. rdQueueUsers w u = Some st \<and> quStatus st = QueueStatusMatching)"

lemma data_inv_about [simp]: "data_inv (about_to_wait mode out u)"
  using data_inv_queue(1) [of mode out] by (simp add: data_inv_def about_to_wait_def)

lemma triple_SetUserStatus:
  assumes "quUserID st \<in> out" "quMode st = mode" "quStatus st = QueueStatusMatching"
  shows "triple (queue_out mode out) (SetUserStatus st) (\<lambda>_. about_to_wait mode out (quUserID st)) queue_ok"
  unfolding SetUserStatus_def
  by (rule triple_wr) (use storeUser_out [OF _ assms(1,2)] assms(3) in
      \<open>auto simp: about_to_wait_def storeUser_def dest: queue_out_ok\<close>)

lemma triple_Enqueue:
  assumes "u \<in> out"
  shows "triple (about_to_wait mode out u) (Enqueue mode u) (\<lambda>_. queue_out mode (out - {u})) queue_ok"
  unfolding Enqueue_def
  by (rule triple_wr) (use pushQueue_out [OF _ assms] in \<open>auto simp: about_to_wait_def dest: queue_out_ok\<close>)

lemma triple_get_waiting:
  assumes "u \<in> out"
  shows "triple (queue_out mode out) (GetUserStatus u)
     (\<lambda>v w. (\<forall>st. v = Some st \<longrightarrow> quUserID st = u \<and> quMode st = mode) \<and> queue_out mode out w) queue_ok"
  unfolding GetUserStatus_def
  by (rule triple_rd) (auto dest: queue_outD(2) [OF _ assms] queue_out_ok)

lemma triple_restoreUsers:
  "distinct us \<Longrightarrow> triple (queue_out mode (set us)) (restoreUsers mode us) (\<lambda>_. queue_ok) queue_ok"
proof (induction us)
  case Nil
  then show ?case by (simp add: triple_ret)
next
  case (Cons u us)
  let ?S = "set (u # us)"
  have rest: "triple (queue_out mode (set us)) (restoreUsers mode us) (\<lambda>_. queue_ok) queue_ok"
    using Cons by simp
  have skip: "triple (queue_out mode ?S) (restoreUsers mode us) (\<lambda>_. queue_ok) queue_ok"
    by (rule triple_weaken [OF rest]) (auto elim: queue_out_mono)
  have "?S - {u} = set us" using Cons.prems by auto
  then have enq: "triple (about_to_wait mode ?S u) (wrapErr msg (Enqueue mode u)) (\<lambda>_. queue_out mode (set us)) queue_ok" for msg
    using triple_wrap [OF triple_Enqueue [of u ?S mode]] by simp
  have put: "triple (queue_out mode ?S) (wrapErr msg (SetUserStatus (backToWaiting now st)))
      (\<lambda>_. about_to_wait mode ?S u) queue_ok" if "quUserID st = u" "quMode st = mode" for msg now st
    using triple_wrap [OF triple_SetUserStatus [of "backToWaiting now st" ?S mode]] that by (simp add: backToWaiting_def)
  have one: "triple (queue_out mode ?S)
     (andThen timeNow (\<lambda>now. andThen (wrapErr m1 (SetUserStatus (backToWaiting now st))) (\<lambda>_.
        andThen (wrapErr m2 (Enqueue mode u)) (\<lambda>_. restoreUsers mode us)))) (\<lambda>_. queue_ok) queue_ok"
    if "quUserID st = u" "quMode st = mode" for st m1 m2
    by (rule triple_andThen [where R = "\<lambda>_. queue_out mode ?S"], rule triple_timeNow, simp, assumption,
        rule triple_andThen [OF put [OF that]], rule triple_andThen [OF enq rest])
  show ?case
    unfolding restoreUsers.simps
  proof (rule triple_andThen [OF triple_wrap [OF triple_get_waiting]])
    show "triple (\<lambda>w. (\<forall>st. v = Some st \<longrightarrow> quUserID st = u \<and> quMode st = mode) \<and> queue_out mode ?S w)
      (case v of None \<Rightarrow> restoreUsers mode us | Some st \<Rightarrow>
         andThen timeNow (\<lambda>now. andThen (wrapErr ''restore queue state failed: '' (SetUserStatus (backToWaiting now st)))
           (\<lambda>_. andThen (wrapErr ''re-enqueue failed: '' (Enqueue mode u)) (\<lambda>_. restoreUsers mode us))))
      (\<lambda>_. queue_ok) queue_ok" for v
      by (rule triple_pre, cases v) (use skip one in simp_all)
  qed simp
qed

lemma triple_restoreMatchedUsers:
  "distinct (teamUsers teams) \<Longrightarrow>
   triple (queue_out mode (set (teamUsers teams))) (restoreMatchedUsers teams mode) (\<lambda>_. queue_ok) queue_ok"
  unfolding restoreMatchedUsers_def by (rule triple_restoreUsers)

definition group_out :: "string \<Rightarrow> (MatchedTeam list \<times> string) option \<Rightarrow> world \<Rightarrow> bool" where
  "group_out mode g w \<longleftrightarrow> (case g of None \<Rightarrow> queue_ok w
     | Some (teams, _) \<Rightarrow> distinct (teamUsers teams) \<and> queue_out mode (set (teamUsers teams)) w)"

text \<open>The teams are made of the players that came out of the queue.\<close>

lemma buildTeams_users:
  "buildTeams mode us = Inr teams \<Longrightarrow> distinct us \<Longrightarrow> distinct (teamUsers teams) \<and> set (teamUsers teams) \<subseteq> set us"
  by (auto simp: buildTeams_def teamUsers_def mkTeam_def split: if_splits list.splits)

lemma triple_dequeue:
  "triple queue_ok (DequeueBatch mode n) (\<lambda>us w. distinct us \<and> queue_out mode (set us) w) queue_ok"
  unfolding DequeueBatch_def
  by (rule triple_wr) (use popQueue_out queue_okD(1) in \<open>auto dest: queue_out_ok\<close>)

lemma keeps_generateRoomID: "data_inv I \<Longrightarrow> keeps I generateRoomID"
  and keeps_generateQueueTicketID: "data_inv I \<Longrightarrow> keeps I generateQueueTicketID"
  unfolding generateRoomID_def generateQueueTicketID_def by (auto intro!: keeps_andThen keeps_timeNow gives_ret)

lemma triple_weak_err: "triple P m Q P \<Longrightarrow> (\<And>w. P w \<Longrightarrow> E w) \<Longrightarrow> triple P m Q E"
  by (erule triple_weaken) auto

lemma triple_teams:
  assumes "distinct us"
  shows "triple (queue_out mode (set us)) (andThen (liftE (buildTeams mode us)) (\<lambda>teams. ret (Some (teams, r))))
    (group_out mode) queue_ok"
proof (cases "buildTeams mode us")
  case (Inl e)
  then show ?thesis by (auto intro!: triple_fail dest: queue_out_ok)
next
  case (Inr teams)
  then show ?thesis using buildTeams_users [OF Inr assms]
    by (auto simp: group_out_def intro!: triple_ret elim: queue_out_mono)
qed

lemma triple_FindMatchGroup: "triple queue_ok (FindMatchGroup mode) (group_out mode) queue_ok"
proof -
  have len: "triple queue_ok (wrapErr msg (QueueLen mode)) (\<lambda>_. queue_ok) queue_ok" for msg
    unfolding QueueLen_def by (intro triple_wrap triple_keeps keeps_rd data_inv_queue)
  have tail: "triple (\<lambda>w. distinct us \<and> queue_out mode (set us) w)
      (andThen generateRoomID (\<lambda>r. andThen (liftE (buildTeams mode us)) (\<lambda>teams. ret (Some (teams, r)))))
      (group_out mode) queue_ok" for us
    by (rule triple_pre, rule triple_andThen [OF _ triple_teams],
        rule triple_weak_err [OF triple_keeps [OF keeps_generateRoomID]], auto dest: queue_out_ok)
  have none: "triple queue_ok (ret None) (group_out mode) queue_ok"
    by (rule triple_ret) (simp add: group_out_def)
  show ?thesis
    unfolding FindMatchGroup_def Let_def
    by (auto intro!: triple_fail triple_andThen [OF len] none triple_andThen [OF triple_wrap [OF triple_dequeue] tail])
qed

lemma triple_startMatch:
  assumes d: "distinct (teamUsers teams)"
  shows "triple (queue_out mode (set (teamUsers teams))) (startMatch wi perm mode teams r) (\<lambda>_. queue_ok) queue_ok"
proof -
  let ?I = "queue_out mode (set (teamUsers teams))"
  have frame: "triple ?I m (\<lambda>_. ?I) ?I" if "keeps ?I m" for m :: "'x io"
    using that by (rule triple_keeps)
  have ok: "triple ?I m (\<lambda>_. ?I) queue_ok" if "keeps ?I m" for m :: "'x io"
    by (rule triple_weak_err [OF triple_keeps [OF that]]) (rule queue_out_ok)
  have undo: "triple ?I (andThen (wrapErr msg (restoreMatchedUsers teams mode)) (\<lambda>_. fail e)) Q queue_ok"
    for msg e and Q :: "'x \<Rightarrow> world \<Rightarrow> bool"
    by (rule triple_andThen [OF triple_wrap [OF triple_restoreMatchedUsers [OF d]]]) (rule triple_fail)
  have create: "triple ?I (onErr (CreateMatchFromQueue q)
      (\<lambda>e. andThen (wrapErr msg (restoreMatchedUsers teams mode)) (\<lambda>_. fail (f e)))) (\<lambda>_. ?I) queue_ok" for q msg f
    by (rule triple_onErr [OF triple_keeps [OF frame_CreateMatchFromQueue [OF outside_queue_out]] undo])
  have assign: "triple ?I (onErr (AssignChunkForMatch wi perm i r teams)
      (\<lambda>e. andThen (wrapErr msg (restoreMatchedUsers teams mode)) (\<lambda>_. fail (f e)))) (\<lambda>_. ?I) queue_ok" for i msg f
    by (rule triple_onErr [OF triple_keeps [OF frame_AssignChunkForMatch [OF outside_queue_out]] undo])
  note matched = ok [OF gives_wrap [OF keeps_updateUserStateToMatched [OF order_refl]]]
  note chunk = ok [OF gives_wrap [OF keeps_updateUserStateChunk [OF order_refl]]]
  note room = ok [OF frame_CreateRoom [OF outside_data_rooms [OF outside_queue_data]]]
  have choose: "triple ?I (if b then andThen (onErr (AssignChunkForMatch wi perm i r teams)
      (\<lambda>e. andThen (wrapErr msg (restoreMatchedUsers teams mode)) (\<lambda>_. fail (f e))))
      (\<lambda>c. wrapErr msg' (updateUserStateChunk teams c)) else ret ()) (\<lambda>_. ?I) queue_ok" for b i msg msg' f
    by (auto intro!: triple_andThen [OF assign chunk] triple_ret)
  show ?thesis
    unfolding startMatch_def
    by (intro triple_andThen [OF create] triple_andThen [OF matched] triple_andThen [OF choose]
        triple_andThen [OF room] triple_ret) (rule queue_out_ok)
qed

lemma keeps_reads: "keeps queue_ok (wrapErr msg (GetUserStatus u))" "keeps queue_ok (buildJoinResponse v)"
  unfolding GetUserStatus_def buildJoinResponse_def
  by (auto intro!: gives_wrap keeps_rd gives_intros)

lemma triple_joinNew: "triple (queue_out mode {u}) (joinNew wi perm u mode) (\<lambda>_. queue_ok) queue_ok"
proof -
  let ?I = "queue_out mode {u}"
  have time: "triple ?I timeNow (\<lambda>_. ?I) queue_ok" "triple ?I generateQueueTicketID (\<lambda>_. ?I) queue_ok"
    by (auto intro!: triple_weak_err [OF triple_keeps] keeps_timeNow keeps_generateQueueTicketID dest: queue_out_ok)
  have put: "triple ?I (wrapErr msg (SetUserStatus (newQueueUser u mode t now))) (\<lambda>_. about_to_wait mode {u} u) queue_ok" for msg t now
    using triple_wrap [OF triple_SetUserStatus [of "newQueueUser u mode t now" "{u}" mode]] by (simp add: newQueueUser_def)
  have enq: "triple (about_to_wait mode {u} u) (wrapErr msg (Enqueue mode u)) (\<lambda>_. queue_ok) queue_ok" for msg
    using triple_wrap [OF triple_Enqueue [of u "{u}" mode]] by simp
  have "triple (group_out mode g) (case g of None \<Rightarrow> ret () | Some (teams, r) \<Rightarrow> startMatch wi perm mode teams r)
      (\<lambda>_. queue_ok) queue_ok" for g
  proof (cases g)
    case None
    then show ?thesis by (auto simp: group_out_def intro!: triple_ret)
  next
    case (Some tr)
    then show ?thesis
      unfolding group_out_def Some by (cases tr) (simp, rule triple_pre, rule triple_startMatch)
  qed
  note start = this
  note finish = triple_keeps [OF keeps_reads(1)] triple_keeps [OF keeps_reads(2)]
  show ?thesis
    unfolding joinNew_def
    by (intro triple_andThen [OF time(1)] triple_andThen [OF time(2)] triple_andThen [OF put] triple_andThen [OF enq]
        triple_andThen [OF triple_wrap [OF triple_FindMatchGroup]] triple_andThen [OF start] triple_andThen [OF finish(1)] finish(2))
qed

text \<open>What a request learns of a player's state stays true until the request changes it.\<close>

lemma triple_GetUserStatus:
  "triple queue_ok (wrapErr msg (GetUserStatus u)) (\<lambda>v w. queue_ok w \<and> rdQueueUsers w u = v) queue_ok"
  unfolding GetUserStatus_def by (rule triple_wrap, rule triple_rd) auto

lemma data_inv_known [simp]: "data_inv (\<lambda>w. queue_ok w \<and> rdQueueUsers w u = v)"
  by (rule data_inv_conj) simp_all

lemma triple_DeleteUserStatus:
  assumes "\<And>st. v = Some st \<Longrightarrow> quStatus st \<noteq> QueueStatusMatching"
  shows "triple (\<lambda>w. queue_ok w \<and> rdQueueUsers w u = v) (wrapErr msg (DeleteUserStatus u)) (\<lambda>_. queue_out mode {u}) queue_ok"
  unfolding DeleteUserStatus_def
  by (rule triple_wrap, rule triple_wr) (use forgetUser_out assms in \<open>auto intro: queue_out_ok\<close>)

theorem keeps_Join: "keeps queue_ok (Join wi perm u mode)"
proof -
  let ?m = "trimSpace mode"
  let ?K = "\<lambda>v w. queue_ok w \<and> rdQueueUsers w u = v"
  have known: "triple (?K v) (buildJoinResponse r) (\<lambda>_. queue_ok) queue_ok" for v r
    by (rule triple_weaken [OF triple_keeps [OF keeps_reads(2)]]) auto
  have new: "triple (?K None) (joinNew wi perm u ?m) (\<lambda>_. queue_ok) queue_ok"
    by (rule triple_weaken [OF triple_joinNew]) (auto simp: queue_out_def dest: queue_okD(2))
  have again: "triple (?K (Some st)) (andThen (wrapErr msg (DeleteUserStatus u)) (\<lambda>_. joinNew wi perm u ?m)) (\<lambda>_. queue_ok) queue_ok"
    if "quStatus st \<noteq> QueueStatusMatching" for st msg
    by (rule triple_andThen [OF triple_DeleteUserStatus triple_joinNew]) (use that in auto)
  have "triple queue_ok (Join wi perm u mode) (\<lambda>_. queue_ok) queue_ok"
    unfolding Join_def Let_def
    by (auto intro!: triple_fail triple_andThen [OF triple_GetUserStatus] known new again split: option.split)
  then show ?thesis by (simp add: gives_def triple_final)
qed

lemma keeps_Status: "keeps queue_ok (Status u)"
  unfolding Status_def by (auto intro!: keeps_andThen keeps_reads gives_intros)

theorem keeps_Cancel: "keeps queue_ok (Cancel u)"
proof -
  let ?K = "\<lambda>v w. queue_ok w \<and> rdQueueUsers w u = v"
  have drop: "triple (?K (Some st)) (wrapErr msg (RemoveFromQueue (quMode st) u))
      (\<lambda>_ w. quUserID st = u \<and> queue_out (quMode st) {u} w) queue_ok" for st msg
    unfolding RemoveFromQueue_def
    by (rule triple_wrap, rule triple_wr)
       (use dropFromQueue_out queue_okD(3) in \<open>auto intro: queue_out_ok\<close>)
  have time: "triple (queue_out mode {u}) timeNow (\<lambda>_. queue_out mode {u}) queue_ok" for mode
    by (rule triple_weak_err [OF triple_keeps]) (auto intro: keeps_timeNow dest: queue_out_ok)
  have put: "triple (queue_out mode {u}) (wrapErr msg (SetUserStatus st)) (\<lambda>_. queue_ok) queue_ok"
    if "quUserID st = u" "quMode st = mode" for msg st mode
    unfolding SetUserStatus_def
    by (rule triple_wrap, rule triple_wr)
       (use storeUser_out [of mode "{u}" _ st] that in \<open>auto dest: queue_out_ok\<close>)
  have waiting: "triple (?K (Some st)) (andThen (wrapErr m1 (RemoveFromQueue (quMode st) u)) (\<lambda>_.
       andThen timeNow (\<lambda>now. andThen (wrapErr m2 (SetUserStatus (st\<lparr>quStatus := s, quUpdatedAt := now\<rparr>)))
         (\<lambda>_. ret (f now))))) (\<lambda>_. queue_ok) queue_ok" for st m1 m2 s and f :: "int \<Rightarrow> 'x"
    by (rule triple_andThen [OF drop], rule triple_pre, rule triple_andThen [OF time],
        rule triple_andThen [OF put]) (auto intro: triple_ret)
  have other: "triple (?K v) (fail e) (\<lambda>_. queue_ok) queue_ok" for v and e :: err
    by (rule triple_fail) simp
  have "triple queue_ok (Cancel u) (\<lambda>_. queue_ok) queue_ok"
    unfolding Cancel_def Let_def
    by (auto intro!: triple_andThen [OF triple_GetUserStatus] other waiting split: option.split)
  then show ?thesis by (simp add: gives_def triple_final)
qed

section \<open>Reachable worlds\<close>

text \<open>Any sequence of requests, each on a network that may fail at any call, and of steps of the
  rest of the program, which does not touch the queues.\<close>

inductive queue_step :: "world \<Rightarrow> world \<Rightarrow> bool" where
  join: "queue_step w (snd (Join wi perm u mode w))"
| status: "queue_step w (snd (Status u w))"
| cancel: "queue_step w (snd (Cancel u w))"
| elsewhere: "rdQueues w' = rdQueues w \<Longrightarrow> rdQueueUsers w' = rdQueueUsers w \<Longrightarrow> queue_step w w'"

inductive queue_reach :: "world \<Rightarrow> bool" where
  start: "queue_reach emptyWorld"
| step: "queue_reach w \<Longrightarrow> queue_step w w' \<Longrightarrow> queue_reach w'"

lemma count_list_distinct: "distinct xs \<Longrightarrow> count_list xs x = (if x \<in> set xs then 1 else 0)"
  by (induction xs) auto

lemma queue_step_ok: "queue_step w w' \<Longrightarrow> queue_ok w \<Longrightarrow> queue_ok w'"
proof (induction rule: queue_step.induct)
  case (elsewhere w' w)
  then show ?case unfolding queue_ok_def by presburger
qed (rule givesD [OF keeps_Join] givesD [OF keeps_Status] givesD [OF keeps_Cancel], assumption)+

lemma queue_reach_ok: "queue_reach w \<Longrightarrow> queue_ok w"
proof (induction rule: queue_reach.induct)
  case start
  then show ?case by (simp add: queue_ok_def emptyWorld_def)
qed (rule queue_step_ok)

text \<open>(C5) However requests and failures interleave, a player stands in at most one waiting queue,
  exactly once, and only while his stored state says that he waits for that mode.\<close>

theorem queued_at_most_once:
  assumes "queue_reach w" "u \<in> set (rdQueues w mode)"
  shows "count_list (rdQueues w mode) u = 1
    \<and> (u \<in> set (rdQueues w mode') \<longleftrightarrow> mode' = mode)
    \<and> (\<exists>st. rdQueueUsers w u = Some st \<and> quUserID st = u \<and> quStatus st = QueueStatusMatching \<and> quMode st = mode)"
proof (intro conjI)
  note ok = queue_okD [OF queue_reach_ok [OF assms(1)]]
  show "count_list (rdQueues w mode) u = 1" using ok(1) assms(2) by (simp add: count_list_distinct)
  show "u \<in> set (rdQueues w mode') \<longleftrightarrow> mode' = mode"
    using ok(2) [OF assms(2)] ok(2) [of u mode'] assms(2) by auto
  show "\<exists>st. rdQueueUsers w u = Some st \<and> quUserID st = u \<and> quStatus st = QueueStatusMatching \<and> quMode st = mode"
    using ok(2) [OF assms(2)] ok(3) by blast
qed

end
