(* ===== verification/MatchQueueFunc.thy ===== *)
theory MatchQueueFunc
  imports MatchQueueInv
begin

text \<open>
  What match making does when no store fails: players leave the queue in the order they entered
  it, the player who completes a pair gets the same match, room and teams as the one who waited,
  and a cancelled player is out.
\<close>

section \<open>Forming a group\<close>

text \<open>A group is formed exactly when enough players wait, and then of those who have waited
  longest, in their order, half of them in each of the teams 0 and 1; nobody else is touched.\<close>

theorem FindMatchGroup_fifo:
  assumes "net w = []" "mode = ''1v1'' \<or> mode = ''2v2''"
  defines "q \<equiv> rdQueues w mode" and "n \<equiv> nat (getPlayerCount mode)"
  shows "if length q < n then FindMatchGroup mode w = (Inr None, w)
    else \<exists>teams r w'. FindMatchGroup mode w = (Inr (Some (teams, r)), w') \<and> teamUsers teams = take n q
      \<and> map mtTeamID teams = [0, 1] \<and> map (length \<circ> mtUserIDs) teams = [n div 2, n div 2]
      \<and> w' = (popQueue mode (int n) w)\<lparr>clock := clock w'\<rparr>"
proof -
  obtain now w' where t: "timeNow (popQueue mode (int n) w) = (Inr now, w')" and w': "w' = (popQueue mode (int n) w)\<lparr>clock := clock w'\<rparr>"
    using timeNow_Inr [of "popQueue mode (int n) w"] by auto
  have n: "int n = getPlayerCount mode" "0 < getPlayerCount mode" using assms(2) by (auto simp: n_def getPlayerCount_def)
  have pop: "net (popQueue mode (int n) w) = []" using assms(1) by (simp add: popQueue_def)
  show ?thesis
  proof (cases "length q < n")
    case True
    then show ?thesis using assms(1) n
      by (simp add: FindMatchGroup_def Let_def wrapErr_def QueueLen_def prog_defs q_def)
  next
    case False
    then have len: "length (take n q) = n" by simp
    have run: "FindMatchGroup mode w = (case buildTeams mode (take n q) of Inl e \<Rightarrow> (Inl e, w')
        | Inr teams \<Rightarrow> (Inr (Some (teams, ''r_'' @ itoa now)), w'))"
      using assms(1) False n t unfolding n(1) [symmetric]
      by (auto simp: FindMatchGroup_def Let_def wrapErr_def QueueLen_def DequeueBatch_def generateRoomID_def
          prog_defs q_def n(1) [symmetric] split: sum.splits)
    have two: "\<exists>a b. xs = [a, b]" if "length xs = 2" for xs :: "int list"
      using that by (auto simp: numeral_eq_Suc length_Suc_conv)
    have four: "\<exists>a b c d. xs = [a, b, c, d]" if "length xs = 4" for xs :: "int list"
      using that by (auto simp: numeral_eq_Suc length_Suc_conv)
    have "\<exists>teams. buildTeams mode (take n q) = Inr teams \<and> teamUsers teams = take n q
      \<and> map mtTeamID teams = [0, 1] \<and> map (length \<circ> mtUserIDs) teams = [n div 2, n div 2]"
      using assms(2)
    proof
      assume m: "mode = ''1v1''"
      then have "n = 2" by (simp add: n_def getPlayerCount_def)
      then obtain a b where "take n q = [a, b]" using two len by metis
      then show ?thesis using m \<open>n = 2\<close> by (simp add: buildTeams_def teamUsers_def mkTeam_def)
    next
      assume m: "mode = ''2v2''"
      then have "n = 4" by (simp add: n_def getPlayerCount_def)
      then obtain a b c d where "take n q = [a, b, c, d]" using four len by metis
      then show ?thesis using m \<open>n = 4\<close> by (simp add: buildTeams_def teamUsers_def mkTeam_def)
    qed
    then show ?thesis using False run w' by auto
  qed
qed

section \<open>Completing a pair\<close>

text \<open>An auto-increment id is not in use yet.\<close>

definition next_id_fresh :: "world \<Rightarrow> bool" where
  "next_id_fresh w \<longleftrightarrow> (\<forall>r \<in> set (dbMatchPlayers w). mpMatchID r \<noteq> dbNextMatchID w)"

abbreviation duelOf :: "int \<Rightarrow> int \<Rightarrow> MatchedTeam list" where
  "duelOf a b \<equiv> [mkTeam 0 [a], mkTeam 1 [b]]"

definition duelRow :: "int \<Rightarrow> int \<Rightarrow> string \<Rightarrow> string \<Rightarrow> MatchRow" where
  "duelRow i t r mode = (newMatchRow t \<lparr>mqRoomID = r, mqMode = mode, mqTeams = []\<rparr>)\<lparr>maID := i\<rparr>"

definition duelPlayers :: "int \<Rightarrow> int \<Rightarrow> int \<Rightarrow> MatchPlayer list" where
  "duelPlayers i a b = [\<lparr>mpMatchID = i, mpUserID = a, mpTeamNo = 0\<rparr>, \<lparr>mpMatchID = i, mpUserID = b, mpTeamNo = 1\<rparr>]"

lemma CreateMatchFromQueue_duel:
  assumes "net w = []" "clock w = [t]" "a \<noteq> b" "next_id_fresh w"
  shows "CreateMatchFromQueue \<lparr>mqRoomID = r, mqMode = mode, mqTeams = duelOf a b\<rparr> w =
    (Inr (dbNextMatchID w), w\<lparr>dbNextMatchID := dbNextMatchID w + 1,
       dbMatches := dbMatches w @ [duelRow (dbNextMatchID w) t r mode],
       dbMatchPlayers := dbMatchPlayers w @ duelPlayers (dbNextMatchID w) a b\<rparr>)"
proof -
  have "buildPlayerFromMatch i (duelOf a b) = duelPlayers i a b" for i
    by (simp add: buildPlayerFromMatch_def duelPlayers_def mkTeam_def)
  moreover have "\<not> (\<exists>r \<in> set (dbMatchPlayers w). mpMatchID r = dbNextMatchID w \<and> mpUserID r = v)" for v
    using assms(4) by (auto simp: next_id_fresh_def)
  ultimately show ?thesis using assms(1-3)
    by (simp add: CreateMatchFromQueue_def stageMatch_def BeginTx_def CommitTx_def CreateMatch_def insertMatchPlayer_def
        duelPlayers_def duelRow_def newMatchRow_def prog_defs timeNow_const)
qed

lemma stateful_reads [simp]:
  "net w = [] \<Longrightarrow> GetUserStatus u w = (Inr (rdQueueUsers w u), w)"
  "net w = [] \<Longrightarrow> SetUserStatus st w = (Inr (), storeUser st w)"
  "net w = [] \<Longrightarrow> Enqueue m u w = (Inr (), pushQueue m u w)"
  by (simp_all add: GetUserStatus_def SetUserStatus_def Enqueue_def)

lemma storeUser_sel [simp]:
  "net (storeUser st w) = net w" "clock (storeUser st w) = clock w" "rdQueues (storeUser st w) = rdQueues w"
  "rdQueueUsers (storeUser st w) = (rdQueueUsers w)(quUserID st := Some st)"
  "memRooms (storeUser st w) = memRooms w"
  by (simp_all add: storeUser_def)

lemma pushQueue_sel [simp]:
  "net (pushQueue m u w) = net w" "clock (pushQueue m u w) = clock w"
  "rdQueues (pushQueue m u w) = (rdQueues w)(m := rdQueues w m @ [u])" "rdQueueUsers (pushQueue m u w) = rdQueueUsers w"
  by (simp_all add: pushQueue_def)

text \<open>A player without an active state joins; enough players are not there yet.\<close>

definition inactive :: "world \<Rightarrow> int \<Rightarrow> bool" where
  "inactive w u \<longleftrightarrow> (case rdQueueUsers w u of None \<Rightarrow> True
     | Some st \<Rightarrow> quStatus st \<noteq> QueueStatusMatching \<and> quStatus st \<noteq> QueueStatusMatched)"

definition ticketAt :: "int \<Rightarrow> string" where
  "ticketAt t = ''qt_'' @ itoa t"

definition waitingState :: "int \<Rightarrow> string \<Rightarrow> int \<Rightarrow> QueueUserState" where
  "waitingState u mode t = newQueueUser u mode (ticketAt t) t"

lemma Join_inactive:
  assumes "net w = []" "clock w = [t]" "trimSpace raw = mode" "mode \<noteq> ''''" "inactive w u"
  obtains w' where "Join wi perm u raw w = joinNew wi perm u mode w'" "w' = w \<or> w' = forgetUser u w"
proof (cases "rdQueueUsers w u")
  case None
  then have "Join wi perm u raw w = joinNew wi perm u mode w"
    using assms by (simp add: Join_def wrapErr_def prog_defs)
  then show ?thesis using that by blast
next
  case (Some st)
  then have "Join wi perm u raw w = joinNew wi perm u mode (forgetUser u w)"
    using assms by (simp add: Join_def wrapErr_def prog_defs inactive_def DeleteUserStatus_def)
  then show ?thesis using that by blast
qed

lemma storeUser_forget: "quUserID st = u \<Longrightarrow> storeUser st (forgetUser u w) = storeUser st w"
  by (simp add: storeUser_def forgetUser_def)

text \<open>The world after \<open>u\<close> has entered the queue.\<close>

abbreviation enteredQueue :: "int \<Rightarrow> string \<Rightarrow> int \<Rightarrow> world \<Rightarrow> world" where
  "enteredQueue u mode t w \<equiv> pushQueue mode u (storeUser (waitingState u mode t) w)"

lemma joinNew_enters:
  assumes "net w = []" "clock w = [t]"
  shows "joinNew wi perm u mode w =
    andThen (wrapErr ''find group failed: '' (FindMatchGroup mode)) (\<lambda>group.
    andThen (case group of None \<Rightarrow> ret () | Some (teams, roomID) \<Rightarrow> startMatch wi perm mode teams roomID) (\<lambda>_.
    andThen (wrapErr ''get queue state failed: '' (GetUserStatus u)) (\<lambda>state.
    buildJoinResponse state))) (enteredQueue u mode t w)"
  using assms
  by (simp add: joinNew_def generateQueueTicketID_def wrapErr_def andThen_def onErr_def ret_def timeNow_const
      waitingState_def ticketAt_def)

lemma Join_enters:
  assumes "net w = []" "clock w = [t]" "trimSpace raw = mode" "mode \<noteq> ''''" "inactive w u"
  shows "Join wi perm u raw w =
    andThen (wrapErr ''find group failed: '' (FindMatchGroup mode)) (\<lambda>group.
    andThen (case group of None \<Rightarrow> ret () | Some (teams, roomID) \<Rightarrow> startMatch wi perm mode teams roomID) (\<lambda>_.
    andThen (wrapErr ''get queue state failed: '' (GetUserStatus u)) (\<lambda>state.
    buildJoinResponse state))) (enteredQueue u mode t w)"
proof -
  obtain w' where w': "Join wi perm u raw w = joinNew wi perm u mode w'" "w' = w \<or> w' = forgetUser u w"
    using Join_inactive [OF assms] .
  have "net w' = []" "clock w' = [t]" using w'(2) assms(1,2) by (auto simp: forgetUser_def)
  moreover have "storeUser (waitingState u mode t) w' = storeUser (waitingState u mode t) w"
    using w'(2) by (auto simp: storeUser_forget waitingState_def newQueueUser_def)
  ultimately show ?thesis by (simp add: w'(1) joinNew_enters)
qed

lemma popQueue_sel [simp]:
  "net (popQueue m k w) = net w" "clock (popQueue m k w) = clock w" "rdQueueUsers (popQueue m k w) = rdQueueUsers w"
  "rdQueues (popQueue m k w) = (rdQueues w)(m := drop (nat k) (rdQueues w m))" "dbMatches (popQueue m k w) = dbMatches w"
  "dbMatchPlayers (popQueue m k w) = dbMatchPlayers w" "dbNextMatchID (popQueue m k w) = dbNextMatchID w"
  by (simp_all add: popQueue_def)

lemma queue_writes_db [simp]:
  "dbMatches (storeUser st w) = dbMatches w" "dbMatchPlayers (storeUser st w) = dbMatchPlayers w"
  "dbNextMatchID (storeUser st w) = dbNextMatchID w" "dbMatches (pushQueue m u w) = dbMatches w"
  "dbMatchPlayers (pushQueue m u w) = dbMatchPlayers w" "dbNextMatchID (pushQueue m u w) = dbNextMatchID w"
  by (simp_all add: storeUser_def pushQueue_def)

definition roomAt :: "int \<Rightarrow> string" where
  "roomAt t = ''r_'' @ itoa t"

lemma FindMatchGroup_duel:
  assumes "net w = []" "clock w = [t]" "rdQueues w ''1v1'' = [a, b]"
  shows "FindMatchGroup ''1v1'' w = (Inr (Some (duelOf a b, roomAt t)), popQueue ''1v1'' 2 w)"
  using assms
  by (simp add: FindMatchGroup_def Let_def wrapErr_def QueueLen_def DequeueBatch_def generateRoomID_def prog_defs
      getPlayerCount_def buildTeams_def timeNow_const roomAt_def)

definition duelRoomOf :: "int \<Rightarrow> int \<Rightarrow> int \<Rightarrow> int \<Rightarrow> string \<Rightarrow> Room" where
  "duelRoomOf i t a b mode = \<lparr>roID = roomAt t, roMatchID = i, roMode = mode, roStatus = RoomStatusWaiting, roTeams = duelOf a b,
     roPlayers = [(a, \<lparr>rpUserID = a, rpUserName = '''', rpTeamNo = 0, rpOnline = True, rpReady = False, rpUpdatedAt = t\<rparr>),
       (b, \<lparr>rpUserID = b, rpUserName = '''', rpTeamNo = 1, rpOnline = True, rpReady = False, rpUpdatedAt = t\<rparr>)]\<rparr>"

lemma CreateRoom_duel:
  "clock w = [t] \<Longrightarrow> a \<noteq> b \<Longrightarrow>
   CreateRoom (roomAt t) mode i (duelOf a b) w =
     (Inr (duelRoomOf i t a b mode), w\<lparr>memRooms := mput (roomAt t) (duelRoomOf i t a b mode) (memRooms w)\<rparr>)"
  by (simp add: CreateRoom_def duelRoomOf_def mkTeam_def putRoom_def prog_defs timeNow_const Let_def)

lemma markMatched_user [simp]: "quUserID (markMatched teams r i t st) = quUserID st"
  by (simp add: markMatched_def)

text \<open>Everything the pair's match writes, in order.\<close>

definition afterDuel :: "int \<Rightarrow> int \<Rightarrow> int \<Rightarrow> int \<Rightarrow> QueueUserState \<Rightarrow> QueueUserState \<Rightarrow> world \<Rightarrow> world" where
  "afterDuel i t a b sa sb w =
     (storeUser (markMatched (duelOf a b) (roomAt t) i t sb)
       (storeUser (markMatched (duelOf a b) (roomAt t) i t sa)
         (w\<lparr>dbNextMatchID := i + 1, dbMatches := dbMatches w @ [duelRow i t (roomAt t) ''1v1''],
            dbMatchPlayers := dbMatchPlayers w @ duelPlayers i a b\<rparr>)))
     \<lparr>memRooms := mput (roomAt t) (duelRoomOf i t a b ''1v1'') (memRooms w)\<rparr>"

lemma startMatch_duel:
  assumes w: "net w = []" "clock w = [t]" "a \<noteq> b" "next_id_fresh w" and i: "dbNextMatchID w = i"
    and sa: "rdQueueUsers w a = Some sa" "quUserID sa = a" and sb: "rdQueueUsers w b = Some sb" "quUserID sb = b"
    and wi: "\<not> wiMatch wi"
  shows "startMatch wi perm ''1v1'' (duelOf a b) (roomAt t) w = (Inr (), afterDuel i t a b sa sb w)"
proof -
  let ?w1 = "w\<lparr>dbNextMatchID := i + 1, dbMatches := dbMatches w @ [duelRow i t (roomAt t) ''1v1''],
       dbMatchPlayers := dbMatchPlayers w @ duelPlayers i a b\<rparr>"
  have create: "CreateMatchFromQueue \<lparr>mqRoomID = roomAt t, mqMode = ''1v1'', mqTeams = duelOf a b\<rparr> w = (Inr i, ?w1)"
    using CreateMatchFromQueue_duel [OF w] i by simp
  have users: "teamUsers (duelOf a b) = [a, b]" by (simp add: teamUsers_def mkTeam_def)
  let ?m = "markMatched (duelOf a b) (roomAt t) i t"
  have "updateUserStateToMatched (duelOf a b) (roomAt t) i ?w1 = (Inr (), storeUser (?m sb) (storeUser (?m sa) ?w1))"
    using w sa sb by (simp add: updateUserStateToMatched_def users wrapErr_def prog_defs timeNow_const)
  then show ?thesis
    using create wi w CreateRoom_duel [of "storeUser (?m sb) (storeUser (?m sa) ?w1)" t a b "''1v1''" i]
    by (simp add: startMatch_def wrapErr_def prog_defs afterDuel_def)
qed


text \<open>A world where player 7 waits for a 1v1 match since time 3 and it is time 5.\<close>

definition oneWaiting :: world where
  "oneWaiting = enteredQueue 7 ''1v1'' 3 (emptyWorld\<lparr>clock := [5]\<rparr>)"

lemma oneWaiting_sel:
  "net oneWaiting = []" "clock oneWaiting = [5]" "rdQueues oneWaiting = (\<lambda>_. [])(''1v1'' := [7])"
  "rdQueueUsers oneWaiting = [7 \<mapsto> waitingState 7 ''1v1'' 3]" "dbNextMatchID oneWaiting = 1" "dbMatchPlayers oneWaiting = []"
  "dbMatches oneWaiting = []" "memRooms oneWaiting = []"
  by (simp_all add: oneWaiting_def emptyWorld_def waitingState_def newQueueUser_def pushQueue_def storeUser_def fun_eq_iff)

lemma FindMatchGroup_fifo_witness:
  "FindMatchGroup ''1v1'' oneWaiting = (Inr None, oneWaiting)"
  using FindMatchGroup_fifo [of oneWaiting "''1v1''"] by (simp add: oneWaiting_sel getPlayerCount_def)

lemma trimSpace_1v1: "trimSpace '' 1v1'' = ''1v1''"
  by (code_simp)


section \<open>Waiting, joining again, leaving\<close>

definition joinAnswer :: "QueueUserState \<Rightarrow> JoinMatchQueueResponse" where
  "joinAnswer st = \<lparr>jrQueueStatus = quStatus st, jrMatchID = quMatchID st, jrQueueTicketID = quTicketID st,
     jrMode = quMode st, jrRoomID = quRoomID st, jrChunkID = quChunkID st, jrTeams = quTeams st\<rparr>"

lemma Join_waits:
  assumes w: "net w = []" "clock w = [t]"
    and a: "trimSpace raw = mode" "inactive w u" "int (length (rdQueues w mode)) + 1 < getPlayerCount mode"
  shows "Join wi perm u raw w = (Inr (joinAnswer (waitingState u mode t)), enteredQueue u mode t w)"
proof -
  have "mode \<noteq> ''''" using a(3) by (auto simp: getPlayerCount_def split: if_splits)
  moreover have "FindMatchGroup mode (enteredQueue u mode t w) = (Inr None, enteredQueue u mode t w)"
    using w(1) a(3) by (simp add: FindMatchGroup_def Let_def wrapErr_def QueueLen_def prog_defs)
  moreover have "quUserID (waitingState u mode t) = u" by (simp add: waitingState_def newQueueUser_def)
  ultimately show ?thesis
    using w(1) Join_enters [OF w a(1) _ a(2), of wi perm]
    by (simp add: wrapErr_def prog_defs joinAnswer_def buildJoinResponse_def)
qed

text \<open>All outcomes of a join that does not complete a group. A blank mode is refused before
  anything is read; a player who waits or is matched gets his stored state back, whatever mode he asks
  for now, and nothing changes; anybody else enters the queue at its end with a new ticket.\<close>

theorem Join_without_group:
  fixes wi perm
  assumes w: "net w = []" "clock w = [t]"
  defines "join \<equiv> \<lambda>raw u. Join wi perm u raw w"
  shows "(trimSpace raw = '''' \<longrightarrow> join raw u = (Inl (Errorf ''mode must not be empty''), w))
    \<and> (\<forall>st. trimSpace raw \<noteq> '''' \<and> rdQueueUsers w u = Some st \<and> \<not> inactive w u \<longrightarrow>
           join raw u = (Inr (joinAnswer st), w))
    \<and> (\<forall>mode. trimSpace raw = mode \<and> inactive w u \<and> int (length (rdQueues w mode)) + 1 < getPlayerCount mode \<longrightarrow>
           join raw u = (Inr (joinAnswer (waitingState u mode t)), enteredQueue u mode t w))"
proof (intro conjI allI impI; (elim conjE)?)
  show "join raw u = (Inl (Errorf ''mode must not be empty''), w)" if "trimSpace raw = ''''"
    using that by (simp add: join_def Join_def fail_def)
next
  fix st assume st: "trimSpace raw \<noteq> ''''" "rdQueueUsers w u = Some st" "\<not> inactive w u"
  then have "quStatus st = QueueStatusMatching \<or> quStatus st = QueueStatusMatched" by (auto simp: inactive_def)
  then show "join raw u = (Inr (joinAnswer st), w)"
    using w st by (simp add: join_def Join_def Let_def wrapErr_def prog_defs joinAnswer_def buildJoinResponse_def)
next
  fix mode assume "trimSpace raw = mode" "inactive w u" "int (length (rdQueues w mode)) + 1 < getPlayerCount mode"
  then show "join raw u = (Inr (joinAnswer (waitingState u mode t)), enteredQueue u mode t w)"
    unfolding join_def by (rule Join_waits [OF w])
qed

lemma Join_without_group_witness:
  "Join fullWiring [] 8 '' 1v1'' (emptyWorld\<lparr>clock := [5]\<rparr>) =
     (Inr (joinAnswer (waitingState 8 ''1v1'' 5)), enteredQueue 8 ''1v1'' 5 (emptyWorld\<lparr>clock := [5]\<rparr>))"
  using Join_without_group [of "emptyWorld\<lparr>clock := [5]\<rparr>" 5 "'' 1v1''" fullWiring "[]" 8]
  by (simp add: trimSpace_1v1 inactive_def emptyWorld_def getPlayerCount_def)

text \<open>Cancelling: only a waiting player can, and then he is in no queue, marked as cancelled, while
  the others keep their places; every other request to cancel fails and changes nothing.\<close>

theorem Cancel_branches:
  assumes "net w = []" "clock w = [t]" "queue_ok w"
  shows "case Cancel u w of (r, w') \<Rightarrow> (case rdQueueUsers w u of
      None \<Rightarrow> r = Inl noQueueState \<and> w' = w
    | Some st \<Rightarrow>
        if quStatus st = QueueStatusMatching
        then r = Inr (statusResponse u 0 (st\<lparr>quStatus := QueueStatusCancelled, quUpdatedAt := t\<rparr>))
          \<and> rdQueueUsers w' = (rdQueueUsers w)(u \<mapsto> st\<lparr>quStatus := QueueStatusCancelled, quUpdatedAt := t\<rparr>)
          \<and> rdQueues w' = (\<lambda>m. filter (\<lambda>v. v \<noteq> u) (rdQueues w m))
        else r = Inl (Errorf ''cancelling is not allowed now'') \<and> w' = w)"
proof (cases "rdQueueUsers w u")
  case None
  then show ?thesis using assms by (simp add: Cancel_def wrapErr_def prog_defs noQueueState_def)
next
  case (Some st)
  have id: "quUserID st = u" using queue_okD(3) [OF assms(3) Some] .
  have "filter (\<lambda>v. v \<noteq> u) (rdQueues w m) = rdQueues w m" if "m \<noteq> quMode st" for m
    using queue_okD(2) [OF assms(3), of u m] that Some by (auto intro: filter_True)
  then have q: "rdQueues (dropFromQueue (quMode st) u w) = (\<lambda>m. filter (\<lambda>v. v \<noteq> u) (rdQueues w m))"
    by (auto simp: dropFromQueue_def)
  have d: "net (dropFromQueue (quMode st) u w) = []" "clock (dropFromQueue (quMode st) u w) = [t]"
    "rdQueueUsers (dropFromQueue (quMode st) u w) = rdQueueUsers w"
    using assms by (simp_all add: dropFromQueue_def)
  show ?thesis
    using Some assms q d id
    by (auto simp: Cancel_def wrapErr_def prog_defs Let_def RemoveFromQueue_def timeNow_const)
qed

lemma Cancel_branches_witness:
  "rdQueues (snd (Cancel 7 oneWaiting)) = (\<lambda>_. [])"
proof -
  have "queue_ok oneWaiting"
    by (rule queue_okI) (auto simp: oneWaiting_sel waitingState_def newQueueUser_def split: if_splits)
  then show ?thesis using Cancel_branches [of oneWaiting 5 7]
    by (simp add: oneWaiting_sel waitingState_def newQueueUser_def fun_eq_iff split: prod.splits)
qed

lemma getPlayerCount_unknown: "getPlayerCount mode \<le> 0 \<longleftrightarrow> mode \<noteq> ''1v1'' \<and> mode \<noteq> ''2v2''"
  by (simp add: getPlayerCount_def)

text \<open>The mode is checked only after the player has been put into the queue: a join for a mode
  that does not exist is refused, but leaves the player waiting in a queue that never forms a group,
  and every later join, for a real mode too, is answered with that waiting state.\<close>

theorem Join_unknown_mode_sticks:
  assumes w: "net w = []" "clock w = [t]" "inactive w u"
    and mode: "trimSpace raw = mode" "mode \<noteq> ''''" "mode \<noteq> ''1v1''" "mode \<noteq> ''2v2''" and again: "trimSpace raw' \<noteq> ''''"
  shows "Join wi perm u raw w =
      (Inl (Wrap ''find group failed: '' (Errorf (''invalid match mode: '' @ mode))), enteredQueue u mode t w)
    \<and> Join wi perm u raw' (enteredQueue u mode t w) = (Inr (joinAnswer (waitingState u mode t)), enteredQueue u mode t w)"
proof
  have "FindMatchGroup mode = fail (Errorf (''invalid match mode: '' @ mode))"
    using mode by (simp add: FindMatchGroup_def getPlayerCount_unknown)
  then show "Join wi perm u raw w =
      (Inl (Wrap ''find group failed: '' (Errorf (''invalid match mode: '' @ mode))), enteredQueue u mode t w)"
    using Join_enters [OF w(1,2) mode(1,2) w(3), of wi perm] by (simp add: wrapErr_def prog_defs)
  show "Join wi perm u raw' (enteredQueue u mode t w) = (Inr (joinAnswer (waitingState u mode t)), enteredQueue u mode t w)"
    using w(1) again
    by (simp add: Join_def Let_def wrapErr_def prog_defs waitingState_def newQueueUser_def joinAnswer_def buildJoinResponse_def)
qed

lemma Join_unknown_mode_sticks_witness:
  "fst (Join fullWiring [] 8 '' 1v1'' (enteredQueue 8 ''ranked'' 5 (emptyWorld\<lparr>clock := [5]\<rparr>))) =
     Inr (joinAnswer (waitingState 8 ''ranked'' 5))"
  using Join_unknown_mode_sticks [of "emptyWorld\<lparr>clock := [5]\<rparr>" 5 8 "''ranked''" "''ranked''" "'' 1v1''" fullWiring "[]"]
  by (simp add: trimSpace_1v1 inactive_def emptyWorld_def trimSpace_def is_space_def)

lemma queued_at_most_once_witness:
  "count_list (rdQueues (snd (Join fullWiring [] 8 ''1v1'' (emptyWorld\<lparr>clock := [5]\<rparr>))) ''1v1'') 8 = 1"
proof -
  let ?w = "emptyWorld\<lparr>clock := [5]\<rparr>"
  have start: "queue_reach ?w"
    by (rule queue_reach.step [OF queue_reach.start queue_step.elsewhere]) simp_all
  have reach: "queue_reach (snd (Join fullWiring [] 8 ''1v1'' ?w))"
    by (rule queue_reach.step [OF start queue_step.join])
  have "trimSpace ''1v1'' = ''1v1''" by code_simp
  then have "Join fullWiring [] 8 ''1v1'' ?w = (Inr (joinAnswer (waitingState 8 ''1v1'' 5)), enteredQueue 8 ''1v1'' 5 ?w)"
    by (intro Join_waits) (simp_all add: emptyWorld_def inactive_def getPlayerCount_def)
  then have "8 \<in> set (rdQueues (snd (Join fullWiring [] 8 ''1v1'' ?w)) ''1v1'')" by simp
  then show ?thesis using queued_at_most_once [OF reach] by simp
qed

end
