(* ===== verification/ChunkWorker.thy ===== *)
theory ChunkWorker
  imports Prelude
begin

text \<open>
  The workers of \<^verbatim>\<open>internal/service/chunk_service.go\<close>: every request to open or flag a cell is
  handed to the one goroutine that works on its chunk, through a buffered channel; a worker that has been
  idle for a while ends. Callers and workers run concurrently, so the model is a step
  relation on the shared state: one step is one critical section under \<^verbatim>\<open>workersMu\<close> or one channel
  operation. A request is a number, and \<open>chunkOf\<close> its chunk. What a request does to the
  stored chunk is \<open>handleChunkOperation\<close> of the chunk service and no concern of this theory.

  \<open>poSent\<close> and \<open>poHandled\<close> are histories: the requests of a chunk in the order in which they
  entered the channel, and in the order in which they were worked off.
\<close>

section \<open>State\<close>

record chunkWorker =
  cwChunkID :: string
  cwOps :: "nat list"
  cwActiveSenders :: nat
  cwBusy :: "nat option"
  cwRunning :: bool

text \<open>Where a caller is in \<^verbatim>\<open>enqueueChunkOperation\<close>: not there yet, holding a worker, waiting for the
  result, about to release the worker, gone.\<close>

datatype caller = Outside | Holding nat | Waiting nat | Leaving nat | Gone

record pool =
  poWorkers :: "nat \<Rightarrow> chunkWorker"
  poNext :: nat
  poTable :: "string \<Rightarrow> nat option"
  poCallers :: "nat \<Rightarrow> caller"
  poResult :: "nat \<Rightarrow> bool"
  poSent :: "string \<Rightarrow> nat list"
  poHandled :: "string \<Rightarrow> nat list"

definition noWorker :: chunkWorker where
  "noWorker = \<lparr>cwChunkID = '''', cwOps = [], cwActiveSenders = 0, cwBusy = None, cwRunning = False\<rparr>"

definition emptyPool :: pool where
  "emptyPool = \<lparr>poWorkers = (\<lambda>_. noWorker), poNext = 0, poTable = (\<lambda>_. None), poCallers = (\<lambda>_. Outside),
     poResult = (\<lambda>_. False), poSent = (\<lambda>_. []), poHandled = (\<lambda>_. [])\<rparr>"

definition atWorker :: "nat \<Rightarrow> (chunkWorker \<Rightarrow> chunkWorker) \<Rightarrow> pool \<Rightarrow> pool" where
  "atWorker w f p = p\<lparr>poWorkers := (poWorkers p)(w := f (poWorkers p w))\<rparr>"

definition atCaller :: "nat \<Rightarrow> caller \<Rightarrow> pool \<Rightarrow> pool" where
  "atCaller r c p = p\<lparr>poCallers := (poCallers p)(r := c)\<rparr>"

section \<open>Critical sections\<close>

definition defaultChunkWorkerQueueSize :: int where
  "defaultChunkWorkerQueueSize = 256"

definition workerQueueSize :: "int \<Rightarrow> int" where
  "workerQueueSize configured = (if configured \<le> 0 then defaultChunkWorkerQueueSize else configured)"

definition acquireChunkWorker :: "string \<Rightarrow> pool \<Rightarrow> nat \<times> pool" where
  "acquireChunkWorker chunkID p = (case poTable p chunkID of
     Some w \<Rightarrow> (w, atWorker w (\<lambda>cw. cw\<lparr>cwActiveSenders := cwActiveSenders cw + 1\<rparr>) p)
   | None \<Rightarrow> (poNext p, p\<lparr>
       poWorkers := (poWorkers p)(poNext p := \<lparr>cwChunkID = chunkID, cwOps = [], cwActiveSenders = 1,
                                               cwBusy = None, cwRunning = True\<rparr>),
       poNext := poNext p + 1,
       poTable := (poTable p)(chunkID \<mapsto> poNext p)\<rparr>))"

definition releaseChunkWorker :: "nat \<Rightarrow> pool \<Rightarrow> pool" where
  "releaseChunkWorker w p = atWorker w (\<lambda>cw.
     if cwActiveSenders cw > 0 then cw\<lparr>cwActiveSenders := cwActiveSenders cw - 1\<rparr> else cw) p"

definition removeIdleChunkWorker :: "nat \<Rightarrow> pool \<Rightarrow> bool \<times> pool" where
  "removeIdleChunkWorker w p =
     (let cw = poWorkers p w in
      if poTable p (cwChunkID cw) \<noteq> Some w then (True, p)
      else if cwActiveSenders cw > 0 \<or> length (cwOps cw) > 0 then (False, p)
      else (True, p\<lparr>poTable := (poTable p)(cwChunkID cw := None)\<rparr>))"

definition chunkWorkerCount :: "pool \<Rightarrow> int" where
  "chunkWorkerCount p = int (card (dom (poTable p)))"

section \<open>Steps\<close>

text \<open>\<^verbatim>\<open>enqueueChunkOperation\<close>: acquire; send, unless the request is cancelled first; wait for the
  result, unless the request is cancelled first; release.\<close>

definition enterPool :: "string \<Rightarrow> nat \<Rightarrow> pool \<Rightarrow> pool" where
  "enterPool chunkID r p = (case acquireChunkWorker chunkID p of (w, p') \<Rightarrow> atCaller r (Holding w) p')"

definition sendOp :: "string \<Rightarrow> nat \<Rightarrow> nat \<Rightarrow> pool \<Rightarrow> pool" where
  "sendOp chunkID r w p = (atCaller r (Waiting w) (atWorker w (\<lambda>cw. cw\<lparr>cwOps := cwOps cw @ [r]\<rparr>) p))
     \<lparr>poSent := (poSent p)(chunkID := poSent p chunkID @ [r])\<rparr>"

definition leavePool :: "nat \<Rightarrow> nat \<Rightarrow> pool \<Rightarrow> pool" where
  "leavePool r w p = atCaller r Gone (releaseChunkWorker w p)"

text \<open>\<^verbatim>\<open>runChunkWorker\<close>: take a request, handle it and put its result in the caller's channel, or
  end when idle.\<close>

definition takeOp :: "nat \<Rightarrow> pool \<Rightarrow> pool" where
  "takeOp w p = atWorker w (\<lambda>cw. cw\<lparr>cwBusy := Some (hd (cwOps cw)), cwOps := tl (cwOps cw)\<rparr>) p"

definition finishOp :: "nat \<Rightarrow> nat \<Rightarrow> pool \<Rightarrow> pool" where
  "finishOp r w p = (atWorker w (\<lambda>cw. cw\<lparr>cwBusy := None\<rparr>) p)\<lparr>poResult := (poResult p)(r := True),
     poHandled := (poHandled p)(cwChunkID (poWorkers p w) := poHandled p (cwChunkID (poWorkers p w)) @ [r])\<rparr>"

definition idleTick :: "nat \<Rightarrow> pool \<Rightarrow> pool" where
  "idleTick w p = (case removeIdleChunkWorker w p of (gone, p') \<Rightarrow>
     if gone then atWorker w (\<lambda>cw. cw\<lparr>cwRunning := False\<rparr>) p' else p')"

inductive pool_step :: "int \<Rightarrow> (nat \<Rightarrow> string) \<Rightarrow> pool \<Rightarrow> pool \<Rightarrow> bool" for queueSize chunkOf where
  enter: "poCallers p r = Outside \<Longrightarrow> pool_step queueSize chunkOf p (enterPool (chunkOf r) r p)"
| send: "poCallers p r = Holding w \<Longrightarrow> int (length (cwOps (poWorkers p w))) < workerQueueSize queueSize \<Longrightarrow>
    pool_step queueSize chunkOf p (sendOp (chunkOf r) r w p)"
| cancel_send: "poCallers p r = Holding w \<Longrightarrow> pool_step queueSize chunkOf p (atCaller r (Leaving w) p)"
| answer: "poCallers p r = Waiting w \<Longrightarrow> poResult p r \<Longrightarrow> pool_step queueSize chunkOf p (atCaller r (Leaving w) p)"
| cancel_wait: "poCallers p r = Waiting w \<Longrightarrow> pool_step queueSize chunkOf p (atCaller r (Leaving w) p)"
| leave: "poCallers p r = Leaving w \<Longrightarrow> pool_step queueSize chunkOf p (leavePool r w p)"
| take_op: "cwRunning (poWorkers p w) \<Longrightarrow> cwBusy (poWorkers p w) = None \<Longrightarrow> cwOps (poWorkers p w) \<noteq> [] \<Longrightarrow>
    pool_step queueSize chunkOf p (takeOp w p)"
| finish_op: "cwRunning (poWorkers p w) \<Longrightarrow> cwBusy (poWorkers p w) = Some r \<Longrightarrow>
    pool_step queueSize chunkOf p (finishOp r w p)"
| idle: "cwRunning (poWorkers p w) \<Longrightarrow> cwBusy (poWorkers p w) = None \<Longrightarrow>
    pool_step queueSize chunkOf p (idleTick w p)"

inductive pool_reach :: "int \<Rightarrow> (nat \<Rightarrow> string) \<Rightarrow> pool \<Rightarrow> bool" for queueSize chunkOf where
  start: "pool_reach queueSize chunkOf emptyPool"
| step: "pool_reach queueSize chunkOf p \<Longrightarrow> pool_step queueSize chunkOf p p' \<Longrightarrow> pool_reach queueSize chunkOf p'"

section \<open>The invariant\<close>

text \<open>The requests a worker has taken over and not finished, the one at work first.\<close>

definition inHand :: "chunkWorker \<Rightarrow> nat list" where
  "inHand cw = (case cwBusy cw of None \<Rightarrow> [] | Some r \<Rightarrow> [r]) @ cwOps cw"

definition inflight :: "pool \<Rightarrow> string \<Rightarrow> nat list" where
  "inflight p c = (case poTable p c of None \<Rightarrow> [] | Some w \<Rightarrow> inHand (poWorkers p w))"

definition holders :: "pool \<Rightarrow> nat \<Rightarrow> nat set" where
  "holders p w = {r. poCallers p r = Holding w \<or> poCallers p r = Waiting w \<or> poCallers p r = Leaving w}"

text \<open>The workers in the table are the ones that run; a running worker's count of senders is right.\<close>

definition table_ok :: "pool \<Rightarrow> bool" where
  "table_ok p \<longleftrightarrow> (\<forall>c w. poTable p c = Some w \<longleftrightarrow> cwRunning (poWorkers p w) \<and> cwChunkID (poWorkers p w) = c)
     \<and> (\<forall>w. cwRunning (poWorkers p w) \<longrightarrow> w < poNext p)"

definition senders_ok :: "(nat \<Rightarrow> string) \<Rightarrow> pool \<Rightarrow> bool" where
  "senders_ok chunkOf p \<longleftrightarrow> (\<forall>w. finite (holders p w) \<and> (cwRunning (poWorkers p w) \<longrightarrow> cwActiveSenders (poWorkers p w) = card (holders p w)))
     \<and> (\<forall>w. \<forall>r \<in> holders p w. cwRunning (poWorkers p w) \<and> cwChunkID (poWorkers p w) = chunkOf r)"

definition order_ok :: "pool \<Rightarrow> bool" where
  "order_ok p \<longleftrightarrow> (\<forall>c. poSent p c = poHandled p c @ inflight p c)"

definition once_ok :: "(nat \<Rightarrow> string) \<Rightarrow> pool \<Rightarrow> bool" where
  "once_ok chunkOf p \<longleftrightarrow> (\<forall>c. distinct (poSent p c)) \<and> (\<forall>c. \<forall>r \<in> set (poSent p c). chunkOf r = c
       \<and> poCallers p r \<noteq> Outside \<and> (\<forall>w. poCallers p r \<noteq> Holding w))
     \<and> (\<forall>r w. poCallers p r = Waiting w \<longrightarrow> r \<in> set (poSent p (chunkOf r)))
     \<and> (\<forall>r. poResult p r \<longleftrightarrow> r \<in> set (poHandled p (chunkOf r)))"

end
