(* ===== verification/ChunkPool.thy ===== *)
theory ChunkPool
  imports ChunkWorker
begin

text \<open>
  The workers of the chunks act as one queue per chunk: one worker at a time, first come first
  served, nothing lost and nothing done twice, and every caller that keeps waiting is answered.
  The proofs go through four invariants of the steps of \<open>ChunkWorker\<close>: the table, the counts of
  senders, the order of the requests, and that each is sent once.
\<close>

section \<open>The table of workers\<close>

lemma atWorker_sel [simp]:
  "poWorkers (atWorker w f p) = (poWorkers p)(w := f (poWorkers p w))" "poNext (atWorker w f p) = poNext p"
  "poTable (atWorker w f p) = poTable p" "poCallers (atWorker w f p) = poCallers p" "poResult (atWorker w f p) = poResult p"
  "poSent (atWorker w f p) = poSent p" "poHandled (atWorker w f p) = poHandled p"
  by (simp_all add: atWorker_def)

lemma atCaller_sel [simp]:
  "poWorkers (atCaller r c p) = poWorkers p" "poNext (atCaller r c p) = poNext p" "poTable (atCaller r c p) = poTable p"
  "poCallers (atCaller r c p) = (poCallers p)(r := c)" "poResult (atCaller r c p) = poResult p"
  "poSent (atCaller r c p) = poSent p" "poHandled (atCaller r c p) = poHandled p"
  by (simp_all add: atCaller_def)

lemma table_okD:
  assumes "table_ok p"
  shows "poTable p c = Some w \<longleftrightarrow> cwRunning (poWorkers p w) \<and> cwChunkID (poWorkers p w) = c"
    and "cwRunning (poWorkers p w) \<Longrightarrow> w < poNext p"
  using assms by (simp_all add: table_ok_def)

lemma table_ok_same:
  assumes "table_ok p" "poTable p' = poTable p" "poNext p' = poNext p"
    "\<And>w. cwRunning (poWorkers p' w) = cwRunning (poWorkers p w)" "\<And>w. cwChunkID (poWorkers p' w) = cwChunkID (poWorkers p w)"
  shows "table_ok p'"
  using assms by (simp add: table_ok_def)

lemma enterPool_cases:
  obtains (old) w where "poTable p c = Some w"
      "enterPool c r p = atCaller r (Holding w) (atWorker w (\<lambda>cw. cw\<lparr>cwActiveSenders := cwActiveSenders cw + 1\<rparr>) p)"
  | (new) "poTable p c = None"
      "enterPool c r p = atCaller r (Holding (poNext p)) (p\<lparr>
       poWorkers := (poWorkers p)(poNext p := \<lparr>cwChunkID = c, cwOps = [], cwActiveSenders = 1, cwBusy = None, cwRunning = True\<rparr>),
       poNext := poNext p + 1, poTable := (poTable p)(c \<mapsto> poNext p)\<rparr>)"
  by (cases "poTable p c") (auto simp: enterPool_def acquireChunkWorker_def)

lemma enterPool_hist [simp]:
  "poSent (enterPool c r p) = poSent p" "poHandled (enterPool c r p) = poHandled p" "poResult (enterPool c r p) = poResult p"
  by (cases rule: enterPool_cases [of p c r]; simp)+

lemma table_ok_enter:
  assumes "table_ok p" shows "table_ok (enterPool c r p)"
proof (cases rule: enterPool_cases [of p c r])
  case (old w)
  show ?thesis unfolding old(2) by (rule table_ok_same [OF assms]) simp_all
next
  case new
  have "\<not> cwRunning (poWorkers p (poNext p))" using table_okD(2) [OF assms] by blast
  moreover have "\<not> (cwRunning (poWorkers p w) \<and> cwChunkID (poWorkers p w) = c)" for w
    using table_okD(1) [OF assms, of c w] new(1) by simp
  ultimately show ?thesis
    unfolding new(2) table_ok_def using table_okD [OF assms] by (auto simp: less_Suc_eq)
qed

text \<open>An idle worker goes when nobody holds it and nothing is in its channel.\<close>

lemma idleTick_cases:
  assumes "table_ok p" "cwRunning (poWorkers p w)"
  obtains (stay) "idleTick w p = p"
  | (gone) "cwActiveSenders (poWorkers p w) = 0" "cwOps (poWorkers p w) = []"
      "idleTick w p = atWorker w (\<lambda>cw. cw\<lparr>cwRunning := False\<rparr>) (p\<lparr>poTable := (poTable p)(cwChunkID (poWorkers p w) := None)\<rparr>)"
  using table_okD(1) [OF assms(1), of "cwChunkID (poWorkers p w)" w] assms(2) that
  by (cases "cwActiveSenders (poWorkers p w) = 0 \<and> cwOps (poWorkers p w) = []")
     (auto simp: idleTick_def removeIdleChunkWorker_def Let_def)

lemma table_ok_idle:
  assumes ok: "table_ok p" and w: "cwRunning (poWorkers p w)"
  shows "table_ok (idleTick w p)"
proof (cases rule: idleTick_cases [OF ok w])
  case 1
  then show ?thesis using ok by simp
next
  case 2
  have "w' = w" if "cwRunning (poWorkers p w')" "cwChunkID (poWorkers p w') = cwChunkID (poWorkers p w)" for w'
    using that w table_okD(1) [OF ok] by (metis option.inject)
  then show ?thesis unfolding 2(3) table_ok_def using table_okD [OF ok] w by auto
qed

lemma table_ok_step: "pool_step q chunkOf p p' \<Longrightarrow> table_ok p \<Longrightarrow> table_ok p'"
proof (induction rule: pool_step.induct)
  case (enter p r)
  then show ?case by (simp add: table_ok_enter)
next
  case (idle p w)
  then show ?case by (simp add: table_ok_idle)
qed (erule table_ok_same, simp_all add: sendOp_def leavePool_def releaseChunkWorker_def takeOp_def finishOp_def)+

section \<open>Senders\<close>

lemma senders_okD:
  assumes "senders_ok chunkOf p"
  shows "finite (holders p w)" "cwRunning (poWorkers p w) \<Longrightarrow> cwActiveSenders (poWorkers p w) = card (holders p w)"
    "r \<in> holders p w \<Longrightarrow> cwRunning (poWorkers p w) \<and> cwChunkID (poWorkers p w) = chunkOf r"
  using assms by (simp_all add: senders_ok_def)

lemma senders_okI:
  assumes "\<And>w. finite (holders p w)" "\<And>w. cwRunning (poWorkers p w) \<Longrightarrow> cwActiveSenders (poWorkers p w) = card (holders p w)"
    "\<And>w r. r \<in> holders p w \<Longrightarrow> cwRunning (poWorkers p w) \<and> cwChunkID (poWorkers p w) = chunkOf r"
  shows "senders_ok chunkOf p"
  using assms by (simp add: senders_ok_def)

lemma senders_ok_same:
  assumes "senders_ok chunkOf p" "\<And>w. holders p' w = holders p w"
    "\<And>w. cwRunning (poWorkers p' w) = cwRunning (poWorkers p w)" "\<And>w. cwChunkID (poWorkers p' w) = cwChunkID (poWorkers p w)"
    "\<And>w. cwActiveSenders (poWorkers p' w) = cwActiveSenders (poWorkers p w)"
  shows "senders_ok chunkOf p'"
  using assms by (simp add: senders_ok_def)

lemma holders_new: "poCallers p r = Outside \<Longrightarrow> poCallers p' = (poCallers p)(r := Holding w) \<Longrightarrow>
    holders p' v = (if v = w then insert r (holders p v) else holders p v)"
  by (auto simp: holders_def)

lemma holders_gone: "poCallers p r = Leaving w \<Longrightarrow> poCallers p' = (poCallers p)(r := Gone) \<Longrightarrow>
    holders p' v = (if v = w then holders p v - {r} else holders p v)"
  by (auto simp: holders_def)

lemma holders_same:
  "r \<in> holders p w \<Longrightarrow> poCallers p' = (poCallers p)(r := c) \<Longrightarrow> c = Holding w \<or> c = Waiting w \<or> c = Leaving w \<Longrightarrow> holders p' v = holders p v"
  by (auto simp: holders_def split: if_splits)

lemma holdersI: "poCallers p r = Holding w \<Longrightarrow> r \<in> holders p w" "poCallers p r = Waiting w \<Longrightarrow> r \<in> holders p w"
  "poCallers p r = Leaving w \<Longrightarrow> r \<in> holders p w"
  by (simp_all add: holders_def)

lemma senders_ok_enter:
  assumes ok: "senders_ok chunkOf p" and tab: "table_ok p" and r: "poCallers p r = Outside"
  shows "senders_ok chunkOf (enterPool (chunkOf r) r p)"
proof (cases rule: enterPool_cases [of p "chunkOf r" r])
  case (old w)
  let ?p = "enterPool (chunkOf r) r p"
  have h: "holders ?p v = (if v = w then insert r (holders p v) else holders p v)" for v
    by (rule holders_new [OF r]) (simp add: old(2))
  have new: "r \<notin> holders p v" for v using r by (simp add: holders_def)
  have w: "cwRunning (poWorkers p w)" "cwChunkID (poWorkers p w) = chunkOf r" using table_okD(1) [OF tab] old(1) by simp_all
  show ?thesis
  proof (rule senders_okI)
    show "cwActiveSenders (poWorkers ?p v) = card (holders ?p v)" if "cwRunning (poWorkers ?p v)" for v
      using that senders_okD(1,2) [OF ok] new by (simp add: h) (simp add: old(2) split: if_splits)
    show "cwRunning (poWorkers ?p v) \<and> cwChunkID (poWorkers ?p v) = chunkOf u" if "u \<in> holders ?p v" for u v
      using that senders_okD(3) [OF ok] w by (simp add: h split: if_splits) (auto simp: old(2))
  qed (simp add: h senders_okD(1) [OF ok])
next
  case new
  let ?p = "enterPool (chunkOf r) r p" and ?w = "poNext p"
  have fresh: "\<not> cwRunning (poWorkers p ?w)" using table_okD(2) [OF tab] by blast
  then have none: "holders p ?w = {}" using senders_okD(3) [OF ok] by blast
  have h: "holders ?p v = (if v = ?w then {r} else holders p v)" for v
    using holders_new [OF r, of ?p ?w v] none by (simp add: new(2))
  show ?thesis
  proof (rule senders_okI)
    show "cwActiveSenders (poWorkers ?p v) = card (holders ?p v)" if "cwRunning (poWorkers ?p v)" for v
      using that senders_okD(2) [OF ok] by (simp add: h) (simp add: new(2) split: if_splits)
    show "cwRunning (poWorkers ?p v) \<and> cwChunkID (poWorkers ?p v) = chunkOf u" if "u \<in> holders ?p v" for u v
      using that senders_okD(3) [OF ok] by (simp add: h split: if_splits) (auto simp: new(2))
  qed (simp add: h senders_okD(1) [OF ok])
qed

lemma senders_ok_leave:
  assumes ok: "senders_ok chunkOf p" and r: "poCallers p r = Leaving w"
  shows "senders_ok chunkOf (leavePool r w p)"
proof -
  let ?p = "leavePool r w p"
  have h: "holders ?p v = (if v = w then holders p v - {r} else holders p v)" for v
    by (rule holders_gone [OF r]) (simp add: leavePool_def releaseChunkWorker_def)
  have same: "cwRunning (poWorkers ?p v) = cwRunning (poWorkers p v)" "cwChunkID (poWorkers ?p v) = cwChunkID (poWorkers p v)"
    "cwActiveSenders (poWorkers ?p v) = (if v = w then cwActiveSenders (poWorkers p w) - 1 else cwActiveSenders (poWorkers p v))" for v
    by (simp_all add: leavePool_def releaseChunkWorker_def)
  have rw: "r \<in> holders p w" using holdersI(3) [OF r] .
  show ?thesis
  proof (rule senders_okI)
    show "finite (holders ?p v)" for v by (simp add: h senders_okD(1) [OF ok])
    show "cwActiveSenders (poWorkers ?p v) = card (holders ?p v)" if "cwRunning (poWorkers ?p v)" for v
      using that rw senders_okD(1,2) [OF ok] by (cases "v = w") (simp_all add: h same)
    show "cwRunning (poWorkers ?p v) \<and> cwChunkID (poWorkers ?p v) = chunkOf u" if "u \<in> holders ?p v" for u v
      using that senders_okD(3) [OF ok, of u v] by (simp add: h same split: if_splits)
  qed
qed

lemma senders_ok_idle:
  assumes ok: "senders_ok chunkOf p" and tab: "table_ok p" and w: "cwRunning (poWorkers p w)"
  shows "senders_ok chunkOf (idleTick w p)"
proof (cases rule: idleTick_cases [OF tab w])
  case 1
  then show ?thesis using ok by simp
next
  case 2
  have none: "holders p w = {}" using senders_okD(1,2) [OF ok, of w] 2(1) w by simp
  have h: "holders (idleTick w p) v = holders p v" for v by (simp add: 2(3) holders_def)
  have same: "v \<noteq> w \<Longrightarrow> poWorkers (idleTick w p) v = poWorkers p v" "\<not> cwRunning (poWorkers (idleTick w p) w)" for v
    by (simp_all add: 2(3))
  show ?thesis
  proof (rule senders_okI)
    show "finite (holders (idleTick w p) v)" for v by (simp add: h senders_okD(1) [OF ok])
    show "cwActiveSenders (poWorkers (idleTick w p) v) = card (holders (idleTick w p) v)"
      if "cwRunning (poWorkers (idleTick w p) v)" for v
      using that same senders_okD(2) [OF ok] by (cases "v = w") (simp_all add: h)
    show "cwRunning (poWorkers (idleTick w p) v) \<and> cwChunkID (poWorkers (idleTick w p) v) = chunkOf r"
      if "r \<in> holders (idleTick w p) v" for v r
      using that none same senders_okD(3) [OF ok] by (cases "v = w") (simp_all add: h)
  qed
qed

lemma senders_ok_step: "pool_step q chunkOf p p' \<Longrightarrow> table_ok p \<Longrightarrow> senders_ok chunkOf p \<Longrightarrow> senders_ok chunkOf p'"
proof (induction rule: pool_step.induct)
  case (send p r w)
  show ?case
    by (rule senders_ok_same [OF send(4)])
       (use holders_same [OF holdersI(1) [OF send(1)]] in \<open>auto simp: sendOp_def\<close>)
next
  case (cancel_send p r w)
  show ?case
    by (rule senders_ok_same [OF cancel_send(3)]) (use holders_same [OF holdersI(1) [OF cancel_send(1)]] in auto)
next
  case (answer p r w)
  show ?case
    by (rule senders_ok_same [OF answer(4)]) (use holders_same [OF holdersI(2) [OF answer(1)]] in auto)
next
  case (cancel_wait p r w)
  show ?case
    by (rule senders_ok_same [OF cancel_wait(3)]) (use holders_same [OF holdersI(2) [OF cancel_wait(1)]] in auto)
next
  case (take_op p w)
  show ?case by (rule senders_ok_same [OF take_op(5)]) (simp_all add: takeOp_def holders_def)
next
  case (finish_op p w r)
  show ?case by (rule senders_ok_same [OF finish_op(4)]) (simp_all add: finishOp_def holders_def)
qed (simp_all add: senders_ok_enter senders_ok_leave senders_ok_idle)

section \<open>Order\<close>

lemma order_okD: "order_ok p \<Longrightarrow> poSent p c = poHandled p c @ inflight p c"
  by (simp add: order_ok_def)

lemma order_ok_same:
  assumes "order_ok p" "poSent p' = poSent p" "poHandled p' = poHandled p" "\<And>c. inflight p' c = inflight p c"
  shows "order_ok p'"
  using assms by (simp add: order_ok_def)

lemma inflight_same:
  assumes "poTable p' = poTable p" "\<And>w. inHand (poWorkers p' w) = inHand (poWorkers p w)"
  shows "inflight p' c = inflight p c"
  using assms by (simp add: inflight_def split: option.split)

lemma order_ok_caller: "order_ok p \<Longrightarrow> order_ok (atCaller r c p)"
  by (rule order_ok_same [where p = p]) (auto intro: inflight_same)

lemma order_ok_step:
  "pool_step q chunkOf p p' \<Longrightarrow> table_ok p \<Longrightarrow> senders_ok chunkOf p \<Longrightarrow> order_ok p \<Longrightarrow> order_ok p'"
proof (induction rule: pool_step.induct)
  case (enter p r)
  show ?case
  proof (cases rule: enterPool_cases [of p "chunkOf r" r])
    case (old w)
    have "inflight (enterPool (chunkOf r) r p) c = inflight p c" for c
      by (rule inflight_same) (simp_all add: old(2) inHand_def)
    then show ?thesis by (rule order_ok_same [OF enter(4), rotated 2]) (simp_all add: old(2))
  next
    case new
    have "\<not> cwRunning (poWorkers p (poNext p))" using table_okD(2) [OF enter(2)] by blast
    then have "poTable p c \<noteq> Some (poNext p)" for c using table_okD(1) [OF enter(2)] by blast
    then have "inflight (enterPool (chunkOf r) r p) c = inflight p c" for c
      using new(1) by (auto simp: new(2) inflight_def inHand_def split: option.split)
    then show ?thesis by (rule order_ok_same [OF enter(4), rotated 2]) (simp_all add: new(2))
  qed
next
  case (send p r w)
  have w: "cwRunning (poWorkers p w)" "cwChunkID (poWorkers p w) = chunkOf r"
    using senders_okD(3) [OF send(4) holdersI(1) [OF send(1)]] by simp_all
  have t: "poTable p c = Some w \<longleftrightarrow> c = chunkOf r" for c using table_okD(1) [OF send(3), of c w] w by auto
  have "inflight (sendOp (chunkOf r) r w p) c = inflight p c @ (if c = chunkOf r then [r] else [])" for c
    using t [of c] by (auto simp: inflight_def sendOp_def inHand_def split: option.split)
  then show ?case using order_okD [OF send(5)] by (simp add: order_ok_def) (simp add: sendOp_def)
next
  case (leave p r w)
  have "inflight (leavePool r w p) c = inflight p c" for c
    by (rule inflight_same) (simp_all add: leavePool_def releaseChunkWorker_def inHand_def)
  then show ?case by (rule order_ok_same [OF leave(4), rotated 2]) (simp_all add: leavePool_def releaseChunkWorker_def)
next
  case (take_op p w)
  have "inflight (takeOp w p) c = inflight p c" for c
    by (rule inflight_same) (use take_op(2,3) in \<open>simp_all add: takeOp_def inHand_def\<close>)
  then show ?case by (rule order_ok_same [OF take_op(6), rotated 2]) (simp_all add: takeOp_def)
next
  case (finish_op p w r)
  let ?c = "cwChunkID (poWorkers p w)"
  have t: "poTable p c = Some w \<longleftrightarrow> c = ?c" for c using table_okD(1) [OF finish_op(3), of c w] finish_op(1) by auto
  have "(if c = ?c then [r] else []) @ inflight (finishOp r w p) c = inflight p c" for c
    using t [of c] finish_op(2) by (auto simp: inflight_def finishOp_def inHand_def split: option.split)
  note inf = this
  have sel: "poSent (finishOp r w p) = poSent p"
    "poHandled (finishOp r w p) c = poHandled p c @ (if c = ?c then [r] else [])" for c
    by (simp_all add: finishOp_def)
  have "poSent p c = poHandled (finishOp r w p) c @ inflight (finishOp r w p) c" for c
    using order_okD [OF finish_op(5), of c] inf [of c] unfolding sel by simp
  then show ?case by (simp add: order_ok_def sel)
next
  case (idle p w)
  show ?case
  proof (cases rule: idleTick_cases [OF idle(3,1)])
    case 1
    then show ?thesis using idle by simp
  next
    case 2
    have t: "poTable p c = Some w \<longleftrightarrow> c = cwChunkID (poWorkers p w)" for c
      using table_okD(1) [OF idle(3), of c w] idle(1) by auto
    have "inflight (idleTick w p) c = inflight p c" for c
      using t [of c] idle(2) 2(2) by (auto simp: 2(3) inflight_def inHand_def split: option.split)
    then show ?thesis by (rule order_ok_same [OF idle(5), rotated 2]) (simp_all add: 2(3))
  qed
qed (simp_all add: order_ok_caller)

section \<open>Each request once\<close>

lemma once_okD:
  assumes "once_ok chunkOf p"
  shows "distinct (poSent p c)" "r \<in> set (poSent p c) \<Longrightarrow> chunkOf r = c"
    "r \<in> set (poSent p c) \<Longrightarrow> poCallers p r \<noteq> Outside" "r \<in> set (poSent p c) \<Longrightarrow> poCallers p r \<noteq> Holding w"
    "poCallers p r = Waiting w \<Longrightarrow> r \<in> set (poSent p (chunkOf r))"
    "poResult p r \<longleftrightarrow> r \<in> set (poHandled p (chunkOf r))"
  using assms by (auto simp: once_ok_def)

lemma once_okI:
  assumes "\<And>c. distinct (poSent p c)" "\<And>c r. r \<in> set (poSent p c) \<Longrightarrow> chunkOf r = c"
    "\<And>c r w. r \<in> set (poSent p c) \<Longrightarrow> poCallers p r \<noteq> Outside \<and> poCallers p r \<noteq> Holding w"
    "\<And>r w. poCallers p r = Waiting w \<Longrightarrow> r \<in> set (poSent p (chunkOf r))"
    "\<And>r. poResult p r \<longleftrightarrow> r \<in> set (poHandled p (chunkOf r))"
  shows "once_ok chunkOf p"
  using assms by (simp add: once_ok_def)

text \<open>A caller moves on without touching the histories.\<close>

lemma once_ok_move:
  assumes "once_ok chunkOf p" "poSent p' = poSent p" "poHandled p' = poHandled p" "poResult p' = poResult p"
    "poCallers p' = (poCallers p)(r := c)" "c \<noteq> Outside" "\<And>w. c = Holding w \<Longrightarrow> poCallers p r = Outside" "\<And>w. c \<noteq> Waiting w"
  shows "once_ok chunkOf p'"
proof (rule once_okI)
  show "poCallers p' u \<noteq> Outside \<and> poCallers p' u \<noteq> Holding w" if "u \<in> set (poSent p' d)" for d u w
    using that assms(2,5-7) once_okD(3,4) [OF assms(1), of u d] by auto
  show "u \<in> set (poSent p' (chunkOf u))" if "poCallers p' u = Waiting w" for u w
    using that assms(2,5,8) once_okD(5) [OF assms(1), of u w] by (auto split: if_splits)
qed (use assms(2-4) once_okD [OF assms(1)] in auto)

lemma once_ok_step:
  "pool_step q chunkOf p p' \<Longrightarrow> table_ok p \<Longrightarrow> senders_ok chunkOf p \<Longrightarrow> order_ok p \<Longrightarrow> once_ok chunkOf p \<Longrightarrow> once_ok chunkOf p'"
proof (induction rule: pool_step.induct)
  case (enter p r)
  obtain w where "poCallers (enterPool (chunkOf r) r p) = (poCallers p)(r := Holding w)"
    by (cases rule: enterPool_cases [of p "chunkOf r" r]) simp_all
  then show ?case by (rule once_ok_move [OF enter(5), rotated 3]) (use enter(1) in simp_all)
next
  case (send p r w)
  let ?p = "sendOp (chunkOf r) r w p"
  have new: "r \<notin> set (poSent p c)" for c using once_okD(4) [OF send(6)] send(1) by metis
  have s: "poSent ?p = (poSent p)(chunkOf r := poSent p (chunkOf r) @ [r])" "poCallers ?p = (poCallers p)(r := Waiting w)"
    "poHandled ?p = poHandled p" "poResult ?p = poResult p" by (simp_all add: sendOp_def)
  show ?case
  proof (rule once_okI)
    show "distinct (poSent ?p c)" for c using new once_okD(1) [OF send(6)] by (simp add: s)
    show "chunkOf u = c" if "u \<in> set (poSent ?p c)" for c u
      using that once_okD(2) [OF send(6), of u c] by (auto simp: s split: if_splits)
    show "poCallers ?p u \<noteq> Outside \<and> poCallers ?p u \<noteq> Holding v" if "u \<in> set (poSent ?p c)" for c u v
      using that once_okD(3,4) [OF send(6), of u c] by (auto simp: s split: if_splits)
    show "u \<in> set (poSent ?p (chunkOf u))" if "poCallers ?p u = Waiting v" for u v
      using that once_okD(5) [OF send(6), of u v] by (auto simp: s split: if_splits)
  qed (use once_okD(6) [OF send(6)] in \<open>simp add: s\<close>)
next
  case (cancel_send p r w)
  show ?case by (rule once_ok_move [OF cancel_send(5), where r = r and c = "Leaving w"]) simp_all
next
  case (answer p r w)
  show ?case by (rule once_ok_move [OF answer(6), where r = r and c = "Leaving w"]) simp_all
next
  case (cancel_wait p r w)
  show ?case by (rule once_ok_move [OF cancel_wait(5), where r = r and c = "Leaving w"]) simp_all
next
  case (leave p r w)
  show ?case by (rule once_ok_move [OF leave(5), where r = r and c = Gone]) (simp_all add: leavePool_def releaseChunkWorker_def)
next
  case (take_op p w)
  show ?case by (rule once_okI) (use once_okD [OF take_op(7)] in \<open>simp_all add: takeOp_def\<close>)
next
  case (finish_op p w r)
  let ?c = "cwChunkID (poWorkers p w)" and ?p = "finishOp r w p"
  have "poTable p ?c = Some w" using table_okD(1) [OF finish_op(3)] finish_op(1) by simp
  then have "r \<in> set (poSent p ?c)"
    using order_okD [OF finish_op(5), of ?c] finish_op(2) by (simp add: inflight_def inHand_def)
  then have c: "chunkOf r = ?c" by (rule once_okD(2) [OF finish_op(6)])
  have s: "poSent ?p = poSent p" "poCallers ?p = poCallers p" "poResult ?p = (poResult p)(r := True)"
    "poHandled ?p = (poHandled p)(?c := poHandled p ?c @ [r])" by (simp_all add: finishOp_def)
  show ?case
  proof (rule once_okI)
    show "poResult ?p u \<longleftrightarrow> u \<in> set (poHandled ?p (chunkOf u))" for u
      using once_okD(6) [OF finish_op(6), of u] c by (auto simp: s)
  qed (use once_okD [OF finish_op(6)] in \<open>simp_all add: s\<close>)
next
  case (idle p w)
  show ?case
    by (cases rule: idleTick_cases [OF idle(3,1)], use idle in simp)
       (rule once_okI, use once_okD [OF idle(6)] in simp_all)
qed

section \<open>Reachable pools\<close>

lemma pool_reach_inv:
  "pool_reach q chunkOf p \<Longrightarrow> table_ok p \<and> senders_ok chunkOf p \<and> order_ok p \<and> once_ok chunkOf p"
proof (induction rule: pool_reach.induct)
  case start
  then show ?case
    by (simp add: emptyPool_def noWorker_def table_ok_def senders_ok_def holders_def order_ok_def inflight_def once_ok_def)
next
  case (step p p')
  then show ?case using table_ok_step senders_ok_step order_ok_step once_ok_step by blast
qed

text \<open>(C4) The workers of a chunk are a queue, however callers, cancellations, idle timers and workers
  interleave: the requests sent to a chunk are those already handled, in the order of sending, followed by those
  in hand of its worker; no request is sent or handled twice, and none is lost when a worker ends.\<close>

theorem chunk_requests_in_order:
  assumes "pool_reach q chunkOf p"
  shows "poSent p c = poHandled p c @ inflight p c \<and> distinct (poSent p c)
    \<and> (\<forall>r w. poCallers p r = Waiting w \<longrightarrow> r \<in> set (poSent p (chunkOf r)) \<and> (poResult p r \<longleftrightarrow> r \<in> set (poHandled p (chunkOf r))))"
proof -
  have o: "order_ok p" and e: "once_ok chunkOf p" using pool_reach_inv [OF assms] by simp_all
  show ?thesis by (intro conjI allI impI, rule order_okD [OF o], rule once_okD(1) [OF e], rule once_okD(5) [OF e],
      assumption, rule once_okD(6) [OF e])
qed

text \<open>(C32) No two requests of a chunk are worked on at a time: a chunk has at most one running worker, and
  as long as a caller holds a worker that worker runs and serves the caller's chunk.\<close>

theorem one_worker_per_chunk:
  assumes "pool_reach q chunkOf p" "cwRunning (poWorkers p v)" "cwRunning (poWorkers p w)"
    and "cwChunkID (poWorkers p v) = cwChunkID (poWorkers p w)"
  shows "v = w \<and> poTable p (cwChunkID (poWorkers p w)) = Some w
    \<and> (\<forall>r u. poCallers p r = Holding u \<or> poCallers p r = Waiting u \<longrightarrow>
          cwRunning (poWorkers p u) \<and> cwChunkID (poWorkers p u) = chunkOf r)"
proof (intro conjI allI impI)
  note inv = pool_reach_inv [OF assms(1)]
  have tab: "poTable p (cwChunkID (poWorkers p u)) = Some u" if "cwRunning (poWorkers p u)" for u
    using table_okD(1) [of p] inv that by simp
  show "poTable p (cwChunkID (poWorkers p w)) = Some w" by (rule tab [OF assms(3)])
  have "Some v = poTable p (cwChunkID (poWorkers p w))" using tab [OF assms(2)] unfolding assms(4) by (rule sym)
  also have "\<dots> = Some w" by (rule tab [OF assms(3)])
  finally show "v = w" by (rule option.inject [THEN iffD1])
  fix r u assume "poCallers p r = Holding u \<or> poCallers p r = Waiting u"
  then have "r \<in> holders p u" by (auto simp: holders_def)
  then have "cwRunning (poWorkers p u) \<and> cwChunkID (poWorkers p u) = chunkOf r" using senders_okD(3) [of chunkOf p r u] inv by simp
  then show "cwRunning (poWorkers p u)" "cwChunkID (poWorkers p u) = chunkOf r" by simp_all
qed

section \<open>Progress\<close>

text \<open>What one turn of the worker's loop does: handle the request at work, or take the next one.\<close>

definition workerSpin :: "nat \<Rightarrow> pool \<Rightarrow> pool" where
  "workerSpin w p = (case cwBusy (poWorkers p w) of
     Some r \<Rightarrow> finishOp r w p
   | None \<Rightarrow> if cwOps (poWorkers p w) = [] then p else takeOp w p)"

fun workerSpins :: "nat \<Rightarrow> nat \<Rightarrow> pool \<Rightarrow> pool" where
  "workerSpins 0 w p = p"
| "workerSpins (Suc n) w p = workerSpins n w (workerSpin w p)"

lemma workerSpin_reach:
  assumes "pool_reach q chunkOf p" "cwRunning (poWorkers p w)"
  shows "pool_reach q chunkOf (workerSpin w p)"
  using assms pool_step.take_op [of p w q chunkOf] pool_step.finish_op [of p w]
  by (auto simp: workerSpin_def split: option.split intro: pool_reach.step)

lemma workerSpin_sel:
  "cwRunning (poWorkers (workerSpin w p) v) = cwRunning (poWorkers p v)"
  "cwChunkID (poWorkers (workerSpin w p) v) = cwChunkID (poWorkers p v)"
  "poSent (workerSpin w p) = poSent p" "poTable (workerSpin w p) = poTable p" "poCallers (workerSpin w p) = poCallers p"
  by (simp_all add: workerSpin_def takeOp_def finishOp_def split: option.split)

text \<open>Two turns for each request in the channel, one for the request at work.\<close>

definition spinsLeft :: "chunkWorker \<Rightarrow> nat" where
  "spinsLeft cw = 2 * length (cwOps cw) + (if cwBusy cw = None then 0 else 1)"

lemma workerSpin_progress: "spinsLeft (poWorkers (workerSpin w p) w) = spinsLeft (poWorkers p w) - 1"
  by (cases "cwBusy (poWorkers p w)"; cases "cwOps (poWorkers p w)")
     (simp_all add: workerSpin_def takeOp_def finishOp_def spinsLeft_def)

lemma workerSpins_run:
  assumes "pool_reach q chunkOf p" "cwRunning (poWorkers p w)"
  shows "pool_reach q chunkOf (workerSpins n w p)" "poSent (workerSpins n w p) = poSent p"
    "poTable (workerSpins n w p) = poTable p" "poCallers (workerSpins n w p) = poCallers p"
    "spinsLeft (poWorkers (workerSpins n w p) w) = spinsLeft (poWorkers p w) - n"
  using assms
  by (induction n arbitrary: p) (simp_all add: workerSpin_reach workerSpin_sel workerSpin_progress)

lemma spinsLeft_zero: "spinsLeft cw = 0 \<longleftrightarrow> inHand cw = []"
  by (auto simp: spinsLeft_def inHand_def split: option.splits)

text \<open>(C33) A worker that keeps turning finishes: after at most two turns per request all requests sent
  to its chunk have been handled, and every caller that waits for it finds its result.\<close>

theorem worker_answers_all:
  assumes reach: "pool_reach q chunkOf p" and w: "cwRunning (poWorkers p w)"
    and n: "2 * length (inHand (poWorkers p w)) \<le> n"
  shows "pool_reach q chunkOf (workerSpins n w p)
    \<and> poHandled (workerSpins n w p) (cwChunkID (poWorkers p w)) = poSent p (cwChunkID (poWorkers p w))
    \<and> (\<forall>r. poCallers p r = Waiting w \<longrightarrow> poResult (workerSpins n w p) r)"
proof -
  let ?p = "workerSpins n w p" and ?c = "cwChunkID (poWorkers p w)"
  note run = workerSpins_run [OF reach w, of n]
  have tab: "poTable p ?c = Some w" using table_okD(1) pool_reach_inv [OF reach] w by blast
  have "spinsLeft (poWorkers p w) \<le> 2 * length (inHand (poWorkers p w))"
    by (simp add: spinsLeft_def inHand_def split: option.split)
  then have "inHand (poWorkers ?p w) = []" using run(5) n by (simp flip: spinsLeft_zero)
  then have "inflight ?p ?c = []" using tab run(3) by (simp add: inflight_def)
  then have all: "poHandled ?p ?c = poSent p ?c"
    using order_okD [of ?p ?c] pool_reach_inv [OF run(1)] run(2) by simp
  have "poResult ?p r" if r: "poCallers p r = Waiting w" for r
  proof -
    have c: "chunkOf r = ?c" using senders_okD(3) [of chunkOf p r w] pool_reach_inv [OF reach] holdersI(2) [OF r] by simp
    have "r \<in> set (poSent p ?c)" using once_okD(5) [of chunkOf p r w] pool_reach_inv [OF reach] r c by simp
    then show ?thesis using once_okD(6) [of chunkOf ?p r] pool_reach_inv [OF run(1)] all c by simp
  qed
  then show ?thesis using run(1) all by blast
qed

section \<open>An example\<close>

text \<open>Two requests for one chunk have been sent to its worker.\<close>

definition twoSent :: pool where
  "twoSent = sendOp ''c'' 6 0 (enterPool ''c'' 6 (sendOp ''c'' 5 0 (enterPool ''c'' 5 emptyPool)))"

lemma pool_sels [simp]:
  "poCallers (enterPool ''c'' 5 emptyPool) 5 = Holding 0"
  "poCallers (enterPool ''c'' 6 (sendOp ''c'' 5 0 (enterPool ''c'' 5 emptyPool))) 6 = Holding 0"
  "cwOps (poWorkers (enterPool ''c'' 5 emptyPool) 0) = []"
  "cwOps (poWorkers (enterPool ''c'' 6 (sendOp ''c'' 5 0 (enterPool ''c'' 5 emptyPool))) 0) = [5]"
  by (simp_all add: enterPool_def acquireChunkWorker_def emptyPool_def sendOp_def atCaller_def atWorker_def)

lemma twoSent_reach: "pool_reach 256 (\<lambda>_. ''c'') twoSent"
proof -
  have s1: "pool_reach 256 (\<lambda>_. ''c'') (enterPool ''c'' 5 emptyPool)"
    by (rule pool_reach.step [OF pool_reach.start pool_step.enter]) (simp add: emptyPool_def)
  have s2: "pool_reach 256 (\<lambda>_. ''c'') (sendOp ''c'' 5 0 (enterPool ''c'' 5 emptyPool))"
    by (rule pool_reach.step [OF s1 pool_step.send]) (simp_all add: workerQueueSize_def)
  have s3: "pool_reach 256 (\<lambda>_. ''c'') (enterPool ''c'' 6 (sendOp ''c'' 5 0 (enterPool ''c'' 5 emptyPool)))"
    by (rule pool_reach.step [OF s2 pool_step.enter]) (simp add: sendOp_def enterPool_def acquireChunkWorker_def emptyPool_def)
  show ?thesis unfolding twoSent_def
    by (rule pool_reach.step [OF s3 pool_step.send]) (simp_all add: workerQueueSize_def)
qed

lemma twoSent_sel:
  "cwRunning (poWorkers twoSent 0)" "cwChunkID (poWorkers twoSent 0) = ''c''" "inHand (poWorkers twoSent 0) = [5, 6]"
  "poSent twoSent ''c'' = [5, 6]" "poCallers twoSent 6 = Waiting 0"
  by (simp_all add: twoSent_def enterPool_def acquireChunkWorker_def emptyPool_def sendOp_def atCaller_def atWorker_def inHand_def)

lemma chunk_requests_in_order_witness: "poSent twoSent ''c'' = poHandled twoSent ''c'' @ inflight twoSent ''c'' \<and> distinct (poSent twoSent ''c'')"
  using chunk_requests_in_order [OF twoSent_reach, of "''c''"] by blast

lemma one_worker_per_chunk_witness: "poTable twoSent ''c'' = Some 0"
  using one_worker_per_chunk [OF twoSent_reach twoSent_sel(1) twoSent_sel(1) refl] twoSent_sel(2) by simp

lemma worker_answers_all_witness: "poHandled (workerSpins 4 0 twoSent) ''c'' = [5, 6] \<and> poResult (workerSpins 4 0 twoSent) 6"
  using worker_answers_all [OF twoSent_reach twoSent_sel(1), of 4] by (simp add: twoSent_sel)

end
