(* ===== verification/MineAssign.thy ===== *)
theory MineAssign
  imports MineMatch
begin

text \<open>
  Giving a match a chunk of its own: \<open>AssignChunkForMatch\<close> under every failure of Redis and MySQL.
\<close>

section \<open>Looking for a chunk\<close>

definition clean :: "MineChunkState option \<Rightarrow> bool" where
  "clean v \<longleftrightarrow> (case v of None \<Rightarrow> True | Some st \<Rightarrow> \<not> csClosed st \<and> csOpenedCells st = [] \<and> csFlaggedBy st = [])"

definition sameChunks :: "(int \<times> string \<Rightarrow> MineChunkState option) \<Rightarrow> world \<Rightarrow> bool" where
  "sameChunks C w \<longleftrightarrow> rdChunks w = C"

definition lockedBy :: "(int \<times> string \<Rightarrow> MineChunkState option) \<Rightarrow> int \<times> string \<Rightarrow> int \<Rightarrow> world \<Rightarrow> bool" where
  "lockedBy C k m w \<longleftrightarrow> rdChunks w = C \<and> rdChunkLock w k = Some m"

lemma data_inv_lock [simp]: "data_inv (sameChunks C)" "data_inv (lockedBy C k m)"
  by (simp_all add: data_inv_def sameChunks_def lockedBy_def)

lemma keeps_unlock_same: "keeps (sameChunks C) (UnlockChunk s c m)"
  by (rule keeps_UnlockChunk) (auto simp: sameChunks_def dropLock_def)

lemma gives_isCleanChunk:
  assumes "data_inv I" "\<And>w. I w \<Longrightarrow> rdChunks w = C"
  shows "gives I (isCleanChunk s c) (\<lambda>b. b \<longrightarrow> clean (C (s, c)))"
proof -
  have "gives I (GetState s c) (\<lambda>v. v = C (s, c))" by (rule gives_GetState) (use assms in auto)
  then show ?thesis
    unfolding isCleanChunk_def
    by (rule gives_andThen) (auto simp: clean_def mlen_zero_iff intro!: gives_ret split: option.splits)
qed

lemma triple_tryChunks:
  "triple (sameChunks C) (tryChunks g s m vs)
     (\<lambda>c w. lockedBy C (s, c) m w \<and> clean (C (s, c)) \<and> c \<in> candidateChunk g ` set vs) (\<lambda>_. True)"
proof (induction vs)
  case Nil
  then show ?case by (auto intro: triple_fail)
next
  case (Cons v vs)
  let ?c = "candidateChunk g v" and ?I = "sameChunks C"
  let ?Q = "\<lambda>c w. lockedBy C (s, c) m w \<and> clean (C (s, c)) \<and> c \<in> candidateChunk g ` set (v # vs)"
  have rest: "triple ?I (tryChunks g s m vs) ?Q (\<lambda>_. True)"
    by (rule triple_weaken [OF Cons.IH]) auto
  have any: "triple ?I k (\<lambda>_. ?I) (\<lambda>_. True)" if "keeps ?I k" for k :: "'x io"
    by (rule triple_weaken [OF triple_keeps [OF that]]) auto
  have first: "keeps ?I (isCleanUnlockedChunk s ?c)"
    unfolding isCleanUnlockedChunk_def GetChunkLock_def
    by (auto intro!: keeps_andThen keeps_rd gives_intros gives_keeps [OF gives_isCleanChunk] simp: sameChunks_def)
  have lock: "triple ?I (TryLockChunk s ?c m) (\<lambda>b w. if b then lockedBy C (s, ?c) m w else ?I w) (\<lambda>_. True)"
    unfolding TryLockChunk_def
    by (rule triple_wr) (auto simp: sameChunks_def lockedBy_def takeLock_def data_inv_def)
  have "gives (lockedBy C (s, ?c) m) (isCleanChunk s ?c) (\<lambda>b. b \<longrightarrow> clean (C (s, ?c)))"
    by (rule gives_isCleanChunk [OF data_inv_lock(2)]) (simp add: lockedBy_def)
  then have check: "triple (lockedBy C (s, ?c) m) (onErr (isCleanChunk s ?c) (\<lambda>e.
        andThen (ignoreErr (UnlockChunk s ?c m)) (\<lambda>_. fail e)))
      (\<lambda>b w. (b \<longrightarrow> clean (C (s, ?c))) \<and> lockedBy C (s, ?c) m w) (\<lambda>_. True)"
    by (intro triple_onErr [OF triple_gives]) (simp_all add: triple_def andThen_def ignoreErr_def fail_def)
  have undo: "triple (lockedBy C (s, ?c) m) (andThen (ignoreErr (UnlockChunk s ?c m)) (\<lambda>_. tryChunks g s m vs)) ?Q (\<lambda>_. True)"
  proof (rule triple_andThen [OF _ rest])
    have "triple ?I (ignoreErr (UnlockChunk s ?c m)) (\<lambda>_. ?I) (\<lambda>_. True)"
      by (rule any [OF gives_ignoreErr [OF keeps_unlock_same]])
    then show "triple (lockedBy C (s, ?c) m) (ignoreErr (UnlockChunk s ?c m)) (\<lambda>_. ?I) (\<lambda>_. True)"
      by (rule triple_weaken) (auto simp: lockedBy_def sameChunks_def)
  qed
  have locked: "triple (lockedBy C (s, ?c) m) (andThen (onErr (isCleanChunk s ?c) (\<lambda>e.
        andThen (ignoreErr (UnlockChunk s ?c m)) (\<lambda>_. fail e))) (\<lambda>stillClean.
      if \<not> stillClean
      then andThen (ignoreErr (UnlockChunk s ?c m)) (\<lambda>_. tryChunks g s m vs)
      else ret ?c)) ?Q (\<lambda>_. True)"
    apply (rule triple_andThen [OF check], rule triple_pre)
    subgoal for b using undo by (cases b) (auto intro: triple_ret)
    done
  show ?case
    unfolding tryChunks.simps Let_def
    apply (rule triple_andThen [OF any [OF first]])
    subgoal for isclean
      using rest
      apply (cases isclean)
      subgoal
        apply simp
        apply (rule triple_andThen [OF lock])
        subgoal for b by (cases b) (use rest locked in simp_all)
        done
      subgoal by simp
      done
    done
qed

section \<open>The match's state\<close>

lemma dom_fold_mput: "dom (mget (foldl (\<lambda>m u. mput u (f u) m) m us)) = dom (mget m) \<union> set us"
  by (induction us arbitrary: m) (auto split: if_splits)

lemma addTeam_sel:
  "mmMatchID (addTeam st t) = mmMatchID st" "mmChunkID (addTeam st t) = mmChunkID st" "mmSeasonID (addTeam st t) = mmSeasonID st"
  "mmStatus (addTeam st t) = mmStatus st" "set (mkeys (mmUserTeams (addTeam st t))) = set (mkeys (mmUserTeams st)) \<union> set (mtUserIDs t)"
  by (simp_all add: addTeam_def mkeys_dom dom_fold_mput)

lemma addTeams_sel:
  "mmMatchID (foldl addTeam st ts) = mmMatchID st" "mmChunkID (foldl addTeam st ts) = mmChunkID st"
  "mmSeasonID (foldl addTeam st ts) = mmSeasonID st" "mmStatus (foldl addTeam st ts) = mmStatus st"
  "set (mkeys (mmUserTeams (foldl addTeam st ts))) = set (mkeys (mmUserTeams st)) \<union> (\<Union>t \<in> set ts. set (mtUserIDs t))"
  by (induction ts arbitrary: st) (auto simp: addTeam_sel)

lemma buildMineMatchState_sel:
  "mmMatchID (buildMineMatchState t m r s c ts) = m" "mmChunkID (buildMineMatchState t m r s c ts) = c"
  "mmSeasonID (buildMineMatchState t m r s c ts) = s" "mmStatus (buildMineMatchState t m r s c ts) = MineMatchStatusOngoing"
  "set (mkeys (mmUserTeams (buildMineMatchState t m r s c ts))) = (\<Union>t \<in> set ts. set (mtUserIDs t))"
  by (simp_all add: buildMineMatchState_def addTeams_sel) (simp add: mkeys_def)

section \<open>Assigning\<close>

text \<open>The match \<open>m\<close> owns chunk \<open>c\<close>: the lock is its own, its state says so, and its players are bound to it.\<close>

definition assigned :: "(int \<times> string \<Rightarrow> MineChunkState option) \<Rightarrow> int \<Rightarrow> int \<Rightarrow> string \<Rightarrow> MatchedTeam list \<Rightarrow> world \<Rightarrow> bool" where
  "assigned C m s c teams w \<longleftrightarrow> rdChunks w = C \<and> rdChunkLock w (s, c) = Some m
     \<and> (\<exists>st. rdMineMatches w m = Some st \<and> mmChunkID st = c \<and> mmSeasonID st = s \<and> mmStatus st = MineMatchStatusOngoing)
     \<and> (\<forall>t \<in> set teams. \<forall>u \<in> set (mtUserIDs t). rdUserMatch w u = Some m)"

lemma triple_Assign:
  assumes wi: "wiMatch wi"
  shows "triple (sameChunks C) (AssignChunkForMatch wi perm m roomID teams)
    (\<lambda>c w. \<exists>s. assigned C m s c teams w \<and> clean (C (s, c)) \<and> c \<in> candidateChunk 64 ` set perm) (\<lambda>_. True)"
proof -
  let ?Q = "\<lambda>c w. \<exists>s. assigned C m s c teams w \<and> clean (C (s, c)) \<and> c \<in> candidateChunk 64 ` set perm"
  have any: "triple (sameChunks C) k (\<lambda>_. sameChunks C) (\<lambda>_. True)" if "keeps (sameChunks C) k" for k :: "'x io"
    by (rule triple_weaken [OF triple_keeps [OF that]]) auto
  have season: "keeps (sameChunks C) GetActiveSeason"
    unfolding GetActiveSeason_def by (auto intro!: keeps_andThen keeps_rd keeps_timeNow)
  have err: "triple P (andThen k (\<lambda>_. fail e)) Q (\<lambda>_. True)" for P and k :: "unit io" and e and Q :: "unit \<Rightarrow> world \<Rightarrow> bool"
    by (auto simp: triple_def andThen_def fail_def split: prod.splits sum.splits)
  have bind: "triple (lockedBy C (s, c) m)
      (andThen timeNow (\<lambda>now. let state = buildMineMatchState now m roomID s c teams;
              unlock = (\<lambda>e. andThen (ignoreErr (UnlockChunk s c m)) (\<lambda>_. fail e))
          in andThen (onErr (SaveMatchState state) unlock) (\<lambda>_.
             andThen (onErr (SetActiveMatchForUsers state) unlock) (\<lambda>_. ret c)))) ?Q (\<lambda>_. True)"
    if c: "clean (C (s, c))" "c \<in> candidateChunk 64 ` set perm" for s c
  proof (rule triple_andThen [where R = "\<lambda>_. lockedBy C (s, c) m"])
    show "triple (lockedBy C (s, c) m) timeNow (\<lambda>_. lockedBy C (s, c) m) (\<lambda>_. True)"
      by (rule triple_timeNow) auto
    fix now
    let ?st = "buildMineMatchState now m roomID s c teams"
    let ?S = "\<lambda>w. lockedBy C (s, c) m w \<and> rdMineMatches w m = Some ?st"
    have di: "data_inv ?S" by (simp add: data_inv_def lockedBy_def)
    have save: "triple (lockedBy C (s, c) m) (onErr (SaveMatchState ?st) (\<lambda>e. andThen (ignoreErr (UnlockChunk s c m)) (\<lambda>_. fail e)))
        (\<lambda>_. ?S) (\<lambda>_. True)"
      unfolding SaveMatchState_def
      by (rule triple_onErr [OF triple_wr [where E = "\<lambda>_. True"] err])
         (auto simp: lockedBy_def storeMatch_def buildMineMatchState_sel data_inv_def)
    have users: "triple ?S (SetActiveMatchForUsers ?st) (\<lambda>_. assigned C m s c teams) (\<lambda>_. True)"
    proof (cases "mkeys (mmUserTeams ?st) = []")
      case True
      then have "(\<Union>t \<in> set teams. set (mtUserIDs t)) = {}" using buildMineMatchState_sel(5) [of now m roomID s c teams] by simp
      then show ?thesis using True
        by (auto simp: SetActiveMatchForUsers_def pipeUsers_def assigned_def lockedBy_def buildMineMatchState_sel intro!: triple_ret)
    next
      case False
      have in_keys: "u \<in> set (mkeys (mmUserTeams ?st))" if "t \<in> set teams" "u \<in> set (mtUserIDs t)" for t u
        using that by (auto simp: buildMineMatchState_sel)
      show ?thesis using False
        by (simp add: SetActiveMatchForUsers_def pipeUsers_def)
           (rule triple_wr [OF di], use in_keys in \<open>auto simp: assigned_def lockedBy_def bindUsers_def buildMineMatchState_sel\<close>)
    qed
    show "triple (lockedBy C (s, c) m) (let state = ?st; unlock = (\<lambda>e. andThen (ignoreErr (UnlockChunk s c m)) (\<lambda>_. fail e))
          in andThen (onErr (SaveMatchState state) unlock) (\<lambda>_.
             andThen (onErr (SetActiveMatchForUsers state) unlock) (\<lambda>_. ret c))) ?Q (\<lambda>_. True)"
      unfolding Let_def
      by (rule triple_andThen [OF save], rule triple_andThen [OF triple_onErr [OF users err]], rule triple_ret) (use c in blast)
  qed
  have one: "triple (sameChunks C) (andThen (findAndLockCleanChunk perm s m) (\<lambda>c.
      andThen timeNow (\<lambda>now. let state = buildMineMatchState now m roomID s c teams;
              unlock = (\<lambda>e. andThen (ignoreErr (UnlockChunk s c m)) (\<lambda>_. fail e))
          in andThen (onErr (SaveMatchState state) unlock) (\<lambda>_.
             andThen (onErr (SetActiveMatchForUsers state) unlock) (\<lambda>_. ret c))))) ?Q (\<lambda>_. True)" for s
    unfolding findAndLockCleanChunk_def ChunkGridSize_max liftE_simps andThen_ret
  proof (rule triple_andThen [OF triple_tryChunks])
    fix c
    let ?k = "andThen timeNow (\<lambda>now. let state = buildMineMatchState now m roomID s c teams;
              unlock = (\<lambda>e. andThen (ignoreErr (UnlockChunk s c m)) (\<lambda>_. fail e))
          in andThen (onErr (SaveMatchState state) unlock) (\<lambda>_.
             andThen (onErr (SetActiveMatchForUsers state) unlock) (\<lambda>_. ret c)))"
    have "triple (\<lambda>w. (clean (C (s, c)) \<and> c \<in> candidateChunk 64 ` set perm) \<and> lockedBy C (s, c) m w) ?k ?Q (\<lambda>_. True)"
      by (rule triple_pre) (use bind in blast)
    then show "triple (\<lambda>w. lockedBy C (s, c) m w \<and> clean (C (s, c)) \<and> c \<in> candidateChunk 64 ` set perm) ?k ?Q (\<lambda>_. True)"
      by (rule triple_weaken) auto
  qed
  have "triple (sameChunks C) (andThen GetActiveSeason (\<lambda>season. case season of None \<Rightarrow> fail ErrNoActiveSeason
      | Some s \<Rightarrow> andThen (findAndLockCleanChunk perm (seID s) m) (\<lambda>c.
          andThen timeNow (\<lambda>now. let state = buildMineMatchState now m roomID (seID s) c teams;
              unlock = (\<lambda>e. andThen (ignoreErr (UnlockChunk (seID s) c m)) (\<lambda>_. fail e))
          in andThen (onErr (SaveMatchState state) unlock) (\<lambda>_.
             andThen (onErr (SetActiveMatchForUsers state) unlock) (\<lambda>_. ret c)))))) ?Q (\<lambda>_. True)"
    apply (rule triple_andThen [OF any [OF season]])
    subgoal for v by (cases v) (use one in \<open>simp_all add: triple_fail\<close>)
    done
  then show ?thesis using wi by (simp add: AssignChunkForMatch_def)
qed

section \<open>The locks of other matches\<close>

definition heldBy :: "int \<times> string \<Rightarrow> int \<Rightarrow> world \<Rightarrow> bool" where
  "heldBy k m w \<longleftrightarrow> rdChunkLock w k = Some m"

lemma data_inv_heldBy [simp]: "data_inv (heldBy k m)"
  by (simp add: data_inv_def heldBy_def)

lemma held_Try: "keeps (heldBy k m') (TryLockChunk s c m)"
  unfolding TryLockChunk_def by (rule keeps_wr) (auto simp: heldBy_def takeLock_def)

lemma held_Unlock: "m' \<noteq> m \<Longrightarrow> keeps (heldBy k m') (UnlockChunk s c m)"
  by (rule keeps_UnlockChunk) (auto simp: heldBy_def dropLock_def)

lemma held_isClean: "keeps (heldBy k m') (isCleanChunk s c)" "keeps (heldBy k m') (isCleanUnlockedChunk s c)"
  unfolding isCleanUnlockedChunk_def isCleanChunk_def GetState_def GetChunkLock_def
  by (auto intro!: keeps_andThen keeps_rd gives_intros)

lemma held_tryChunks: "m' \<noteq> m \<Longrightarrow> keeps (heldBy k m') (tryChunks g s m vs)"
  by (induction vs) (auto simp: Let_def intro!: keeps_andThen gives_onErr gives_ignoreErr gives_intros held_Try held_Unlock held_isClean)

lemma held_Assign:
  assumes "m' \<noteq> m" shows "keeps (heldBy k m') (AssignChunkForMatch wi perm m r teams)"
  unfolding AssignChunkForMatch_def findAndLockCleanChunk_def GetActiveSeason_def SaveMatchState_def SetActiveMatchForUsers_def Let_def
  by (auto intro!: keeps_andThen gives_onErr gives_ignoreErr gives_intros keeps_rd keeps_timeNow keeps_wr keeps_pipeUsers
      held_tryChunks [OF assms] held_Unlock [OF assms] simp: heldBy_def storeMatch_def bindUsers_def)

text \<open>(C15) Assigning a chunk never takes away or releases a chunk another match holds, whatever fails. When
  it reports a chunk, that chunk is untouched (not closed, no cell open, no flag), one of the candidates
  of the deepest level, locked by this match and no other, and the match's stored state and all its players
  point to it.\<close>

theorem AssignChunkForMatch_exclusive:
  assumes "wiMatch wi" "AssignChunkForMatch wi perm m roomID teams w = (r, w')"
  shows "(\<forall>k m'. rdChunkLock w k = Some m' \<and> m' \<noteq> m \<longrightarrow> rdChunkLock w' k = Some m')
    \<and> (\<forall>c. r = Inr c \<longrightarrow> (\<exists>s. rdChunkLock w' (s, c) = Some m \<and> clean (rdChunks w' (s, c)) \<and> rdChunks w' = rdChunks w
        \<and> c \<in> candidateChunk 64 ` set perm
        \<and> (\<exists>st. rdMineMatches w' m = Some st \<and> mmChunkID st = c \<and> mmSeasonID st = s \<and> mmStatus st = MineMatchStatusOngoing)
        \<and> (\<forall>t \<in> set teams. \<forall>u \<in> set (mtUserIDs t). rdUserMatch w' u = Some m)))"
proof (intro conjI allI impI)
  fix k m' assume "rdChunkLock w k = Some m' \<and> m' \<noteq> m"
  then show "rdChunkLock w' k = Some m'"
    using givesD [OF held_Assign [of m' m k], of w wi perm roomID teams] assms(2) by (simp add: heldBy_def)
next
  fix c assume "r = Inr c"
  then have "\<exists>s. assigned (rdChunks w) m s c teams w' \<and> clean (rdChunks w (s, c)) \<and> c \<in> candidateChunk 64 ` set perm"
    using triple_Assign [OF assms(1), of "rdChunks w" perm m roomID teams] assms(2)
    unfolding triple_def sameChunks_def by force
  then show "\<exists>s. rdChunkLock w' (s, c) = Some m \<and> clean (rdChunks w' (s, c)) \<and> rdChunks w' = rdChunks w
        \<and> c \<in> candidateChunk 64 ` set perm
        \<and> (\<exists>st. rdMineMatches w' m = Some st \<and> mmChunkID st = c \<and> mmSeasonID st = s \<and> mmStatus st = MineMatchStatusOngoing)
        \<and> (\<forall>t \<in> set teams. \<forall>u \<in> set (mtUserIDs t). rdUserMatch w' u = Some m)"
    unfolding assigned_def by (elim exE conjE) (intro exI conjI, auto)
qed

text \<open>Season 2 runs, match 3 holds a chunk; match 5 looks for one of its own.\<close>

definition lockedOnce :: world where
  "lockedOnce = emptyWorld\<lparr>clock := [10], dbSeasons := [\<lparr>seID = 2, seCode = ''s'', seSeed = ''seed'', seMineRate = 1/8, seAlgorithmVersion = 1,
     seStatus = MineSeasonStatusActive, seStartedAt = 1, seEndedAt = None\<rparr>], rdChunkLock := [(2, ''cn:6:0:1'') \<mapsto> 3]\<rparr>"

lemma assign_run: "fst (AssignChunkForMatch fullWiring [64, 65] 5 ''r'' [mkTeam 0 [7], mkTeam 1 [9]] lockedOnce) = Inr ''cn:6:1:1''"
  by code_simp

lemma AssignChunkForMatch_exclusive_witness:
  "case AssignChunkForMatch fullWiring [64, 65] 5 ''r'' [mkTeam 0 [7], mkTeam 1 [9]] lockedOnce of (r, w') \<Rightarrow>
     rdChunkLock w' (2, ''cn:6:0:1'') = Some 3
     \<and> (\<exists>s. rdChunkLock w' (s, ''cn:6:1:1'') = Some 5 \<and> clean (rdChunks w' (s, ''cn:6:1:1'')) \<and> rdUserMatch w' 9 = Some 5)"
proof -
  obtain r w' where run: "AssignChunkForMatch fullWiring [64, 65] 5 ''r'' [mkTeam 0 [7], mkTeam 1 [9]] lockedOnce = (r, w')"
    by (cases "AssignChunkForMatch fullWiring [64, 65] 5 ''r'' [mkTeam 0 [7], mkTeam 1 [9]] lockedOnce")
  then have r: "r = Inr ''cn:6:1:1''" using assign_run by simp
  have wi: "wiMatch fullWiring" by (simp add: fullWiring_def)
  have before: "rdChunkLock lockedOnce (2, ''cn:6:0:1'') = Some 3" by (simp add: lockedOnce_def)
  show ?thesis
    using AssignChunkForMatch_exclusive [OF wi run] r before run by (auto simp: mkTeam_def)
qed

end
