(* ===== verification/ChunkTree.thy ===== *)
theory ChunkTree
  imports ChunkViews
begin

text \<open>
  The closed leaves below a chunk, as the zoomed-out map shows them: every chunk above the deepest
  level has the closed leaves of its four children, and never more than it has leaves.
\<close>

definition leafScale :: "ChunkID \<Rightarrow> int" where
  "leafScale c = 2 ^ nat (ChunkMaxLevel - cZ c)"

lemma leafScale_pos: "0 < leafScale c"
  by (simp add: leafScale_def)

lemma between_div: "0 < (s::int) \<Longrightarrow> X * s \<le> x \<and> x < (X + 1) * s \<longleftrightarrow> x div s = X"
proof
  assume s: "0 < s" and x: "X * s \<le> x \<and> x < (X + 1) * s"
  then show "x div s = X" by (intro int_div_pos_eq [where r = "x - X * s"]) (auto simp: algebra_simps)
next
  assume s: "0 < s" and x: "x div s = X"
  have "x = X * s + x mod s" using x by (metis div_mult_mod_eq)
  then show "X * s \<le> x \<and> x < (X + 1) * s"
    using pos_mod_sign [OF s, of x] pos_mod_bound [OF s, of x] by (simp add: distrib_right)
qed

lemma leafRange_grid:
  assumes "in_grid c"
  shows "leafRangeForChunk c = (cX c * leafScale c, cY c * leafScale c, (cX c + 1) * leafScale c, (cY c + 1) * leafScale c)"
proof -
  obtain g where g: "ChunkGridSize (cZ c) = Inr g" "0 \<le> cX c" "cX c < g" "0 \<le> cY c" "cY c < g"
    using assms by (auto simp: in_grid_def)
  then have z: "0 \<le> cZ c" "cZ c \<le> 6" and gz: "g = 2 ^ nat (cZ c)" by (auto simp: ChunkGridSize_Inr)
  have "nat (cZ c) + nat (ChunkMaxLevel - cZ c) = 6" using z by (simp add: chunk_consts)
  then have "g * leafScale c = 2 ^ 6" unfolding gz leafScale_def by (simp flip: power_add)
  then have gs: "g * leafScale c = 64" by simp
  have bound: "0 \<le> v * leafScale c \<and> v * leafScale c \<le> 64" if "0 \<le> v" "v \<le> g" for v
    using mult_right_mono [OF that(2), of "leafScale c"] leafScale_pos [of c] that(1) gs by simp
  have g64: "g \<le> 64" using grid_pos [OF g(1)] by simp
  have w: "wrap64 (v * leafScale c) = v * leafScale c" "wrap64 v = v" if "0 \<le> v" "v \<le> g" for v
    using bound [OF that] that g64 by (auto intro!: wrap64_id in64_small)
  show ?thesis using w [of "cX c"] w [of "cX c + 1"] w [of "cY c"] w [of "cY c + 1"] g
    by (simp add: leafRangeForChunk_def Let_def leafScale_def)
qed

lemma leafInRange_grid:
  assumes "in_grid c"
  shows "leafInRange c raw \<longleftrightarrow> (\<exists>l. ParseChunkID raw = Inr l \<and> cRegion l = cRegion c \<and> cZ l = ChunkMaxLevel
     \<and> cX l div leafScale c = cX c \<and> cY l div leafScale c = cY c)"
  using between_div [OF leafScale_pos [of c]]
  by (auto simp: leafInRange_def leafRange_grid [OF assms] split: sum.split)

definition child :: "ChunkID \<Rightarrow> int \<Rightarrow> int \<Rightarrow> ChunkID" where
  "child c dx dy = mkChunkID (cRegion c) (cZ c + 1) (2 * cX c + dx) (2 * cY c + dy)"

lemma child_in_grid:
  assumes "in_grid c" "cZ c < ChunkMaxLevel" "dx \<in> {0, 1}" "dy \<in> {0, 1}"
  shows "in_grid (child c dx dy)"
proof -
  have "nat (cZ c + 1) = Suc (nat (cZ c))" using assms(1) by (auto simp: in_grid_def ChunkGridSize_Inr)
  then show ?thesis using assms by (auto simp: in_grid_def ChunkGridSize_Inr child_def chunk_consts)
qed

lemma leafScale_child:
  assumes "in_grid c" "cZ c < ChunkMaxLevel"
  shows "leafScale c = 2 * leafScale (child c dx dy)"
proof -
  have "nat (ChunkMaxLevel - cZ c) = Suc (nat (ChunkMaxLevel - (cZ c + 1)))" using assms(2) by simp
  then show ?thesis by (simp add: leafScale_def child_def)
qed

lemma div_half: "0 < (s::int) \<Longrightarrow> x div (2 * s) = X \<longleftrightarrow> x div s = 2 * X \<or> x div s = 2 * X + 1"
proof -
  assume "0 < s"
  then have half: "x div (2 * s) = (x div s) div 2" by (simp add: zdiv_zmult2_eq mult.commute)
  have "y div 2 = X \<longleftrightarrow> y = 2 * X \<or> y = 2 * X + 1" for y :: int by presburger
  then show ?thesis unfolding half .
qed

lemma quad_indicator:
  "(if R \<and> (a = 2 * X \<or> a = 2 * X + 1) \<and> (b = 2 * Y \<or> b = 2 * Y + 1) then 1 else 0 :: int) =
     (if R \<and> a = 2 * X + 0 \<and> b = 2 * Y + 0 then 1 else 0) + (if R \<and> a = 2 * X + 1 \<and> b = 2 * Y + 0 then 1 else 0)
     + (if R \<and> a = 2 * X + 0 \<and> b = 2 * Y + 1 then 1 else 0) + (if R \<and> a = 2 * X + 1 \<and> b = 2 * Y + 1 then 1 else 0)"
  for a b X Y :: int
  by auto

text \<open>A leaf is below a chunk exactly when it is below one of the four children, and then below one only.\<close>

lemma leafInRange_children:
  assumes c: "in_grid c" "cZ c < ChunkMaxLevel"
  defines "below \<equiv> \<lambda>dx dy raw. leafInRange (child c dx dy) raw"
  shows "(if leafInRange c raw then 1 else 0 :: int) =
    (if below 0 0 raw then 1 else 0) + (if below 1 0 raw then 1 else 0) + (if below 0 1 raw then 1 else 0) + (if below 1 1 raw then 1 else 0)"
proof -
  let ?s = "leafScale (child c 0 0)"
  have s: "leafScale (child c dx dy) = ?s" for dx dy using leafScale_child [OF c, of dx dy] leafScale_child [OF c, of 0 0] by simp
  have pos: "0 < ?s" by (rule leafScale_pos)
  have ch: "below dx dy raw \<longleftrightarrow> (\<exists>l. ParseChunkID raw = Inr l \<and> cRegion l = cRegion c \<and> cZ l = ChunkMaxLevel
     \<and> cX l div ?s = 2 * cX c + dx \<and> cY l div ?s = 2 * cY c + dy)" if "dx \<in> {0, 1}" "dy \<in> {0, 1}" for dx dy
    unfolding below_def leafInRange_grid [OF child_in_grid [OF c that]] s [of dx dy] by (simp add: child_def)
  have p: "leafInRange c raw \<longleftrightarrow> (\<exists>l. ParseChunkID raw = Inr l \<and> cRegion l = cRegion c \<and> cZ l = ChunkMaxLevel
     \<and> (cX l div ?s = 2 * cX c \<or> cX l div ?s = 2 * cX c + 1) \<and> (cY l div ?s = 2 * cY c \<or> cY l div ?s = 2 * cY c + 1))"
    using leafInRange_grid [OF c(1)] by (simp add: leafScale_child [OF c, of 0 0] div_half [OF pos])
  show ?thesis
  proof (cases "ParseChunkID raw")
    case (Inl e)
    then show ?thesis by (simp add: p ch)
  next
    case (Inr l)
    let ?R = "cRegion l = cRegion c \<and> cZ l = ChunkMaxLevel"
    have "below dx dy raw \<longleftrightarrow> ?R \<and> cX l div ?s = 2 * cX c + dx \<and> cY l div ?s = 2 * cY c + dy"
      if "dx \<in> {0, 1}" "dy \<in> {0, 1}" for dx dy using ch [OF that] Inr by simp
    moreover have "leafInRange c raw \<longleftrightarrow> ?R \<and> (cX l div ?s = 2 * cX c \<or> cX l div ?s = 2 * cX c + 1)
        \<and> (cY l div ?s = 2 * cY c \<or> cY l div ?s = 2 * cY c + 1)" using p Inr by simp
    ultimately show ?thesis by (simp only: quad_indicator insertI1 insertI2)
  qed
qed

lemma count_sum: "countClosedLeaves c ids = (\<Sum>raw \<leftarrow> ids. if leafInRange c raw then 1 else 0)"
  by (induction ids) (simp_all add: countClosedLeaves_def)

lemma totalLeafCount_scale: "totalLeafCountForLevel (cZ c) = leafScale c * leafScale c"
  by (simp add: totalLeafCountForLevel_def leafScale_def Let_def)

definition leafPlace :: "string \<Rightarrow> int \<times> int" where
  "leafPlace raw = (case ParseChunkID raw of Inl e \<Rightarrow> (0, 0) | Inr l \<Rightarrow> (cX l, cY l))"

lemma count_le_total:
  assumes c: "in_grid c" and ids: "distinct ids" "\<forall>raw \<in> set ids. \<exists>l. chunkID_ok l \<and> raw = chunkString l"
  shows "countClosedLeaves c ids \<le> totalLeafCountForLevel (cZ c)"
proof -
  let ?B = "filter (leafInRange c) ids" and ?s = "leafScale c"
  let ?R = "{cX c * ?s..<(cX c + 1) * ?s} \<times> {cY c * ?s..<(cY c + 1) * ?s}"
  have pos: "0 < ?s" by (rule leafScale_pos)
  have place: "leafPlace raw = (cX l, cY l) \<and> cRegion l = cRegion c \<and> cZ l = ChunkMaxLevel \<and> leafPlace raw \<in> ?R"
    if "raw \<in> set ?B" "chunkID_ok l" "raw = chunkString l" for raw l
    using that between_div [OF pos] by (auto simp: leafInRange_grid [OF c] leafPlace_def ParseChunkID_chunkString)
  have inj: "inj_on leafPlace (set ?B)"
  proof (rule inj_onI)
    fix a b assume a: "a \<in> set ?B" and b: "b \<in> set ?B" and eq: "leafPlace a = leafPlace b"
    obtain la where la: "chunkID_ok la" "a = chunkString la" using a ids(2) by auto
    obtain lb where lb: "chunkID_ok lb" "b = chunkString lb" using b ids(2) by auto
    note l = la lb
    have "la = lb" using place [OF a l(1,2)] place [OF b l(3,4)] eq by simp
    then show "a = b" using l by simp
  qed
  have sub: "leafPlace ` set ?B \<subseteq> ?R"
  proof (rule image_subsetI)
    fix raw assume raw: "raw \<in> set ?B"
    then obtain l where "chunkID_ok l" "raw = chunkString l" using ids(2) by auto
    then show "leafPlace raw \<in> ?R" using place [OF raw] by blast
  qed
  have "card (set ?B) \<le> card ?R" by (rule card_inj_on_le [OF inj sub]) simp
  moreover have "card ?R = nat ?s * nat ?s" by (simp add: card_cartesian_product distrib_right)
  moreover have "card (set ?B) = length ?B" by (rule distinct_card [OF distinct_filter [OF ids(1)]])
  ultimately have "length ?B \<le> nat ?s * nat ?s" by simp
  then have "int (length ?B) \<le> int (nat ?s * nat ?s)" by (simp only: of_nat_le_iff)
  then show ?thesis using pos by (simp add: countClosedLeaves_def totalLeafCount_scale)
qed

text \<open>The number of closed leaves a zoomed-out chunk reports is the sum of what its four children
  report, and at most the number of its leaves, for any set of stored leaf ids.\<close>

theorem countClosedLeaves_quadtree:
  assumes c: "in_grid c" "cZ c < ChunkMaxLevel"
    and ids: "distinct ids" "\<forall>raw \<in> set ids. \<exists>l. chunkID_ok l \<and> raw = chunkString l"
  shows "countClosedLeaves c ids = countClosedLeaves (child c 0 0) ids + countClosedLeaves (child c 1 0) ids
      + countClosedLeaves (child c 0 1) ids + countClosedLeaves (child c 1 1) ids
    \<and> countClosedLeaves c ids \<le> totalLeafCountForLevel (cZ c)
    \<and> totalLeafCountForLevel (cZ c) = 4 * totalLeafCountForLevel (cZ c + 1)"
proof (intro conjI)
  show "countClosedLeaves c ids = countClosedLeaves (child c 0 0) ids + countClosedLeaves (child c 1 0) ids
      + countClosedLeaves (child c 0 1) ids + countClosedLeaves (child c 1 1) ids"
    unfolding count_sum by (induction ids) (simp_all add: leafInRange_children [OF c])
  show "countClosedLeaves c ids \<le> totalLeafCountForLevel (cZ c)" by (rule count_le_total [OF c(1) ids])
  have z: "cZ (child c 0 0) = cZ c + 1" by (simp add: child_def)
  show "totalLeafCountForLevel (cZ c) = 4 * totalLeafCountForLevel (cZ c + 1)"
    using totalLeafCount_scale [of "child c 0 0", unfolded z]
    by (simp add: totalLeafCount_scale leafScale_child [OF c, of 0 0])
qed

lemma countClosedLeaves_quadtree_witness:
  "countClosedLeaves (mkChunkID ''cn'' 5 1 1) [''cn:6:2:3''] = countClosedLeaves (child (mkChunkID ''cn'' 5 1 1) 0 1) [''cn:6:2:3'']
     + countClosedLeaves (child (mkChunkID ''cn'' 5 1 1) 0 0) [''cn:6:2:3''] + countClosedLeaves (child (mkChunkID ''cn'' 5 1 1) 1 0) [''cn:6:2:3'']
     + countClosedLeaves (child (mkChunkID ''cn'' 5 1 1) 1 1) [''cn:6:2:3'']"
proof -
  have grid: "in_grid (mkChunkID ''cn'' 5 1 1)" and level: "cZ (mkChunkID ''cn'' 5 1 1) < ChunkMaxLevel"
    by (simp_all add: in_grid_def ChunkGridSize_def chunk_consts)
  have "chunkID_ok (mkChunkID ''cn'' 6 2 3) \<and> ''cn:6:2:3'' = chunkString (mkChunkID ''cn'' 6 2 3)" by code_simp
  then have ids: "\<forall>raw \<in> set [''cn:6:2:3'']. \<exists>l. chunkID_ok l \<and> raw = chunkString l"
    by (intro ballI exI [of _ "mkChunkID ''cn'' 6 2 3"]) simp
  have "distinct [''cn:6:2:3'']" by simp
  from countClosedLeaves_quadtree [OF grid level this ids] show ?thesis by linarith
qed

end
