(* ===== verification/Accounts.thy ===== *)
theory Accounts
  imports World
begin

text \<open>
  Accounts: \<^verbatim>\<open>internal/service/user_service.go\<close> over \<^verbatim>\<open>internal/repository/user_repository.go\<close>,
  \<^verbatim>\<open>internal/auth\<close> and the token check of \<^verbatim>\<open>internal/middleware/auth_middleware.go\<close>.

  bcrypt, the JWT library and the collation of the column \<^verbatim>\<open>user_name\<close> are not part of the program:
  they are the fields of the record \<open>deps\<close>. \<open>bcrypt_ok\<close>, \<open>jwt_ok\<close> and \<open>coll_ok\<close> state what their documentation
  promises, where a theorem needs it. bcrypt draws a fresh salt, so what it generates is
  an argument of each registration.
\<close>

section \<open>Libraries\<close>

record UserClaims =
  ucUserID :: int
  ucUserName :: string
  ucSubject :: string
  ucIssuedAt :: int
  ucExpiresAt :: int

text \<open>
  \<open>dpCompare h p\<close>: \<^verbatim>\<open>CompareHashAndPassword\<close> returns nil. \<open>dpSign secret cl\<close>: the HS256 token of the claims.
  \<open>dpParse key now tok\<close>: \<^verbatim>\<open>ParseWithClaims\<close> at the time \<open>now\<close>; it asks \<open>key\<close> for the key, telling it
  whether the token says it was signed with HMAC, and returns the claims and whether they are valid.
  \<open>dpSame\<close>: the comparison of user names in MySQL.
\<close>

record deps =
  dpCompare :: "string \<Rightarrow> string \<Rightarrow> bool"
  dpSign :: "string \<Rightarrow> UserClaims \<Rightarrow> err + string"
  dpParse :: "(bool \<Rightarrow> err + string) \<Rightarrow> int \<Rightarrow> string \<Rightarrow> err + UserClaims \<times> bool"
  dpSame :: "string \<Rightarrow> string \<Rightarrow> bool"

record JWTManager =
  jmSecret :: string
  jmExpire :: int

section \<open>Repository\<close>

fun findUser :: "(User \<Rightarrow> bool) \<Rightarrow> User list \<Rightarrow> User option" where
  "findUser P [] = None"
| "findUser P (u # us) = (if P u \<and> usStatus u \<noteq> UserStatusDeleted then Some u else findUser P us)"

definition FindByUserName :: "deps \<Rightarrow> string \<Rightarrow> User option io" where
  "FindByUserName dp name = rd (\<lambda>w. findUser (\<lambda>u. dpSame dp (usUserName u) name) (dbUsers w))"

definition GetUserByID :: "int \<Rightarrow> User option io" where
  "GetUserByID userID = rd (\<lambda>w. findUser (\<lambda>u. usID u = userID) (dbUsers w))"

text \<open>The table has a unique key on the name, deleted accounts included.\<close>

definition nameTaken :: "deps \<Rightarrow> string \<Rightarrow> world \<Rightarrow> bool" where
  "nameTaken dp name w \<longleftrightarrow> (\<exists>u \<in> set (dbUsers w). dpSame dp (usUserName u) name)"

definition insertUser :: "deps \<Rightarrow> User \<Rightarrow> world \<Rightarrow> world" where
  "insertUser dp u w = (if nameTaken dp (usUserName u) w then w\<lparr>dbNextUserID := dbNextUserID w + 1\<rparr>
     else w\<lparr>dbUsers := dbUsers w @ [u\<lparr>usID := dbNextUserID w\<rparr>], dbNextUserID := dbNextUserID w + 1\<rparr>)"

definition CreateUser :: "deps \<Rightarrow> User \<Rightarrow> int io" where
  "CreateUser dp u =
     andThen (wr (\<lambda>w. if nameTaken dp (usUserName u) w then Inl DupKeyErr else Inr (dbNextUserID w)) (insertUser dp u)) liftE"

section \<open>Passwords and tokens\<close>

definition CheckPassword :: "deps \<Rightarrow> string \<Rightarrow> string \<Rightarrow> bool" where
  "CheckPassword dp password passwordHash = dpCompare dp passwordHash password"

text \<open>\<^verbatim>\<open>expireDuration\<close> is a whole number of seconds.\<close>

definition claimsFor :: "JWTManager \<Rightarrow> User \<Rightarrow> int \<Rightarrow> UserClaims" where
  "claimsFor jm u now = \<lparr>ucUserID = usID u, ucUserName = usUserName u, ucSubject = itoa (usID u),
     ucIssuedAt = now, ucExpiresAt = now + jmExpire jm\<rparr>"

definition GenerateToken :: "deps \<Rightarrow> JWTManager \<Rightarrow> User \<Rightarrow> (string \<times> int) io" where
  "GenerateToken dp jm u =
     andThen timeNow (\<lambda>now.
     andThen (liftE (dpSign dp (jmSecret jm) (claimsFor jm u now))) (\<lambda>tok.
     ret (tok, jmExpire jm div 1000000000)))"

definition keyFor :: "JWTManager \<Rightarrow> bool \<Rightarrow> err + string" where
  "keyFor jm isHMAC = (if isHMAC then Inr (jmSecret jm) else Inl (Errorf ''unsupported signing method''))"

definition ParseToken :: "deps \<Rightarrow> JWTManager \<Rightarrow> string \<Rightarrow> UserClaims io" where
  "ParseToken dp jm tok =
     andThen timeNow (\<lambda>now.
     andThen (liftE (dpParse dp (keyFor jm) now tok)) (\<lambda>(claims, valid).
     if \<not> valid then fail (Errorf ''invalid token'') else ret claims))"

section \<open>Service\<close>

text \<open>\<open>generated\<close> is what \<^verbatim>\<open>bcrypt.GenerateFromPassword\<close> returns for the password.\<close>

definition RegisterUser :: "deps \<Rightarrow> err + string \<Rightarrow> string \<Rightarrow> string \<Rightarrow> User io" where
  "RegisterUser dp generated name nickname =
     andThen (FindByUserName dp name) (\<lambda>exist.
     if exist \<noteq> None then fail (Errorf ''user name already exists'')
     else
       andThen (liftE generated) (\<lambda>passwordHash.
       andThen timeNow (\<lambda>_. andThen timeNow (\<lambda>_.
       let user = \<lparr>usID = 0, usUserName = name, usNickname = nickname, usPasswordHash = passwordHash, usStatus = UserStatusNormal\<rparr> in
       andThen (CreateUser dp user) (\<lambda>i.
       if i = 0 then fail (Errorf ''registration failed'') else ret (user\<lparr>usID := i\<rparr>))))))"

definition badCredentials :: err where
  "badCredentials = Errorf ''wrong user name or password''"

definition LoginUser :: "deps \<Rightarrow> JWTManager \<Rightarrow> string \<Rightarrow> string \<Rightarrow> UserLoginResponse io" where
  "LoginUser dp jm name password =
     andThen (FindByUserName dp name) (\<lambda>exist. case exist of
       None \<Rightarrow> fail badCredentials
     | Some u \<Rightarrow>
         if \<not> CheckPassword dp password (usPasswordHash u) then fail badCredentials
         else if usStatus u = UserStatusBanned then fail (Errorf ''account banned'')
         else andThen (GenerateToken dp jm u) (\<lambda>(tok, expiresIn).
           ret \<lparr>ulToken = tok, ulExpiresIn = expiresIn, ulUserID = usID u, ulUserName = usUserName u, ulNickname = usNickname u\<rparr>))"

definition GetMe :: "int \<Rightarrow> UserDetailResponse io" where
  "GetMe userID =
     andThen (GetUserByID userID) (\<lambda>found. case found of
       None \<Rightarrow> fail (Errorf ''user not found'')
     | Some u \<Rightarrow> ret \<lparr>udUserName = usUserName u, udNickname = usNickname u\<rparr>)"

section \<open>The token of a request\<close>

text \<open>\<open>hdCookie\<close> is what \<^verbatim>\<open>c.Cookie\<close> finds.\<close>

record credentials =
  hdAuthorization :: string
  hdQueryToken :: string
  hdCookie :: "string option"

definition bearerPrefix :: string where
  "bearerPrefix = ''Bearer ''"

definition extractToken :: "credentials \<Rightarrow> string" where
  "extractToken cr =
     (if take (length bearerPrefix) (hdAuthorization cr) = bearerPrefix
      then trimSpace (drop (length bearerPrefix) (hdAuthorization cr))
      else let token = trimSpace (hdQueryToken cr) in
        if token \<noteq> '''' then token
        else (case hdCookie cr of None \<Rightarrow> '''' | Some token \<Rightarrow> token))"

text \<open>\<^verbatim>\<open>AuthMiddleware\<close>: the user a request comes from, or why it is turned away.\<close>

definition authenticate :: "deps \<Rightarrow> JWTManager \<Rightarrow> credentials \<Rightarrow> (int \<times> string) io" where
  "authenticate dp jm cr =
     (if extractToken cr = '''' then fail (Errorf ''not logged in'')
      else andThen (onErr (ParseToken dp jm (extractToken cr)) (\<lambda>_. fail (Errorf ''token invalid or expired''))) (\<lambda>claims.
        ret (ucUserID claims, ucUserName claims)))"

end
