(* ===== verification/RankService.thy ===== *)
theory RankService
  imports MatchService "HOL-Library.Product_Lexorder" "HOL-Library.List_Lexorder" "HOL-Library.Char_ord"
begin

text \<open>
  Ranking: \<^verbatim>\<open>internal/service/rank_service.go\<close> over \<^verbatim>\<open>internal/repository/rank_repository.go\<close>
  and \<^verbatim>\<open>internal/repository/leaderboard_repository.go\<close>, and the loop of
  \<^verbatim>\<open>cmd/worker/main.go\<close> that feeds it the finished matches.

  A transaction is the list of statements it has executed; they reach the tables when it
  commits. \<open>gl_rank_event\<close> has unique keys on the event and on the match, \<open>gl_player_rank\<close> one
  on mode and user. A leaderboard is a Redis sorted set, modelled as a map from members to scores;
  scores are small enough to be exact as 64-bit floats. The 32-bit range of the score column is
  not modelled.
\<close>

section \<open>Repositories\<close>

record RankUpsert =
  ruMode :: string
  ruUserID :: int
  ruScoreDelta :: int
  ruWinCount :: int
  ruLoseCount :: int

record RankTx =
  rxEvents :: "RankEvent list"
  rxUpserts :: "RankUpsert list"

definition BeginRankTx :: "RankTx io" where
  "BeginRankTx = rd (\<lambda>_. \<lparr>rxEvents = [], rxUpserts = []\<rparr>)"

text \<open>\<^verbatim>\<open>INSERT ... ON DUPLICATE KEY UPDATE\<close>\<close>

fun upsertRank :: "PlayerRank list \<Rightarrow> RankUpsert \<Rightarrow> PlayerRank list" where
  "upsertRank [] u = [\<lparr>prMode = ruMode u, prUserID = ruUserID u, prScore = 1000 + ruScoreDelta u,
     prWinCount = ruWinCount u, prLoseCount = ruLoseCount u, prMatchCount = 1\<rparr>]"
| "upsertRank (r # rs) u =
     (if prMode r = ruMode u \<and> prUserID r = ruUserID u
      then r\<lparr>prScore := prScore r + ruScoreDelta u, prWinCount := prWinCount r + ruWinCount u,
             prLoseCount := prLoseCount r + ruLoseCount u, prMatchCount := prMatchCount r + 1\<rparr> # rs
      else r # upsertRank rs u)"

definition UpdatePlayerRank :: "RankTx \<Rightarrow> string \<Rightarrow> int \<Rightarrow> int \<Rightarrow> int \<Rightarrow> int \<Rightarrow> RankTx io" where
  "UpdatePlayerRank tx mode userID scoreDelta winCount loseCount =
     rd (\<lambda>_. tx\<lparr>rxUpserts := rxUpserts tx @ [\<lparr>ruMode = mode, ruUserID = userID, ruScoreDelta = scoreDelta,
                                               ruWinCount = winCount, ruLoseCount = loseCount\<rparr>]\<rparr>)"

definition sameEvent :: "RankEvent \<Rightarrow> RankEvent \<Rightarrow> bool" where
  "sameEvent a b \<longleftrightarrow> reEventID a = reEventID b \<or> reMatchID a = reMatchID b"

definition AddRankEvent :: "RankTx \<Rightarrow> RankEvent \<Rightarrow> RankTx io" where
  "AddRankEvent tx ev =
     andThen (rd (\<lambda>w. \<exists>r \<in> set (dbRankEvents w @ rxEvents tx). sameEvent ev r)) (\<lambda>dup.
     if dup then fail DupKeyErr else ret (tx\<lparr>rxEvents := rxEvents tx @ [ev]\<rparr>))"

fun IsDuplicateKeyError :: "err \<Rightarrow> bool" where
  "IsDuplicateKeyError DupKeyErr = True"
| "IsDuplicateKeyError (Wrap _ e) = IsDuplicateKeyError e"
| "IsDuplicateKeyError _ = False"

fun findRank :: "string \<Rightarrow> int \<Rightarrow> PlayerRank list \<Rightarrow> PlayerRank option" where
  "findRank mode u [] = None"
| "findRank mode u (r # rs) = (if prMode r = mode \<and> prUserID r = u then Some r else findRank mode u rs)"

definition GetPlayerRank :: "string \<Rightarrow> int \<Rightarrow> PlayerRank option io" where
  "GetPlayerRank mode userID = rd (\<lambda>w. findRank mode userID (dbPlayerRanks w))"

definition RollbackRankTx :: "unit io" where
  "RollbackRankTx = rd (\<lambda>_. ())"

definition commitRanks :: "RankTx \<Rightarrow> world \<Rightarrow> world" where
  "commitRanks tx w = w\<lparr>dbRankEvents := dbRankEvents w @ rxEvents tx,
                        dbPlayerRanks := foldl upsertRank (dbPlayerRanks w) (rxUpserts tx)\<rparr>"

definition CommitRankTx :: "RankTx \<Rightarrow> unit io" where
  "CommitRankTx tx = wr (\<lambda>_. ()) (commitRanks tx)"

definition zadd :: "string \<Rightarrow> int \<Rightarrow> int \<Rightarrow> world \<Rightarrow> world" where
  "zadd mode userID score w = w\<lparr>rdLeaderboard := (rdLeaderboard w)(mode := mput userID score (rdLeaderboard w mode))\<rparr>"

definition SetPlayerScore :: "string \<Rightarrow> int \<Rightarrow> int \<Rightarrow> unit io" where
  "SetPlayerScore mode userID score = wr (\<lambda>_. ()) (zadd mode userID score)"

text \<open>A sorted set is ordered by score, then by the bytes of the member; \<^verbatim>\<open>ZREVRANGE 0 stop\<close> reads
  from its end, a negative \<^verbatim>\<open>stop\<close> counting from the other end.\<close>

definition zrevrange :: "int \<Rightarrow> (int, int) gomap \<Rightarrow> (int \<times> int) list" where
  "zrevrange stop board =
     take (nat ((if stop < 0 then mlen board + stop else stop) + 1))
       (rev (sort_key (\<lambda>(u, s). (s, itoa u)) board))"

definition ListTopN :: "string \<Rightarrow> int \<Rightarrow> (int \<times> int) list io" where
  "ListTopN mode limit = rd (\<lambda>w. zrevrange (limit - 1) (rdLeaderboard w mode))"

section \<open>Service\<close>

definition rankEventOf :: "MatchResultFinishedEvent \<Rightarrow> RankEvent" where
  "rankEventOf evt = \<lparr>reEventID = evEventID evt, reMatchID = evMatchID evt, reStatus = 1\<rparr>"

text \<open>Score, wins and losses a match brings to one of its players.\<close>

definition rankDelta :: "MatchResultFinishedEvent \<Rightarrow> MatchPlayer \<Rightarrow> int \<times> int \<times> int" where
  "rankDelta evt p = (if mpTeamNo p = evWinTeamNo evt then (100, 1, 0) else (- 60, 0, 1))"

fun updateRanks :: "MatchResultFinishedEvent \<Rightarrow> RankTx \<Rightarrow> MatchPlayer list \<Rightarrow> RankTx io" where
  "updateRanks evt tx [] = ret tx"
| "updateRanks evt tx (p # ps) = (case rankDelta evt p of (scoreDelta, winCount, loseCount) \<Rightarrow>
     andThen (onErr (UpdatePlayerRank tx (evMode evt) (mpUserID p) scoreDelta winCount loseCount) (\<lambda>_.
       andThen (ignoreErr RollbackRankTx) (\<lambda>_. fail (Errorf ''updating the player score failed'')))) (\<lambda>tx'.
     updateRanks evt tx' ps))"

fun syncLeaderboard :: "string \<Rightarrow> MatchPlayer list \<Rightarrow> unit io" where
  "syncLeaderboard mode [] = ret ()"
| "syncLeaderboard mode (p # ps) =
     andThen (wrapErr ''querying the player score failed: '' (GetPlayerRank mode (mpUserID p))) (\<lambda>playerRank.
     case playerRank of
       None \<Rightarrow> syncLeaderboard mode ps
     | Some r \<Rightarrow>
         andThen (wrapErr ''syncing the leaderboard failed: '' (SetPlayerScore mode (mpUserID p) (prScore r))) (\<lambda>_.
         syncLeaderboard mode ps))"

definition SettleMatchResult :: "MatchResultFinishedEvent \<Rightarrow> unit io" where
  "SettleMatchResult evt =
     andThen (wrapErr ''querying the players failed: '' (GetMatchPlayers (evMatchID evt))) (\<lambda>matchPlayers.
     andThen (wrapErr ''opening the transaction failed: '' BeginRankTx) (\<lambda>tx.
     andThen (attempt (AddRankEvent tx (rankEventOf evt))) (\<lambda>added. case added of
       Inl e \<Rightarrow>
         andThen (ignoreErr RollbackRankTx) (\<lambda>_.
         if IsDuplicateKeyError e then ret () else fail (Wrap ''updating the rank event failed: '' e))
     | Inr tx1 \<Rightarrow>
         andThen (updateRanks evt tx1 matchPlayers) (\<lambda>tx2.
         andThen (wrapErr ''committing the transaction failed: '' (CommitRankTx tx2)) (\<lambda>_.
         syncLeaderboard (evMode evt) matchPlayers)))))"

fun rankItems :: "int \<Rightarrow> (int \<times> int) list \<Rightarrow> LeaderboardItemResponse list" where
  "rankItems i [] = []"
| "rankItems i ((u, s) # items) = \<lparr>lbRank = i + 1, lbUserID = u, lbScore = s\<rparr> # rankItems (i + 1) items"

definition clampLimit :: "int \<Rightarrow> int" where
  "clampLimit limit = (let l = if limit \<le> 0 then 20 else limit in if l > 100 then 100 else l)"

definition GetLeaderboard :: "string \<Rightarrow> int \<Rightarrow> LeaderboardResponse io" where
  "GetLeaderboard mode limit =
     (if mode = '''' then fail (Errorf ''mode must not be empty'')
      else andThen (wrapErr ''querying the leaderboard failed: '' (ListTopN mode (clampLimit limit))) (\<lambda>items.
        ret \<lparr>lrMode = mode, lrItems = rankItems 0 items\<rparr>))"

section \<open>The rank worker\<close>

text \<open>One turn of the loop over the deliveries: an event that was settled is acknowledged, one that
  was not goes back to the head of the queue. Only one worker consumes. Events that do
  not parse are no deliveries here.\<close>

definition workerTurn :: "world \<Rightarrow> world" where
  "workerTurn w = (case mqEvents w of
     [] \<Rightarrow> w
   | evt # evts \<Rightarrow> (case SettleMatchResult evt w of
       (Inl _, w') \<Rightarrow> w'
     | (Inr _, w') \<Rightarrow> w'\<lparr>mqEvents := evts\<rparr>))"

fun workerTurns :: "nat \<Rightarrow> world \<Rightarrow> world" where
  "workerTurns 0 w = w"
| "workerTurns (Suc n) w = workerTurns n (workerTurn w)"

end
