(* ===== verification/MapHub.thy ===== *)
theory MapHub
  imports Geometry
begin

text \<open>
  Live updates of the map: \<^verbatim>\<open>internal/ws/map_hub.go\<close> and the subscription message of
  \<^verbatim>\<open>internal/ws/map_client.go\<close>. The hub keeps two indexes, the clients of every chunk and the chunks of
  every client, behind one mutex, so each operation is one step. A client is a number; its send
  channel is a bounded buffer that can be closed, and sending on a closed channel panics. The sets of
  the code are lists without duplicates here, their order standing for the order of a
  \<^verbatim>\<open>range\<close> loop.
\<close>

section \<open>State\<close>

record channel =
  chBuf :: "string list"
  chClosed :: bool

record hub =
  hbChunks :: "(string, nat list) gomap"
  hbClients :: "(nat, string list) gomap"
  hbSend :: "nat \<Rightarrow> channel"

type_synonym 'a hubio = "(hub, err, 'a) prog"

definition NewMapHub :: hub where
  "NewMapHub = \<lparr>hbChunks = [], hbClients = [], hbSend = (\<lambda>_. \<lparr>chBuf = [], chClosed = False\<rparr>)\<rparr>"

definition sendCapacity :: int where
  "sendCapacity = 256"

section \<open>Operations\<close>

definition HubJoin :: "nat \<Rightarrow> hub \<Rightarrow> hub" where
  "HubJoin c h = (if mget (hbClients h) c = None then h\<lparr>hbClients := mput c [] (hbClients h)\<rparr> else h)"

definition removeFrom :: "nat \<Rightarrow> string \<Rightarrow> hub \<Rightarrow> hub" where
  "removeFrom c chunkID h = (case mget (hbChunks h) chunkID of
     None \<Rightarrow> h
   | Some clients \<Rightarrow> (let clients' = removeAll c clients in
       h\<lparr>hbChunks := if clients' = [] then mdel chunkID (hbChunks h) else mput chunkID clients' (hbChunks h)\<rparr>))"

definition removeClientSubscriptionsLocked :: "nat \<Rightarrow> hub \<Rightarrow> hub" where
  "removeClientSubscriptionsLocked c h = foldl (\<lambda>h chunkID. removeFrom c chunkID h) h (mget0 [] (hbClients h) c)"

definition removeClientLocked :: "nat \<Rightarrow> hub \<Rightarrow> hub" where
  "removeClientLocked c h = (let h' = removeClientSubscriptionsLocked c h in h'\<lparr>hbClients := mdel c (hbClients h')\<rparr>)"

definition closeSend :: "nat \<Rightarrow> hub \<Rightarrow> hub" where
  "closeSend c h = h\<lparr>hbSend := (hbSend h)(c := (hbSend h c)\<lparr>chClosed := True\<rparr>)\<rparr>"

definition Leave :: "nat \<Rightarrow> hub \<Rightarrow> hub" where
  "Leave c h = closeSend c (removeClientLocked c h)"

definition addTo :: "nat \<Rightarrow> string \<Rightarrow> hub \<Rightarrow> hub" where
  "addTo c chunkID h = (let clients = mget0 [] (hbChunks h) chunkID in
     h\<lparr>hbChunks := mput chunkID (if c \<in> set clients then clients else clients @ [c]) (hbChunks h)\<rparr>)"

fun addSubscriptions :: "nat \<Rightarrow> string list \<Rightarrow> string list \<Rightarrow> hub \<Rightarrow> string list \<times> hub" where
  "addSubscriptions c [] added h = (added, h)"
| "addSubscriptions c (chunkID # chunkIDs) added h =
     (if chunkID \<in> set added then addSubscriptions c chunkIDs added h
      else addSubscriptions c chunkIDs (added @ [chunkID]) (addTo c chunkID h))"

definition ReplaceSubscriptions :: "nat \<Rightarrow> string list \<Rightarrow> hub \<Rightarrow> hub" where
  "ReplaceSubscriptions c chunkIDs h =
     (case addSubscriptions c chunkIDs [] (removeClientSubscriptionsLocked c h) of (added, h') \<Rightarrow>
        h'\<lparr>hbClients := mput c added (hbClients h')\<rparr>)"

text \<open>\<^verbatim>\<open>select { case client.Send <- message: default: }\<close>\<close>

definition trySend :: "nat \<Rightarrow> string \<Rightarrow> bool hubio" where
  "trySend c msg h = (let ch = hbSend h c in
     if chClosed ch then (Inl (Panic ''send on closed channel''), h)
     else if int (length (chBuf ch)) < sendCapacity
     then (Inr True, h\<lparr>hbSend := (hbSend h)(c := ch\<lparr>chBuf := chBuf ch @ [msg]\<rparr>)\<rparr>)
     else (Inr False, h))"

definition dropClient :: "nat \<Rightarrow> unit hubio" where
  "dropClient c h = (Inr (), closeSend c (removeClientLocked c h))"

fun broadcastLoop :: "string \<Rightarrow> nat list \<Rightarrow> unit hubio" where
  "broadcastLoop msg [] = ret ()"
| "broadcastLoop msg (c # cs) =
     andThen (trySend c msg) (\<lambda>sent.
     andThen (if sent then ret () else dropClient c) (\<lambda>_.
     broadcastLoop msg cs))"

definition BroadcastToChunk :: "string \<Rightarrow> string \<Rightarrow> unit hubio" where
  "BroadcastToChunk chunkID msg h = (case mget (hbChunks h) chunkID of
     None \<Rightarrow> (Inr (), h)
   | Some clients \<Rightarrow> broadcastLoop msg clients h)"

definition ClientSubscriptions :: "nat \<Rightarrow> hub \<Rightarrow> string list" where
  "ClientSubscriptions c h = mget0 [] (hbClients h) c"

text \<open>The chunk ids of a subscription message: all of them, each once, or an error.\<close>

fun subscriptionIDs :: "string list \<Rightarrow> string list \<Rightarrow> err + string list" where
  "subscriptionIDs chunkIDs [] = Inr chunkIDs"
| "subscriptionIDs chunkIDs (raw # raws) =
     (case bindE (ParseChunkID raw) EnsurePlayableChunk of
        Inl _ \<Rightarrow> Inl (Errorf ''invalid chunk_id'')
      | Inr _ \<Rightarrow> subscriptionIDs (if raw \<in> set chunkIDs then chunkIDs else chunkIDs @ [raw]) raws)"

definition handleSubscribeChunks :: "nat \<Rightarrow> string list \<Rightarrow> hub \<Rightarrow> (err + string list) \<times> hub" where
  "handleSubscribeChunks c raws h = (case subscriptionIDs [] raws of
     Inl e \<Rightarrow> (Inl e, h)
   | Inr chunkIDs \<Rightarrow> (Inr chunkIDs, ReplaceSubscriptions c chunkIDs h))"

section \<open>The indexes\<close>

definition subscribed :: "hub \<Rightarrow> nat \<Rightarrow> string \<Rightarrow> bool" where
  "subscribed h c chunkID \<longleftrightarrow> c \<in> set (mget0 [] (hbChunks h) chunkID)"

definition wants :: "hub \<Rightarrow> nat \<Rightarrow> string \<Rightarrow> bool" where
  "wants h c chunkID \<longleftrightarrow> chunkID \<in> set (mget0 [] (hbClients h) c)"

text \<open>No chunk is kept without clients, no client is listed twice.\<close>

definition chunks_ok :: "hub \<Rightarrow> bool" where
  "chunks_ok h \<longleftrightarrow> (\<forall>chunkID clients. mget (hbChunks h) chunkID = Some clients \<longrightarrow> clients \<noteq> [] \<and> distinct clients)"

definition hub_ok :: "hub \<Rightarrow> bool" where
  "hub_ok h \<longleftrightarrow> chunks_ok h \<and> (\<forall>c chunkID. subscribed h c chunkID = wants h c chunkID)
     \<and> (\<forall>c chunkIDs. mget (hbClients h) c = Some chunkIDs \<longrightarrow> distinct chunkIDs)"

lemma hub_okI:
  assumes "chunks_ok h" "\<And>c chunkID. subscribed h c chunkID \<longleftrightarrow> wants h c chunkID"
    "\<And>c chunkIDs. mget (hbClients h) c = Some chunkIDs \<Longrightarrow> distinct chunkIDs"
  shows "hub_ok h"
  using assms by (simp add: hub_ok_def)

lemma hub_okD:
  assumes "hub_ok h"
  shows "chunks_ok h" "subscribed h c chunkID \<longleftrightarrow> wants h c chunkID" "mget (hbClients h) c = Some chunkIDs \<Longrightarrow> distinct chunkIDs"
  using assms unfolding hub_ok_def by blast+

lemma chunks_okD: "chunks_ok h \<Longrightarrow> mget (hbChunks h) ch = Some cs \<Longrightarrow> cs \<noteq> [] \<and> distinct cs"
  by (simp add: chunks_ok_def)

lemma mget0_simps: "mget m k = Some v \<Longrightarrow> mget0 z m k = v" "mget m k = None \<Longrightarrow> mget0 z m k = z"
  by (simp_all add: mget0_def)

lemma mget0_mput [simp]: "mget0 z (mput k v m) k' = (if k' = k then v else mget0 z m k')"
  and mget0_mdel [simp]: "mget0 z (mdel k m) k' = (if k' = k then z else mget0 z m k')"
  by (simp_all add: mget0_def)

lemma removeFrom_sel [simp]: "hbClients (removeFrom c ch h) = hbClients h" "hbSend (removeFrom c ch h) = hbSend h"
  by (simp_all add: removeFrom_def Let_def split: option.split)

lemma removeFrom_clients:
  "mget0 [] (hbChunks (removeFrom c ch h)) ch' = (if ch' = ch then removeAll c (mget0 [] (hbChunks h) ch) else mget0 [] (hbChunks h) ch')"
  by (auto simp: removeFrom_def Let_def mget0_simps split: option.split)

lemma chunks_ok_removeFrom: "chunks_ok h \<Longrightarrow> chunks_ok (removeFrom c ch h)"
  by (auto simp: chunks_ok_def removeFrom_def Let_def distinct_removeAll split: option.splits if_splits)

lemma addTo_sel [simp]: "hbClients (addTo c ch h) = hbClients h" "hbSend (addTo c ch h) = hbSend h"
  by (simp_all add: addTo_def Let_def)

lemma subscribed_addTo: "subscribed (addTo c ch h) c' ch' \<longleftrightarrow> subscribed h c' ch' \<or> (c' = c \<and> ch' = ch)"
  by (auto simp: subscribed_def addTo_def Let_def)

lemma chunks_ok_addTo: "chunks_ok h \<Longrightarrow> chunks_ok (addTo c ch h)"
  by (auto simp: chunks_ok_def addTo_def Let_def mget0_def split: option.splits if_splits)

lemma subscribed_removeFrom: "subscribed (removeFrom c ch h) c' ch' \<longleftrightarrow> subscribed h c' ch' \<and> \<not> (c' = c \<and> ch' = ch)"
  by (auto simp: subscribed_def removeFrom_clients)

lemma removeFolded:
  "hbClients (foldl (\<lambda>h ch. removeFrom c ch h) h chs) = hbClients h"
  "hbSend (foldl (\<lambda>h ch. removeFrom c ch h) h chs) = hbSend h"
  "chunks_ok h \<Longrightarrow> chunks_ok (foldl (\<lambda>h ch. removeFrom c ch h) h chs)"
  "subscribed (foldl (\<lambda>h ch. removeFrom c ch h) h chs) c' ch' \<longleftrightarrow> subscribed h c' ch' \<and> \<not> (c' = c \<and> ch' \<in> set chs)"
proof (induction chs arbitrary: h)
  case (Cons x chs)
  { case 1 show ?case using Cons(1) [of "removeFrom c x h"] by simp }
  { case 2 show ?case using Cons(2) [of "removeFrom c x h"] by simp }
  { case 3 then show ?case using Cons(3) [of "removeFrom c x h"] chunks_ok_removeFrom by simp }
  { case 4 show ?case using Cons(4) [of "removeFrom c x h"] unfolding foldl.simps subscribed_removeFrom by auto }
qed simp_all

lemma removeSubscriptions:
  assumes "hub_ok h"
  shows "hbClients (removeClientSubscriptionsLocked c h) = hbClients h" "hbSend (removeClientSubscriptionsLocked c h) = hbSend h"
    "chunks_ok (removeClientSubscriptionsLocked c h)"
    "subscribed (removeClientSubscriptionsLocked c h) c' ch \<longleftrightarrow> subscribed h c' ch \<and> c' \<noteq> c"
proof -
  have "subscribed h c ch \<longleftrightarrow> ch \<in> set (mget0 [] (hbClients h) c)" using assms by (simp add: hub_ok_def wants_def)
  then show "subscribed (removeClientSubscriptionsLocked c h) c' ch \<longleftrightarrow> subscribed h c' ch \<and> c' \<noteq> c"
    unfolding removeClientSubscriptionsLocked_def removeFolded by blast
qed (use assms in \<open>simp_all add: removeClientSubscriptionsLocked_def removeFolded hub_ok_def\<close>)

lemma removeClient:
  fixes c h
  defines "h' \<equiv> removeClientLocked c h"
  assumes ok: "hub_ok h"
  shows "hub_ok h'" "hbSend h' = hbSend h" "subscribed h' c' ch \<longleftrightarrow> subscribed h c' ch \<and> c' \<noteq> c"
    "hbClients h' = mdel c (hbClients h)"
proof -
  note r = removeSubscriptions [OF ok, of c]
  show s: "hbSend h' = hbSend h" and cl: "hbClients h' = mdel c (hbClients h)"
    and sub: "subscribed h' c' ch \<longleftrightarrow> subscribed h c' ch \<and> c' \<noteq> c" for c' ch
    using r by (simp_all add: h'_def removeClientLocked_def Let_def subscribed_def)
  have "chunks_ok h'" using r(3) by (simp add: h'_def removeClientLocked_def Let_def chunks_ok_def)
  moreover have "wants h' c' ch \<longleftrightarrow> wants h c' ch \<and> c' \<noteq> c" for c' ch by (simp add: wants_def cl)
  ultimately show "hub_ok h'" using ok sub by (auto simp: hub_ok_def cl)
qed

lemma hub_ok_send: "hub_ok (h\<lparr>hbSend := s\<rparr>) = hub_ok h"
  by (simp add: hub_ok_def chunks_ok_def subscribed_def wants_def)

lemma hub_ok_closeSend: "hub_ok (closeSend c h) = hub_ok h"
  by (simp add: closeSend_def hub_ok_send)

lemma addSubscriptions_facts:
  "addSubscriptions c chs added h = (added', h') \<Longrightarrow> chunks_ok h \<Longrightarrow> distinct added \<Longrightarrow>
   chunks_ok h' \<and> distinct added' \<and> set added' = set added \<union> set chs \<and> hbClients h' = hbClients h \<and> hbSend h' = hbSend h
   \<and> (\<forall>c' ch. subscribed h' c' ch \<longleftrightarrow> subscribed h c' ch \<or> (c' = c \<and> ch \<in> set chs - set added))"
proof (induction c chs added h arbitrary: added' h' rule: addSubscriptions.induct)
  case (2 c ch chs added h)
  show ?case
  proof (cases "ch \<in> set added")
    case True
    then have run: "addSubscriptions c chs added h = (added', h')" using 2(3) by simp
    show ?thesis using 2(1) [OF True run 2(4,5)] True by auto
  next
    case False
    then have run: "addSubscriptions c chs (added @ [ch]) (addTo c ch h) = (added', h')" using 2(3) by simp
    have "distinct (added @ [ch])" using 2(5) False by simp
    then show ?thesis using 2(2) [OF False run chunks_ok_addTo [OF 2(4)]] False
      unfolding subscribed_addTo addTo_sel by auto
  qed
qed simp

lemma ReplaceSubscriptions_facts:
  fixes c chs h
  defines "h' \<equiv> ReplaceSubscriptions c chs h"
  assumes ok: "hub_ok h"
  shows "hub_ok h'" "hbSend h' = hbSend h" "subscribed h' c' ch \<longleftrightarrow> (if c' = c then ch \<in> set chs else subscribed h c' ch)"
proof -
  note r = removeSubscriptions [OF ok, of c]
  obtain added g where run: "addSubscriptions c chs [] (removeClientSubscriptionsLocked c h) = (added, g)"
    by (cases "addSubscriptions c chs [] (removeClientSubscriptionsLocked c h)")
  note a = addSubscriptions_facts [OF run r(3) distinct.simps(1) [THEN iffD2, OF TrueI]]
  have h': "h' = g\<lparr>hbClients := mput c added (hbClients g)\<rparr>" by (simp add: h'_def ReplaceSubscriptions_def run)
  show "hbSend h' = hbSend h" using a r by (simp add: h')
  show sub: "subscribed h' c' ch \<longleftrightarrow> (if c' = c then ch \<in> set chs else subscribed h c' ch)" for c' ch
    using a r(4) [of c' ch] by (simp add: h' subscribed_def)
  have "wants h' c' ch \<longleftrightarrow> (if c' = c then ch \<in> set chs else wants h c' ch)" for c' ch
    using a r(1) by (simp add: h' wants_def)
  moreover have "chunks_ok h'" using a by (simp add: h' chunks_ok_def)
  ultimately show "hub_ok h'" using ok sub a r(1) by (auto simp: hub_ok_def h')
qed

lemma hub_ok_HubJoin:
  assumes ok: "hub_ok h"
  shows "hub_ok (HubJoin c h)"
proof (cases "mget (hbClients h) c")
  case None
  let ?h = "h\<lparr>hbClients := mput c [] (hbClients h)\<rparr>"
  have "wants ?h c' ch \<longleftrightarrow> wants h c' ch" for c' ch using None by (simp add: wants_def mget0_simps)
  moreover have "subscribed ?h c' ch \<longleftrightarrow> subscribed h c' ch" for c' ch by (simp add: subscribed_def)
  moreover have "chunks_ok ?h" using hub_okD(1) [OF ok] by (simp add: chunks_ok_def)
  ultimately have "hub_ok ?h" using hub_okD(2,3) [OF ok] by (intro hub_okI) (auto split: if_splits)
  then show ?thesis using None by (simp add: HubJoin_def)
qed (use ok in \<open>simp add: HubJoin_def\<close>)

lemma hub_ok_Leave: "hub_ok h \<Longrightarrow> hub_ok (Leave c h)"
  by (simp add: Leave_def hub_ok_closeSend removeClient(1))

lemma keeps_trySend: "keeps hub_ok (trySend c msg)"
  by (auto simp: gives_def trySend_def Let_def hub_ok_send)

lemma keeps_dropClient: "keeps hub_ok (dropClient c)"
  by (auto simp: gives_def dropClient_def hub_ok_closeSend removeClient(1))

lemma keeps_broadcastLoop: "keeps hub_ok (broadcastLoop msg cs)"
  by (induction cs) (auto intro!: keeps_andThen keeps_trySend keeps_dropClient gives_intros)

lemma hub_ok_Broadcast: "hub_ok h \<Longrightarrow> hub_ok (snd (BroadcastToChunk chunkID msg h))"
  using givesD [OF keeps_broadcastLoop] by (auto simp: BroadcastToChunk_def split: option.split)

section \<open>Reachable hubs\<close>

text \<open>Clients come, subscribe, read from their channels and go, and events are broadcast, in any order.\<close>

definition readMessage :: "nat \<Rightarrow> hub \<Rightarrow> hub" where
  "readMessage c h = h\<lparr>hbSend := (hbSend h)(c := (hbSend h c)\<lparr>chBuf := tl (chBuf (hbSend h c))\<rparr>)\<rparr>"

inductive hub_step :: "hub \<Rightarrow> hub \<Rightarrow> bool" where
  join: "hub_step h (HubJoin c h)"
| leave: "hub_step h (Leave c h)"
| subscribe: "hub_step h (snd (handleSubscribeChunks c raws h))"
| broadcast: "hub_step h (snd (BroadcastToChunk chunkID msg h))"
| read: "hub_step h (readMessage c h)"

inductive hub_reach :: "hub \<Rightarrow> bool" where
  start: "hub_reach NewMapHub"
| step: "hub_reach h \<Longrightarrow> hub_step h h' \<Longrightarrow> hub_reach h'"

lemma hub_ok_step: "hub_step h h' \<Longrightarrow> hub_ok h \<Longrightarrow> hub_ok h'"
proof (induction rule: hub_step.induct)
  case (subscribe h c raws)
  then show ?case
    by (auto simp: handleSubscribeChunks_def ReplaceSubscriptions_facts(1) split: sum.split)
qed (simp_all add: hub_ok_HubJoin hub_ok_Leave hub_ok_Broadcast readMessage_def hub_ok_send)

lemma hub_reach_ok: "hub_reach h \<Longrightarrow> hub_ok h"
proof (induction rule: hub_reach.induct)
  case start
  then show ?case by (simp add: NewMapHub_def hub_ok_def chunks_ok_def subscribed_def wants_def mget0_def)
qed (rule hub_ok_step)

text \<open>(C31) The two indexes of the hub always agree: a client is among the clients of a chunk exactly
  when the chunk is among the client's chunks, each once, and no chunk is kept that nobody
  watches.\<close>

theorem hub_indexes_agree:
  assumes "hub_reach h"
  shows "(c \<in> set (mget0 [] (hbChunks h) chunkID) \<longleftrightarrow> chunkID \<in> set (ClientSubscriptions c h))
    \<and> distinct (mget0 [] (hbChunks h) chunkID) \<and> distinct (ClientSubscriptions c h) \<and> mget (hbChunks h) chunkID \<noteq> Some []"
proof -
  note ok = hub_okD [OF hub_reach_ok [OF assms]]
  show ?thesis
    using ok(2) [of c chunkID] chunks_okD [OF ok(1), of chunkID] ok(3) [of c]
    unfolding subscribed_def wants_def ClientSubscriptions_def
    by (cases "mget (hbChunks h) chunkID"; cases "mget (hbClients h) c") (simp_all add: mget0_simps)
qed

section \<open>Broadcasting\<close>

definition full :: "hub \<Rightarrow> nat \<Rightarrow> bool" where
  "full h c \<longleftrightarrow> sendCapacity \<le> int (length (chBuf (hbSend h c)))"

text \<open>The hub after the clients in \<open>done\<close> have been served.\<close>

definition served :: "string \<Rightarrow> nat set \<Rightarrow> hub \<Rightarrow> hub \<Rightarrow> bool" where
  "served msg done h h' \<longleftrightarrow> hub_ok h'
     \<and> (\<forall>c. hbSend h' c = (if c \<notin> done then hbSend h c
           else if full h c then (hbSend h c)\<lparr>chClosed := True\<rparr>
           else (hbSend h c)\<lparr>chBuf := chBuf (hbSend h c) @ [msg]\<rparr>))
     \<and> (\<forall>c ch. subscribed h' c ch \<longleftrightarrow> subscribed h c ch \<and> \<not> (c \<in> done \<and> full h c))"

lemma served_one:
  assumes s: "served msg dn h g" and c: "c \<notin> dn" "\<not> chClosed (hbSend h c)"
  obtains g' where "\<And>cs. broadcastLoop msg (c # cs) g = broadcastLoop msg cs g'" "served msg (insert c dn) h g'"
proof (cases "full h c")
  case True
  let ?g = "closeSend c (removeClientLocked c g)"
  have ok: "hub_ok g" and same: "hbSend g c = hbSend h c" using s c by (simp_all add: served_def)
  note r = removeClient [OF ok, of c]
  have "broadcastLoop msg (c # cs) g = broadcastLoop msg cs ?g" for cs
    using c True by (simp add: andThen_def trySend_def same full_def dropClient_def Let_def)
  moreover have "served msg (insert c dn) h ?g"
    unfolding served_def
  proof (intro conjI allI)
    show "hub_ok ?g" using r(1) by (simp add: hub_ok_closeSend)
    show "hbSend ?g u = (if u \<notin> insert c dn then hbSend h u else if full h u then (hbSend h u)\<lparr>chClosed := True\<rparr>
        else (hbSend h u)\<lparr>chBuf := chBuf (hbSend h u) @ [msg]\<rparr>)" for u
      using s True r(2) same by (auto simp: served_def closeSend_def)
    show "subscribed ?g u ch \<longleftrightarrow> subscribed h u ch \<and> \<not> (u \<in> insert c dn \<and> full h u)" for u ch
      using s True r(3) [of u ch] by (auto simp: served_def closeSend_def subscribed_def)
  qed
  ultimately show ?thesis using that by blast
next
  case False
  let ?g = "g\<lparr>hbSend := (hbSend g)(c := (hbSend g c)\<lparr>chBuf := chBuf (hbSend g c) @ [msg]\<rparr>)\<rparr>"
  have same: "hbSend g c = hbSend h c" using s c by (simp add: served_def)
  have "broadcastLoop msg (c # cs) g = broadcastLoop msg cs ?g" for cs
    using c False by (simp add: andThen_def ret_def trySend_def same full_def Let_def)
  moreover have "served msg (insert c dn) h ?g"
    unfolding served_def
  proof (intro conjI allI)
    show "hub_ok ?g" using s by (simp add: hub_ok_send served_def)
    show "hbSend ?g u = (if u \<notin> insert c dn then hbSend h u else if full h u then (hbSend h u)\<lparr>chClosed := True\<rparr>
        else (hbSend h u)\<lparr>chBuf := chBuf (hbSend h u) @ [msg]\<rparr>)" for u
      using s False same by (auto simp: served_def)
    show "subscribed ?g u ch \<longleftrightarrow> subscribed h u ch \<and> \<not> (u \<in> insert c dn \<and> full h u)" for u ch
      using s False by (auto simp: served_def subscribed_def)
  qed
  ultimately show ?thesis using that by blast
qed

lemma served_all:
  "served msg dn h g \<Longrightarrow> distinct cs \<Longrightarrow> set cs \<inter> dn = {} \<Longrightarrow> (\<forall>c \<in> set cs. \<not> chClosed (hbSend h c)) \<Longrightarrow>
   \<exists>g'. broadcastLoop msg cs g = (Inr (), g') \<and> served msg (dn \<union> set cs) h g'"
proof (induction cs arbitrary: dn g)
  case (Cons c cs)
  obtain g' where g': "\<And>cs. broadcastLoop msg (c # cs) g = broadcastLoop msg cs g'" "served msg (insert c dn) h g'"
    using served_one [OF Cons.prems(1), of c] Cons.prems(3,4) by auto
  have "\<exists>g''. broadcastLoop msg cs g' = (Inr (), g'') \<and> served msg (insert c dn \<union> set cs) h g''"
    by (rule Cons.IH [OF g'(2)]) (use Cons.prems in auto)
  then show ?case using g'(1) by simp
qed (simp add: ret_def)

lemma broadcast_served:
  assumes "hub_reach h" "\<forall>c. subscribed h c chunkID \<longrightarrow> \<not> chClosed (hbSend h c)"
  shows "\<exists>h'. BroadcastToChunk chunkID msg h = (Inr (), h')
    \<and> (\<forall>c. hbSend h' c = (if \<not> subscribed h c chunkID then hbSend h c
           else if full h c then (hbSend h c)\<lparr>chClosed := True\<rparr>
           else (hbSend h c)\<lparr>chBuf := chBuf (hbSend h c) @ [msg]\<rparr>))
    \<and> (\<forall>c ch. subscribed h' c ch \<longleftrightarrow> subscribed h c ch \<and> \<not> (subscribed h c chunkID \<and> full h c))"
proof (cases "mget (hbChunks h) chunkID")
  case None
  then have "\<not> subscribed h c chunkID" for c by (simp add: subscribed_def mget0_def)
  then show ?thesis using None by (simp add: BroadcastToChunk_def)
next
  case (Some cs)
  have ok: "hub_ok h" by (rule hub_reach_ok [OF assms(1)])
  have sub: "subscribed h c chunkID \<longleftrightarrow> c \<in> set cs" for c using Some by (simp add: subscribed_def mget0_def)
  have "distinct cs" using chunks_okD [OF hub_okD(1) [OF ok] Some] by simp
  moreover have "served msg {} h h" using ok by (simp add: served_def)
  ultimately obtain h' where "broadcastLoop msg cs h = (Inr (), h')" "served msg (set cs) h h'"
    using served_all [of msg "{}" h h cs] assms(2) sub by auto
  then show ?thesis using Some unfolding served_def sub by (intro exI [of _ h']) (simp add: BroadcastToChunk_def)
qed

text \<open>A broadcast reaches the clients of its chunk and nobody else. Each gets the message at
  the end of its channel; one whose channel is full is cut off instead: its channel is closed and it
  watches nothing any more, while the others keep their subscriptions.\<close>

theorem BroadcastToChunk_delivers:
  assumes "hub_reach h" "\<forall>c. subscribed h c chunkID \<longrightarrow> \<not> chClosed (hbSend h c)"
  shows "\<exists>h'. BroadcastToChunk chunkID msg h = (Inr (), h')
    \<and> (\<forall>c. hbSend h' c = (if \<not> subscribed h c chunkID then hbSend h c
           else if full h c then (hbSend h c)\<lparr>chClosed := True\<rparr>
           else (hbSend h c)\<lparr>chBuf := chBuf (hbSend h c) @ [msg]\<rparr>))
    \<and> (\<forall>c ch. subscribed h' c ch \<longleftrightarrow> subscribed h c ch \<and> \<not> (subscribed h c chunkID \<and> full h c))"
  by (rule broadcast_served [OF assms])

section \<open>After a cut\<close>

text \<open>A client that has been cut off still reads from its socket. If it subscribes again, the hub
  registers it with its closed channel, and the next event of that chunk panics.\<close>

lemma subscribe_after_cut_panics:
  assumes ok: "hub_ok h" and closed: "chClosed (hbSend h c)" and id: "subscriptionIDs [] [raw] = Inr [raw]"
    and nobody: "\<And>u. \<not> subscribed h u raw"
  shows "fst (BroadcastToChunk raw msg (snd (handleSubscribeChunks c [raw] h))) = Inl (Panic ''send on closed channel'')"
proof -
  let ?h = "ReplaceSubscriptions c [raw] h"
  have h: "snd (handleSubscribeChunks c [raw] h) = ?h" unfolding handleSubscribeChunks_def id by simp
  note r = ReplaceSubscriptions_facts [OF ok, of c "[raw]"]
  have sub: "subscribed ?h u raw \<longleftrightarrow> u = c" for u using r(3) [of u raw] nobody by simp
  then obtain cs where cs: "mget (hbChunks ?h) raw = Some cs" "set cs = {c}"
    by (cases "mget (hbChunks ?h) raw") (auto simp: subscribed_def mget0_def)
  then obtain cs' where "cs = c # cs'" by (cases cs) auto
  then show ?thesis unfolding h using cs closed r(2)
    by (simp add: BroadcastToChunk_def andThen_def trySend_def Let_def)
qed

text \<open>The text of a subscription is kept as it came; one that is not in canonical form is accepted,
  but events go out under the canonical identifier.\<close>

lemma subscription_not_canonical:
  "subscriptionIDs [] [''cn:+6:10:20''] = Inr [''cn:+6:10:20'']" "chunkString (mkChunkID ''cn'' 6 10 20) \<noteq> ''cn:+6:10:20''"
  by code_simp+

section \<open>An example\<close>

definition oneWatcher :: hub where
  "oneWatcher = \<lparr>hbChunks = [(''cn:6:10:20'', [3])], hbClients = [(3, [''cn:6:10:20''])],
     hbSend = (\<lambda>_. \<lparr>chBuf = [], chClosed = False\<rparr>)\<rparr>"

lemma subscriptionIDs_example: "subscriptionIDs [] [''cn:6:10:20''] = Inr [''cn:6:10:20'']"
  by code_simp

lemma oneWatcher_reach: "hub_reach oneWatcher"
proof -
  have j: "hub_reach (HubJoin 3 NewMapHub)" by (rule hub_reach.step [OF hub_reach.start hub_step.join])
  have "hub_reach (snd (handleSubscribeChunks 3 [''cn:6:10:20''] (HubJoin 3 NewMapHub)))"
    by (rule hub_reach.step [OF j hub_step.subscribe])
  moreover have "snd (handleSubscribeChunks 3 [''cn:6:10:20''] (HubJoin 3 NewMapHub)) = oneWatcher"
    unfolding handleSubscribeChunks_def subscriptionIDs_example
    by (simp add: HubJoin_def NewMapHub_def ReplaceSubscriptions_def removeClientSubscriptionsLocked_def mget0_def
        addTo_def Let_def oneWatcher_def)
  ultimately show ?thesis by simp
qed

lemma hub_indexes_agree_witness:
  "3 \<in> set (mget0 [] (hbChunks oneWatcher) ''cn:6:10:20'') \<longleftrightarrow> ''cn:6:10:20'' \<in> set (ClientSubscriptions 3 oneWatcher)"
  using hub_indexes_agree [OF oneWatcher_reach] by blast

lemma BroadcastToChunk_delivers_witness:
  "\<exists>h'. BroadcastToChunk ''cn:6:10:20'' ''event'' oneWatcher = (Inr (), h') \<and> chBuf (hbSend h' 3) = [''event'']"
proof -
  have "subscribed oneWatcher 3 ''cn:6:10:20''" "\<not> full oneWatcher 3" "\<not> chClosed (hbSend oneWatcher c)" "chBuf (hbSend oneWatcher 3) = []" for c
    by (simp_all add: oneWatcher_def subscribed_def mget0_def full_def sendCapacity_def)
  then show ?thesis
    using BroadcastToChunk_delivers [OF oneWatcher_reach, of "''cn:6:10:20''" "''event''"] by auto
qed

end
