(* ===== verification/RoomHub.thy ===== *)
theory RoomHub
  imports Prelude "HOL-Library.Word"
begin

text \<open>
  Room broadcasts: \<^verbatim>\<open>internal/ws/room_hub.go\<close> and the read loop of
  \<^verbatim>\<open>internal/ws/client.go\<close>. The rooms are spread over 32 segments by the FNV-1a
  hash of their id, each segment with a mutex of its own; an operation works on the segment of its
  room only, so it is one step. A client is a number; its room, user and send channel are a record.
  Sending on a closed channel and closing one twice panic. Messages are kept as the structures the
  code passes to the JSON library, a relayed chat message as the text it arrived as.
\<close>

section \<open>State\<close>

record serverMessage =
  smType :: string
  smError :: string

datatype payload = Relayed string | Encoded serverMessage

record roomClient =
  rcRoom :: string
  rcUser :: int
  rcBuf :: "payload list"
  rcClosed :: bool

type_synonym room_map = "(string, (int, nat) gomap) gomap"

record roomHub =
  rhSegments :: "nat \<Rightarrow> room_map"
  rhClients :: "nat \<Rightarrow> roomClient option"

type_synonym 'a rhio = "(roomHub, err, 'a) prog"

definition roomHubSegmentCount :: nat where
  "roomHubSegmentCount = 32"

definition NewRoomHub :: roomHub where
  "NewRoomHub = \<lparr>rhSegments = (\<lambda>_. []), rhClients = (\<lambda>_. None)\<rparr>"

text \<open>\<^verbatim>\<open>hash/fnv\<close>, New32a: xor the byte, then multiply, on 32 bits.\<close>

unbundle bit_operations_syntax

definition fnvStep :: "32 word \<Rightarrow> char \<Rightarrow> 32 word" where
  "fnvStep h c = (h XOR of_char c) * 16777619"

definition fnv32a :: "string \<Rightarrow> 32 word" where
  "fnv32a s = foldl fnvStep 2166136261 s"

definition roomHubSegmentIndex :: "string \<Rightarrow> nat" where
  "roomHubSegmentIndex roomID = unat (fnv32a roomID mod of_nat roomHubSegmentCount)"

definition roomSegment :: "string \<Rightarrow> roomHub \<Rightarrow> room_map" where
  "roomSegment roomID h = rhSegments h (roomHubSegmentIndex roomID)"

definition setSegment :: "string \<Rightarrow> room_map \<Rightarrow> roomHub \<Rightarrow> roomHub" where
  "setSegment roomID rooms h = h\<lparr>rhSegments := (rhSegments h)(roomHubSegmentIndex roomID := rooms)\<rparr>"

definition roomOf :: "string \<Rightarrow> roomHub \<Rightarrow> (int, nat) gomap option" where
  "roomOf roomID h = mget (roomSegment roomID h) roomID"

definition setRoom :: "string \<Rightarrow> (int, nat) gomap option \<Rightarrow> roomHub \<Rightarrow> roomHub" where
  "setRoom roomID room h = setSegment roomID (case room of
     None \<Rightarrow> mdel roomID (roomSegment roomID h) | Some r \<Rightarrow> mput roomID r (roomSegment roomID h)) h"

section \<open>Operations\<close>

definition NewClient :: "nat \<Rightarrow> string \<Rightarrow> int \<Rightarrow> roomHub \<Rightarrow> roomHub" where
  "NewClient c roomID userID h = h\<lparr>rhClients := (rhClients h)(c \<mapsto>
     \<lparr>rcRoom = roomID, rcUser = userID, rcBuf = [], rcClosed = False\<rparr>)\<rparr>"

definition clientSendCapacity :: int where
  "clientSendCapacity = 256"

definition withClient :: "nat \<Rightarrow> (roomClient \<Rightarrow> 'a rhio) \<Rightarrow> 'a rhio" where
  "withClient c k h = (case rhClients h c of None \<Rightarrow> (Inl (Panic ''nil pointer dereference''), h) | Some cl \<Rightarrow> k cl h)"

definition putClient :: "nat \<Rightarrow> roomClient \<Rightarrow> unit rhio" where
  "putClient c cl h = (Inr (), h\<lparr>rhClients := (rhClients h)(c \<mapsto> cl)\<rparr>)"

definition readHub :: "(roomHub \<Rightarrow> 'a) \<Rightarrow> 'a rhio" where
  "readHub f h = (Inr (f h), h)"

definition writeHub :: "(roomHub \<Rightarrow> roomHub) \<Rightarrow> unit rhio" where
  "writeHub f h = (Inr (), f h)"

definition closeClient :: "nat \<Rightarrow> unit rhio" where
  "closeClient c = withClient c (\<lambda>cl.
     if rcClosed cl then fail (Panic ''close of closed channel'') else putClient c (cl\<lparr>rcClosed := True\<rparr>))"

definition JoinRoom :: "nat \<Rightarrow> unit rhio" where
  "JoinRoom c = withClient c (\<lambda>cl.
     writeHub (\<lambda>h. setRoom (rcRoom cl)
       (Some (mput (rcUser cl) c (case roomOf (rcRoom cl) h of None \<Rightarrow> [] | Some r \<Rightarrow> r))) h))"

definition dropEmptyRoom :: "string \<Rightarrow> roomHub \<Rightarrow> roomHub" where
  "dropEmptyRoom roomID h = (case roomOf roomID h of
     Some r \<Rightarrow> if mlen r = 0 then setRoom roomID None h else h | None \<Rightarrow> h)"

definition LeaveRoom :: "nat \<Rightarrow> unit rhio" where
  "LeaveRoom c = withClient c (\<lambda>cl.
     andThen (readHub (roomOf (rcRoom cl))) (\<lambda>found. case found of
       None \<Rightarrow> ret ()
     | Some room \<Rightarrow>
         andThen (if mget room (rcUser cl) = Some c
           then andThen (writeHub (setRoom (rcRoom cl) (Some (mdel (rcUser cl) room)))) (\<lambda>_. closeClient c)
           else ret ()) (\<lambda>_.
         writeHub (dropEmptyRoom (rcRoom cl)))))"

text \<open>\<^verbatim>\<open>select { case client.Send <- message: default: ... }\<close> for each client of the room.\<close>

fun broadcastTo :: "string \<Rightarrow> payload \<Rightarrow> nat list \<Rightarrow> unit rhio" where
  "broadcastTo roomID msg [] = ret ()"
| "broadcastTo roomID msg (c # cs) =
     andThen (withClient c (\<lambda>cl.
       if rcClosed cl then fail (Panic ''send on closed channel'')
       else if int (length (rcBuf cl)) < clientSendCapacity then putClient c (cl\<lparr>rcBuf := rcBuf cl @ [msg]\<rparr>)
       else andThen (writeHub (\<lambda>h. setRoom roomID (map_option (mdel (rcUser cl)) (roomOf roomID h)) h)) (\<lambda>_. closeClient c)))
     (\<lambda>_. broadcastTo roomID msg cs)"

definition BroadcastToRoom :: "string \<Rightarrow> payload \<Rightarrow> unit rhio" where
  "BroadcastToRoom roomID msg =
     andThen (readHub (roomOf roomID)) (\<lambda>found. case found of
       None \<Rightarrow> ret ()
     | Some room \<Rightarrow>
         andThen (broadcastTo roomID msg (map snd room)) (\<lambda>_.
         writeHub (dropEmptyRoom roomID)))"

text \<open>
  \<^verbatim>\<open>c.Send <- data\<close> waits for room: \<open>None\<close> is a reader that waits. Each turn of
  \<^verbatim>\<open>ReadPump\<close> reads one message from the socket, or fails to and leaves.
\<close>

definition SendJSON :: "nat \<Rightarrow> serverMessage \<Rightarrow> roomHub \<Rightarrow> ((err + unit) \<times> roomHub) option" where
  "SendJSON c msg h = (case rhClients h c of
     None \<Rightarrow> Some (Inl (Panic ''nil pointer dereference''), h)
   | Some cl \<Rightarrow>
       if rcClosed cl then Some (Inl (Panic ''send on closed channel''), h)
       else if int (length (rcBuf cl)) < clientSendCapacity
       then Some (putClient c (cl\<lparr>rcBuf := rcBuf cl @ [Encoded msg]\<rparr>) h)
       else None)"

definition SendError :: "nat \<Rightarrow> string \<Rightarrow> roomHub \<Rightarrow> ((err + unit) \<times> roomHub) option" where
  "SendError c code = SendJSON c \<lparr>smType = ''error'', smError = code\<rparr>"

datatype inbound = ReadFailed | Malformed string | ClientMessage string string

fun readPumpTurn :: "nat \<Rightarrow> inbound \<Rightarrow> roomHub \<Rightarrow> ((err + unit) \<times> roomHub) option" where
  "readPumpTurn c ReadFailed h = Some (LeaveRoom c h)"
| "readPumpTurn c (Malformed data) h = SendError c ''malformed json'' h"
| "readPumpTurn c (ClientMessage type data) h =
     (if type = ''ping'' then SendJSON c \<lparr>smType = ''pong'', smError = ''''\<rparr> h
      else if type = ''chat'' then Some (withClient c (\<lambda>cl. BroadcastToRoom (rcRoom cl) (Relayed data)) h)
      else SendError c ''unknown message type'' h)"

text \<open>\<^verbatim>\<open>WSHandler.JoinRoom\<close> makes a client and joins; \<^verbatim>\<open>WritePump\<close> takes the next message.\<close>

definition connect :: "nat \<Rightarrow> string \<Rightarrow> int \<Rightarrow> unit rhio" where
  "connect c roomID userID h = JoinRoom c (NewClient c roomID userID h)"

definition writePumpTurn :: "nat \<Rightarrow> roomHub \<Rightarrow> roomHub" where
  "writePumpTurn c h = (case rhClients h c of
     None \<Rightarrow> h
   | Some cl \<Rightarrow> h\<lparr>rhClients := (rhClients h)(c \<mapsto> cl\<lparr>rcBuf := tl (rcBuf cl)\<rparr>)\<rparr>)"

section \<open>One map of rooms\<close>

text \<open>The segments do not show: writing a room changes that room and nothing else.\<close>

lemma roomOf_setRoom [simp]: "roomOf r' (setRoom r v h) = (if r' = r then v else roomOf r' h)"
  by (auto simp: roomOf_def setRoom_def setSegment_def roomSegment_def split: option.split)

lemma rhClients_setRoom [simp]: "rhClients (setRoom r v h) = rhClients h"
  by (simp add: setRoom_def setSegment_def)

lemma roomOf_clients [simp]: "roomOf r (h\<lparr>rhClients := cs\<rparr>) = roomOf r h"
  by (simp add: roomOf_def roomSegment_def)

lemma roomOf_dropEmpty: "roomOf r' (dropEmptyRoom r h) = (if r' = r \<and> roomOf r h = Some [] then None else roomOf r' h)"
  by (auto simp: dropEmptyRoom_def mlen_zero_iff split: option.split)

lemma rhClients_dropEmpty [simp]: "rhClients (dropEmptyRoom r h) = rhClients h"
  by (simp add: dropEmptyRoom_def split: option.split)

lemma segment_index_bound: "roomHubSegmentIndex r < roomHubSegmentCount"
proof -
  have "unat (fnv32a r mod 32) = unat (fnv32a r) mod unat (32 :: 32 word)" by (rule unat_mod_distrib)
  then show ?thesis by (simp add: roomHubSegmentIndex_def roomHubSegmentCount_def)
qed

section \<open>The rooms are sound\<close>

text \<open>A room that is kept is not empty, and lists open clients under their own user, in their own room.\<close>

definition registered :: "roomHub \<Rightarrow> string \<Rightarrow> int \<Rightarrow> nat \<Rightarrow> bool" where
  "registered h r u c \<longleftrightarrow> (\<exists>cl. rhClients h c = Some cl \<and> rcRoom cl = r \<and> rcUser cl = u \<and> \<not> rcClosed cl)"

definition room_sound :: "roomHub \<Rightarrow> string \<Rightarrow> (int, nat) gomap \<Rightarrow> bool" where
  "room_sound h r room \<longleftrightarrow> map_ok room \<and> (\<forall>u c. (u, c) \<in> set room \<longrightarrow> registered h r u c)"

definition hub_rooms_ok :: "roomHub \<Rightarrow> bool" where
  "hub_rooms_ok h \<longleftrightarrow> (\<forall>r room. roomOf r h = Some room \<longrightarrow> room \<noteq> [] \<and> room_sound h r room)"

lemma hub_rooms_okD: "hub_rooms_ok h \<Longrightarrow> roomOf r h = Some room \<Longrightarrow> room \<noteq> []"
  "hub_rooms_ok h \<Longrightarrow> roomOf r h = Some room \<Longrightarrow> room_sound h r room"
  by (simp_all add: hub_rooms_ok_def)

lemma hub_rooms_okI:
  "(\<And>r room. roomOf r h = Some room \<Longrightarrow> room \<noteq> []) \<Longrightarrow> (\<And>r room. roomOf r h = Some room \<Longrightarrow> room_sound h r room) \<Longrightarrow> hub_rooms_ok h"
  by (simp add: hub_rooms_ok_def)

lemma room_soundD:
  "room_sound h r room \<Longrightarrow> map_ok room"
  "room_sound h r room \<Longrightarrow> (u, c) \<in> set room \<Longrightarrow> registered h r u c"
  by (simp_all add: room_sound_def)

lemma room_soundI: "map_ok room \<Longrightarrow> (\<And>u c. (u, c) \<in> set room \<Longrightarrow> registered h r u c) \<Longrightarrow> room_sound h r room"
  by (simp add: room_sound_def)

lemma room_sound_mono:
  assumes "room_sound h r room" "\<And>u c. (u, c) \<in> set room \<Longrightarrow> registered h r u c \<Longrightarrow> registered g r u c"
  shows "room_sound g r room"
  using assms by (simp add: room_sound_def)

lemma map_ok_filter: "map_ok m \<Longrightarrow> map_ok (filter P m)"
  by (simp add: map_ok_def mkeys_def distinct_map_filter)

lemma room_sound_filter: "room_sound h r room \<Longrightarrow> room_sound h r (filter P room)"
  by (simp add: room_sound_def map_ok_filter)

lemma mdel_filter: "mdel k m = filter (\<lambda>(k', _). k \<noteq> k') m"
  by (simp add: AList.delete_eq)

lemma room_sound_mdel: "room_sound h r room \<Longrightarrow> room_sound h r (mdel u room)"
  by (simp add: mdel_filter room_sound_filter)

text \<open>Two entries of a room for one user or one client are the same entry.\<close>

lemma room_entry_unique:
  assumes "room_sound h r room" "(u, c) \<in> set room" "(u', c') \<in> set room"
  shows "u' = u \<longleftrightarrow> c' = c"
proof
  assume "u' = u"
  then show "c' = c" using assms(2,3) mget_set [OF room_soundD(1) [OF assms(1)], of u c] mget_set [OF room_soundD(1) [OF assms(1)], of u c'] by simp
next
  assume "c' = c"
  then show "u' = u" using room_soundD(2) [OF assms(1,2)] room_soundD(2) [OF assms(1,3)] by (auto simp: registered_def)
qed

lemma registered_other:
  "registered h r u c \<Longrightarrow> rhClients g c = rhClients h c \<Longrightarrow> registered g r u c"
  by (simp add: registered_def)

lemma hub_rooms_ok_dropEmpty:
  assumes "\<And>r room. roomOf r h = Some room \<Longrightarrow> room_sound h r room" "\<And>r. r \<noteq> r' \<Longrightarrow> roomOf r h \<noteq> Some []"
  shows "hub_rooms_ok (dropEmptyRoom r' h)"
proof (rule hub_rooms_okI)
  fix r room assume room: "roomOf r (dropEmptyRoom r' h) = Some room"
  then have old: "roomOf r h = Some room" by (auto simp: roomOf_dropEmpty split: if_splits)
  show "room \<noteq> []" using room old assms(2) [of r] by (auto simp: roomOf_dropEmpty split: if_splits)
  show "room_sound (dropEmptyRoom r' h) r room"
    by (rule room_sound_mono [OF assms(1) [OF old]]) (simp add: registered_def)
qed

section \<open>Broadcasting\<close>

definition roomFull :: "roomClient \<Rightarrow> bool" where
  "roomFull cl \<longleftrightarrow> clientSendCapacity \<le> int (length (rcBuf cl))"

definition serve :: "payload \<Rightarrow> roomClient \<Rightarrow> roomClient" where
  "serve msg cl = (if roomFull cl then cl\<lparr>rcClosed := True\<rparr> else cl\<lparr>rcBuf := rcBuf cl @ [msg]\<rparr>)"

definition clientFull :: "roomHub \<Rightarrow> nat \<Rightarrow> bool" where
  "clientFull h c \<longleftrightarrow> (\<exists>cl. rhClients h c = Some cl \<and> roomFull cl)"

text \<open>The hub once the clients in \<open>dn\<close> have been served.\<close>

definition servedTo :: "string \<Rightarrow> payload \<Rightarrow> nat set \<Rightarrow> roomHub \<Rightarrow> roomHub \<Rightarrow> bool" where
  "servedTo r msg dn h g \<longleftrightarrow>
     (\<forall>c. rhClients g c = (if c \<in> dn then map_option (serve msg) (rhClients h c) else rhClients h c))
     \<and> (\<forall>r'. roomOf r' g = (if r' = r then map_option (filter (\<lambda>(u, c). \<not> (c \<in> dn \<and> clientFull h c))) (roomOf r h) else roomOf r' h))"

lemma servedToI:
  assumes "\<And>c. rhClients g c = (if c \<in> dn then map_option (serve msg) (rhClients h c) else rhClients h c)"
    "\<And>r'. roomOf r' g = (if r' = r then map_option (filter (\<lambda>(u, c). \<not> (c \<in> dn \<and> clientFull h c))) (roomOf r h) else roomOf r' h)"
  shows "servedTo r msg dn h g"
  using assms by (simp add: servedTo_def)

lemma servedToD:
  assumes "servedTo r msg dn h g"
  shows "rhClients g c = (if c \<in> dn then map_option (serve msg) (rhClients h c) else rhClients h c)"
    "roomOf r' g = (if r' = r then map_option (filter (\<lambda>(u, c). \<not> (c \<in> dn \<and> clientFull h c))) (roomOf r h) else roomOf r' h)"
  using assms by (simp_all add: servedTo_def)

lemma servedTo_one:
  assumes s: "servedTo r msg dn h g" and room: "roomOf r h = Some room" "room_sound h r room"
    and c: "(u, c) \<in> set room" "c \<notin> dn"
  obtains g' where "\<And>cs. broadcastTo r msg (c # cs) g = broadcastTo r msg cs g'" "servedTo r msg (insert c dn) h g'"
proof -
  obtain cl where cl: "rhClients h c = Some cl" "rcUser cl = u" "\<not> rcClosed cl"
    using room_soundD(2) [OF room(2) c(1)] by (auto simp: registered_def)
  have now: "rhClients g c = Some cl" using servedToD(1) [OF s, of c] c(2) cl(1) by simp
  show ?thesis
  proof (cases "roomFull cl")
    case True
    then have full: "clientFull h c" using cl(1) by (simp add: clientFull_def)
    define rest where "rest = filter (\<lambda>(u, c). \<not> (c \<in> dn \<and> clientFull h c)) room"
    define g' where "g' = setRoom r (Some (mdel u rest)) g\<lparr>rhClients := (rhClients g)(c \<mapsto> cl\<lparr>rcClosed := True\<rparr>)\<rparr>"
    have at: "roomOf r g = Some rest" using servedToD(2) [OF s, of r] room(1) by (simp add: rest_def)
    have "broadcastTo r msg (c # cs) g = broadcastTo r msg cs g'" for cs
      using True now cl(2,3)
      by (simp add: withClient_def andThen_def writeHub_def closeClient_def putClient_def roomFull_def at g'_def)
    moreover have "servedTo r msg (insert c dn) h g'"
    proof (rule servedToI)
      show "rhClients g' c' = (if c' \<in> insert c dn then map_option (serve msg) (rhClients h c') else rhClients h c')" for c'
        using servedToD(1) [OF s, of c'] cl(1) True by (simp add: g'_def serve_def)
      have "mdel u rest = filter (\<lambda>(u, c'). \<not> (c' \<in> insert c dn \<and> clientFull h c')) room"
        unfolding mdel_filter rest_def filter_filter
        by (rule filter_cong [OF refl]) (use room_entry_unique [OF room(2) c(1)] full in auto)
      then show "roomOf r' g' = (if r' = r then map_option (filter (\<lambda>(u, c'). \<not> (c' \<in> insert c dn \<and> clientFull h c'))) (roomOf r h) else roomOf r' h)" for r'
        using servedToD(2) [OF s, of r'] room(1) by (simp add: g'_def)
    qed
    ultimately show ?thesis by (rule that)
  next
    case False
    then have full: "\<not> clientFull h c" using cl(1) by (simp add: clientFull_def)
    define g' where "g' = g\<lparr>rhClients := (rhClients g)(c \<mapsto> cl\<lparr>rcBuf := rcBuf cl @ [msg]\<rparr>)\<rparr>"
    have "broadcastTo r msg (c # cs) g = broadcastTo r msg cs g'" for cs
      using False now cl(3) by (simp add: withClient_def andThen_def putClient_def roomFull_def g'_def)
    moreover have "servedTo r msg (insert c dn) h g'"
    proof (rule servedToI)
      show "rhClients g' c' = (if c' \<in> insert c dn then map_option (serve msg) (rhClients h c') else rhClients h c')" for c'
        using servedToD(1) [OF s, of c'] cl(1) False by (simp add: g'_def serve_def)
      have "(c' \<in> insert c dn \<and> clientFull h c') = (c' \<in> dn \<and> clientFull h c')" for c' using full by auto
      then show "roomOf r' g' = (if r' = r then map_option (filter (\<lambda>(u, c'). \<not> (c' \<in> insert c dn \<and> clientFull h c'))) (roomOf r h) else roomOf r' h)" for r'
        using servedToD(2) [OF s, of r'] by (simp add: g'_def)
    qed
    ultimately show ?thesis by (rule that)
  qed
qed

lemma servedTo_all:
  assumes room: "roomOf r h = Some room" "room_sound h r room"
  shows "servedTo r msg dn h g \<Longrightarrow> set xs \<subseteq> set room \<Longrightarrow> distinct (map snd xs) \<Longrightarrow> snd ` set xs \<inter> dn = {} \<Longrightarrow>
    \<exists>g'. broadcastTo r msg (map snd xs) g = (Inr (), g') \<and> servedTo r msg (dn \<union> snd ` set xs) h g'"
proof (induction xs arbitrary: dn g)
  case (Cons x xs)
  have "(fst x, snd x) \<in> set room" "snd x \<notin> dn" using Cons.prems by auto
  then obtain g' where g': "\<And>cs. broadcastTo r msg (snd x # cs) g = broadcastTo r msg cs g'" "servedTo r msg (insert (snd x) dn) h g'"
    using servedTo_one [OF Cons.prems(1) room] by blast
  have "\<exists>g''. broadcastTo r msg (map snd xs) g' = (Inr (), g'') \<and> servedTo r msg (insert (snd x) dn \<union> snd ` set xs) h g''"
    by (rule Cons.IH [OF g'(2)]) (use Cons.prems in auto)
  then show ?case using g'(1) by simp
qed (simp add: ret_def)

lemma room_clients_distinct: "room_sound h r room \<Longrightarrow> distinct (map snd room)"
proof -
  assume s: "room_sound h r room"
  have "distinct room" using room_soundD(1) [OF s] by (auto simp: map_ok_def mkeys_def distinct_map)
  moreover have "inj_on snd (set room)" using room_entry_unique [OF s] by (intro inj_onI) (metis prod.collapse)
  ultimately show ?thesis by (simp add: distinct_map)
qed

text \<open>What a broadcast to a room does, as long as the rooms are sound.\<close>

lemma BroadcastToRoom_run:
  assumes ok: "hub_rooms_ok h" and room: "roomOf r h = Some room"
  obtains g where "BroadcastToRoom r msg h = (Inr (), dropEmptyRoom r g)" "servedTo r msg (snd ` set room) h g"
proof -
  have s: "room_sound h r room" by (rule hub_rooms_okD(2) [OF ok room])
  have "servedTo r msg {} h h" by (rule servedToI) (simp_all add: room)
  then obtain g where "broadcastTo r msg (map snd room) h = (Inr (), g)" "servedTo r msg (snd ` set room) h g"
    using servedTo_all [OF room s, of msg "{}" h room] room_clients_distinct [OF s] by auto
  then show ?thesis using that [of g] room
    by (simp add: BroadcastToRoom_def andThen_def readHub_def writeHub_def)
qed

lemma hub_rooms_ok_Broadcast:
  assumes ok: "hub_rooms_ok h"
  shows "hub_rooms_ok (snd (BroadcastToRoom r msg h))"
proof (cases "roomOf r h")
  case None
  then show ?thesis using ok by (simp add: BroadcastToRoom_def andThen_def readHub_def ret_def)
next
  case (Some room)
  obtain g where run: "BroadcastToRoom r msg h = (Inr (), dropEmptyRoom r g)" and s: "servedTo r msg (snd ` set room) h g"
    by (rule BroadcastToRoom_run [OF ok Some])
  have "hub_rooms_ok (dropEmptyRoom r g)"
  proof (rule hub_rooms_ok_dropEmpty)
    fix r' room' assume at: "roomOf r' g = Some room'"
    show "room_sound g r' room'"
    proof (cases "r' = r")
      case True
      then have room': "room' = filter (\<lambda>(u, c). \<not> (c \<in> snd ` set room \<and> clientFull h c)) room"
        using at servedToD(2) [OF s, of r'] Some by simp
      show ?thesis unfolding room' True
      proof (rule room_sound_mono [OF room_sound_filter [OF hub_rooms_okD(2) [OF ok Some]]])
        fix u c assume "(u, c) \<in> set (filter (\<lambda>(u, c). \<not> (c \<in> snd ` set room \<and> clientFull h c)) room)" "registered h r u c"
        moreover from this have "c \<in> snd ` set room" "\<not> clientFull h c" by (force, force)
        moreover obtain cl where "rhClients h c = Some cl" "rcRoom cl = r" "rcUser cl = u" "\<not> rcClosed cl"
          using \<open>registered h r u c\<close> by (auto simp: registered_def)
        ultimately show "registered g r u c"
          using servedToD(1) [OF s, of c] by (simp add: registered_def serve_def clientFull_def)
      qed
    next
      case False
      then have old: "roomOf r' h = Some room'" using at servedToD(2) [OF s, of r'] by simp
      show ?thesis
      proof (rule room_sound_mono [OF hub_rooms_okD(2) [OF ok old]])
        fix u c assume reg: "registered h r' u c"
        have "c \<notin> snd ` set room"
        proof
          assume "c \<in> snd ` set room"
          then obtain u' where "(u', c) \<in> set room" by auto
          then show False
            using room_soundD(2) [OF hub_rooms_okD(2) [OF ok Some], of u' c] reg False by (auto simp: registered_def)
        qed
        then show "registered g r' u c" using reg servedToD(1) [OF s, of c] by (simp add: registered_def)
      qed
    qed
  next
    show "roomOf r' g \<noteq> Some []" if "r' \<noteq> r" for r'
      using that servedToD(2) [OF s, of r'] hub_rooms_okD(1) [OF ok, of r'] by auto
  qed
  then show ?thesis by (simp add: run)
qed

section \<open>Joining and leaving\<close>

lemma connect_run:
  "connect c r u h = (Inr (), setRoom r (Some (mput u c (case roomOf r h of None \<Rightarrow> [] | Some room \<Rightarrow> room)))
     (NewClient c r u h))"
  by (simp add: connect_def JoinRoom_def withClient_def writeHub_def NewClient_def)

lemma hub_rooms_ok_connect:
  assumes ok: "hub_rooms_ok h" and fresh: "rhClients h c = None"
  shows "hub_rooms_ok (snd (connect c r u h))"
proof (rule hub_rooms_okI)
  let ?g = "snd (connect c r u h)"
  fix r' room' assume at: "roomOf r' ?g = Some room'"
  have keep: "registered ?g r'' u' c'" if "registered h r'' u' c'" for r'' u' c'
    using that fresh by (auto simp: registered_def connect_run NewClient_def)
  have new: "registered ?g r u c" by (simp add: registered_def connect_run NewClient_def)
  have at': "roomOf r' ?g = (if r' = r then Some (mput u c (case roomOf r h of None \<Rightarrow> [] | Some room \<Rightarrow> room)) else roomOf r' h)"
    by (simp add: connect_run NewClient_def)
  show "room' \<noteq> []" using at at' hub_rooms_okD(1) [OF ok, of r' room'] by (auto split: if_splits)
  show "room_sound ?g r' room'"
  proof (cases "r' = r")
    case True
    define base where "base = (case roomOf r h of None \<Rightarrow> [] | Some room \<Rightarrow> room)"
    have "room_sound h r base"
      using hub_rooms_okD(2) [OF ok, of r] by (cases "roomOf r h") (simp_all add: base_def room_sound_def map_ok_def mkeys_def)
    note b = room_soundD [OF this]
    have r': "room' = mput u c base" using at at' True by (simp add: base_def)
    show ?thesis unfolding r' True
    proof (rule room_soundI)
      show "map_ok (mput u c base)" by (rule map_ok_mput [OF b(1)])
      fix u' c' assume "(u', c') \<in> set (mput u c base)"
      then have "mget (mput u c base) u' = Some c'" using mget_set [OF map_ok_mput [OF b(1)]] by blast
      then have "(u' = u \<and> c' = c) \<or> mget base u' = Some c'" by (auto split: if_splits)
      then show "registered ?g r u' c'" using new keep b(2) mget_set [OF b(1)] by blast
    qed
  next
    case False
    then have "roomOf r' h = Some room'" using at at' by simp
    then show ?thesis by (rule room_sound_mono [OF hub_rooms_okD(2) [OF ok]]) (rule keep)
  qed
qed

text \<open>Leaving: the client is taken out and its channel closed when the room lists this very client.\<close>

definition inRoom :: "roomHub \<Rightarrow> string \<Rightarrow> int \<Rightarrow> nat \<Rightarrow> bool" where
  "inRoom h r u c \<longleftrightarrow> (\<exists>room. roomOf r h = Some room \<and> mget room u = Some c)"

definition closedOff :: "nat \<Rightarrow> roomHub \<Rightarrow> roomHub" where
  "closedOff c h = h\<lparr>rhClients := (rhClients h)(c := map_option (\<lambda>cl. cl\<lparr>rcClosed := True\<rparr>) (rhClients h c))\<rparr>"

lemma LeaveRoom_absent:
  assumes ok: "hub_rooms_ok h" and cl: "rhClients h c = Some cl" and "\<not> inRoom h (rcRoom cl) (rcUser cl) c"
  shows "LeaveRoom c h = (Inr (), h)"
proof (cases "roomOf (rcRoom cl) h")
  case (Some room)
  have "mget room (rcUser cl) \<noteq> Some c" using assms(3) Some by (simp add: inRoom_def)
  then show ?thesis using Some cl hub_rooms_okD(1) [OF ok Some]
    by (simp add: LeaveRoom_def withClient_def readHub_def andThen_def writeHub_def ret_def dropEmptyRoom_def mlen_zero_iff)
qed (use cl in \<open>simp add: LeaveRoom_def withClient_def readHub_def andThen_def ret_def\<close>)

lemma LeaveRoom_present:
  assumes ok: "hub_rooms_ok h" and cl: "rhClients h c = Some cl" and room: "roomOf (rcRoom cl) h = Some room" "mget room (rcUser cl) = Some c"
  shows "LeaveRoom c h = (Inr (), dropEmptyRoom (rcRoom cl) (closedOff c (setRoom (rcRoom cl) (Some (mdel (rcUser cl) room)) h)))"
proof -
  have s: "room_sound h (rcRoom cl) room" by (rule hub_rooms_okD(2) [OF ok room(1)])
  have "(rcUser cl, c) \<in> set room" using room(2) by (simp add: mget_set [OF room_soundD(1) [OF s]])
  then have "\<not> rcClosed cl" using room_soundD(2) [OF s, of "rcUser cl" c] cl by (simp add: registered_def)
  then show ?thesis using cl room
    by (simp add: LeaveRoom_def withClient_def readHub_def andThen_def writeHub_def closeClient_def putClient_def closedOff_def)
qed

lemma hub_rooms_ok_Leave:
  assumes ok: "hub_rooms_ok h" and cl: "rhClients h c = Some cl"
  shows "hub_rooms_ok (snd (LeaveRoom c h))"
proof (cases "inRoom h (rcRoom cl) (rcUser cl) c")
  case False
  then show ?thesis using LeaveRoom_absent [OF ok cl] ok by simp
next
  case True
  then obtain room where room: "roomOf (rcRoom cl) h = Some room" "mget room (rcUser cl) = Some c" by (auto simp: inRoom_def)
  have s: "room_sound h (rcRoom cl) room" by (rule hub_rooms_okD(2) [OF ok room(1)])
  have mem: "(rcUser cl, c) \<in> set room" using room(2) by (simp add: mget_set [OF room_soundD(1) [OF s]])
  let ?g = "closedOff c (setRoom (rcRoom cl) (Some (mdel (rcUser cl) room)) h)"
  have at: "roomOf r ?g = (if r = rcRoom cl then Some (mdel (rcUser cl) room) else roomOf r h)" for r
    by (simp add: closedOff_def)
  have keep: "registered ?g r u c'" if "registered h r u c'" "c' \<noteq> c" for r u c'
    using that by (simp add: registered_def closedOff_def)
  have "hub_rooms_ok (dropEmptyRoom (rcRoom cl) ?g)"
  proof (rule hub_rooms_ok_dropEmpty)
    show "roomOf r ?g \<noteq> Some []" if "r \<noteq> rcRoom cl" for r using that at hub_rooms_okD(1) [OF ok, of r] by auto
    fix r room' assume r: "roomOf r ?g = Some room'"
    show "room_sound ?g r room'"
    proof (cases "r = rcRoom cl")
      case True
      then have room': "room' = mdel (rcUser cl) room" using r at by simp
      show ?thesis unfolding room' True
      proof (rule room_sound_mono [OF room_sound_mdel [OF s]])
        fix u c' assume "(u, c') \<in> set (mdel (rcUser cl) room)" and reg: "registered h (rcRoom cl) u c'"
        then have "u \<noteq> rcUser cl" "(u, c') \<in> set room" by (auto simp: mdel_filter)
        then show "registered ?g (rcRoom cl) u c'" using room_entry_unique [OF s mem] keep [OF reg] by blast
      qed
    next
      case False
      then have old: "roomOf r h = Some room'" using r at by simp
      show ?thesis
        by (rule room_sound_mono [OF hub_rooms_okD(2) [OF ok old]]) (rule keep, assumption, use False cl in \<open>auto simp: registered_def\<close>)
    qed
  qed
  then show ?thesis by (simp add: LeaveRoom_present [OF ok cl room])
qed

section \<open>Reachable hubs\<close>

text \<open>Connections come and go, messages arrive on the sockets, the rest of the server broadcasts,
  and queued messages are written out, in any order. A fresh connection is a fresh client.\<close>

inductive room_hub_step :: "roomHub \<Rightarrow> roomHub \<Rightarrow> bool" where
  connects: "rhClients h c = None \<Longrightarrow> room_hub_step h (snd (connect c r u h))"
| reads: "rhClients h c = Some cl \<Longrightarrow> readPumpTurn c x h = Some out \<Longrightarrow> room_hub_step h (snd out)"
| broadcasts: "room_hub_step h (snd (BroadcastToRoom r msg h))"
| writes: "room_hub_step h (writePumpTurn c h)"

inductive room_hub_reach :: "roomHub \<Rightarrow> bool" where
  start: "room_hub_reach NewRoomHub"
| step: "room_hub_reach h \<Longrightarrow> room_hub_step h h' \<Longrightarrow> room_hub_reach h'"

lemma hub_rooms_ok_buffer:
  assumes ok: "hub_rooms_ok h" and cl: "rhClients h c = Some cl"
  shows "hub_rooms_ok (h\<lparr>rhClients := (rhClients h)(c \<mapsto> cl\<lparr>rcBuf := b\<rparr>)\<rparr>)"
proof (rule hub_rooms_okI)
  let ?g = "h\<lparr>rhClients := (rhClients h)(c \<mapsto> cl\<lparr>rcBuf := b\<rparr>)\<rparr>"
  fix r room assume "roomOf r ?g = Some room"
  then have at: "roomOf r h = Some room" by simp
  show "room \<noteq> []" by (rule hub_rooms_okD(1) [OF ok at])
  show "room_sound ?g r room"
    by (rule room_sound_mono [OF hub_rooms_okD(2) [OF ok at]]) (use cl in \<open>auto simp: registered_def\<close>)
qed

lemma hub_rooms_ok_SendJSON:
  assumes "hub_rooms_ok h" "rhClients h c = Some cl" "SendJSON c msg h = Some out"
  shows "hub_rooms_ok (snd out)"
  using assms(3,1,2) hub_rooms_ok_buffer by (auto simp: SendJSON_def putClient_def split: if_splits)

lemma hub_rooms_ok_turn:
  assumes ok: "hub_rooms_ok h" and cl: "rhClients h c = Some cl" and out: "readPumpTurn c x h = Some out"
  shows "hub_rooms_ok (snd out)"
proof (cases x)
  case ReadFailed
  then show ?thesis using hub_rooms_ok_Leave [OF ok cl] out by auto
next
  case (Malformed d)
  then show ?thesis using hub_rooms_ok_SendJSON [OF ok cl] out by (simp add: SendError_def)
next
  case (ClientMessage type d)
  then show ?thesis
    using hub_rooms_ok_SendJSON [OF ok cl] hub_rooms_ok_Broadcast [OF ok] out cl
    by (auto simp: SendError_def withClient_def split: if_splits)
qed

lemma hub_rooms_ok_step: "room_hub_step h h' \<Longrightarrow> hub_rooms_ok h \<Longrightarrow> hub_rooms_ok h'"
proof (induction rule: room_hub_step.induct)
  case (writes h c)
  then show ?case using hub_rooms_ok_buffer by (simp add: writePumpTurn_def split: option.split)
qed (simp_all add: hub_rooms_ok_connect hub_rooms_ok_turn hub_rooms_ok_Broadcast)

lemma room_hub_reach_ok: "room_hub_reach h \<Longrightarrow> hub_rooms_ok h"
proof (induction rule: room_hub_reach.induct)
  case start
  then show ?case by (simp add: hub_rooms_ok_def roomOf_def roomSegment_def NewRoomHub_def)
qed (rule hub_rooms_ok_step)

lemma inRoom_entry: "hub_rooms_ok h \<Longrightarrow> roomOf r h = Some room \<Longrightarrow> inRoom h r u c \<longleftrightarrow> (u, c) \<in> set room"
  using mget_set [OF room_soundD(1) [OF hub_rooms_okD(2)]] by (simp add: inRoom_def)

lemma mget_filter: "map_ok m \<Longrightarrow> mget (filter P m) k = Some v \<longleftrightarrow> mget m k = Some v \<and> P (k, v)"
  by (simp add: mget_set map_ok_filter)

text \<open>(C28) A message to a room, from a player's socket or from the server, never panics. It is queued
  for exactly the clients of the room, at the end of what they have not read yet; a client whose
  queue is full is closed and leaves the room instead, and every other room and client stays as it is.\<close>

theorem BroadcastToRoom_delivers:
  assumes "room_hub_reach h"
  shows "\<exists>h'. BroadcastToRoom r msg h = (Inr (), h')
    \<and> (\<forall>c. rhClients h' c = (if \<exists>u. inRoom h r u c then map_option (serve msg) (rhClients h c) else rhClients h c))
    \<and> (\<forall>r' u c. inRoom h' r' u c \<longleftrightarrow> inRoom h r' u c \<and> \<not> (r' = r \<and> clientFull h c))"
proof (cases "roomOf r h")
  case None
  then have "BroadcastToRoom r msg h = (Inr (), h)" "\<not> inRoom h r u c" for u c
    by (simp_all add: BroadcastToRoom_def andThen_def readHub_def ret_def inRoom_def)
  then show ?thesis by auto
next
  case (Some room)
  have ok: "hub_rooms_ok h" by (rule room_hub_reach_ok [OF assms])
  obtain g where run: "BroadcastToRoom r msg h = (Inr (), dropEmptyRoom r g)" and s: "servedTo r msg (snd ` set room) h g"
    by (rule BroadcastToRoom_run [OF ok Some])
  have mem: "(\<exists>u. inRoom h r u c) \<longleftrightarrow> c \<in> snd ` set room" for c
    by (force simp: inRoom_entry [OF ok Some])
  have drop: "inRoom (dropEmptyRoom r g) r' u c \<longleftrightarrow> inRoom g r' u c" for r' u c
    by (auto simp: inRoom_def roomOf_dropEmpty)
  have "inRoom g r' u c \<longleftrightarrow> inRoom h r' u c \<and> \<not> (r' = r \<and> clientFull h c)" for r' u c
  proof (cases "r' = r")
    case True
    have "inRoom g r u c \<longleftrightarrow> mget room u = Some c \<and> \<not> (c \<in> snd ` set room \<and> clientFull h c)"
      using servedToD(2) [OF s, of r] Some mget_filter [OF room_soundD(1) [OF hub_rooms_okD(2) [OF ok Some]]]
      by (simp add: inRoom_def)
    moreover have "mget room u = Some c \<longleftrightarrow> inRoom h r u c" by (simp add: inRoom_def Some)
    ultimately show ?thesis using mem [of c] True by auto
  next
    case False
    then show ?thesis using servedToD(2) [OF s, of r'] by (simp add: inRoom_def)
  qed
  then show ?thesis using run servedToD(1) [OF s] by (intro exI [of _ "dropEmptyRoom r g"]) (simp add: drop mem)
qed

text \<open>Leaving never panics either, and is about one connection: it takes this client out of the room
  and closes its channel when the room still lists it; if it has been cut off before, or the player
  has connected again since, nothing changes.\<close>

theorem LeaveRoom_own_connection:
  assumes "room_hub_reach h" "rhClients h c = Some cl"
  shows "\<exists>h'. LeaveRoom c h = (Inr (), h')
    \<and> (\<forall>c'. rhClients h' c' = (if c' = c \<and> inRoom h (rcRoom cl) (rcUser cl) c then Some (cl\<lparr>rcClosed := True\<rparr>) else rhClients h c'))
    \<and> (\<forall>r u c'. inRoom h' r u c' \<longleftrightarrow> inRoom h r u c' \<and> c' \<noteq> c)"
proof -
  have ok: "hub_rooms_ok h" by (rule room_hub_reach_ok [OF assms(1)])
  have own: "inRoom h r u c \<Longrightarrow> r = rcRoom cl \<and> u = rcUser cl" for r u
  proof -
    assume "inRoom h r u c"
    then obtain room where room: "roomOf r h = Some room" "(u, c) \<in> set room" using inRoom_entry [OF ok] by (auto simp: inRoom_def)
    then show "r = rcRoom cl \<and> u = rcUser cl"
      using room_soundD(2) [OF hub_rooms_okD(2) [OF ok room(1)] room(2)] assms(2) by (auto simp: registered_def)
  qed
  show ?thesis
  proof (cases "inRoom h (rcRoom cl) (rcUser cl) c")
    case False
    then have "\<not> inRoom h r u c" for r u using own by blast
    then show ?thesis using LeaveRoom_absent [OF ok assms(2) False] False by auto
  next
    case True
    then obtain room where room: "roomOf (rcRoom cl) h = Some room" "mget room (rcUser cl) = Some c" by (auto simp: inRoom_def)
    define g where "g = closedOff c (setRoom (rcRoom cl) (Some (mdel (rcUser cl) room)) h)"
    have run: "LeaveRoom c h = (Inr (), dropEmptyRoom (rcRoom cl) g)" unfolding g_def by (rule LeaveRoom_present [OF ok assms(2) room])
    have at: "roomOf r g = (if r = rcRoom cl then Some (mdel (rcUser cl) room) else roomOf r h)" for r
      by (simp add: g_def closedOff_def)
    have "inRoom (dropEmptyRoom (rcRoom cl) g) r u c' \<longleftrightarrow> inRoom g r u c'" for r u c'
      by (auto simp: inRoom_def roomOf_dropEmpty)
    moreover have "inRoom g r u c' \<longleftrightarrow> inRoom h r u c' \<and> c' \<noteq> c" for r u c'
    proof (cases "r = rcRoom cl \<and> u = rcUser cl")
      case True
      then show ?thesis using at room by (auto simp: inRoom_def)
    next
      case False
      then have "inRoom g r u c' \<longleftrightarrow> inRoom h r u c'" using at room(1) by (auto simp: inRoom_def)
      then show ?thesis using own [of r u] False by blast
    qed
    moreover have "rhClients (dropEmptyRoom (rcRoom cl) g) c' = (if c' = c then Some (cl\<lparr>rcClosed := True\<rparr>) else rhClients h c')" for c'
      using assms(2) by (simp add: g_def closedOff_def)
    ultimately show ?thesis using run True by auto
  qed
qed

section \<open>After a cut\<close>

text \<open>A client that was cut off because its queue was full still reads from its socket; the next
  ping it sends makes the server send on the closed channel.\<close>

lemma ping_after_cut_panics:
  "rhClients h c = Some cl \<Longrightarrow> rcClosed cl \<Longrightarrow>
   readPumpTurn c (ClientMessage ''ping'' d) h = Some (Inl (Panic ''send on closed channel''), h)"
  by (simp add: SendJSON_def)

section \<open>An example\<close>

definition twoInRoom :: roomHub where
  "twoInRoom = snd (connect 4 ''r1'' 1002 (snd (connect 3 ''r1'' 1001 NewRoomHub)))"

lemma twoInRoom_reach: "room_hub_reach twoInRoom"
proof -
  have "room_hub_reach (snd (connect 3 ''r1'' 1001 NewRoomHub))"
    by (rule room_hub_reach.step [OF room_hub_reach.start room_hub_step.connects]) (simp add: NewRoomHub_def)
  then show ?thesis unfolding twoInRoom_def
    by (rule room_hub_reach.step [OF _ room_hub_step.connects]) (simp add: connect_run NewRoomHub_def NewClient_def)
qed

lemma twoInRoom_facts:
  "rhClients twoInRoom 3 = Some \<lparr>rcRoom = ''r1'', rcUser = 1001, rcBuf = [], rcClosed = False\<rparr>"
  "inRoom twoInRoom ''r1'' 1001 3" "inRoom twoInRoom ''r1'' 1002 4"
proof -
  have none: "roomOf ''r1'' NewRoomHub = None" by (simp add: roomOf_def roomSegment_def NewRoomHub_def)
  then show "rhClients twoInRoom 3 = Some \<lparr>rcRoom = ''r1'', rcUser = 1001, rcBuf = [], rcClosed = False\<rparr>"
    "inRoom twoInRoom ''r1'' 1001 3" "inRoom twoInRoom ''r1'' 1002 4"
    by (simp_all add: twoInRoom_def connect_run NewClient_def inRoom_def)
qed

lemma BroadcastToRoom_delivers_witness:
  "\<exists>h'. BroadcastToRoom ''r1'' (Relayed ''hi'') twoInRoom = (Inr (), h')
    \<and> rhClients h' 3 = Some \<lparr>rcRoom = ''r1'', rcUser = 1001, rcBuf = [Relayed ''hi''], rcClosed = False\<rparr>"
proof -
  have u: "(\<exists>u. inRoom twoInRoom ''r1'' u 3) = True" using twoInRoom_facts(2) by blast
  obtain h' where "BroadcastToRoom ''r1'' (Relayed ''hi'') twoInRoom = (Inr (), h')"
    and all: "\<forall>c. rhClients h' c = (if \<exists>u. inRoom twoInRoom ''r1'' u c
      then map_option (serve (Relayed ''hi'')) (rhClients twoInRoom c) else rhClients twoInRoom c)"
    using BroadcastToRoom_delivers [OF twoInRoom_reach, of "''r1''" "Relayed ''hi''"] by blast
  moreover have "rhClients h' 3 = map_option (serve (Relayed ''hi'')) (rhClients twoInRoom 3)"
    using spec [OF all, of 3] unfolding u by simp
  ultimately show ?thesis by (simp add: twoInRoom_facts(1) serve_def roomFull_def clientSendCapacity_def)
qed

lemma LeaveRoom_own_connection_witness:
  "\<exists>h'. LeaveRoom 3 twoInRoom = (Inr (), h') \<and> \<not> inRoom h' ''r1'' 1001 3 \<and> inRoom h' ''r1'' 1002 4"
proof -
  obtain h' where "LeaveRoom 3 twoInRoom = (Inr (), h')" "\<And>r u c'. inRoom h' r u c' \<longleftrightarrow> inRoom twoInRoom r u c' \<and> c' \<noteq> 3"
    using LeaveRoom_own_connection [OF twoInRoom_reach twoInRoom_facts(1)] by blast
  then show ?thesis using twoInRoom_facts by simp
qed

end
