(* ===== verification/Handlers.thy ===== *)
theory Handlers
  imports Accounts ChunkViews MatchQueue RankService MapHub RoomHub
begin

text \<open>
  The HTTP interface: \<^verbatim>\<open>internal/handler\<close> and the routes of \<^verbatim>\<open>cmd/api/main.go\<close>. A request is what gin hands
  to a handler: path and query parameters as text, a body as the result of binding it (\<open>None\<close> where
  binding failed). A reply is its HTTP status and the code, message and data of its JSON object;
  \<open>Recovered\<close> is the bare 500 that gin writes when a handler panics. The server is the stored state and the
  two hubs in its memory.
\<close>

section \<open>Requests and replies\<close>

datatype message = Text string | ErrorText err | StatusText QueueStatus

datatype reply_data =
    NoData
  | RegisterData int string
  | LoginData UserLoginResponse
  | UserData UserDetailResponse
  | ChunkListData ChunkListResponse
  | ChunkData ChunkSummaryResponse
  | SnapshotData ChunkSnapshotResponse
  | OpenData OpenMineCellResponse
  | FlagData FlagMineCellResponse
  | JoinData JoinMatchQueueResponse
  | QueueData StatusMatchQueueResponse
  | MatchData MatchInfoResponse
  | RoomData RoomInfoResponse
  | BoardData LeaderboardResponse

datatype reply = Json int int message reply_data | Recovered | Upgraded

definition okReply :: "reply_data \<Rightarrow> reply" where
  "okReply d = Json 200 0 (Text ''ok'') d"

definition failReply :: "int \<Rightarrow> message \<Rightarrow> reply" where
  "failReply status msg = Json status status msg NoData"

fun replyStatus :: "reply \<Rightarrow> int" where
  "replyStatus (Json s _ _ _) = s"
| "replyStatus Recovered = 500"
| "replyStatus Upgraded = 101"

record server =
  svWorld :: world
  svMap :: hub
  svRooms :: roomHub

text \<open>What the process was started with. \<open>apEncode\<close> and \<open>apEncodeReady\<close> are \<^verbatim>\<open>json.Marshal\<close> on the two kinds of events.\<close>

record ChunkEvent =
  ceType :: string
  ceChunkID :: string
  ceVersion :: int
  ceData :: reply_data

record api =
  apMac :: mac
  apWiring :: wiring
  apClosure :: int
  apDeps :: deps
  apJWT :: JWTManager
  apEncode :: "ChunkEvent \<Rightarrow> string option"
  apEncodeReady :: "string \<Rightarrow> RoomInfoResponse \<Rightarrow> string option"

text \<open>A service call inside a handler: the two branches of \<^verbatim>\<open>if err != nil\<close>, and a panic.\<close>

definition respond :: "'a io \<Rightarrow> (err \<Rightarrow> reply) \<Rightarrow> ('a \<Rightarrow> server \<Rightarrow> reply \<times> server) \<Rightarrow> server \<Rightarrow> reply \<times> server" where
  "respond m bad good sv = (case m (svWorld sv) of
     (Inl (Panic p), w) \<Rightarrow> (Recovered, sv\<lparr>svWorld := w\<rparr>)
   | (Inl e, w) \<Rightarrow> (bad e, sv\<lparr>svWorld := w\<rparr>)
   | (Inr a, w) \<Rightarrow> good a (sv\<lparr>svWorld := w\<rparr>))"

definition answer :: "reply \<Rightarrow> server \<Rightarrow> reply \<times> server" where
  "answer r sv = (r, sv)"

definition badRequest :: reply where
  "badRequest = failReply 400 (Text ''bad request'')"

section \<open>Accounts\<close>

definition handleRegister :: "api \<Rightarrow> (string \<Rightarrow> err + string) \<Rightarrow> (string \<times> string \<times> string) option \<Rightarrow> server \<Rightarrow> reply \<times> server" where
  "handleRegister ap bcrypt body = (case body of
     None \<Rightarrow> answer badRequest
   | Some (name, nickname, password) \<Rightarrow>
       respond (RegisterUser (apDeps ap) (bcrypt password) name nickname)
         (\<lambda>e. failReply 400 (ErrorText e))
         (\<lambda>u. answer (okReply (RegisterData (usID u) (usUserName u)))))"

definition handleLogin :: "api \<Rightarrow> (string \<times> string) option \<Rightarrow> server \<Rightarrow> reply \<times> server" where
  "handleLogin ap body = (case body of
     None \<Rightarrow> answer badRequest
   | Some (name, password) \<Rightarrow>
       respond (LoginUser (apDeps ap) (apJWT ap) name password)
         (\<lambda>e. failReply 400 (ErrorText e)) (\<lambda>r. answer (okReply (LoginData r))))"

definition handleMe :: "int \<Rightarrow> server \<Rightarrow> reply \<times> server" where
  "handleMe userID = respond (GetMe userID)
     (\<lambda>_. failReply 500 (Text ''getting the user failed'')) (\<lambda>r. answer (okReply (UserData r)))"

section \<open>The minefield\<close>

text \<open>\<^verbatim>\<open>errors.Is\<close> looks through wrapped errors.\<close>

fun errIs :: "err \<Rightarrow> err \<Rightarrow> bool" where
  "errIs (Wrap m e) t = (Wrap m e = t \<or> errIs e t)"
| "errIs e t = (e = t)"

definition chunkErrorReply :: "err \<Rightarrow> reply" where
  "chunkErrorReply e =
     (if errIs e ErrInvalidChunkID then failReply 400 (Text ''invalid chunk_id'')
      else if errIs e ErrChunkNotFound then failReply 404 (Text ''chunk not found'')
      else if errIs e ErrNoActiveSeason then failReply 503 (Text ''no active season'')
      else if errIs e ErrChunkClosed then failReply 409 (Text ''chunk is closed'')
      else if errIs e ErrCellAlreadyOpen then failReply 409 (Text ''cell is open'')
      else if errIs e ErrCellFlagged then failReply 409 (Text ''cell is flagged'')
      else if errIs e ErrMineMatchChunkOccupied then failReply 409 (Text ''chunk is in a match'')
      else if errIs e ErrMineMatchWrongChunk then failReply 403 (Text ''not the chunk of the match'')
      else failReply 500 (ErrorText e))"

text \<open>The query parameters after \<^verbatim>\<open>strconv.ParseFloat\<close>.\<close>

definition parseChunkBBox :: "f64 option \<Rightarrow> f64 option \<Rightarrow> f64 option \<Rightarrow> f64 option \<Rightarrow> ChunkBounds option" where
  "parseChunkBBox minX minY maxX maxY = (case (minX, minY, maxX, maxY) of
     (Some a, Some b, Some c, Some d) \<Rightarrow> Some \<lparr>MinX = a, MinY = b, MaxX = c, MaxY = d\<rparr>
   | _ \<Rightarrow> None)"

definition handleListChunks :: "api \<Rightarrow> string \<Rightarrow> ChunkBounds option \<Rightarrow> server \<Rightarrow> reply \<times> server" where
  "handleListChunks ap level bbox = (case (atoi level, bbox) of
     (Some l, Some b) \<Rightarrow> respond (ListChunks (apWiring ap) (apClosure ap) l b) chunkErrorReply (\<lambda>r. answer (okReply (ChunkListData r)))
   | _ \<Rightarrow> answer (chunkErrorReply ErrInvalidChunkID))"

definition handleGetChunk :: "api \<Rightarrow> string \<Rightarrow> server \<Rightarrow> reply \<times> server" where
  "handleGetChunk ap raw = respond (GetChunkSummary (apWiring ap) (apClosure ap) raw) chunkErrorReply (\<lambda>r. answer (okReply (ChunkData r)))"

definition handleGetSnapshot :: "api \<Rightarrow> string \<Rightarrow> server \<Rightarrow> reply \<times> server" where
  "handleGetSnapshot ap raw = respond (GetChunkSnapshot (apWiring ap) (apClosure ap) raw) chunkErrorReply (\<lambda>r. answer (okReply (SnapshotData r)))"

definition BroadcastChunkEvent :: "api \<Rightarrow> ChunkEvent \<Rightarrow> unit hubio" where
  "BroadcastChunkEvent ap ev = (case apEncode ap ev of
     None \<Rightarrow> ret ()
   | Some data \<Rightarrow> BroadcastToChunk (ceChunkID ev) data)"

definition openEvent :: "OpenMineCellResponse \<Rightarrow> ChunkEvent" where
  "openEvent r = \<lparr>ceType = (if opClosed r then ''mine.chunk_closed'' else ''mine.cell_opened''),
     ceChunkID = opChunkID r, ceVersion = opVersion r, ceData = OpenData r\<rparr>"

definition broadcastOpenCell :: "api \<Rightarrow> OpenMineCellResponse \<Rightarrow> unit hubio" where
  "broadcastOpenCell ap r = (if opCanceled r then ret () else BroadcastChunkEvent ap (openEvent r))"

definition flagEvent :: "FlagMineCellResponse \<Rightarrow> ChunkEvent" where
  "flagEvent r = \<lparr>ceType = ''mine.cell_flagged'', ceChunkID = flChunkID r, ceVersion = flVersion r, ceData = FlagData r\<rparr>"

definition broadcastFlagCell :: "api \<Rightarrow> FlagMineCellResponse \<Rightarrow> unit hubio" where
  "broadcastFlagCell ap r = BroadcastChunkEvent ap (flagEvent r)"

text \<open>An effect on a hub inside a handler.\<close>

definition onMap :: "unit hubio \<Rightarrow> reply \<Rightarrow> server \<Rightarrow> reply \<times> server" where
  "onMap m r sv = (case m (svMap sv) of
     (Inl _, h) \<Rightarrow> (Recovered, sv\<lparr>svMap := h\<rparr>) | (Inr _, h) \<Rightarrow> (r, sv\<lparr>svMap := h\<rparr>))"

definition onRooms :: "unit rhio \<Rightarrow> reply \<Rightarrow> server \<Rightarrow> reply \<times> server" where
  "onRooms m r sv = (case m (svRooms sv) of
     (Inl _, h) \<Rightarrow> (Recovered, sv\<lparr>svRooms := h\<rparr>) | (Inr _, h) \<Rightarrow> (r, sv\<lparr>svRooms := h\<rparr>))"

definition announce :: "api \<Rightarrow> chunkReply \<Rightarrow> server \<Rightarrow> reply \<times> server" where
  "announce ap r = (case r of
     OpenReply o1 \<Rightarrow> onMap (broadcastOpenCell ap o1) (okReply (OpenData o1))
   | FlagReply f \<Rightarrow> onMap (broadcastFlagCell ap f) (okReply (FlagData f)))"

definition handleOpenCell :: "api \<Rightarrow> int \<Rightarrow> string \<Rightarrow> (int \<times> int) option \<Rightarrow> server \<Rightarrow> reply \<times> server" where
  "handleOpenCell ap userID raw body = (case body of
     None \<Rightarrow> answer badRequest
   | Some (x, y) \<Rightarrow> respond (OpenCell (apMac ap) (apWiring ap) (apClosure ap) userID raw x y) chunkErrorReply (announce ap))"

definition handleFlagCell :: "api \<Rightarrow> int \<Rightarrow> string \<Rightarrow> (int \<times> int \<times> bool) option \<Rightarrow> server \<Rightarrow> reply \<times> server" where
  "handleFlagCell ap userID raw body = (case body of
     None \<Rightarrow> answer badRequest
   | Some (x, y, flagged) \<Rightarrow>
       respond (FlagCell (apMac ap) (apWiring ap) (apClosure ap) userID raw x y flagged) chunkErrorReply (announce ap))"

section \<open>Matches\<close>

definition handleJoin :: "api \<Rightarrow> int list \<Rightarrow> int \<Rightarrow> string option \<Rightarrow> server \<Rightarrow> reply \<times> server" where
  "handleJoin ap perm userID body = (case body of
     None \<Rightarrow> answer badRequest
   | Some mode \<Rightarrow> respond (Join (apWiring ap) perm userID mode)
       (\<lambda>e. failReply 500 (ErrorText e)) (\<lambda>r. answer (Json 200 0 (Text ''joined'') (JoinData r))))"

definition handleStatus :: "int \<Rightarrow> server \<Rightarrow> reply \<times> server" where
  "handleStatus userID = respond (Status userID)
     (\<lambda>_. failReply 500 (Text ''query failed'')) (\<lambda>r. answer (Json 200 0 (StatusText (srStatus r)) (QueueData r)))"

definition handleCancel :: "int \<Rightarrow> server \<Rightarrow> reply \<times> server" where
  "handleCancel userID = respond (Cancel userID)
     (\<lambda>_. failReply 500 (Text ''cancel failed'')) (\<lambda>r. answer (Json 200 0 (Text ''cancelled'') (QueueData r)))"

definition handleSetMatchResult :: "api \<Rightarrow> (int \<times> int) option \<Rightarrow> server \<Rightarrow> reply \<times> server" where
  "handleSetMatchResult ap body = (case body of
     None \<Rightarrow> answer badRequest
   | Some (matchID, winTeamNo) \<Rightarrow> respond (SetMatchResult (wiPublisher (apWiring ap)) matchID winTeamNo)
       (\<lambda>e. failReply 500 (ErrorText e)) (\<lambda>_. answer (okReply NoData)))"

definition handleGetMatchInfo :: "string \<Rightarrow> server \<Rightarrow> reply \<times> server" where
  "handleGetMatchInfo raw = (case atoi raw of
     None \<Rightarrow> answer (failReply 400 (Text ''invalid match ID''))
   | Some matchID \<Rightarrow> respond (GetMatchInfo matchID)
       (\<lambda>e. failReply 500 (ErrorText e)) (\<lambda>r. answer (okReply (MatchData r))))"

definition handleTop :: "string \<Rightarrow> string option \<Rightarrow> server \<Rightarrow> reply \<times> server" where
  "handleTop mode limit = (case atoi (case limit of None \<Rightarrow> ''20'' | Some l \<Rightarrow> l) of
     None \<Rightarrow> answer (failReply 400 (Text ''bad limit''))
   | Some l \<Rightarrow> respond (GetLeaderboard mode l)
       (\<lambda>e. failReply 400 (ErrorText e)) (\<lambda>r. answer (okReply (BoardData r))))"

section \<open>Rooms and sockets\<close>

definition handleGetRoom :: "int \<Rightarrow> string \<Rightarrow> server \<Rightarrow> reply \<times> server" where
  "handleGetRoom userID roomID = respond (GetRoom roomID userID)
     (\<lambda>_. failReply 404 (Text ''room not found'')) (\<lambda>r. answer (okReply (RoomData r)))"

definition handleReady :: "api \<Rightarrow> int \<Rightarrow> string \<Rightarrow> server \<Rightarrow> reply \<times> server" where
  "handleReady ap userID roomID = respond (ReadyPlayer roomID userID)
     (\<lambda>_. failReply 404 (Text ''room or player not found''))
     (\<lambda>_. respond (GetRoom roomID userID) (\<lambda>_. failReply 500 (Text ''getting the room failed''))
       (\<lambda>room. case apEncodeReady ap roomID room of
          None \<Rightarrow> answer (failReply 500 (Text ''encoding failed''))
        | Some data \<Rightarrow> onRooms (BroadcastToRoom roomID (Relayed data)) (okReply NoData)))"

text \<open>\<open>socket\<close> is the fresh client once the connection is upgraded, \<open>None\<close> if that fails.\<close>

definition handleJoinRoom :: "int \<Rightarrow> string \<Rightarrow> nat option \<Rightarrow> server \<Rightarrow> reply \<times> server" where
  "handleJoinRoom userID roomID socket = respond (CheckUserInRoom roomID userID)
     (\<lambda>_. failReply 403 (Text ''not in the room''))
     (\<lambda>inside. if \<not> inside then answer (failReply 403 (Text ''not in the room''))
       else (case socket of
         None \<Rightarrow> answer (failReply 500 (Text ''upgrade failed''))
       | Some c \<Rightarrow> onRooms (connect c roomID userID) Upgraded))"

definition handleJoinMap :: "nat option \<Rightarrow> server \<Rightarrow> reply \<times> server" where
  "handleJoinMap socket sv = (case socket of
     None \<Rightarrow> (failReply 500 (Text ''upgrade failed''), sv)
   | Some c \<Rightarrow> (Upgraded, sv\<lparr>svMap := HubJoin c (svMap sv)\<rparr>))"

section \<open>Routes\<close>

text \<open>The bodies and parameters of the routes; \<open>perm\<close> and \<open>bcrypt\<close> are the random choices made on the way.\<close>

datatype request =
    Register "string \<Rightarrow> err + string" "(string \<times> string \<times> string) option"
  | Login "(string \<times> string) option"
  | ListMap string "f64 option" "f64 option" "f64 option" "f64 option"
  | GetChunk string
  | GetSnapshot string
  | Leaderboard string "string option"
  | SocketRoom string "nat option"
  | SocketMap "nat option"
  | Me
  | OpenAt string "(int \<times> int) option"
  | FlagAt string "(int \<times> int \<times> bool) option"
  | QueueJoin "int list" "string option"
  | QueueQuery
  | QueueCancel
  | MatchResult "(int \<times> int) option"
  | MatchInfo string
  | RoomInfo string
  | RoomReady string

fun publicRoute :: "api \<Rightarrow> request \<Rightarrow> (server \<Rightarrow> reply \<times> server) option" where
  "publicRoute ap (Register bcrypt body) = Some (handleRegister ap bcrypt body)"
| "publicRoute ap (Login body) = Some (handleLogin ap body)"
| "publicRoute ap (ListMap level minX minY maxX maxY) = Some (handleListChunks ap level (parseChunkBBox minX minY maxX maxY))"
| "publicRoute ap (GetChunk raw) = Some (handleGetChunk ap raw)"
| "publicRoute ap (GetSnapshot raw) = Some (handleGetSnapshot ap raw)"
| "publicRoute ap _ = None"

fun userRoute :: "api \<Rightarrow> int \<Rightarrow> request \<Rightarrow> server \<Rightarrow> reply \<times> server" where
  "userRoute ap u (Leaderboard mode limit) = handleTop mode limit"
| "userRoute ap u (SocketRoom roomID socket) = handleJoinRoom u roomID socket"
| "userRoute ap u (SocketMap socket) = handleJoinMap socket"
| "userRoute ap u Me = handleMe u"
| "userRoute ap u (OpenAt raw body) = handleOpenCell ap u raw body"
| "userRoute ap u (FlagAt raw body) = handleFlagCell ap u raw body"
| "userRoute ap u (QueueJoin perm body) = handleJoin ap perm u body"
| "userRoute ap u QueueQuery = handleStatus u"
| "userRoute ap u QueueCancel = handleCancel u"
| "userRoute ap u (MatchResult body) = handleSetMatchResult ap body"
| "userRoute ap u (MatchInfo raw) = handleGetMatchInfo raw"
| "userRoute ap u (RoomInfo roomID) = handleGetRoom u roomID"
| "userRoute ap u (RoomReady roomID) = handleReady ap u roomID"
| "userRoute ap u _ = answer (failReply 404 (Text ''no such route''))"

definition handleRequest :: "api \<Rightarrow> credentials \<Rightarrow> request \<Rightarrow> server \<Rightarrow> reply \<times> server" where
  "handleRequest ap cr rq = (case publicRoute ap rq of
     Some handler \<Rightarrow> handler
   | None \<Rightarrow> respond (authenticate (apDeps ap) (apJWT ap) cr)
       (\<lambda>e. failReply 401 (ErrorText e)) (\<lambda>(userID, userName). userRoute ap userID rq))"

end
