(* ===== verification/AccountLaws.thy ===== *)
theory AccountLaws
  imports Accounts
begin

text \<open>
  What accounts promise: the table never holds two accounts with one id or with names MySQL takes
  for equal, under every failure; and who registers can log in with the password, and only with
  it, and is then recognised by the token until it expires.
\<close>

section \<open>What the libraries promise\<close>

text \<open>The collation is an equivalence.\<close>

definition coll_ok :: "deps \<Rightarrow> bool" where
  "coll_ok dp \<longleftrightarrow> (\<forall>a. dpSame dp a a) \<and> (\<forall>a b. dpSame dp a b \<longrightarrow> dpSame dp b a)
     \<and> (\<forall>a b c. dpSame dp a b \<longrightarrow> dpSame dp b c \<longrightarrow> dpSame dp a c)"

text \<open>
  A token is a non-empty text without white space at its ends. Parsed with the key it was signed
  with, it gives its claims back as long as it has not expired (expiry is kept in whole seconds), and an
  error from the second in which it expires on.
\<close>

definition jwt_ok :: "deps \<Rightarrow> bool" where
  "jwt_ok dp \<longleftrightarrow> (\<forall>secret cl. \<exists>tok. dpSign dp secret cl = Inr tok \<and> tok \<noteq> '''' \<and> trimSpace tok = tok
     \<and> (\<forall>key now. key True = Inr secret \<longrightarrow>
          (now + 1000000000 \<le> ucExpiresAt cl \<longrightarrow>
             (\<exists>cl'. dpParse dp key now tok = Inr (cl', True) \<and> ucUserID cl' = ucUserID cl \<and> ucUserName cl' = ucUserName cl))
        \<and> (ucExpiresAt cl \<le> now \<longrightarrow> (\<exists>e. dpParse dp key now tok = Inl e))))"

lemma jwt_okE:
  assumes "jwt_ok dp"
  obtains tok where "dpSign dp secret cl = Inr tok" "tok \<noteq> ''''" "trimSpace tok = tok"
    "\<And>key now. key True = Inr secret \<Longrightarrow> now + 1000000000 \<le> ucExpiresAt cl \<Longrightarrow>
       \<exists>cl'. dpParse dp key now tok = Inr (cl', True) \<and> ucUserID cl' = ucUserID cl \<and> ucUserName cl' = ucUserName cl"
    "\<And>key now. key True = Inr secret \<Longrightarrow> ucExpiresAt cl \<le> now \<Longrightarrow> \<exists>e. dpParse dp key now tok = Inl e"
  using assms unfolding jwt_ok_def by meson

section \<open>The table of accounts\<close>

definition users_ok :: "deps \<Rightarrow> world \<Rightarrow> bool" where
  "users_ok dp w \<longleftrightarrow> 0 < dbNextUserID w \<and> distinct (map usID (dbUsers w))
     \<and> (\<forall>u \<in> set (dbUsers w). 0 < usID u \<and> usID u < dbNextUserID w)
     \<and> (\<forall>u \<in> set (dbUsers w). \<forall>v \<in> set (dbUsers w). dpSame dp (usUserName u) (usUserName v) \<longrightarrow> u = v)"

lemma data_inv_users_ok: "data_inv (users_ok dp)"
  by (rule data_invI) (simp_all add: users_ok_def)

lemma users_ok_insert:
  assumes "coll_ok dp" "users_ok dp w"
  shows "users_ok dp (insertUser dp u w)"
proof (cases "nameTaken dp (usUserName u) w")
  case True
  then show ?thesis using assms(2) by (auto simp: insertUser_def users_ok_def)
next
  case False
  then have new: "\<not> dpSame dp (usUserName v) (usUserName u)" "\<not> dpSame dp (usUserName u) (usUserName v)"
    if "v \<in> set (dbUsers w)" for v using that assms(1) unfolding nameTaken_def coll_ok_def by blast+
  have "dbNextUserID w \<notin> set (map usID (dbUsers w))" using assms(2) by (auto simp: users_ok_def)
  then show ?thesis using assms(2) new False by (auto simp: insertUser_def users_ok_def)
qed

lemmas keeps_users = keeps_andThen keeps_rd [OF data_inv_users_ok] keeps_wr [OF data_inv_users_ok] keeps_timeNow [OF data_inv_users_ok]

lemma keeps_CreateUser: "coll_ok dp \<Longrightarrow> keeps (users_ok dp) (CreateUser dp u)"
  unfolding CreateUser_def by (intro keeps_users users_ok_insert gives_intros) auto

lemma keeps_RegisterUser: "coll_ok dp \<Longrightarrow> keeps (users_ok dp) (RegisterUser dp generated name nickname)"
  unfolding RegisterUser_def FindByUserName_def by (intro keeps_users keeps_CreateUser gives_intros) auto

lemma keeps_LoginUser: "keeps (users_ok dp) (LoginUser dp jm name password)"
  unfolding LoginUser_def FindByUserName_def GenerateToken_def by (intro keeps_users gives_intros) auto

lemma keeps_authenticate: "keeps (users_ok dp) (authenticate dp jm cr)"
  unfolding authenticate_def ParseToken_def by (intro keeps_users gives_onErr gives_intros) auto

lemma keeps_GetMe: "keeps (users_ok dp) (GetMe userID)"
  unfolding GetMe_def GetUserByID_def by (intro keeps_users gives_intros) auto

text \<open>Requests in any order with any failures; operators who ban or delete accounts in the database;
  and steps of the rest of the program, which does not touch the accounts.\<close>

inductive users_step :: "deps \<Rightarrow> world \<Rightarrow> world \<Rightarrow> bool" for dp where
  registers: "users_step dp w (snd (RegisterUser dp generated name nickname w))"
| logs_in: "users_step dp w (snd (LoginUser dp jm name password w))"
| asks: "users_step dp w (snd (andThen (authenticate dp jm cr) (\<lambda>(userID, _). GetMe userID) w))"
| moderated: "users_step dp w (w\<lparr>dbUsers := map (\<lambda>u. if usID u = i then u\<lparr>usStatus := s\<rparr> else u) (dbUsers w)\<rparr>)"
| elsewhere: "dbUsers w' = dbUsers w \<Longrightarrow> dbNextUserID w' = dbNextUserID w \<Longrightarrow> users_step dp w w'"

inductive users_reach :: "deps \<Rightarrow> world \<Rightarrow> bool" for dp where
  start: "users_reach dp emptyWorld"
| step: "users_reach dp w \<Longrightarrow> users_step dp w w' \<Longrightarrow> users_reach dp w'"

lemma users_ok_moderated:
  assumes "users_ok dp w"
  shows "users_ok dp (w\<lparr>dbUsers := map (\<lambda>u. if usID u = i then u\<lparr>usStatus := s\<rparr> else u) (dbUsers w)\<rparr>)"
proof -
  define f where "f u = (if usID u = i then u\<lparr>usStatus := s\<rparr> else u)" for u :: User
  have same: "usID (f u) = usID u" "usUserName (f u) = usUserName u" for u by (simp_all add: f_def)
  have "usID \<circ> f = usID" by (simp add: fun_eq_iff same)
  moreover have "f u = f v" if "u \<in> set (dbUsers w)" "v \<in> set (dbUsers w)" "dpSame dp (usUserName u) (usUserName v)" for u v
    using assms that unfolding users_ok_def by blast
  ultimately have "users_ok dp (w\<lparr>dbUsers := map f (dbUsers w)\<rparr>)"
    using assms unfolding users_ok_def by (simp add: same)
  then show ?thesis unfolding f_def .
qed

lemma users_ok_step: "users_step dp w w' \<Longrightarrow> coll_ok dp \<Longrightarrow> users_ok dp w \<Longrightarrow> users_ok dp w'"
proof (induction rule: users_step.induct)
  case (asks w jm cr)
  have "keeps (users_ok dp) (andThen (authenticate dp jm cr) (\<lambda>(userID, _). GetMe userID))"
    by (intro keeps_andThen keeps_authenticate gives_intros keeps_GetMe) 
  then show ?case using asks by (blast dest: givesD)
next
  case (moderated w i s)
  then show ?case by (simp add: users_ok_moderated)
next
  case (elsewhere w' w)
  then show ?case by (simp add: users_ok_def)
qed (blast dest: givesD [OF keeps_RegisterUser] givesD [OF keeps_LoginUser])+

lemma users_reach_ok: "users_reach dp w \<Longrightarrow> coll_ok dp \<Longrightarrow> users_ok dp w"
proof (induction rule: users_reach.induct)
  case start
  then show ?case by (simp add: users_ok_def emptyWorld_def)
qed (blast intro: users_ok_step)


section \<open>From registration to a recognised request\<close>

lemma findUser_unique:
  "P u \<Longrightarrow> usStatus u \<noteq> UserStatusDeleted \<Longrightarrow> \<forall>v \<in> set us. \<not> P v \<Longrightarrow> findUser P (us @ u # vs) = Some u"
  by (induction us) auto

definition registered_as :: "string \<Rightarrow> string \<Rightarrow> string \<Rightarrow> world \<Rightarrow> User" where
  "registered_as name nickname h w =
     \<lparr>usID = dbNextUserID w, usUserName = name, usNickname = nickname, usPasswordHash = h, usStatus = UserStatusNormal\<rparr>"

lemma RegisterUser_run:
  assumes "net w = []" "clock w = [t]" "0 < dbNextUserID w" "\<not> nameTaken dp name w"
  shows "RegisterUser dp (Inr h) name nickname w =
    (Inr (registered_as name nickname h w), w\<lparr>dbUsers := dbUsers w @ [registered_as name nickname h w], dbNextUserID := dbNextUserID w + 1\<rparr>)"
proof -
  have "findUser (\<lambda>u. dpSame dp (usUserName u) name) us = None" if "\<forall>u \<in> set us. \<not> dpSame dp (usUserName u) name" for us
    using that by (induction us) auto
  then have "findUser (\<lambda>u. dpSame dp (usUserName u) name) (dbUsers w) = None" using assms(4) by (simp add: nameTaken_def)
  then show ?thesis using assms
    by (simp add: RegisterUser_def FindByUserName_def andThen_def timeNow_const CreateUser_def insertUser_def ret_def registered_as_def Let_def)
qed

text \<open>A name that belongs to an account, also a deleted one, cannot be registered: nothing is stored.\<close>

lemma RegisterUser_taken:
  assumes "net w = []" "clock w = [t]" "nameTaken dp name w"
  shows "\<exists>e w'. RegisterUser dp (Inr h) name nickname w = (Inl e, w') \<and> dbUsers w' = dbUsers w"
  using assms
  by (cases "findUser (\<lambda>u. dpSame dp (usUserName u) name) (dbUsers w)")
     (auto simp: RegisterUser_def FindByUserName_def andThen_def fail_def timeNow_const CreateUser_def insertUser_def Let_def)

definition bearer :: "string \<Rightarrow> credentials" where
  "bearer tok = \<lparr>hdAuthorization = ''Bearer '' @ tok, hdQueryToken = '''', hdCookie = None\<rparr>"

definition atTime :: "int \<Rightarrow> world \<Rightarrow> world" where
  "atTime t w = w\<lparr>clock := [t]\<rparr>"

lemma bearer_recognised:
  assumes "tok \<noteq> ''''" "trimSpace tok = tok" "net w = []" "clock w = [t]"
  shows "dpParse dp (keyFor jm) t tok = Inr (cl, True) \<Longrightarrow> authenticate dp jm (bearer tok) w = (Inr (ucUserID cl, ucUserName cl), w)"
    "dpParse dp (keyFor jm) t tok = Inl e \<Longrightarrow> authenticate dp jm (bearer tok) w = (Inl (Errorf ''token invalid or expired''), w)"
  using assms by (simp_all add: authenticate_def extractToken_def bearer_def bearerPrefix_def ParseToken_def prog_defs timeNow_const)

text \<open>A new account is found by its name and by its id.\<close>

lemma new_account_found:
  fixes nickname h :: string
  assumes "coll_ok dp" "users_ok dp w" "\<not> nameTaken dp name w"
  defines "u \<equiv> registered_as name nickname h w"
  shows "findUser (\<lambda>v. dpSame dp (usUserName v) name) (dbUsers w @ [u]) = Some u"
    "findUser (\<lambda>v. usID v = dbNextUserID w) (dbUsers w @ [u]) = Some u"
proof -
  have u: "usID u = dbNextUserID w" "usUserName u = name" "usStatus u \<noteq> UserStatusDeleted"
    by (simp_all add: u_def registered_as_def UserStatusNormal_def UserStatusDeleted_def)
  show "findUser (\<lambda>v. dpSame dp (usUserName v) name) (dbUsers w @ [u]) = Some u"
  proof (rule findUser_unique)
    show "dpSame dp (usUserName u) name" using assms(1) by (simp add: u coll_ok_def)
    show "\<forall>v \<in> set (dbUsers w). \<not> dpSame dp (usUserName v) name" using assms(3) by (simp add: nameTaken_def)
  qed (rule u(3))
  show "findUser (\<lambda>v. usID v = dbNextUserID w) (dbUsers w @ [u]) = Some u"
    by (rule findUser_unique) (use assms(2) u in \<open>auto simp: users_ok_def\<close>)
qed

text \<open>(C26) A fresh name registers and gets the next id. From then on the right password logs in, one that
  bcrypt does not accept is refused, and the token of the login, sent back as a bearer token, is recognised as this user
  until it expires and refused afterwards. The account is what \<^verbatim>\<open>/me\<close> shows.\<close>

theorem register_login_recognised:
  assumes "coll_ok dp" "jwt_ok dp"
    and bcrypt: "dpCompare dp h password"
    and w: "net w = []" "clock w = [t]" "users_ok dp w" "\<not> nameTaken dp name w"
  shows "\<exists>u w1 tok. RegisterUser dp (Inr h) name nickname w = (Inr u, w1) \<and> usID u = dbNextUserID w
    \<and> (\<forall>p. \<not> dpCompare dp h p \<longrightarrow> LoginUser dp jm name p (atTime t1 w1) = (Inl badCredentials, atTime t1 w1))
    \<and> LoginUser dp jm name password (atTime t1 w1) = (Inr \<lparr>ulToken = tok, ulExpiresIn = jmExpire jm div 1000000000,
         ulUserID = usID u, ulUserName = name, ulNickname = nickname\<rparr>, atTime t1 w1)
    \<and> (t2 + 1000000000 \<le> t1 + jmExpire jm \<longrightarrow>
         authenticate dp jm (bearer tok) (atTime t2 w1) = (Inr (usID u, name), atTime t2 w1))
    \<and> (t1 + jmExpire jm \<le> t2 \<longrightarrow>
         authenticate dp jm (bearer tok) (atTime t2 w1) = (Inl (Errorf ''token invalid or expired''), atTime t2 w1))
    \<and> GetMe (usID u) (atTime t2 w1) = (Inr \<lparr>udUserName = name, udNickname = nickname\<rparr>, atTime t2 w1)"
proof -
  define u where "u = registered_as name nickname h w"
  define w1 where "w1 = w\<lparr>dbUsers := dbUsers w @ [u], dbNextUserID := dbNextUserID w + 1\<rparr>"
  have u: "usID u = dbNextUserID w" "usUserName u = name" "usNickname u = nickname" "usPasswordHash u = h" "usStatus u = UserStatusNormal"
    by (simp_all add: u_def registered_as_def)
  have st: "UserStatusNormal \<noteq> UserStatusDeleted" "UserStatusNormal \<noteq> UserStatusBanned"
    by (simp_all add: UserStatusNormal_def UserStatusDeleted_def UserStatusBanned_def)
  have reg: "RegisterUser dp (Inr h) name nickname w = (Inr u, w1)"
    unfolding u_def w1_def using RegisterUser_run [OF w(1,2) _ w(4)] w(3) by (simp add: users_ok_def)
  have net: "net (atTime s w1) = []" "clock (atTime s w1) = [s]" "dbUsers (atTime s w1) = dbUsers w @ [u]" for s
    by (simp_all add: w1_def atTime_def w(1))
  note found = new_account_found [OF assms(1) w(3,4), of nickname h, folded u_def]
  define cl where "cl = claimsFor jm u t1"
  have cl: "ucUserID cl = usID u" "ucUserName cl = name" "ucExpiresAt cl = t1 + jmExpire jm"
    by (simp_all add: cl_def claimsFor_def u)
  obtain tok where tok: "dpSign dp (jmSecret jm) cl = Inr tok" "tok \<noteq> ''''" "trimSpace tok = tok"
    and valid: "\<And>now. now + 1000000000 \<le> ucExpiresAt cl \<Longrightarrow>
       \<exists>cl'. dpParse dp (keyFor jm) now tok = Inr (cl', True) \<and> ucUserID cl' = ucUserID cl \<and> ucUserName cl' = ucUserName cl"
    and expired: "\<And>now. ucExpiresAt cl \<le> now \<Longrightarrow> \<exists>e. dpParse dp (keyFor jm) now tok = Inl e"
    using jwt_okE [OF assms(2), of "jmSecret jm" cl] by (metis keyFor_def)
  have login: "LoginUser dp jm name p (atTime t1 w1) = (if dpCompare dp h p then (Inr \<lparr>ulToken = tok, ulExpiresIn = jmExpire jm div 1000000000,
         ulUserID = usID u, ulUserName = name, ulNickname = nickname\<rparr>, atTime t1 w1) else (Inl badCredentials, atTime t1 w1))" for p
    using tok(1) st
    by (simp add: LoginUser_def FindByUserName_def andThen_def net found(1) CheckPassword_def u fail_def GenerateToken_def
        timeNow_const liftE_def ret_def cl_def)
  have ok: "authenticate dp jm (bearer tok) (atTime t2 w1) = (Inr (usID u, name), atTime t2 w1)" if early: "t2 + 1000000000 \<le> t1 + jmExpire jm"
  proof -
    obtain cl' where "dpParse dp (keyFor jm) t2 tok = Inr (cl', True)" "ucUserID cl' = usID u" "ucUserName cl' = name"
      using valid [of t2] early cl by auto
    then show ?thesis using bearer_recognised(1) [OF tok(2,3) net(1,2)] by simp
  qed
  have late: "authenticate dp jm (bearer tok) (atTime t2 w1) = (Inl (Errorf ''token invalid or expired''), atTime t2 w1)" if past: "t1 + jmExpire jm \<le> t2"
  proof -
    obtain e where "dpParse dp (keyFor jm) t2 tok = Inl e" using expired [of t2] past cl by auto
    then show ?thesis by (rule bearer_recognised(2) [OF tok(2,3) net(1,2)])
  qed
  have me: "GetMe (usID u) (atTime t2 w1) = (Inr \<lparr>udUserName = name, udNickname = nickname\<rparr>, atTime t2 w1)"
    by (simp add: GetMe_def GetUserByID_def andThen_def net ret_def found(2) u)
  have wrong: "\<forall>p. \<not> dpCompare dp h p \<longrightarrow> LoginUser dp jm name p (atTime t1 w1) = (Inl badCredentials, atTime t1 w1)"
    using login by simp
  note right = login [of password, unfolded if_P [OF bcrypt]]
  show ?thesis
    by (rule exI [of _ u], rule exI [of _ w1], rule exI [of _ tok]) (intro conjI reg u(1) wrong right ok late me impI)
qed

section \<open>An example\<close>

text \<open>A small implementation of the libraries: hashes and tokens in the clear, numbers in unary.\<close>

definition unary :: "int \<Rightarrow> string" where
  "unary i = (if i < 0 then ''n'' else ''p'') @ replicate (nat \<bar>i\<bar>) CHR ''a'' @ ''b''"

definition readUnary :: "string \<Rightarrow> int \<times> string" where
  "readUnary s = (let n = int (length (takeWhile (\<lambda>c. c = CHR ''a'') (tl s))) in
     (if hd s = CHR ''n'' then - n else n, tl (dropWhile (\<lambda>c. c = CHR ''a'') (tl s))))"

definition plainSign :: "string \<Rightarrow> UserClaims \<Rightarrow> err + string" where
  "plainSign secret cl = Inr (unary (ucUserID cl) @ unary (ucExpiresAt cl) @ ucUserName cl @ ''e'')"

definition plainParse :: "(bool \<Rightarrow> err + string) \<Rightarrow> int \<Rightarrow> string \<Rightarrow> err + UserClaims \<times> bool" where
  "plainParse key now tok = bindE (key True) (\<lambda>_.
     case readUnary tok of (i, rest) \<Rightarrow> case readUnary rest of (expiry, name) \<Rightarrow>
       if expiry \<le> now then Inl (Errorf ''expired'')
       else Inr (\<lparr>ucUserID = i, ucUserName = butlast name, ucSubject = itoa i, ucIssuedAt = 0, ucExpiresAt = expiry\<rparr>, True))"

definition plainDeps :: deps where
  "plainDeps = \<lparr>dpCompare = (\<lambda>h p. h = p), dpSign = plainSign, dpParse = plainParse, dpSame = (=)\<rparr>"

lemma readUnary_unary: "readUnary (unary i @ s) = (i, s)"
proof -
  have "takeWhile (\<lambda>c. c = CHR ''a'') (replicate n CHR ''a'' @ CHR ''b'' # s) = replicate n CHR ''a''"
    "dropWhile (\<lambda>c. c = CHR ''a'') (replicate n CHR ''a'' @ CHR ''b'' # s) = CHR ''b'' # s" for n
    by (induction n) auto
  then show ?thesis by (simp add: readUnary_def unary_def)
qed

lemma trim_plain: "\<not> is_space c \<Longrightarrow> \<not> is_space d \<Longrightarrow> trimSpace (c # s @ [d]) = c # s @ [d]"
  by (simp add: trimSpace_def)

lemma trim_token: "trimSpace (unary i @ s @ ''e'') = unary i @ s @ ''e''"
proof -
  have "\<not> is_space CHR ''n''" "\<not> is_space CHR ''p''" "\<not> is_space CHR ''e''" by (simp_all add: is_space_def)
  note trim = trim_plain [OF this(1,3), of "replicate (nat \<bar>i\<bar>) CHR ''a'' @ CHR ''b'' # s"]
    trim_plain [OF this(2,3), of "replicate (nat \<bar>i\<bar>) CHR ''a'' @ CHR ''b'' # s"]
  then show ?thesis by (cases "i < 0") (simp_all add: unary_def)
qed

lemma plain_jwt: "jwt_ok plainDeps"
  unfolding jwt_ok_def
proof (intro allI)
  fix secret :: string and cl :: UserClaims
  let ?tok = "unary (ucUserID cl) @ unary (ucExpiresAt cl) @ ucUserName cl @ ''e''"
  have parse: "plainParse key now ?tok = (if ucExpiresAt cl \<le> now then Inl (Errorf ''expired'')
     else Inr (\<lparr>ucUserID = ucUserID cl, ucUserName = ucUserName cl, ucSubject = itoa (ucUserID cl), ucIssuedAt = 0, ucExpiresAt = ucExpiresAt cl\<rparr>, True))"
    if "key True = Inr secret" for key now using that by (simp add: plainParse_def readUnary_unary)
  have trim: "trimSpace ?tok = ?tok" using trim_token [of "ucUserID cl" "unary (ucExpiresAt cl) @ ucUserName cl"] by simp
  show "\<exists>tok. dpSign plainDeps secret cl = Inr tok \<and> tok \<noteq> '''' \<and> trimSpace tok = tok
     \<and> (\<forall>key now. key True = Inr secret \<longrightarrow>
          (now + 1000000000 \<le> ucExpiresAt cl \<longrightarrow>
             (\<exists>cl'. dpParse plainDeps key now tok = Inr (cl', True) \<and> ucUserID cl' = ucUserID cl \<and> ucUserName cl' = ucUserName cl))
        \<and> (ucExpiresAt cl \<le> now \<longrightarrow> (\<exists>e. dpParse plainDeps key now tok = Inl e)))"
    by (rule exI [of _ ?tok]) (use trim parse in \<open>simp add: plainDeps_def plainSign_def\<close>)
qed

lemma plain_coll: "coll_ok plainDeps"
  by (simp add: coll_ok_def plainDeps_def)

definition oneHour :: JWTManager where
  "oneHour = \<lparr>jmSecret = ''secret'', jmExpire = 3600000000000\<rparr>"

lemma register_login_recognised_witness:
  "\<exists>w1 tok. fst (LoginUser plainDeps oneHour ''player1'' ''pass word'' (atTime 50 w1)) = Inr \<lparr>ulToken = tok, ulExpiresIn = 3600, ulUserID = 1,
      ulUserName = ''player1'', ulNickname = ''Player''\<rparr>
    \<and> fst (authenticate plainDeps oneHour (bearer tok) (atTime 60 w1)) = Inr (1, ''player1'')"
proof -
  let ?w = "emptyWorld\<lparr>clock := [7]\<rparr>"
  have w: "net ?w = []" "clock ?w = [7]" "users_ok plainDeps ?w" "\<not> nameTaken plainDeps ''player1'' ?w" "dbNextUserID ?w = 1"
    by (simp_all add: emptyWorld_def users_ok_def nameTaken_def)
  have cmp: "dpCompare plainDeps ''pass word'' ''pass word''" by (simp add: plainDeps_def)
  obtain u w1 tok where "RegisterUser plainDeps (Inr ''pass word'') ''player1'' ''Player'' ?w = (Inr u, w1)" "usID u = dbNextUserID ?w"
    "LoginUser plainDeps oneHour ''player1'' ''pass word'' (atTime 50 w1) = (Inr \<lparr>ulToken = tok, ulExpiresIn = jmExpire oneHour div 1000000000,
       ulUserID = usID u, ulUserName = ''player1'', ulNickname = ''Player''\<rparr>, atTime 50 w1)"
    "60 + 1000000000 \<le> 50 + jmExpire oneHour \<longrightarrow>
       authenticate plainDeps oneHour (bearer tok) (atTime 60 w1) = (Inr (usID u, ''player1''), atTime 60 w1)"
    using register_login_recognised [OF plain_coll plain_jwt cmp w(1-4), of "''Player''" oneHour 50 60]
    by (elim exE conjE) (rule that; assumption)
  then show ?thesis unfolding w(5) by (intro exI [of _ w1] exI [of _ tok]) (simp add: oneHour_def)
qed


end
