(* ===== verification/Footprint.thy ===== *)
theory Footprint
  imports AccountLaws MatchQueueInv ChunkViews RankService
begin

text \<open>
  What each operation of the server leaves alone. For each part of the stored state there is a class
  of assertions that the writes of that part cannot break; an assertion of the class
  survives every operation that makes only such writes. The components' invariants are
  carried across each other's operations with these facts (\<open>footprints\<close>).
\<close>

named_theorems footprints "operations that keep an assertion"

section \<open>The minefield\<close>

definition outside_chunks :: "(world \<Rightarrow> bool) \<Rightarrow> bool" where
  "outside_chunks I \<longleftrightarrow> data_inv I \<and> (\<forall>st. stable I (storeChunk st))"

lemma outside_chunks_inv: "outside_chunks I \<Longrightarrow> data_inv I"
  by (simp add: outside_chunks_def)

lemmas chunk_frame = read_frame [OF outside_chunks_inv]

lemma frame_SaveState: "outside_chunks I \<Longrightarrow> keeps I (SaveState st)"
  unfolding SaveState_def by (rule keeps_stable_wr) (simp_all add: outside_chunks_def)

lemma frame_activeSeason: "outside_chunks I \<Longrightarrow> keeps I activeSeason"
  unfolding activeSeason_def by (auto intro!: keeps_andThen gives_intros chunk_frame)

lemma frame_loadChunkState: "outside_chunks I \<Longrightarrow> keeps I (loadChunkState s c)"
  unfolding loadChunkState_def by (rule chunk_frame)

lemma frame_reopen: "outside_chunks I \<Longrightarrow> keeps I (reopenExpiredChunk dur st now)"
  unfolding reopenExpiredChunk_def Let_def by (auto intro!: keeps_andThen gives_intros frame_SaveState)

lemma frame_reopenIfStored: "outside_chunks I \<Longrightarrow> keeps I (reopenIfStored dur state now)"
  unfolding reopenIfStored_def by (auto intro!: keeps_andThen gives_intros frame_reopen)

lemma frame_enterChunk: "outside_chunks I \<Longrightarrow> keeps I (enterChunk wi dur u c)"
  unfolding enterChunk_def authorizeMineMatchOperation_def loadOrNewChunkState_def
  by (auto intro!: keeps_andThen gives_intros chunk_frame frame_activeSeason frame_loadChunkState frame_reopen)

lemma frame_applyOpen: "outside_match I \<Longrightarrow> keeps I (applyMineMatchOpenResult mac wi u s c st r)"
  unfolding applyMineMatchOpenResult_def by (auto intro!: gives_intros match_frame)

lemma frame_openCellInWorker: "outside_chunks I \<Longrightarrow> outside_match I \<Longrightarrow> keeps I (openCellInWorker mac wi dur u c x y)"
  unfolding openCellInWorker_def Let_def
  by (auto intro!: keeps_andThen gives_intros chunk_frame frame_enterChunk frame_SaveState frame_applyOpen)

lemma frame_flagCellInWorker: "outside_chunks I \<Longrightarrow> keeps I (flagCellInWorker wi dur u c x y f)"
  unfolding flagCellInWorker_def Let_def
  by (auto intro!: keeps_andThen gives_intros frame_enterChunk frame_SaveState)

lemma frame_OpenCell [footprints]: "outside_chunks I \<Longrightarrow> outside_match I \<Longrightarrow> keeps I (OpenCell mac wi dur u raw x y)"
  unfolding OpenCell_def handleChunkOperation_def by (auto intro!: keeps_andThen gives_intros frame_openCellInWorker)

lemma frame_FlagCell [footprints]: "outside_chunks I \<Longrightarrow> keeps I (FlagCell mac wi dur u raw x y f)"
  unfolding FlagCell_def handleChunkOperation_def by (auto intro!: keeps_andThen gives_intros frame_flagCellInWorker)

lemma frame_ListClosed: "outside_chunks I \<Longrightarrow> keeps I (ListClosedLeafChunkIDs s)"
  unfolding ListClosedLeafChunkIDs_def by (rule chunk_frame)

lemma frame_GetChunkSummary [footprints]: "outside_chunks I \<Longrightarrow> keeps I (GetChunkSummary wi dur raw)"
  unfolding GetChunkSummary_def
  by (auto intro!: keeps_andThen gives_intros chunk_frame frame_activeSeason frame_loadChunkState frame_reopenIfStored frame_ListClosed)

lemma frame_GetChunkSnapshot [footprints]: "outside_chunks I \<Longrightarrow> keeps I (GetChunkSnapshot wi dur raw)"
  unfolding GetChunkSnapshot_def
  by (auto intro!: keeps_andThen gives_intros chunk_frame frame_activeSeason frame_loadChunkState frame_reopenIfStored)

lemma frame_loadLeaves: "outside_chunks I \<Longrightarrow> keeps I (loadLeaves dur s now cs m)"
  by (induction cs arbitrary: m) (auto intro!: keeps_andThen gives_ret frame_loadChunkState frame_reopenIfStored)

lemma frame_ListChunks [footprints]: "outside_chunks I \<Longrightarrow> keeps I (ListChunks wi dur level b)"
  unfolding ListChunks_def Let_def
  by (auto intro!: keeps_andThen gives_intros chunk_frame frame_activeSeason frame_loadLeaves frame_ListClosed)

section \<open>Match making\<close>

definition outside_queue :: "(world \<Rightarrow> bool) \<Rightarrow> bool" where
  "outside_queue I \<longleftrightarrow> data_inv I \<and> (\<forall>mode u. stable I (pushQueue mode u)) \<and> (\<forall>mode n. stable I (popQueue mode n))
     \<and> (\<forall>mode u. stable I (dropFromQueue mode u)) \<and> (\<forall>st. stable I (storeUser st)) \<and> (\<forall>u. stable I (forgetUser u))"

lemma outside_queue_inv: "outside_queue I \<Longrightarrow> data_inv I"
  by (simp add: outside_queue_def)

lemmas queue_frame = read_frame [OF outside_queue_inv]

lemma frame_queue_wr:
  assumes "outside_queue I"
  shows "keeps I (Enqueue mode u)" "keeps I (DequeueBatch mode n)" "keeps I (RemoveFromQueue mode u)"
    "keeps I (SetUserStatus st)" "keeps I (DeleteUserStatus u)"
  unfolding Enqueue_def DequeueBatch_def RemoveFromQueue_def SetUserStatus_def DeleteUserStatus_def
  using assms by (auto simp: outside_queue_def intro!: keeps_stable_wr)

lemma frame_queue_rd:
  assumes "outside_queue I"
  shows "keeps I (QueueLen mode)" "keeps I (GetUserStatus u)"
  unfolding QueueLen_def GetUserStatus_def using assms by (auto intro!: queue_frame)

lemmas queue_steps = keeps_andThen gives_onErr gives_intros gives_wrap queue_frame frame_queue_wr frame_queue_rd

lemma frame_updateUsers: "outside_queue I \<Longrightarrow> keeps I (updateUsers f us)"
  by (induction us) (auto intro!: queue_steps)

lemma frame_restoreUsers: "outside_queue I \<Longrightarrow> keeps I (restoreUsers mode us)"
  by (induction us) (auto intro!: queue_steps)

text \<open>A group that comes out of the queue has players.\<close>

definition has_players :: "MatchedTeam list \<Rightarrow> bool" where
  "has_players teams \<longleftrightarrow> (\<exists>t \<in> set teams. mtUserIDs t \<noteq> [])"

lemma buildTeams_has_players: "buildTeams mode us = Inr teams \<Longrightarrow> 0 < getPlayerCount mode \<Longrightarrow> has_players teams"
  by (auto simp: buildTeams_def getPlayerCount_def has_players_def mkTeam_def split: if_splits list.splits)

lemma frame_FindMatchGroup:
  assumes "outside_queue I"
  shows "gives I (FindMatchGroup mode) (\<lambda>g. \<forall>teams r. g = Some (teams, r) \<longrightarrow> has_players teams)"
proof (cases "0 < getPlayerCount mode")
  case True
  then show ?thesis unfolding FindMatchGroup_def generateRoomID_def Let_def
    using assms keeps_timeNow [OF outside_queue_inv [OF assms]]
    by (auto intro!: gives_ret gives_andThen [OF gives_wrap [OF frame_queue_rd(1)]] gives_andThen [OF gives_wrap [OF frame_queue_wr(2)]]
        gives_andThen [OF keeps_andThen] gives_andThen [OF gives_liftE [OF buildTeams_has_players]])
qed (simp add: FindMatchGroup_def gives_fail)

text \<open>Match making creates rooms, always for players.\<close>

definition allows_rooms :: "(world \<Rightarrow> bool) \<Rightarrow> bool" where
  "allows_rooms I \<longleftrightarrow> (\<forall>r mode m teams. has_players teams \<longrightarrow> keeps I (CreateRoom r mode m teams))"

lemma frame_startMatch:
  assumes "outside_queue I" "outside_match I" "allows_rooms I" "has_players teams"
  shows "keeps I (startMatch wi perm mode teams r)"
  unfolding startMatch_def restoreMatchedUsers_def updateUserStateToMatched_def updateUserStateChunk_def
  using assms by (auto simp: allows_rooms_def intro!: queue_steps match_frame frame_updateUsers frame_restoreUsers)

text \<open>Joining keeps what starting a match keeps.\<close>

lemma frame_joinNew:
  assumes "outside_queue I" "\<And>teams r. has_players teams \<Longrightarrow> keeps I (startMatch wi perm mode teams r)"
  shows "keeps I (joinNew wi perm u mode)"
proof -
  have start: "keeps I (case g of None \<Rightarrow> ret () | Some (teams, r) \<Rightarrow> startMatch wi perm mode teams r)"
    if "\<forall>teams r. g = Some (teams, r) \<longrightarrow> has_players teams" for g
    using that assms(2) by (auto intro!: gives_intros split: option.split)
  have rest: "keeps I (andThen (wrapErr m1 (FindMatchGroup mode)) (\<lambda>g.
      andThen (case g of None \<Rightarrow> ret () | Some (teams, r) \<Rightarrow> startMatch wi perm mode teams r) (\<lambda>_.
      andThen (wrapErr m2 (GetUserStatus u)) buildJoinResponse)))" for m1 m2
    by (rule gives_andThen [OF gives_wrap [OF frame_FindMatchGroup [OF assms(1)]]])
      (auto simp: buildJoinResponse_def intro!: keeps_andThen start gives_wrap gives_intros frame_queue_rd assms(1))
  note time = keeps_timeNow [OF outside_queue_inv [OF assms(1)]]
  have ticket: "keeps I generateQueueTicketID" unfolding generateQueueTicketID_def by (rule keeps_andThen [OF time gives_ret]) simp
  show ?thesis unfolding joinNew_def
    by (rule keeps_andThen [OF time], rule keeps_andThen [OF ticket],
        rule keeps_andThen [OF gives_wrap [OF frame_queue_wr(4) [OF assms(1)]]],
        rule keeps_andThen [OF gives_wrap [OF frame_queue_wr(1) [OF assms(1)]]], rule rest)
qed

lemma frame_Join_start:
  assumes "outside_queue I" "\<And>mode teams r. has_players teams \<Longrightarrow> keeps I (startMatch wi perm mode teams r)"
  shows "keeps I (Join wi perm u mode)"
  unfolding Join_def Let_def buildJoinResponse_def using assms by (auto intro!: queue_steps frame_joinNew)

lemma frame_Join [footprints]: "outside_queue I \<Longrightarrow> outside_match I \<Longrightarrow> allows_rooms I \<Longrightarrow> keeps I (Join wi perm u mode)"
  by (rule frame_Join_start) (simp_all add: frame_startMatch)

lemma frame_Status [footprints]: "outside_queue I \<Longrightarrow> keeps I (Status u)"
  unfolding Status_def by (auto intro!: queue_steps)

lemma frame_Cancel [footprints]: "outside_queue I \<Longrightarrow> keeps I (Cancel u)"
  unfolding Cancel_def Let_def by (auto intro!: queue_steps)

section \<open>Ranks\<close>

definition outside_ranks :: "(world \<Rightarrow> bool) \<Rightarrow> bool" where
  "outside_ranks I \<longleftrightarrow> data_inv I \<and> (\<forall>tx. stable I (commitRanks tx)) \<and> (\<forall>mode u s. stable I (zadd mode u s))"

lemma outside_ranks_inv: "outside_ranks I \<Longrightarrow> data_inv I"
  by (simp add: outside_ranks_def)

lemmas rank_frame = read_frame [OF outside_ranks_inv]

lemma frame_rank_wr:
  assumes "outside_ranks I"
  shows "keeps I (CommitRankTx tx)" "keeps I (SetPlayerScore mode u s)"
  unfolding CommitRankTx_def SetPlayerScore_def
  using assms by (auto simp: outside_ranks_def intro!: keeps_stable_wr)

lemma frame_AddRankEvent: "outside_ranks I \<Longrightarrow> keeps I (AddRankEvent tx ev)"
  unfolding AddRankEvent_def by (auto intro!: keeps_andThen gives_intros rank_frame)

lemma frame_updateRanks: "outside_ranks I \<Longrightarrow> keeps I (updateRanks evt tx ps)"
proof (induction ps arbitrary: tx)
  case (Cons p ps)
  then show ?case
    by (auto simp: UpdatePlayerRank_def RollbackRankTx_def intro!: keeps_andThen gives_onErr gives_ignoreErr gives_intros rank_frame
        split: prod.split)
qed (simp add: gives_ret)

lemma frame_syncLeaderboard: "outside_ranks I \<Longrightarrow> keeps I (syncLeaderboard mode ps)"
proof (induction ps)
  case (Cons p ps)
  then show ?case
    by (auto simp: GetPlayerRank_def intro!: keeps_andThen gives_wrap gives_intros rank_frame frame_rank_wr)
qed (simp add: gives_ret)

lemma frame_Settle [footprints]: "outside_ranks I \<Longrightarrow> keeps I (SettleMatchResult evt)"
  unfolding SettleMatchResult_def GetMatchPlayers_def BeginRankTx_def RollbackRankTx_def
  by (auto intro!: keeps_andThen keeps_attempt gives_wrap gives_ignoreErr gives_intros rank_frame frame_AddRankEvent
      frame_updateRanks frame_syncLeaderboard frame_rank_wr)

lemma frame_GetLeaderboard [footprints]: "data_inv I \<Longrightarrow> keeps I (GetLeaderboard mode l)"
  unfolding GetLeaderboard_def ListTopN_def by (auto intro!: keeps_andThen gives_wrap gives_intros read_frame)

section \<open>Accounts\<close>

definition outside_users :: "(world \<Rightarrow> bool) \<Rightarrow> bool" where
  "outside_users I \<longleftrightarrow> data_inv I \<and> (\<forall>dp u. stable I (insertUser dp u))"

lemma outside_users_inv: "outside_users I \<Longrightarrow> data_inv I"
  by (simp add: outside_users_def)

lemmas user_frame = read_frame [OF outside_users_inv]

lemma frame_CreateUser: "outside_users I \<Longrightarrow> keeps I (CreateUser dp u)"
  unfolding CreateUser_def
  by (auto simp: outside_users_def intro!: keeps_andThen gives_intros keeps_stable_wr)

lemma frame_RegisterUser [footprints]: "outside_users I \<Longrightarrow> keeps I (RegisterUser dp g name nick)"
  unfolding RegisterUser_def FindByUserName_def by (auto intro!: keeps_andThen gives_intros user_frame frame_CreateUser)

lemma frame_LoginUser [footprints]: "data_inv I \<Longrightarrow> keeps I (LoginUser dp jm name p)"
  unfolding LoginUser_def FindByUserName_def GenerateToken_def by (auto intro!: keeps_andThen gives_intros read_frame)

lemma frame_authenticate [footprints]: "data_inv I \<Longrightarrow> keeps I (authenticate dp jm cr)"
  unfolding authenticate_def ParseToken_def by (auto intro!: keeps_andThen gives_onErr gives_intros read_frame)

lemma frame_GetMe [footprints]: "data_inv I \<Longrightarrow> keeps I (GetMe u)"
  unfolding GetMe_def GetUserByID_def by (auto intro!: keeps_andThen gives_intros read_frame)

section \<open>Matches and rooms\<close>

lemma frame_GetMatchInfo [footprints]: "data_inv I \<Longrightarrow> keeps I (GetMatchInfo m)"
  unfolding GetMatchInfo_def GetMatchByID_def getPlayerFromMatch_def GetMatchPlayers_def
  by (auto intro!: keeps_andThen gives_wrap gives_onErr gives_intros read_frame)

lemma frame_readRooms: "keeps I (readRooms f)"
  by (simp add: gives_def readRooms_def)

lemma frame_GetRoom [footprints]: "keeps I (GetRoom r u)"
  unfolding GetRoom_def by (auto intro!: keeps_andThen gives_intros frame_readRooms)

lemma frame_CheckUserInRoom [footprints]: "keeps I (CheckUserInRoom r u)"
  unfolding CheckUserInRoom_def by (rule frame_readRooms)

lemma frame_ReadyPlayer_data: "data_inv I \<Longrightarrow> (\<And>r. keeps I (putRoom r)) \<Longrightarrow> keeps I (ReadyPlayer r u)"
  unfolding ReadyPlayer_def Let_def
  by (auto intro!: keeps_andThen gives_intros frame_readRooms keeps_timeNow)

lemma frame_ReadyPlayer [footprints]: "outside_rooms I \<Longrightarrow> keeps I (ReadyPlayer r u)"
  by (intro frame_ReadyPlayer_data frame_putRoom outside_match_inv outside_rooms_match)

lemma outside_rooms_allows: "outside_rooms I \<Longrightarrow> allows_rooms I"
  by (simp add: allows_rooms_def frame_CreateRoom)

end
