(* ===== verification/RankLedger.thy ===== *)
theory RankLedger
  imports RankService
begin

text \<open>
  The ranks are a function of the matches that have been settled. The abstract state is the
  history of settlements, a list that only grows; the tables of the program refine it, whatever
  fails, and the leaderboard follows the tables.
\<close>

section \<open>The ledger\<close>

type_synonym settlement = "MatchResultFinishedEvent \<times> MatchPlayer list"

definition upsertFor :: "MatchResultFinishedEvent \<Rightarrow> MatchPlayer \<Rightarrow> RankUpsert" where
  "upsertFor evt p = (case rankDelta evt p of (s, wn, l) \<Rightarrow>
     \<lparr>ruMode = evMode evt, ruUserID = mpUserID p, ruScoreDelta = s, ruWinCount = wn, ruLoseCount = l\<rparr>)"

definition bookings :: "settlement list \<Rightarrow> RankUpsert list" where
  "bookings hist = concat (map (\<lambda>(evt, ps). map (upsertFor evt) ps) hist)"

text \<open>The abstract step: a result is booked unless its event or its match has been booked.\<close>

definition booked :: "MatchResultFinishedEvent \<Rightarrow> settlement list \<Rightarrow> bool" where
  "booked evt hist \<longleftrightarrow> (\<exists>s \<in> set hist. sameEvent (rankEventOf evt) (rankEventOf (fst s)))"

definition book :: "MatchResultFinishedEvent \<Rightarrow> MatchPlayer list \<Rightarrow> settlement list \<Rightarrow> settlement list" where
  "book evt ps hist = (if booked evt hist then hist else hist @ [(evt, ps)])"

text \<open>What the tables are for a history.\<close>

definition ledger :: "settlement list \<Rightarrow> world \<Rightarrow> bool" where
  "ledger hist w \<longleftrightarrow> dbRankEvents w = map (rankEventOf \<circ> fst) hist
     \<and> dbPlayerRanks w = foldl upsertRank [] (bookings hist)"

lemma data_inv_ledger [simp]: "data_inv (ledger hist)"
  by (simp add: data_inv_def ledger_def)

lemma ledger_zadd [simp]: "ledger hist (zadd m u s w) = ledger hist w"
  by (simp add: ledger_def zadd_def)

definition playersOf :: "world \<Rightarrow> int \<Rightarrow> MatchPlayer list" where
  "playersOf w matchID = filter (\<lambda>r. mpMatchID r = matchID) (dbMatchPlayers w)"

section \<open>Refinement\<close>

text \<open>The tables before the commit, with the players of the match.\<close>

definition atRest :: "settlement list \<Rightarrow> MatchPlayer list \<Rightarrow> world \<Rightarrow> bool" where
  "atRest hist mps w \<longleftrightarrow> ledger hist w \<and> dbMatchPlayers w = mps"

lemma data_inv_atRest [simp]: "data_inv (atRest hist mps)"
  by (simp add: data_inv_def atRest_def ledger_def)

lemma gives_updateRanks:
  assumes "data_inv I"
  shows "gives I (updateRanks evt tx ps) (\<lambda>tx'. tx' = tx\<lparr>rxUpserts := rxUpserts tx @ map (upsertFor evt) ps\<rparr>)"
proof (induction ps arbitrary: tx)
  case Nil
  then show ?case by (simp add: gives_ret)
next
  case (Cons p ps)
  obtain s wn l where d: "rankDelta evt p = (s, wn, l)" by (cases "rankDelta evt p")
  have "gives I (onErr (UpdatePlayerRank tx (evMode evt) (mpUserID p) s wn l)
      (\<lambda>_. andThen (ignoreErr RollbackRankTx) (\<lambda>_. fail (Errorf msg))))
      (\<lambda>tx'. tx' = tx\<lparr>rxUpserts := rxUpserts tx @ [upsertFor evt p]\<rparr>)" for msg
    unfolding UpdatePlayerRank_def RollbackRankTx_def
    by (rule gives_onErr, rule gives_rd [OF assms])
       (auto simp: upsertFor_def d intro!: gives_andThen [OF gives_ignoreErr] keeps_rd [OF assms] gives_fail)
  then show ?case
    by (simp add: d) (rule gives_andThen, assumption, simp, rule gives_weaken [OF Cons.IH], simp)
qed

text \<open>The leaderboard shows the score of a player's rank.\<close>

definition synced :: "string \<Rightarrow> world \<Rightarrow> int \<Rightarrow> bool" where
  "synced mode w u \<longleftrightarrow> (\<forall>r. findRank mode u (dbPlayerRanks w) = Some r \<longrightarrow> mget (rdLeaderboard w mode) u = Some (prScore r))"

lemma triple_syncLeaderboard:
  "triple (\<lambda>w. ledger hist w \<and> (\<forall>u \<in> D. synced mode w u)) (syncLeaderboard mode ps)
     (\<lambda>_ w. ledger hist w \<and> (\<forall>u \<in> D \<union> mpUserID ` set ps. synced mode w u)) (ledger hist)"
proof (induction ps arbitrary: D)
  case Nil
  then show ?case by (auto intro: triple_ret)
next
  case (Cons p ps)
  let ?u = "mpUserID p" and ?P = "\<lambda>D w. ledger hist w \<and> (\<forall>u \<in> D. synced mode w u)"
  have di: "data_inv (?P D)" for D by (simp add: data_inv_def ledger_def synced_def)
  have get: "triple (?P D) (wrapErr msg (GetPlayerRank mode ?u))
      (\<lambda>v w. ?P D w \<and> findRank mode ?u (dbPlayerRanks w) = v) (ledger hist)" for msg
    unfolding GetPlayerRank_def by (rule triple_wrap, rule triple_rd [OF di]) auto
  have put: "triple (\<lambda>w. ?P D w \<and> findRank mode ?u (dbPlayerRanks w) = Some r)
      (wrapErr msg (SetPlayerScore mode ?u (prScore r))) (\<lambda>_. ?P (insert ?u D)) (ledger hist)" for r msg
    unfolding SetPlayerScore_def
    by (rule triple_wrap, rule triple_wr) (auto simp: data_inv_def ledger_def synced_def zadd_def)
  have none: "triple (\<lambda>w. ?P D w \<and> findRank mode ?u (dbPlayerRanks w) = None) (syncLeaderboard mode ps)
      (\<lambda>_. ?P (D \<union> mpUserID ` set (p # ps))) (ledger hist)"
    by (rule triple_weaken [OF Cons.IH [of "insert ?u D"]]) (auto simp: synced_def)
  have some: "triple (?P (insert ?u D)) (syncLeaderboard mode ps)
      (\<lambda>_. ?P (D \<union> mpUserID ` set (p # ps))) (ledger hist)"
    by (rule triple_weaken [OF Cons.IH [of "insert ?u D"]]) auto
  show ?case
    unfolding syncLeaderboard.simps
    apply (rule triple_andThen [OF get])
    subgoal for v by (cases v) (use none triple_andThen [OF put some] in simp_all)
    done
qed

lemma ledger_commit:
  assumes "ledger hist w" "\<not> booked evt hist"
  shows "ledger (book evt ps hist) (commitRanks \<lparr>rxEvents = [rankEventOf evt], rxUpserts = map (upsertFor evt) ps\<rparr> w)"
  using assms by (simp add: ledger_def book_def commitRanks_def bookings_def)

lemma gives_AddRankEvent:
  "gives (atRest hist mps) (AddRankEvent \<lparr>rxEvents = [], rxUpserts = []\<rparr> (rankEventOf evt))
     (\<lambda>tx. \<not> booked evt hist \<and> tx = \<lparr>rxEvents = [rankEventOf evt], rxUpserts = []\<rparr>)"
proof -
  have "gives (atRest hist mps) (rd (\<lambda>w. \<exists>r \<in> set (dbRankEvents w @ []). sameEvent (rankEventOf evt) r))
     (\<lambda>b. b = booked evt hist)"
    by (rule gives_rd) (auto simp: atRest_def ledger_def booked_def)
  then show ?thesis
    unfolding AddRankEvent_def by (auto intro!: gives_andThen gives_intros)
qed

text \<open>An error of the insert that is a duplicate key means that the result is booked already.\<close>

lemma AddRankEvent_error:
  assumes "atRest hist mps w"
    "AddRankEvent \<lparr>rxEvents = [], rxUpserts = []\<rparr> (rankEventOf evt) w = (Inl e, w')" "IsDuplicateKeyError e"
  shows "booked evt hist"
proof -
  have same: "ledger hist (snd (popNet w))"
    using assms(1) popNet_inv [of "ledger hist" w] by (simp add: atRest_def)
  show ?thesis
    using assms(2,3) same
    by (auto simp: AddRankEvent_def prog_defs rd_def ledger_def booked_def split: prod.splits outcome.splits if_splits)
qed

text \<open>The outcome of a settlement: the booking of the result, or after an error possibly none.\<close>

lemma triple_Settle:
  "triple (\<lambda>w. ledger hist w \<and> dbMatchPlayers w = mps) (SettleMatchResult evt)
     (\<lambda>_ w. ledger (book evt (filter (\<lambda>r. mpMatchID r = evMatchID evt) mps) hist) w
        \<and> (\<not> booked evt hist \<longrightarrow> (\<forall>p \<in> set mps. mpMatchID p = evMatchID evt \<longrightarrow> synced (evMode evt) w (mpUserID p))))
     (\<lambda>w. ledger hist w \<or> ledger (book evt (filter (\<lambda>r. mpMatchID r = evMatchID evt) mps) hist) w)"
proof -
  let ?ps = "filter (\<lambda>r. mpMatchID r = evMatchID evt) mps" and ?I = "atRest hist mps"
  let ?tx0 = "\<lparr>rxEvents = [], rxUpserts = []\<rparr>" and ?tx1 = "\<lparr>rxEvents = [rankEventOf evt], rxUpserts = []\<rparr>"
  let ?tx2 = "\<lparr>rxEvents = [rankEventOf evt], rxUpserts = map (upsertFor evt) ?ps\<rparr>"
  let ?L = "ledger (book evt ?ps hist)"
  let ?Q = "\<lambda>_ w. ?L w \<and> (\<not> booked evt hist \<longrightarrow> (\<forall>p \<in> set mps. mpMatchID p = evMatchID evt \<longrightarrow> synced (evMode evt) w (mpUserID p)))" and ?E = "\<lambda>w. ledger hist w \<or> ledger (book evt ?ps hist) w"
  have early: "triple ?I m (\<lambda>a w. P a \<and> ?I w) ?E" if "gives ?I m P" for m :: "'x io" and P
    by (rule triple_weaken [OF triple_gives [OF that]]) (auto simp: atRest_def)
  have players: "gives ?I (wrapErr msg (GetMatchPlayers (evMatchID evt))) (\<lambda>ps. ps = ?ps)" for msg
    unfolding GetMatchPlayers_def by (rule gives_wrap, rule gives_rd) (auto simp: atRest_def)
  have begin_tx: "gives ?I (wrapErr msg BeginRankTx) (\<lambda>tx. tx = ?tx0)" for msg
    unfolding BeginRankTx_def by (rule gives_wrap, rule gives_rd) auto
  have add: "triple ?I (attempt (AddRankEvent ?tx0 (rankEventOf evt)))
      (\<lambda>r w. (case r of Inl e \<Rightarrow> IsDuplicateKeyError e \<longrightarrow> booked evt hist
                | Inr tx \<Rightarrow> \<not> booked evt hist \<and> tx = ?tx1) \<and> ?I w) ?E"
    unfolding triple_def
  proof (intro allI impI)
    fix w assume w: "?I w"
    obtain r w' where run: "AddRankEvent ?tx0 (rankEventOf evt) w = (r, w')"
      by (cases "AddRankEvent ?tx0 (rankEventOf evt) w")
    then show "case attempt (AddRankEvent ?tx0 (rankEventOf evt)) w of (Inl e, w') \<Rightarrow> ?E w'
       | (Inr a, w') \<Rightarrow> (case a of Inl e \<Rightarrow> IsDuplicateKeyError e \<longrightarrow> booked evt hist
            | Inr tx \<Rightarrow> \<not> booked evt hist \<and> tx = ?tx1) \<and> ?I w'"
      using givesD [OF gives_AddRankEvent w, of evt] givesD_val [OF gives_AddRankEvent w, of evt]
        AddRankEvent_error [OF w, of evt] by (cases r) (simp_all add: attempt_def)
  qed
  have refuse: "triple ?I (andThen (ignoreErr RollbackRankTx) (\<lambda>_. if IsDuplicateKeyError e then ret () else fail (f e))) ?Q ?E"
    if "IsDuplicateKeyError e \<longrightarrow> booked evt hist" for e f
    by (rule triple_andThen [OF early [OF gives_ignoreErr]])
       (use that in \<open>auto simp: RollbackRankTx_def atRest_def book_def intro!: keeps_rd triple_ret triple_fail\<close>)
  have commit: "triple ?I (wrapErr msg (CommitRankTx ?tx2)) (\<lambda>_. ?L) ?E" if "\<not> booked evt hist" for msg
    unfolding CommitRankTx_def
    by (rule triple_wrap, rule triple_wr) (use that in \<open>auto simp: atRest_def ledger_commit\<close>)
  have sync: "triple ?L (syncLeaderboard (evMode evt) ?ps) ?Q ?E"
    by (rule triple_weaken [OF triple_syncLeaderboard [where D = "{}"]]) auto
  have rest: "triple ?I (andThen (updateRanks evt ?tx1 ?ps) (\<lambda>tx2.
         andThen (wrapErr msg (CommitRankTx tx2)) (\<lambda>_. syncLeaderboard (evMode evt) ?ps))) ?Q ?E"
    if "\<not> booked evt hist" for msg
    by (rule triple_andThen [OF early [OF gives_updateRanks]], simp, rule triple_pre, simp)
       (rule triple_andThen [OF commit [OF that] sync])
  have "triple ?I (SettleMatchResult evt) ?Q ?E"
    unfolding SettleMatchResult_def
    apply (rule triple_andThen [OF early [OF players]], rule triple_pre, simp)
    apply (rule triple_andThen [OF early [OF begin_tx]], rule triple_pre, simp)
    apply (rule triple_andThen [OF add], rule triple_pre)
    subgoal for added by (cases added) (use refuse rest in simp_all)
    done
  then show ?thesis unfolding atRest_def .
qed

lemma Settle_outcome:
  fixes w evt hist
  assumes "ledger hist w" "SettleMatchResult evt w = (r, w')"
  defines "booked_hist \<equiv> book evt (playersOf w (evMatchID evt)) hist"
  shows "(r = Inr () \<and> ledger booked_hist w' \<and> (\<not> booked evt hist \<longrightarrow>
        (\<forall>p \<in> set (playersOf w (evMatchID evt)). synced (evMode evt) w' (mpUserID p)))) \<or> (r \<noteq> Inr () \<and> (ledger hist w' \<or> ledger booked_hist w'))"
proof -
  have "case SettleMatchResult evt w of (Inl e, w') \<Rightarrow> ledger hist w' \<or> ledger booked_hist w'
    | (Inr a, w') \<Rightarrow> ledger booked_hist w' \<and> (\<not> booked evt hist \<longrightarrow>
        (\<forall>p \<in> set (dbMatchPlayers w). mpMatchID p = evMatchID evt \<longrightarrow> synced (evMode evt) w' (mpUserID p)))"
    unfolding booked_hist_def playersOf_def
    by (rule triple_Settle [of hist "dbMatchPlayers w" evt, unfolded triple_def, rule_format]) (simp add: assms(1))
  then show ?thesis using assms(2) by (cases r) (simp_all add: playersOf_def)
qed

text \<open>(C6) The tables refine the ledger: whatever the stores answer, settling a result leaves them at
  the old history or with this result booked, once and with all players of the match; when the
  settlement reports success the result is booked.\<close>

theorem SettleMatchResult_refines:
  assumes "ledger hist w"
  shows "\<exists>hist'. ledger hist' (snd (SettleMatchResult evt w))
    \<and> (hist' = hist \<or> hist' = book evt (playersOf w (evMatchID evt)) hist)
    \<and> (fst (SettleMatchResult evt w) = Inr () \<longrightarrow> hist' = book evt (playersOf w (evMatchID evt)) hist)"
  using Settle_outcome [OF assms, of evt] by (cases "SettleMatchResult evt w") auto

section \<open>The ranks of a history\<close>

definition gamesOf :: "settlement list \<Rightarrow> (MatchResultFinishedEvent \<times> MatchPlayer) list" where
  "gamesOf hist = concat (map (\<lambda>(evt, ps). map (Pair evt) ps) hist)"

text \<open>How many matches of a mode a player has won, or lost.\<close>

definition games :: "bool \<Rightarrow> string \<Rightarrow> int \<Rightarrow> settlement list \<Rightarrow> int" where
  "games won mode u hist = int (length (filter (\<lambda>(evt, p).
     evMode evt = mode \<and> mpUserID p = u \<and> (mpTeamNo p = evWinTeamNo evt) = won) (gamesOf hist)))"

definition rankFor :: "string \<Rightarrow> int \<Rightarrow> int \<Rightarrow> int \<Rightarrow> PlayerRank option" where
  "rankFor mode u wins losses = (if wins = 0 \<and> losses = 0 then None
     else Some \<lparr>prMode = mode, prUserID = u, prScore = 1000 + 100 * wins - 60 * losses,
            prWinCount = wins, prLoseCount = losses, prMatchCount = wins + losses\<rparr>)"

lemma bookings_games: "bookings hist = map (\<lambda>(evt, p). upsertFor evt p) (gamesOf hist)"
  by (induction hist) (auto simp: bookings_def gamesOf_def)

lemma findRank_upsert:
  "findRank mode u (upsertRank rs b) =
     (if ruMode b = mode \<and> ruUserID b = u
      then Some (case findRank mode u rs of
          None \<Rightarrow> \<lparr>prMode = mode, prUserID = u, prScore = 1000 + ruScoreDelta b,
             prWinCount = ruWinCount b, prLoseCount = ruLoseCount b, prMatchCount = 1\<rparr>
        | Some r \<Rightarrow> r\<lparr>prScore := prScore r + ruScoreDelta b, prWinCount := prWinCount r + ruWinCount b,
             prLoseCount := prLoseCount r + ruLoseCount b, prMatchCount := prMatchCount r + 1\<rparr>)
      else findRank mode u rs)"
  by (induction rs) auto

lemma findRank_games:
  defines "cnt \<equiv> \<lambda>won mode u gs. int (length (filter (\<lambda>(evt, p).
     evMode evt = mode \<and> mpUserID p = u \<and> (mpTeamNo p = evWinTeamNo evt) = won) gs))"
  shows "findRank mode u (foldl upsertRank [] (map (\<lambda>(evt, p). upsertFor evt p) gs)) =
    rankFor mode u (cnt True mode u gs) (cnt False mode u gs)"
proof (induction gs rule: rev_induct)
  case Nil
  then show ?case by (simp add: rankFor_def cnt_def)
next
  case (snoc g gs)
  obtain evt p where g: "g = (evt, p)" by (cases g)
  have pos: "0 \<le> cnt won mode u gs" for won by (simp add: cnt_def)
  have step: "cnt won mode u (gs @ [g]) = cnt won mode u gs +
      (if evMode evt = mode \<and> mpUserID p = u \<and> (mpTeamNo p = evWinTeamNo evt) = won then 1 else 0)" for won
    by (simp add: cnt_def g)
  have up: "findRank mode u (foldl upsertRank [] (map (\<lambda>(evt, p). upsertFor evt p) (gs @ [g]))) =
      findRank mode u (upsertRank (foldl upsertRank [] (map (\<lambda>(evt, p). upsertFor evt p) gs)) (upsertFor evt p))"
    by (simp add: g)
  show ?case
    unfolding up findRank_upsert snoc step using pos [of True] pos [of False]
    by (auto simp: rankFor_def upsertFor_def rankDelta_def)
qed

lemma ledger_ranks:
  "ledger hist w \<Longrightarrow> findRank mode u (dbPlayerRanks w) = rankFor mode u (games True mode u hist) (games False mode u hist)"
  by (simp add: ledger_def bookings_games findRank_games games_def)

section \<open>Reachable tables\<close>

text \<open>Settlements, with failures at any call, between steps of the rest of the program, which does
  not touch the ranks.\<close>

inductive rank_step :: "world \<Rightarrow> world \<Rightarrow> bool" where
  settle: "rank_step w (snd (SettleMatchResult evt w))"
| elsewhere: "dbRankEvents w' = dbRankEvents w \<Longrightarrow> dbPlayerRanks w' = dbPlayerRanks w \<Longrightarrow> rank_step w w'"

inductive rank_reach :: "world \<Rightarrow> bool" where
  start: "rank_reach emptyWorld"
| step: "rank_reach w \<Longrightarrow> rank_step w w' \<Longrightarrow> rank_reach w'"

definition fair_history :: "settlement list \<Rightarrow> bool" where
  "fair_history hist \<longleftrightarrow> distinct (map (evEventID \<circ> fst) hist) \<and> distinct (map (evMatchID \<circ> fst) hist)"

lemma fair_book: "fair_history hist \<Longrightarrow> fair_history (book evt ps hist)"
  by (auto simp: fair_history_def book_def booked_def sameEvent_def rankEventOf_def)

lemma rank_step_ledger:
  assumes "rank_step w w'" "ledger hist w" "fair_history hist"
  shows "\<exists>hist'. ledger hist' w' \<and> fair_history hist'"
  using assms
proof (induction rule: rank_step.induct)
  case (settle w evt)
  have "ledger hist (snd (SettleMatchResult evt w))
      \<or> ledger (book evt (playersOf w (evMatchID evt)) hist) (snd (SettleMatchResult evt w))"
    using Settle_outcome [OF settle(1), of evt] by (cases "SettleMatchResult evt w") auto
  then show ?case using settle(2) fair_book by blast
qed (auto simp: ledger_def)

lemma rank_reach_ledger: "rank_reach w \<Longrightarrow> \<exists>hist. ledger hist w \<and> fair_history hist"
proof (induction rule: rank_reach.induct)
  case start
  have "ledger [] emptyWorld" by (simp add: ledger_def bookings_def emptyWorld_def)
  then show ?case by (auto simp: fair_history_def)
next
  case (step w w')
  then show ?case using rank_step_ledger by blast
qed


end
