(* ===== verification/Server.thy ===== *)
theory Server
  imports Handlers Footprint FieldSafety RankLedger
begin

text \<open>
  The server as a whole: requests of all routes, turns of the rank worker, messages on the
  sockets, operators and failures, in any order. Every execution of the server is, for each
  component, an execution of that component's own system, so what is proved of the components holds of the server.
\<close>

section \<open>Invariants of requests\<close>

text \<open>A property of the server that every handler keeps.\<close>

definition hkeeps :: "(server \<Rightarrow> bool) \<Rightarrow> (server \<Rightarrow> reply \<times> server) \<Rightarrow> bool" where
  "hkeeps P h \<longleftrightarrow> (\<forall>sv. P sv \<longrightarrow> P (snd (h sv)))"

lemma hkeeps_answer: "hkeeps P (answer r)"
  by (simp add: hkeeps_def answer_def)

lemma hkeeps_respond:
  assumes "\<And>sv. P sv \<Longrightarrow> P (sv\<lparr>svWorld := snd (m (svWorld sv))\<rparr>)" "\<And>a. hkeeps P (good a)"
  shows "hkeeps P (respond m bad good)"
  unfolding hkeeps_def
proof (intro allI impI)
  fix sv assume "P sv"
  then have w: "P (sv\<lparr>svWorld := snd (m (svWorld sv))\<rparr>)" by (rule assms(1))
  obtain r w' where m: "m (svWorld sv) = (r, w')" by (cases "m (svWorld sv)")
  show "P (snd (respond m bad good sv))"
  proof (cases r)
    case (Inl e)
    then show ?thesis using w m by (cases e) (simp_all add: respond_def)
  next
    case (Inr a)
    then show ?thesis using w m assms(2) [of a] by (simp add: respond_def hkeeps_def)
  qed
qed

text \<open>What a property of the stored state has to survive to survive all requests.\<close>

locale request_invariant =
  fixes ap :: api and I :: "world \<Rightarrow> bool"
  assumes register: "keeps I (RegisterUser (apDeps ap) g name nick)"
    and login: "keeps I (LoginUser (apDeps ap) (apJWT ap) name p)"
    and auth: "keeps I (authenticate (apDeps ap) (apJWT ap) cr)"
    and me: "keeps I (GetMe u)"
    and list: "keeps I (ListChunks (apWiring ap) (apClosure ap) level b)"
    and summary: "keeps I (GetChunkSummary (apWiring ap) (apClosure ap) raw)"
    and snapshot: "keeps I (GetChunkSnapshot (apWiring ap) (apClosure ap) raw)"
    and open_cell: "keeps I (OpenCell (apMac ap) (apWiring ap) (apClosure ap) u raw x y)"
    and flag_cell: "keeps I (FlagCell (apMac ap) (apWiring ap) (apClosure ap) u raw x y f)"
    and join: "keeps I (Join (apWiring ap) perm u mode)"
    and status: "keeps I (Status u)"
    and cancel: "keeps I (Cancel u)"
    and result: "keeps I (SetMatchResult (wiPublisher (apWiring ap)) m t)"
    and info: "keeps I (GetMatchInfo m)"
    and board: "keeps I (GetLeaderboard mode l)"
    and ready: "keeps I (ReadyPlayer r u)"
begin

lemma respond_keeps: "keeps I m \<Longrightarrow> (\<And>a. hkeeps (\<lambda>sv. I (svWorld sv)) (good a)) \<Longrightarrow> hkeeps (\<lambda>sv. I (svWorld sv)) (respond m bad good)"
  by (rule hkeeps_respond) (auto dest: givesD)

lemma hubs_keep: "hkeeps (\<lambda>sv. I (svWorld sv)) (onMap m r)" "hkeeps (\<lambda>sv. I (svWorld sv)) (onRooms m' r)"
  "hkeeps (\<lambda>sv. I (svWorld sv)) (handleJoinMap s)"
  by (auto simp: hkeeps_def onMap_def onRooms_def handleJoinMap_def split: prod.split sum.split option.split)

lemma announce_keeps: "hkeeps (\<lambda>sv. I (svWorld sv)) (announce ap r)"
  by (cases r) (simp_all add: announce_def hubs_keep)

lemma publicRoute_keeps: "publicRoute ap rq = Some h \<Longrightarrow> hkeeps (\<lambda>sv. I (svWorld sv)) h"
  by (cases rq)
     (auto simp: handleRegister_def handleLogin_def handleListChunks_def handleGetChunk_def handleGetSnapshot_def
       intro!: respond_keeps hkeeps_answer register login list summary snapshot split: option.split)

lemma userRoute_keeps: "hkeeps (\<lambda>sv. I (svWorld sv)) (userRoute ap u rq)"
  by (cases rq)
     (auto simp: handleTop_def handleJoinRoom_def handleMe_def handleOpenCell_def handleFlagCell_def handleJoin_def handleStatus_def
       handleCancel_def handleSetMatchResult_def handleGetMatchInfo_def handleGetRoom_def handleReady_def
       intro!: respond_keeps hkeeps_answer hubs_keep announce_keeps me open_cell flag_cell join status cancel result info board
         ready frame_GetRoom frame_CheckUserInRoom split: option.split)

lemma handleRequest_keeps:
  assumes "I (svWorld sv)"
  shows "I (svWorld (snd (handleRequest ap cr rq sv)))"
proof -
  have "hkeeps (\<lambda>sv. I (svWorld sv)) (handleRequest ap cr rq)"
  proof (cases "publicRoute ap rq")
    case None
    then show ?thesis unfolding handleRequest_def
      by (auto intro!: respond_keeps auth userRoute_keeps split: prod.split)
  next
    case (Some h)
    then show ?thesis unfolding handleRequest_def by (simp add: publicRoute_keeps)
  qed
  then show ?thesis using assms by (simp add: hkeeps_def)
qed

end

section \<open>The systems of the components\<close>

text \<open>A component's reachable states allow every write that leaves its own data alone.\<close>

lemma reach_frames:
  assumes "\<And>w w'. I w \<Longrightarrow> own w' = own w \<Longrightarrow> I w'" "\<And>w os. own (w\<lparr>net := os\<rparr>) = own w" "\<And>w ts. own (w\<lparr>clock := ts\<rparr>) = own w"
  shows "data_inv I" "(\<And>w. own (upd w) = own w) \<Longrightarrow> stable I upd"
proof -
  have "I w' = I w" if "own w' = own w" for w w' using assms(1) [of w w'] assms(1) [of w' w] that by auto
  then show "data_inv I" using assms(2,3) by (intro data_invI) blast+
  show "stable I upd" if "\<And>w. own (upd w) = own w" by (rule stableI) (rule assms(1), assumption, rule that)
qed

lemmas write_defs = storeChunk_def pushQueue_def popQueue_def dropFromQueue_def storeUser_def forgetUser_def
  commitRanks_def zadd_def insertUser_def

subsection \<open>The minefield\<close>

definition fieldOf :: "world \<Rightarrow> MineSeason list \<times> (int \<times> string \<Rightarrow> MineChunkState option) \<times> (int \<Rightarrow> string list)" where
  "fieldOf w = (dbSeasons w, rdChunks w, rdClosed w)"

lemma field_reach_other: "field_reach mac dur w0 w \<Longrightarrow> fieldOf w' = fieldOf w \<Longrightarrow> field_reach mac dur w0 w'"
  by (rule fr_other) (simp_all add: fieldOf_def)

lemmas field_frames = reach_frames [where own = fieldOf, OF field_reach_other]

lemma field_outside:
  "outside_rooms (field_reach mac dur w0)" "outside_queue (field_reach mac dur w0)"
  "outside_ranks (field_reach mac dur w0)" "outside_users (field_reach mac dur w0)"
  by (auto simp: outside_rooms_def outside_queue_def outside_ranks_def outside_users_def outside_match_def match_write_def fieldOf_def write_defs
      intro!: field_frames)

interpretation field: request_invariant ap "field_reach (apMac ap) (apClosure ap) w0" for ap w0
  by unfold_locales
    (auto intro!: footprints field_outside outside_rooms_allows frame_SetMatchResult outside_rooms_match outside_match_inv
      simp: gives_def [where m = "OpenCell mac wi dur u raw x y" for mac wi dur u raw x y]
        gives_def [where m = "FlagCell mac wi dur u raw x y f" for mac wi dur u raw x y f]
        gives_def [where m = "GetChunkSummary wi dur raw" for wi dur raw]
        gives_def [where m = "GetChunkSnapshot wi dur raw" for wi dur raw]
        gives_def [where m = "ListChunks wi dur level b" for wi dur level b]
        fr_open fr_flag fr_summary fr_snapshot fr_list)

subsection \<open>The waiting queues\<close>

definition queueOf :: "world \<Rightarrow> (string \<Rightarrow> int list) \<times> (int \<Rightarrow> QueueUserState option)" where
  "queueOf w = (rdQueues w, rdQueueUsers w)"

lemma queue_reach_other: "queue_reach w \<Longrightarrow> queueOf w' = queueOf w \<Longrightarrow> queue_reach w'"
  by (erule queue_reach.step) (rule queue_step.elsewhere, simp_all add: queueOf_def)

lemmas queue_frames = reach_frames [where own = queueOf, OF queue_reach_other]

lemma queue_outside:
  "outside_rooms queue_reach" "outside_chunks queue_reach" "outside_ranks queue_reach" "outside_users queue_reach"
  by (auto simp: outside_rooms_def outside_chunks_def outside_ranks_def outside_users_def outside_match_def match_write_def queueOf_def write_defs
      intro!: queue_frames)

lemma queue_own:
  "keeps queue_reach (Join wi perm u mode)" "keeps queue_reach (Status u)" "keeps queue_reach (Cancel u)"
  by (auto simp: gives_def intro: queue_reach.step queue_step.intros)

interpretation queue: request_invariant ap queue_reach for ap
  by unfold_locales
    (intro queue_own footprints queue_outside frame_SetMatchResult outside_match_inv outside_rooms_match [OF queue_outside(1)])+

subsection \<open>The ranks\<close>

definition ranksOf :: "world \<Rightarrow> RankEvent list \<times> PlayerRank list" where
  "ranksOf w = (dbRankEvents w, dbPlayerRanks w)"

lemma rank_reach_other: "rank_reach w \<Longrightarrow> ranksOf w' = ranksOf w \<Longrightarrow> rank_reach w'"
  by (erule rank_reach.step) (rule rank_step.elsewhere, simp_all add: ranksOf_def)

lemmas ranks_frames = reach_frames [where own = ranksOf, OF rank_reach_other]

lemma rank_outside:
  "outside_rooms rank_reach" "outside_chunks rank_reach" "outside_queue rank_reach" "outside_users rank_reach"
  by (auto simp: outside_rooms_def outside_chunks_def outside_queue_def outside_users_def outside_match_def match_write_def ranksOf_def write_defs
      intro!: ranks_frames)

interpretation ranks: request_invariant ap rank_reach for ap
  by unfold_locales
    (intro footprints rank_outside outside_rooms_allows frame_SetMatchResult outside_match_inv outside_rooms_match [OF rank_outside(1)])+

subsection \<open>The accounts\<close>

definition usersOf :: "world \<Rightarrow> User list \<times> int" where
  "usersOf w = (dbUsers w, dbNextUserID w)"

lemma users_reach_other: "users_reach dp w \<Longrightarrow> usersOf w' = usersOf w \<Longrightarrow> users_reach dp w'"
  by (erule users_reach.step) (rule users_step.elsewhere, simp_all add: usersOf_def)

lemmas users_frames = reach_frames [where own = usersOf, OF users_reach_other]

lemma users_outside:
  "outside_rooms (users_reach dp)" "outside_chunks (users_reach dp)" "outside_queue (users_reach dp)" "outside_ranks (users_reach dp)"
  by (auto simp: outside_rooms_def outside_chunks_def outside_queue_def outside_ranks_def outside_match_def match_write_def usersOf_def write_defs
      intro!: users_frames)

lemma users_own: "keeps (users_reach dp) (RegisterUser dp g name nick)"
  by (auto simp: gives_def intro: users_reach.step users_step.registers)

interpretation users: request_invariant ap "users_reach (apDeps ap)" for ap
  by unfold_locales
    (intro users_own footprints users_outside outside_rooms_allows frame_SetMatchResult outside_match_inv outside_rooms_match [OF users_outside(1)])+

subsection \<open>The rooms\<close>

lemma room_reach_other: "room_reach w0 w \<Longrightarrow> memRooms w' = memRooms w \<Longrightarrow> room_reach w0 w'"
  by (rule rr_other)

lemmas rooms_frames = reach_frames [where own = memRooms, OF room_reach_other]

lemma room_outside:
  "outside_match (room_reach w0)" "outside_chunks (room_reach w0)" "outside_queue (room_reach w0)"
  "outside_ranks (room_reach w0)" "outside_users (room_reach w0)"
  by (auto simp: outside_chunks_def outside_queue_def outside_ranks_def outside_users_def outside_match_def match_write_def write_defs
      intro!: rooms_frames)

lemma room_own: "keeps (room_reach w0) (ReadyPlayer r u)" "allows_rooms (room_reach w0)"
  by (auto simp: gives_def allows_rooms_def has_players_def intro: rr_ready rr_create)

interpretation rooms: request_invariant ap "room_reach w0" for ap w0
  by unfold_locales
    (intro room_own footprints room_outside frame_SetMatchResult outside_match_inv)+

section \<open>The hubs\<close>

text \<open>A socket that is opened is a new client.\<close>

fun fresh_socket :: "request \<Rightarrow> server \<Rightarrow> bool" where
  "fresh_socket (SocketRoom r (Some c)) sv \<longleftrightarrow> rhClients (svRooms sv) c = None"
| "fresh_socket _ sv \<longleftrightarrow> True"

definition hubs_reach :: "server \<Rightarrow> bool" where
  "hubs_reach sv \<longleftrightarrow> hub_reach (svMap sv) \<and> room_hub_reach (svRooms sv)"

lemma hubs_world [simp]: "hubs_reach (sv\<lparr>svWorld := w\<rparr>) = hubs_reach sv"
  by (simp add: hubs_reach_def)

lemma hubs_respond: "(\<And>a. hkeeps hubs_reach (good a)) \<Longrightarrow> hkeeps hubs_reach (respond m bad good)"
  by (rule hkeeps_respond) simp_all

lemma hubs_Broadcast: "hkeeps hubs_reach (onMap (BroadcastToChunk ch msg) r)" "hkeeps hubs_reach (onRooms (BroadcastToRoom rm m) r)"
proof -
  have "hub_reach (snd (BroadcastToChunk ch msg h))" if "hub_reach h" for h
    by (rule hub_reach.step [OF that hub_step.broadcast])
  moreover have "room_hub_reach (snd (BroadcastToRoom rm m h))" if "room_hub_reach h" for h
    by (rule room_hub_reach.step [OF that room_hub_step.broadcasts])
  ultimately show "hkeeps hubs_reach (onMap (BroadcastToChunk ch msg) r)" "hkeeps hubs_reach (onRooms (BroadcastToRoom rm m) r)"
    by (auto simp: hkeeps_def onMap_def onRooms_def hubs_reach_def split: prod.splits sum.splits) (metis snd_conv)+
qed

lemma hubs_noop: "hkeeps hubs_reach (onMap (ret ()) r)"
  by (simp add: hkeeps_def onMap_def ret_def)

lemma hubs_announce: "hkeeps hubs_reach (announce ap r)"
  by (cases r)
     (auto simp: announce_def broadcastOpenCell_def broadcastFlagCell_def BroadcastChunkEvent_def intro!: hubs_noop hubs_Broadcast split: option.split)

lemma hubs_connect: "hubs_reach sv \<Longrightarrow> rhClients (svRooms sv) c = None \<Longrightarrow> hubs_reach (snd (onRooms (connect c r u) Upgraded sv))"
  using room_hub_reach.step [OF _ room_hub_step.connects]
  by (simp add: hubs_reach_def onRooms_def connect_run)

lemma hubs_joinRoom:
  assumes "hubs_reach sv" "fresh_socket (SocketRoom r s) sv"
  shows "hubs_reach (snd (handleJoinRoom u r s sv))"
  using assms hubs_connect
  by (cases s) (auto simp: handleJoinRoom_def respond_def answer_def CheckUserInRoom_def readRooms_def)

lemma hubs_joinMap: "hubs_reach sv \<Longrightarrow> hubs_reach (snd (handleJoinMap s sv))"
  by (auto simp: handleJoinMap_def hubs_reach_def intro: hub_reach.step hub_step.join split: option.split)

lemma hubs_public: "publicRoute ap rq = Some h \<Longrightarrow> hkeeps hubs_reach h"
  by (cases rq)
     (auto simp: handleRegister_def handleLogin_def handleListChunks_def handleGetChunk_def handleGetSnapshot_def
       intro!: hubs_respond hkeeps_answer split: option.split)

lemma hubs_user:
  assumes "hubs_reach sv" "fresh_socket rq sv"
  shows "hubs_reach (snd (userRoute ap u rq sv))"
proof (cases "(\<exists>r s. rq = SocketRoom r s) \<or> (\<exists>s. rq = SocketMap s)")
  case True
  then show ?thesis using hubs_joinRoom hubs_joinMap assms by auto
next
  case False
  then have "hkeeps hubs_reach (userRoute ap u rq)"
    by (cases rq)
      (auto simp: handleTop_def handleMe_def handleOpenCell_def handleFlagCell_def handleJoin_def handleStatus_def
       handleCancel_def handleSetMatchResult_def handleGetMatchInfo_def handleGetRoom_def handleReady_def
       intro!: hubs_respond hkeeps_answer hubs_announce hubs_Broadcast split: option.split)
  then show ?thesis using assms(1) by (simp add: hkeeps_def)
qed

lemma hubs_request:
  assumes "hubs_reach sv" "fresh_socket rq sv"
  shows "hubs_reach (snd (handleRequest ap cr rq sv))"
proof (cases "publicRoute ap rq")
  case None
  have fresh: "fresh_socket rq (sv\<lparr>svWorld := w\<rparr>)" for w
    using assms(2) by (induction rq sv rule: fresh_socket.induct) simp_all
  obtain r w where "authenticate (apDeps ap) (apJWT ap) cr (svWorld sv) = (r, w)" by fastforce
  then show ?thesis using None assms fresh hubs_user [of "sv\<lparr>svWorld := w\<rparr>" rq]
    by (cases r rule: sum.exhaust) (auto simp: handleRequest_def respond_def split: err.split)
next
  case (Some h)
  then show ?thesis using hubs_public [OF Some] assms(1) by (simp add: handleRequest_def hkeeps_def)
qed

section \<open>Executions of the server\<close>

inductive server_step :: "api \<Rightarrow> server \<Rightarrow> server \<Rightarrow> bool" for ap where
  request: "fresh_socket rq sv \<Longrightarrow> server_step ap sv (snd (handleRequest ap cr rq sv))"
| worker: "server_step ap sv (sv\<lparr>svWorld := workerTurn (svWorld sv)\<rparr>)"
| map_socket: "hub_step (svMap sv) h \<Longrightarrow> server_step ap sv (sv\<lparr>svMap := h\<rparr>)"
| room_socket: "room_hub_step (svRooms sv) h \<Longrightarrow> server_step ap sv (sv\<lparr>svRooms := h\<rparr>)"
| moderation: "server_step ap sv (sv\<lparr>svWorld := (svWorld sv)\<lparr>dbUsers :=
    map (\<lambda>u. if usID u = i then u\<lparr>usStatus := s\<rparr> else u) (dbUsers (svWorld sv))\<rparr>\<rparr>)"
| environment: "server_step ap sv (sv\<lparr>svWorld := (svWorld sv)\<lparr>net := os, clock := ts\<rparr>\<rparr>)"

definition freshServer :: "MineSeason list \<Rightarrow> server" where
  "freshServer ss = \<lparr>svWorld = emptyWorld\<lparr>dbSeasons := ss\<rparr>, svMap = NewMapHub, svRooms = NewRoomHub\<rparr>"

inductive server_reach :: "api \<Rightarrow> MineSeason list \<Rightarrow> server \<Rightarrow> bool" for ap ss where
  start: "server_reach ap ss (freshServer ss)"
| step: "server_reach ap ss sv \<Longrightarrow> server_step ap sv sv' \<Longrightarrow> server_reach ap ss sv'"

text \<open>The worker settles one result.\<close>

lemma worker_keeps:
  assumes "\<And>evt. keeps I (SettleMatchResult evt)" "outside_match I" "I w"
  shows "I (workerTurn w)"
proof (cases "mqEvents w")
  case (Cons evt evts)
  obtain r w' where r: "SettleMatchResult evt w = (r, w')" by (cases "SettleMatchResult evt w")
  have "I w'" using givesD [OF assms(1,3), of evt] r by simp
  moreover have "stable I (\<lambda>w. w\<lparr>mqEvents := evts\<rparr>)" using assms(2) by (simp add: outside_match_def match_write_def)
  ultimately show ?thesis using r Cons by (cases r) (auto simp: workerTurn_def dest: stableD)
qed (use assms(3) in \<open>simp add: workerTurn_def\<close>)

lemma rank_own: "keeps rank_reach (SettleMatchResult evt)"
  by (auto simp: gives_def intro: rank_reach.step rank_step.settle)

text \<open>All five systems of the stored state, as one assertion.\<close>

definition systems :: "api \<Rightarrow> world \<Rightarrow> world \<Rightarrow> bool" where
  "systems ap w0 w \<longleftrightarrow> field_reach (apMac ap) (apClosure ap) w0 w \<and> queue_reach w \<and> rank_reach w
     \<and> users_reach (apDeps ap) w \<and> room_reach w0 w"

lemma systems_request: "systems ap w0 (svWorld sv) \<Longrightarrow> systems ap w0 (svWorld (snd (handleRequest ap cr rq sv)))"
  unfolding systems_def
  by (intro conjI field.handleRequest_keeps queue.handleRequest_keeps ranks.handleRequest_keeps users.handleRequest_keeps
      rooms.handleRequest_keeps) simp_all

lemmas worker_components =
  worker_keeps [OF frame_Settle [OF field_outside(3)] outside_rooms_match [OF field_outside(1)]]
  worker_keeps [OF frame_Settle [OF queue_outside(3)] outside_rooms_match [OF queue_outside(1)]]
  worker_keeps [OF rank_own outside_rooms_match [OF rank_outside(1)]]
  worker_keeps [OF frame_Settle [OF users_outside(4)] outside_rooms_match [OF users_outside(1)]]
  worker_keeps [OF frame_Settle [OF room_outside(4)] room_outside(1)]

lemma systems_worker: "systems ap w0 w \<Longrightarrow> systems ap w0 (workerTurn w)"
  unfolding systems_def by (simp add: worker_components)

lemma systems_moderation:
  "systems ap w0 w \<Longrightarrow> systems ap w0 (w\<lparr>dbUsers := map (\<lambda>u. if usID u = i then u\<lparr>usStatus := s\<rparr> else u) (dbUsers w)\<rparr>)"
  unfolding systems_def
  by (auto intro: field_reach_other queue_reach_other rank_reach_other room_reach_other users_reach.step users_step.moderated
      simp: fieldOf_def queueOf_def ranksOf_def)

lemma systems_environment: "systems ap w0 w \<Longrightarrow> systems ap w0 (w\<lparr>net := os, clock := ts\<rparr>)"
  unfolding systems_def
  by (auto intro: field_reach_other queue_reach_other rank_reach_other room_reach_other users_reach_other
      simp: fieldOf_def queueOf_def ranksOf_def usersOf_def)

lemma systems_start: "systems ap (emptyWorld\<lparr>dbSeasons := ss\<rparr>) (emptyWorld\<lparr>dbSeasons := ss\<rparr>)"
  unfolding systems_def
  by (auto intro: fr_start rr_start queue_reach_other [OF queue_reach.start] rank_reach_other [OF rank_reach.start]
      users_reach_other [OF users_reach.start] simp: queueOf_def ranksOf_def usersOf_def)

lemma server_reach_systems:
  "server_reach ap ss sv \<Longrightarrow> systems ap (emptyWorld\<lparr>dbSeasons := ss\<rparr>) (svWorld sv) \<and> hubs_reach sv"
proof (induction rule: server_reach.induct)
  case start
  then show ?case
    by (simp add: freshServer_def systems_start hubs_reach_def hub_reach.start room_hub_reach.start)
next
  case (step sv sv')
  show ?case using step.hyps(2) step.IH
  proof (induction rule: server_step.induct)
    case (map_socket sv h)
    then show ?case by (auto simp: hubs_reach_def intro: hub_reach.step)
  next
    case (room_socket sv h)
    then show ?case by (auto simp: hubs_reach_def intro: room_hub_reach.step)
  qed (simp_all add: systems_request systems_worker systems_moderation systems_environment hubs_request)
qed

end
