(* ===== verification/ServerRuns.thy ===== *)
theory ServerRuns
  imports Server
begin

text \<open>
  Invariants of the running server. \<open>server_invariant\<close> extends the contract of the requests by the other steps of
  the server; what meets it holds along every run. The first instance: a cell once opened stays
  open, with its owner and its number, whatever happens.
\<close>

locale server_invariant = request_invariant ap I for ap :: api and I :: "world \<Rightarrow> bool" +
  assumes data: "data_inv I"
    and settling: "keeps I (SettleMatchResult evt)"
    and events: "I w \<Longrightarrow> I (w\<lparr>mqEvents := es\<rparr>)"
    and accounts: "I w \<Longrightarrow> I (w\<lparr>dbUsers := us\<rparr>)"
begin

lemma worker_turn: "I w \<Longrightarrow> I (workerTurn w)"
proof (cases "mqEvents w")
  case (Cons evt evts)
  assume I: "I w"
  obtain r w' where r: "SettleMatchResult evt w = (r, w')" by (cases "SettleMatchResult evt w")
  have "I w'" using givesD [OF settling I, of evt] r by simp
  then show ?thesis using r Cons by (cases r) (auto simp: workerTurn_def intro: events)
qed (simp add: workerTurn_def)

lemma server_step_keeps: "server_step ap sv sv' \<Longrightarrow> I (svWorld sv) \<Longrightarrow> I (svWorld sv')"
proof (induction rule: server_step.induct)
  case (environment sv ts os)
  have "I (svWorld sv\<lparr>net := os\<rparr>)" using environment data by (simp add: data_inv_def)
  then have "I (svWorld sv\<lparr>net := os\<rparr>\<lparr>clock := ts\<rparr>)" using data by (simp add: data_inv_def del: world.simps)
  then show ?case by simp
qed (simp_all add: handleRequest_keeps worker_turn accounts)

lemma server_run_keeps: "(server_step ap)\<^sup>*\<^sup>* sv sv' \<Longrightarrow> I (svWorld sv) \<Longrightarrow> I (svWorld sv')"
  by (induction rule: rtranclp_induct) (simp_all add: server_step_keeps)

lemma server_reach_keeps: "server_reach ap ss sv \<Longrightarrow> I (emptyWorld\<lparr>dbSeasons := ss\<rparr>) \<Longrightarrow> I (svWorld sv)"
  by (induction rule: server_reach.induct) (simp_all add: freshServer_def server_step_keeps)

end

section \<open>Opened cells stay open\<close>

definition cellsOf :: "world \<Rightarrow> int \<times> string \<Rightarrow> int \<Rightarrow> MineOpenedCellSnapshot option" where
  "cellsOf w k = (case rdChunks w k of None \<Rightarrow> Map.empty | Some st \<Rightarrow> mget (csOpenedCells st))"

lemma cellsOf_storeChunk: "cellsOf (storeChunk st w) k = (if k = chunkKey st then mget (csOpenedCells st) else cellsOf w k)"
  by (simp add: cellsOf_def cs.lookup_put)

text \<open>The field is sound, and the cells \<open>C\<close> of chunk \<open>k\<close> are open.\<close>

definition grown :: "mac \<Rightarrow> int \<Rightarrow> MineSeason list \<Rightarrow> int \<times> string \<Rightarrow> (int \<Rightarrow> MineOpenedCellSnapshot option) \<Rightarrow> world \<Rightarrow> bool" where
  "grown mac dur ss k C w \<longleftrightarrow> fieldInv mac dur ss w \<and> C \<subseteq>\<^sub>m cellsOf w k"

lemma field_data_grown: "field_data (grown mac dur ss k C)"
  unfolding field_data_def grown_def fieldInv_def field_ok_def closed_index_ok_def cellsOf_def by (rule exI, rule refl)

interpretation growth: chunk_contract mac dur ss "grown mac dur ss k C"
  "\<lambda>s c st. chunk_ok mac dur s c st \<and> (k = (seID s, chunkString c) \<longrightarrow> C \<subseteq>\<^sub>m mget (csOpenedCells st))" for mac dur ss k C
proof unfold_locales
  show "field_data (grown mac dur ss k C)" by (rule field_data_grown)
  show "seasons_ok ss \<and> dbSeasons w = ss" if "grown mac dur ss k C w" for w
    using that by (auto simp: grown_def fieldInv_def field_ok_def)
  show "grown mac dur ss k C (storeChunk st w)"
    if "grown mac dur ss k C w" "s \<in> set ss" "playable c" "chunk_ok mac dur s c st \<and> (k = (seID s, chunkString c) \<longrightarrow> C \<subseteq>\<^sub>m mget (csOpenedCells st))"
    for s c st w
    using that by (auto simp: grown_def fieldInv_storeChunk cellsOf_storeChunk chunkKey_def chunk_ok_def)
qed (auto simp: grown_def cellsOf_def chunk_ok_new fieldInv_stored intro: map_le_trans)

lemma grown_outside:
  "outside_match (grown mac dur ss k C)" "outside_queue (grown mac dur ss k C)" "outside_ranks (grown mac dur ss k C)"
  "outside_users (grown mac dur ss k C)" "outside_rooms (grown mac dur ss k C)"
proof -
  have same: "stable (grown mac dur ss k C) upd"
    if "\<And>w. dbSeasons (upd w) = dbSeasons w" "\<And>w. rdChunks (upd w) = rdChunks w" "\<And>w. rdClosed (upd w) = rdClosed w" for upd
    by (rule stableI) (rule field_dataD [OF field_data_grown], assumption, rule that, rule that, rule that)
  show "outside_match (grown mac dur ss k C)" "outside_queue (grown mac dur ss k C)" "outside_ranks (grown mac dur ss k C)"
    "outside_users (grown mac dur ss k C)" "outside_rooms (grown mac dur ss k C)"
    by (auto simp: outside_match_def match_write_def outside_queue_def outside_ranks_def outside_users_def outside_rooms_def write_defs
        intro!: same)
qed

interpretation growing: server_invariant ap "grown (apMac ap) (apClosure ap) ss k C" for ap ss k C
proof unfold_locales
  show "grown (apMac ap) (apClosure ap) ss k C (w\<lparr>mqEvents := es\<rparr>)" if "grown (apMac ap) (apClosure ap) ss k C w" for w es
    by (rule field_dataD [OF field_data_grown that]) simp_all
  show "grown (apMac ap) (apClosure ap) ss k C (w\<lparr>dbUsers := us\<rparr>)" if "grown (apMac ap) (apClosure ap) ss k C w" for w us
    by (rule field_dataD [OF field_data_grown that]) simp_all
qed (intro growth.keeps_OpenCell growth.keeps_FlagCell growth.keeps_GetChunkSummary growth.keeps_GetChunkSnapshot growth.keeps_ListChunks
    growth.inv footprints grown_outside outside_rooms_allows frame_SetMatchResult)+

end
