(* ===== verification/MatchPlay.thy ===== *)
theory MatchPlay
  imports ChunkExample MatchScore
begin

text \<open>
  A match on the minefield, from a player's step to the end of the match: what \<^verbatim>\<open>openCellInWorker\<close>
  together with \<^verbatim>\<open>ApplyOpenResult\<close> and \<^verbatim>\<open>finishMatch\<close> of \<^verbatim>\<open>mine_match_service.go\<close> does to the chunk, the
  scores, the match record, the events and the locks when the stores answer.
\<close>

section \<open>The situation of a player\<close>

text \<open>The player's running match is on this chunk.\<close>

definition plays :: "wiring \<Rightarrow> world \<Rightarrow> int \<Rightarrow> MineSeason \<Rightarrow> ChunkID \<Rightarrow> MineMatchState \<Rightarrow> bool" where
  "plays wi w u s c m \<longleftrightarrow> wiMatch wi \<and> rdUserMatch w u = Some (mmMatchID m) \<and> rdMineMatches w (mmMatchID m) = Some m
     \<and> mmStatus m = MineMatchStatusOngoing \<and> mmSeasonID m = seID s \<and> mmChunkID m = chunkString c"

lemma plays_active: "plays wi w u s c m \<Longrightarrow> activeMatchOf w u = Some m"
  by (simp add: plays_def activeMatchOf_def)

lemma activeMatchOf_storeChunk [simp]: "activeMatchOf (storeChunk st w) u = activeMatchOf w u"
  by (simp add: activeMatchOf_def split: option.split)

lemma authorize_plays:
  "net w = [] \<Longrightarrow> plays wi w u s c m \<Longrightarrow>
   authorizeMineMatchOperation wi u (seID s) (chunkString c) w = (Inr (Some m), w)"
  using plays_active [of wi w u s c m]
  by (simp add: authorizeMineMatchOperation_def AuthorizeChunkOperation_def plays_def andThen_def GetActiveMatchByUser_of ret_def)

lemma enter_plays:
  assumes "at_chunk mac dur w t s c st" "plays wi w u s c m"
  shows "enterChunk wi dur u c w =
    (if stillClosed st t then (Inl ErrChunkClosed, w) else (Inr (s, openState st), entered st w))"
  using enterChunk_at [OF assms(1)] authorize_plays [OF _ assms(2)] assms(1) by (simp add: at_chunk_def)

section \<open>The end of a match\<close>

definition finishedState :: "MineMatchState \<Rightarrow> int \<Rightarrow> int \<Rightarrow> MineMatchState" where
  "finishedState m team t = m\<lparr>mmStatus := MineMatchStatusFinished, mmWinTeamNo := Some team, mmFinishedAt := Some t\<rparr>"

definition finishedRowOf :: "MatchRow \<Rightarrow> int \<Rightarrow> int \<Rightarrow> MatchRow" where
  "finishedRowOf row team t = row\<lparr>maWinTeamNo := Some team, maStatus := MatchStatusFinished, maFinishedAt := Some t\<rparr>"

definition publish :: "MatchResultFinishedEvent \<Rightarrow> world \<Rightarrow> world" where
  "publish e w = w\<lparr>mqEvents := mqEvents w @ [e]\<rparr>"

text \<open>The record finished, the event published, the state finished, the players free, the chunk unlocked.\<close>

definition matchOver :: "MineMatchState \<Rightarrow> int \<Rightarrow> int \<Rightarrow> MatchRow \<Rightarrow> world \<Rightarrow> world" where
  "matchOver m team t row w =
     dropOwn (mmSeasonID m, mmChunkID m) (mmMatchID m)
      (bindUsers (mkeys (mmUserTeams m)) None
       (storeMatch (finishedState m team t)
        (publish (matchEvent (mmMatchID m) team (maMode row) t)
         (updateMatchRow (finishedRowOf row team t) w))))"

lemma calm_frames [simp]:
  "net (dropOwn k i w) = net w" "net (bindUsers us v w) = net w" "net (storeMatch m w) = net w"
  "net (publish e w) = net w" "net (updateMatchRow r w) = net w"
  "clock (dropOwn k i w) = clock w" "clock (bindUsers us v w) = clock w" "clock (storeMatch m w) = clock w"
  "clock (publish e w) = clock w" "clock (updateMatchRow r w) = clock w"
  by (simp_all add: dropOwn_def dropLock_def bindUsers_def storeMatch_def publish_def updateMatchRow_def)

lemma bindUsers_Nil: "bindUsers [] v w = w"
  by (simp add: bindUsers_def)

lemma pipeUsers_calm: "net w = [] \<Longrightarrow> pipeUsers us v w = (Inr (), bindUsers us v w)"
  by (simp add: pipeUsers_def ret_def bindUsers_Nil)

lemma SetMatchResult_calm:
  assumes "net w = []" "clock w = [t]" "findMatch i (dbMatches w) = Some row"
  shows "SetMatchResult True i team w =
    (Inr (), publish (matchEvent i team (maMode row) t) (updateMatchRow (finishedRowOf row team t) w))"
  using assms
  by (simp add: SetMatchResult_def GetMatchByID_def andThen_def timeNow_const UpdateMatch_def onErr_def PublishJSON_def
      publish_def matchEvent_def finishedRowOf_def)

lemma finishMatch_calm:
  assumes "net w = []" "clock w = [t]" "findMatch (mmMatchID m) (dbMatches w) = Some row"
    and "mmStatus m = MineMatchStatusOngoing" "wiMatchService wi" "wiPublisher wi"
  shows "finishMatch wi m team t resp w = (Inr (attachMineMatchResponse resp (finishedState m team t)), matchOver m team t row w)"
  using assms
  by (simp add: finishMatch_def Let_def andThen_def SetMatchResult_calm SaveMatchState_def DeleteActiveMatchForUsers_def pipeUsers_calm
      UnlockChunk_calm ret_def matchOver_def finishedState_def)

text \<open>What can be read off afterwards.\<close>

lemma matchOver_reads:
  "rdChunks (matchOver m team t row w) = rdChunks w"
  "rdClosed (matchOver m team t row w) = rdClosed w"
  "rdMineMatches (matchOver m team t row w) = (rdMineMatches w)(mmMatchID m \<mapsto> finishedState m team t)"
  "rdUserMatch (matchOver m team t row w) = (\<lambda>v. if mhas (mmUserTeams m) v then None else rdUserMatch w v)"
  "rdChunkLock (matchOver m team t row w) k =
     (if k = (mmSeasonID m, mmChunkID m) \<and> rdChunkLock w k = Some (mmMatchID m) then None else rdChunkLock w k)"
  "mqEvents (matchOver m team t row w) = mqEvents w @ [matchEvent (mmMatchID m) team (maMode row) t]"
  "dbMatches (matchOver m team t row w) = dbMatches (updateMatchRow (finishedRowOf row team t) w)"
  by (auto simp: matchOver_def dropOwn_def dropLock_def bindUsers_def storeMatch_def publish_def updateMatchRow_def
      finishedState_def mkeys_dom mhas_def fun_eq_iff)

lemma matchOver_row:
  assumes "findMatch (mmMatchID m) (dbMatches w) = Some row"
  shows "findMatch i (dbMatches (matchOver m team t row w)) =
    (if i = mmMatchID m then Some (finishedRowOf row team t) else findMatch i (dbMatches w))"
proof -
  have "maID row = mmMatchID m" using findMatch_ID [OF assms] by simp
  then show ?thesis
    using assms by (cases "findMatch i (dbMatches w)")
      (auto simp: matchOver_reads findMatch_updateMatchRow finishedRowOf_def)
qed

section \<open>All safe cells open\<close>

definition allOpen :: "mac \<Rightarrow> MineSeason \<Rightarrow> ChunkID \<Rightarrow> MineChunkState \<Rightarrow> bool" where
  "allOpen mac s c st \<longleftrightarrow> (\<forall>x y. on_board x y \<and> \<not> cellMine mac s c x y \<longrightarrow> mhas (csOpenedCells st) (y * 128 + x))"

lemma set_boardCells: "set boardCells = {(x, y). on_board x y}"
  by (auto simp: boardCells_def on_board_def ChunkSize_def image_iff)

lemma distinct_grid: "distinct xs \<Longrightarrow> distinct ys \<Longrightarrow> distinct (concat (map (\<lambda>y. map (\<lambda>x. (x, y)) xs) ys))"
  by (induction ys) (auto simp: distinct_map inj_on_def)

lemma distinct_boardCells: "distinct boardCells"
  unfolding boardCells_def by (rule distinct_grid) simp_all

lemma countSafe_spec:
  assumes "season_ok s" "in_grid c" "\<And>x y. (x, y) \<in> set cells \<Longrightarrow> on_board x y"
  shows "countSafe mac s c cells n = Inr (n + int (length (filter (\<lambda>(x, y). \<not> cellMine mac s c x y) cells)))"
  using assms(3)
proof (induction cells arbitrary: n)
  case (Cons d cells)
  obtain x y where d: "d = (x, y)" by (cases d)
  have "IsMine mac (Some s) c x y = Inr (cellMine mac s c x y)"
    by (rule IsMine_board [OF assms(1,2)]) (use Cons.prems d in simp)
  then show ?case using Cons by (simp add: d)
qed simp

definition safeCells :: "mac \<Rightarrow> MineSeason \<Rightarrow> ChunkID \<Rightarrow> (int \<times> int) set" where
  "safeCells mac s c = {(x, y). on_board x y \<and> \<not> cellMine mac s c x y}"

lemma safe_count: "int (length (filter (\<lambda>(x, y). \<not> cellMine mac s c x y) boardCells)) = int (card (safeCells mac s c))"
proof -
  have "set (filter (\<lambda>(x, y). \<not> cellMine mac s c x y) boardCells) = safeCells mac s c"
    by (auto simp: set_boardCells safeCells_def)
  then show ?thesis using distinct_card [of "filter (\<lambda>(x, y). \<not> cellMine mac s c x y) boardCells"] distinct_boardCells by simp
qed

lemma safe_keys: "cellKey ` {(x, y). P x y} \<subseteq> A \<longleftrightarrow> (\<forall>x y. P x y \<longrightarrow> y * 128 + x \<in> A)"
  by (simp add: image_subset_iff)

text \<open>The loop of \<^verbatim>\<open>allSafeCellsOpened\<close> counts; since only safe cells are ever open, the count says that all of them are.\<close>

lemma allSafe_spec:
  assumes s: "season_ok s" "in_grid c" and ok: "chunk_ok mac dur s c st"
  shows "allSafeCellsOpened mac s c st = Inr (csOpenedCells st \<noteq> [] \<and> allOpen mac s c st)"
proof (cases "csOpenedCells st = []")
  case True
  then show ?thesis by (simp add: allSafeCellsOpened_def mlen_zero_iff)
next
  case False
  let ?S = "safeCells mac s c" and ?o = "dom (mget (csOpenedCells st))"
  have fin: "finite ?S" by (rule finite_subset [OF _ finite_set [of boardCells]]) (auto simp: safeCells_def set_boardCells simp del: finite_set)
  have sub: "?o \<subseteq> cellKey ` ?S"
  proof
    fix i assume "i \<in> ?o"
    then obtain cell where cell: "mget (csOpenedCells st) i = Some cell" by auto
    then have "cell_ok mac s c i cell" using ok by (simp add: chunk_ok_def)
    then show "i \<in> cellKey ` ?S" by (auto simp: cell_ok_def safeCells_def intro!: image_eqI [of _ _ "(ocX cell, ocY cell)"])
  qed
  have card: "card (cellKey ` ?S) = card ?S" by (rule card_image [OF cellKey_inj]) (auto simp: safeCells_def)
  have len: "mlen (csOpenedCells st) = int (card ?o)" using ok by (simp add: mlen_card chunk_ok_def)
  have "card ?S \<le> card ?o \<longleftrightarrow> ?o = cellKey ` ?S"
    using card_seteq [OF finite_imageI [OF fin] sub] card by (metis order_refl)
  also have "\<dots> \<longleftrightarrow> cellKey ` ?S \<subseteq> ?o" using sub by (simp only: set_eq_subset simp_thms)
  also have "\<dots> \<longleftrightarrow> allOpen mac s c st"
    unfolding allOpen_def safeCells_def mhas_iff by (rule safe_keys)
  finally have "int (card ?S) \<le> mlen (csOpenedCells st) \<longleftrightarrow> allOpen mac s c st" by (simp add: len)
  moreover have "countSafe mac s c boardCells 0 = Inr (int (card ?S))"
    unfolding safe_count [symmetric] by (subst countSafe_spec [OF s]) (simp_all add: set_boardCells)
  ultimately show ?thesis
    using False by (simp add: allSafeCellsOpened_def mlen_zero_iff)
qed

section \<open>Stepping on a mine\<close>

text \<open>Two teams play, and \<open>u\<close> belongs to the first.\<close>

definition duel :: "MineMatchState \<Rightarrow> int \<Rightarrow> int \<Rightarrow> int \<Rightarrow> bool" where
  "duel m u own other \<longleftrightarrow> mget (mmUserTeams m) u = Some own \<and> own \<noteq> other \<and> set (mkeys (mmTeams m)) = {own, other}"

lemma opponentTeam_duel:
  assumes "duel m u own other" shows "opponentTeam m u = Inr other"
proof -
  have "set (filter (\<lambda>t. t \<noteq> own) (mkeys (mmTeams m))) = {other}" using assms by (auto simp: duel_def)
  then obtain ts where "filter (\<lambda>t. t \<noteq> own) (mkeys (mmTeams m)) = other # ts"
    by (cases "filter (\<lambda>t. t \<noteq> own) (mkeys (mmTeams m))") auto
  then show ?thesis using assms by (simp add: opponentTeam_def duel_def)
qed

text \<open>The services a match needs are there, and its record is in the database.\<close>

definition match_wired :: "wiring \<Rightarrow> world \<Rightarrow> MineMatchState \<Rightarrow> MatchRow \<Rightarrow> bool" where
  "match_wired wi w m row \<longleftrightarrow> wiMatchService wi \<and> wiPublisher wi \<and> findMatch (mmMatchID m) (dbMatches w) = Some row"

lemma entered_records [simp]: "mqEvents (entered st w) = mqEvents w" "dbMatches (entered st w) = dbMatches w"
  by (simp_all add: entered_def)

lemma plays_storeChunk: "plays wi (storeChunk st w) u s c m = plays wi w u s c m"
  by (simp add: plays_def)

lemma plays_entered: "plays wi (entered st w) u s c m = plays wi w u s c m"
  by (simp add: entered_def plays_storeChunk)

lemma match_wired_same: "match_wired wi (storeChunk st w) m row = match_wired wi w m row"
  "match_wired wi (entered st w) m row = match_wired wi w m row"
  "match_wired wi (storeMatch m' w) m row = match_wired wi w m row"
  by (simp_all add: match_wired_def entered_def storeMatch_def)

lemma apply_plays:
  assumes "net w = []" "plays wi w u s c m"
  shows "applyMineMatchOpenResult mac wi u s c st resp w =
    (let resp' = attachMineMatchResponse resp m in
     if opCanceled resp then (Inr resp', w)
     else if opMine resp then
       andThen (liftE (opponentTeam m u)) (\<lambda>team. andThen timeNow (\<lambda>now. finishMatch wi m team now resp')) w
     else
       andThen (if opNewOpenedCount resp > 0
          then andThen timeNow (\<lambda>now. let m' = addScore m u (opNewOpenedCount resp) now in
            andThen (SaveMatchState m') (\<lambda>_. ret (m', attachMineMatchResponse resp' m')))
          else ret (m, resp')) (\<lambda>(m', resp').
       andThen (liftE (allSafeCellsOpened mac s c st)) (\<lambda>completed.
       if \<not> completed then ret resp'
       else andThen (liftE (scoreWinnerTeam m')) (\<lambda>team. andThen timeNow (\<lambda>now. finishMatch wi m' team now resp')))) w)"
proof -
  have "wiMatch wi" "mmChunkID m = chunkString c" using assms(2) by (simp_all add: plays_def)
  moreover have at: "opCanceled (attachMineMatchResponse resp m) = opCanceled resp"
    "opMine (attachMineMatchResponse resp m) = opMine resp"
    "opNewOpenedCount (attachMineMatchResponse resp m) = opNewOpenedCount resp"
    by (simp_all add: attachMineMatchResponse_def)
  ultimately show ?thesis
    unfolding applyMineMatchOpenResult_def ApplyOpenResult_def
    by (simp add: andThen_def [of "GetActiveMatchByUser u"] GetActiveMatchByUser_of [OF assms(1)] plays_active [OF assms(2)]
        ret_def Let_def)
qed

text \<open>(C12) A player who steps on a mine loses his match on the spot: the chunk is closed by him, the
  match is stored and recorded as finished with the other team as the winner, the result is
  published once for the rank worker, its players are free again and the chunk's lock is released; no other
  match, lock or player is touched, and the answer says who won.\<close>

theorem mine_loses_match:
  assumes at: "at_chunk mac dur w t s c st" and pl: "plays wi w u s c m" and wired: "match_wired wi w m row"
    and duel: "duel m u own other" and lock: "rdChunkLock w (seID s, chunkString c) = Some (mmMatchID m)"
    and b: "on_board x y" and nc: "\<not> stillClosed st t" and mine: "cellMine mac s c x y"
    and new: "\<not> mhas (csOpenedCells st) (y * 128 + x)" "\<not> mhas (csFlaggedBy st) (y * 128 + x)"
    and vet: "playerHasOpenedCell st u"
  shows "\<exists>resp w'. openCellInWorker mac wi dur u c x y w = (Inr resp, w')
    \<and> opMine resp \<and> opMatchFinished resp \<and> opWinTeamNo resp = Some other
    \<and> (\<exists>st'. rdChunks w' = (rdChunks w)((seID s, chunkString c) \<mapsto> st') \<and> csClosed st' \<and> csClosedBy st' = u
         \<and> csOpenedCells st' = csOpenedCells st)
    \<and> rdMineMatches w' = (rdMineMatches w)(mmMatchID m \<mapsto> m\<lparr>mmStatus := MineMatchStatusFinished,
         mmWinTeamNo := Some other, mmFinishedAt := Some t\<rparr>)
    \<and> (\<forall>v. rdUserMatch w' v = (if mhas (mmUserTeams m) v then None else rdUserMatch w v))
    \<and> rdChunkLock w' = (rdChunkLock w)((seID s, chunkString c) := None)
    \<and> (\<forall>i. findMatch i (dbMatches w') = (if i = mmMatchID m
         then Some (row\<lparr>maWinTeamNo := Some other, maStatus := MatchStatusFinished, maFinishedAt := Some t\<rparr>)
         else findMatch i (dbMatches w)))
    \<and> mqEvents w' = mqEvents w @ [\<lparr>evEventID = ''evt_'' @ itoa (mmMatchID m), evMatchID = mmMatchID m, evWinTeamNo = other,
         evMode = maMode row, evOccurredAt = t\<rparr>]"
proof -
  let ?i = "y * 128 + x" and ?k = "(seID s, chunkString c)"
  have n: "net w = []" "clock w = [t]" using at by (simp_all add: at_chunk_def)
  have ok: "chunk_ok mac dur s c st" by (rule chunk_ok_at [OF at])
  let ?st2 = "bumpVersion (closeByMine dur (openState st) u t)"
  let ?w = "storeChunk ?st2 (entered st w)"
  let ?r = "savedResponse c ?st2 x y ?i t True 0 (mlen (csOpenedCells st))"
  have pl': "plays wi ?w u s c m" using pl by (simp add: plays_storeChunk plays_entered)
  have row: "wiMatchService wi" "wiPublisher wi" "findMatch (mmMatchID m) (dbMatches ?w) = Some row"
    using wired match_wired_same(1,2) unfolding match_wired_def by metis+
  have r: "opMine ?r" "\<not> opCanceled ?r" by (simp_all add: savedResponse_def baseOpenResponse_def)
  have fin: "finishMatch wi m other t (attachMineMatchResponse ?r m) ?w =
      (Inr (attachMineMatchResponse (attachMineMatchResponse ?r m) (finishedState m other t)), matchOver m other t row ?w)"
    by (rule finishMatch_calm) (use n row pl in \<open>simp_all add: plays_def\<close>)
  have ap: "applyMineMatchOpenResult mac wi u s c ?st2 ?r ?w =
      (Inr (attachMineMatchResponse (attachMineMatchResponse ?r m) (finishedState m other t)), matchOver m other t row ?w)"
    using r fin n opponentTeam_duel [OF duel]
    by (subst apply_plays [OF _ pl']) (simp_all add: andThen_def timeNow_const ret_def)
  have enter: "enterChunk wi dur u c w = (Inr (s, openState st), entered st w)" using nc by (simp add: enter_plays [OF at pl])
  note run = open_mine_run [OF at enter b mine new, unfolded if_P [OF vet] ap]
  have key: "csSeasonID ?st2 = seID s" "csChunkID ?st2 = chunkString c" "csOpenedCells ?st2 = csOpenedCells st"
    using ok by (simp_all add: bumpVersion_def closeByMine_def chunk_ok_def)
  have cells: "rdChunks ?w = (rdChunks w)(?k \<mapsto> ?st2)"
    using ok by (auto simp: storeChunk_def entered_def key reopened_def chunk_ok_def)
  have home: "mmSeasonID m = seID s" "mmChunkID m = chunkString c" using pl by (simp_all add: plays_def)
  have locks: "rdChunkLock (matchOver m other t row ?w) = (rdChunkLock w)(?k := None)"
    using lock home by (auto simp: fun_eq_iff matchOver_reads)
  show ?thesis
  proof (intro exI conjI allI, rule run)
    show "csClosed ?st2" "csClosedBy ?st2 = u" by (simp_all add: bumpVersion_def closeByMine_def)
    show "findMatch i (dbMatches (matchOver m other t row ?w)) = (if i = mmMatchID m
         then Some (row\<lparr>maWinTeamNo := Some other, maStatus := MatchStatusFinished, maFinishedAt := Some t\<rparr>)
         else findMatch i (dbMatches w))" for i
      unfolding matchOver_row [OF row(3)] finishedRowOf_def by simp
  qed (simp_all add: r key locks cells matchOver_reads attachMineMatchResponse_def finishedState_def matchEvent_def
      savedResponse_def baseOpenResponse_def)
qed

section \<open>Scoring\<close>

lemma scoreLoop_Some: "\<exists>b. scoreLoop st ts (Some a) = Some b"
proof (induction ts arbitrary: a)
  case (Cons d ts)
  obtain score last where "teamTotals st (snd d) 0 0 = (score, last)" by (cases "teamTotals st (snd d) 0 0")
  then show ?case using Cons.IH by (cases d; cases a) simp
qed (rule exI, simp only: scoreLoop.simps)

lemma scoreWinnerTeam_some: "mmTeams st \<noteq> [] \<Longrightarrow> \<exists>team. scoreWinnerTeam st = Inr team"
proof -
  assume "mmTeams st \<noteq> []"
  then obtain d ts where ts: "mmTeams st = d # ts" by (cases "mmTeams st") auto
  obtain b where "scoreLoop st (mmTeams st) None = scoreLoop st ts (Some b)" unfolding ts by (cases d) (auto split: prod.split)
  then show ?thesis using scoreLoop_Some [of st ts b] by (auto simp: scoreWinnerTeam_def split: prod.split)
qed

lemma addScore_sel [simp]:
  "mmMatchID (addScore m u n t) = mmMatchID m" "mmChunkID (addScore m u n t) = mmChunkID m" "mmSeasonID (addScore m u n t) = mmSeasonID m"
  "mmStatus (addScore m u n t) = mmStatus m" "mmTeams (addScore m u n t) = mmTeams m" "mmUserTeams (addScore m u n t) = mmUserTeams m"
  by (simp_all add: addScore_def)

lemma storeMatch_frame [simp]:
  "rdChunks (storeMatch m w) = rdChunks w" "dbMatches (storeMatch m w) = dbMatches w"
  by (simp_all add: storeMatch_def)

text \<open>What follows the saving of a safe step: the score, and the end of the match with the last safe cell.\<close>

lemma apply_safe:
  assumes n: "net w = []" "clock w = [t]" and pl: "plays wi w u s c m" and wired: "match_wired wi w m row"
    and r: "\<not> opMine resp" "\<not> opCanceled resp" "0 < opNewOpenedCount resp"
    and all: "allSafeCellsOpened mac s c st = Inr b" and teams: "mmTeams m \<noteq> []"
  defines "m' \<equiv> addScore m u (opNewOpenedCount resp) t"
  shows "\<exists>team. scoreWinnerTeam m' = Inr team
    \<and> applyMineMatchOpenResult mac wi u s c st resp w =
     (if b then (Inr (attachMineMatchResponse resp (finishedState m' team t)), matchOver m' team t row (storeMatch m' w))
      else (Inr (attachMineMatchResponse resp m'), storeMatch m' w))"
proof -
  obtain team where team: "scoreWinnerTeam m' = Inr team"
    using scoreWinnerTeam_some [of m'] teams by (auto simp: m'_def)
  have fin: "finishMatch wi m' team t r' (storeMatch m' w) =
      (Inr (attachMineMatchResponse r' (finishedState m' team t)), matchOver m' team t row (storeMatch m' w))" for r'
    by (rule finishMatch_calm) (use n pl wired in \<open>simp_all add: m'_def plays_def match_wired_def\<close>)
  have at: "attachMineMatchResponse (attachMineMatchResponse (attachMineMatchResponse resp a) b) c = attachMineMatchResponse resp c"
    "attachMineMatchResponse (attachMineMatchResponse resp a) b = attachMineMatchResponse resp b" for a b c
    by (simp_all add: attachMineMatchResponse_def)
  have "applyMineMatchOpenResult mac wi u s c st resp w =
     (if b then (Inr (attachMineMatchResponse resp (finishedState m' team t)), matchOver m' team t row (storeMatch m' w))
      else (Inr (attachMineMatchResponse resp m'), storeMatch m' w))"
    using r n all team fin
    by (subst apply_plays [OF n(1) pl]) (auto simp: andThen_def timeNow_const ret_def SaveMatchState_def Let_def at m'_def [symmetric])
  then show ?thesis using team by blast
qed

text \<open>What a safe step saves, and the answer it starts from.\<close>

lemma open_plays_safe:
  assumes at: "at_chunk mac dur w t s c st" and pl: "plays wi w u s c m" and b: "on_board x y" and nc: "\<not> stillClosed st t"
    and o: "openable mac s c st (x, y)"
  defines "new \<equiv> newlyOpened mac s c (openState st) x y"
  obtains st2 r where
    "openCellInWorker mac wi dur u c x y w = applyMineMatchOpenResult mac wi u s c st2 r (storeChunk st2 (entered st w))"
    "chunk_ok mac dur s c st2" "\<forall>i. mhas (csOpenedCells st2) i \<longleftrightarrow> i \<in> cellKey ` new \<or> mhas (csOpenedCells st) i"
    "csOpenedCells st2 \<noteq> []" "0 < card new" "opNewOpenedCount r = int (card new)" "\<not> opMine r" "\<not> opCanceled r"
proof -
  let ?i = "y * 128 + x"
  have enter: "enterChunk wi dur u c w = (Inr (s, openState st), entered st w)" using nc by (simp add: enter_plays [OF at pl])
  obtain st1 where more: "opened_more mac s c u t (openState st) new st1"
    and cnt: "mlen (csOpenedCells st1) - mlen (csOpenedCells st) = int (card new)"
    and run: "openCellInWorker mac wi dur u c x y w = applyMineMatchOpenResult mac wi u s c (bumpVersion st1)
       (savedResponse c (bumpVersion st1) x y ?i t False (cellAdj mac s c x y) (mlen (csOpenedCells st)))
       (storeChunk (bumpVersion st1) (entered st w))"
    unfolding new_def by (rule open_safe_run [OF at enter b o])
  have mem: "(x, y) \<in> new" using o by (auto simp: new_def newlyOpened_def intro: zeroReach.intros)
  have opens: "openable mac s c (openState st) d" if "d \<in> new" for d
    by (rule newlyOpened_openable [of mac s c "openState st" x y]) (use o that new_def in simp_all)
  have "chunk_ok mac dur s c (openState st)" using chunk_ok_at [OF at] by (simp add: openState_def chunk_ok_reopened)
  note ok = chunk_ok_bumpVersion [OF chunk_ok_opened_more [OF this more opens]]
  have cells: "mhas (csOpenedCells (bumpVersion st1)) i \<longleftrightarrow> i \<in> cellKey ` new \<or> mhas (csOpenedCells st) i" for i
    using mhas_opened_more [OF more, of i] by (simp add: bumpVersion_def)
  have "cellKey ` new \<subseteq> dom (mget (csOpenedCells (bumpVersion st1)))" using cells by (auto simp: mhas_iff)
  then have "finite (cellKey ` new)" by (rule finite_subset [OF _ finite_dom_map_of])
  then have "finite new" by (rule finite_imageD [OF _ cellKey_inj]) (use opens in force)
  then have pos: "0 < card new" using mem card_gt_0_iff by blast
  have some: "csOpenedCells (bumpVersion st1) \<noteq> []" using cells [of ?i] mem by (auto simp: mhas_def intro: rev_image_eqI)
  show thesis
    by (rule that [OF run ok _ some pos]) (use cells cnt in \<open>simp_all add: savedResponse_def baseOpenResponse_def bumpVersion_def\<close>)
qed

text \<open>(C13) Every cell a player opens counts for him, and for nobody else: opening a safe cell in a running match
  adds the number of newly opened cells (the zero area, or the cell alone) to his score and to no other,
  records the time, and leaves the match running until the last safe cell of the chunk is open; that
  one ends it, with the winner on points, the finished record, the published result, the players free and the
  chunk unlocked.\<close>

theorem opening_scores:
  assumes at: "at_chunk mac dur w t s c st" and pl: "plays wi w u s c m" and wired: "match_wired wi w m row"
    and teams: "mmTeams m \<noteq> []" and b: "on_board x y" and nc: "\<not> stillClosed st t" and o: "openable mac s c st (x, y)"
  defines "new \<equiv> newlyOpened mac s c (openState st) x y"
  defines "m' \<equiv> m\<lparr>mmPlayerScores := mput u (wrap64 (mget0 0 (mmPlayerScores m) u + int (card new))) (mmPlayerScores m),
      mmLastScoreAt := mput u t (mmLastScoreAt m)\<rparr>"
  shows "\<exists>st' resp w'. openCellInWorker mac wi dur u c x y w = (Inr resp, w')
    \<and> opNewOpenedCount resp = int (card new) \<and> opMatchScores resp = mmPlayerScores m'
    \<and> rdChunks w' (seID s, chunkString c) = Some st'
    \<and> (\<forall>i. mhas (csOpenedCells st') i \<longleftrightarrow> i \<in> cellKey ` new \<or> mhas (csOpenedCells st) i)
    \<and> (if \<forall>x y. on_board x y \<and> \<not> cellMine mac s c x y \<longrightarrow> mhas (csOpenedCells st') (y * 128 + x)
       then \<exists>team. scoreWinnerTeam m' = Inr team \<and> opMatchFinished resp \<and> opWinTeamNo resp = Some team
          \<and> w' = matchOver m' team t row (storeMatch m' (storeChunk st' (entered st w)))
       else \<not> opMatchFinished resp \<and> w' = storeMatch m' (storeChunk st' (entered st w)))"
proof -
  let ?k = "(seID s, chunkString c)"
  have n: "net w = []" "clock w = [t]" and so: "season_ok s" "in_grid c"
    using season_at [OF at] at playable_in_grid by (simp_all add: at_chunk_def)
  obtain st2 r where run: "openCellInWorker mac wi dur u c x y w = applyMineMatchOpenResult mac wi u s c st2 r (storeChunk st2 (entered st w))"
    and ok: "chunk_ok mac dur s c st2" and cells: "\<forall>i. mhas (csOpenedCells st2) i \<longleftrightarrow> i \<in> cellKey ` new \<or> mhas (csOpenedCells st) i"
    and some: "csOpenedCells st2 \<noteq> []" and pos: "0 < card new" and r: "opNewOpenedCount r = int (card new)" "\<not> opMine r" "\<not> opCanceled r"
    unfolding new_def by (rule open_plays_safe [OF at pl b nc o])
  let ?w = "storeChunk st2 (entered st w)"
  have key: "chunkKey st2 = ?k" using ok by (simp add: chunk_ok_def chunkKey_def)
  have m': "addScore m u (int (card new)) t = m'" by (simp add: addScore_def m'_def)
  have pl': "plays wi ?w u s c m" and wired': "match_wired wi ?w m row"
    using pl wired by (simp_all add: plays_storeChunk plays_entered match_wired_same)
  let ?b = "\<forall>x y. on_board x y \<and> \<not> cellMine mac s c x y \<longrightarrow> mhas (csOpenedCells st2) (y * 128 + x)"
  have all: "allSafeCellsOpened mac s c st2 = Inr ?b"
    using allSafe_spec [OF so ok] some by (simp add: allOpen_def)
  obtain team where team: "scoreWinnerTeam m' = Inr team"
    and ap: "applyMineMatchOpenResult mac wi u s c st2 r ?w =
     (if ?b then (Inr (attachMineMatchResponse r (finishedState m' team t)), matchOver m' team t row (storeMatch m' ?w))
      else (Inr (attachMineMatchResponse r m'), storeMatch m' ?w))"
    using apply_safe [OF _ _ pl' wired' r(2,3) _ all teams, of t] n pos unfolding r(1) m' by auto
  have stat: "mmStatus m' = MineMatchStatusOngoing" using pl by (simp add: m'_def plays_def)
  have at: "opNewOpenedCount (attachMineMatchResponse r a) = int (card new)" "opMatchScores (attachMineMatchResponse r a) = mmPlayerScores a"
    "opMatchFinished (attachMineMatchResponse r a) = (mmStatus a = MineMatchStatusFinished)" "opWinTeamNo (attachMineMatchResponse r a) = mmWinTeamNo a" for a
    using r(1) by (simp_all add: attachMineMatchResponse_def)
  have got: "rdChunks ?w ?k = Some st2" using cs.put_get [of st2 "entered st w"] by (simp add: key)
  show ?thesis
  proof (cases ?b)
    case True
    have "openCellInWorker mac wi dur u c x y w =
        (Inr (attachMineMatchResponse r (finishedState m' team t)), matchOver m' team t row (storeMatch m' ?w))"
      unfolding run ap by (rule if_P [OF True])
    then show ?thesis
    proof (intro exI conjI, assumption)
      show "if ?b then \<exists>team'. scoreWinnerTeam m' = Inr team' \<and> opMatchFinished (attachMineMatchResponse r (finishedState m' team t))
            \<and> opWinTeamNo (attachMineMatchResponse r (finishedState m' team t)) = Some team'
            \<and> matchOver m' team t row (storeMatch m' ?w) = matchOver m' team' t row (storeMatch m' ?w)
          else \<not> opMatchFinished (attachMineMatchResponse r (finishedState m' team t))
            \<and> matchOver m' team t row (storeMatch m' ?w) = storeMatch m' ?w"
        unfolding if_P [OF True] at by (intro exI conjI, rule team) (simp_all add: finishedState_def)
    qed (use cells got in \<open>simp_all only: at matchOver_reads storeMatch_frame, simp_all add: finishedState_def\<close>)
  next
    case False
    have "openCellInWorker mac wi dur u c x y w = (Inr (attachMineMatchResponse r m'), storeMatch m' ?w)"
      unfolding run ap by (rule if_not_P [OF False])
    then show ?thesis
    proof (intro exI conjI, assumption)
      show "if ?b then \<exists>team'. scoreWinnerTeam m' = Inr team' \<and> opMatchFinished (attachMineMatchResponse r m')
            \<and> opWinTeamNo (attachMineMatchResponse r m') = Some team'
            \<and> storeMatch m' ?w = matchOver m' team' t row (storeMatch m' ?w)
          else \<not> opMatchFinished (attachMineMatchResponse r m') \<and> storeMatch m' ?w = storeMatch m' ?w"
        unfolding if_not_P [OF False] at using stat by simp
    qed (use cells got in \<open>simp_all only: at storeMatch_frame, simp_all\<close>)
  qed
qed

section \<open>An example\<close>

text \<open>Players 1001 and 1002 play match 9 on the chunk of the example field.\<close>

definition duelMatch :: MineMatchState where
  "duelMatch = buildMineMatchState 30 9 ''r'' 1 ''cn:6:10:20'' [mkTeam 1 [1001], mkTeam 2 [1002]]"

definition duelWorld :: world where
  "duelWorld = (fieldWith exSt)\<lparr>rdUserMatch := [1001 \<mapsto> 9, 1002 \<mapsto> 9], rdMineMatches := [9 \<mapsto> duelMatch],
     rdChunkLock := [(1, ''cn:6:10:20'') \<mapsto> 9], dbMatches := [(newMatchRow 30 duelResult)\<lparr>maID := 9\<rparr>]\<rparr>"

lemma duelMatch_sel:
  "mmMatchID duelMatch = 9" "mmStatus duelMatch = MineMatchStatusOngoing" "mmSeasonID duelMatch = 1" "mmChunkID duelMatch = ''cn:6:10:20''"
  "mmTeams duelMatch = [(1, [1001]), (2, [1002])]" "mmUserTeams duelMatch = [(1001, 1), (1002, 2)]"
  "mmPlayerScores duelMatch = [(1001, 0), (1002, 0)]"
  by (simp_all add: duelMatch_def buildMineMatchState_def addTeam_def mkTeam_def)

lemma duelWorld_at: "at_chunk rowMac 60 duelWorld 50 exampleSeason exC exSt"
  using at_fieldWith [OF exSt_ok]
  by (simp add: duelWorld_def at_chunk_def field_ok_def closed_index_ok_def loadedState_def)

lemma duelWorld_facts:
  "u = 1001 \<or> u = 1002 \<Longrightarrow> plays fullWiring duelWorld u exampleSeason exC duelMatch"
  "match_wired fullWiring duelWorld duelMatch ((newMatchRow 30 duelResult)\<lparr>maID := 9\<rparr>)"
  "duel duelMatch 1001 1 2" "rdChunkLock duelWorld (seID exampleSeason, chunkString exC) = Some (mmMatchID duelMatch)"
  "mmTeams duelMatch \<noteq> []"
  by (auto simp: plays_def match_wired_def duel_def duelWorld_def duelMatch_sel fullWiring_def exampleSeason_def exC_string mkeys_def)

lemma mine_loses_match_witness:
  "\<exists>resp w'. openCellInWorker rowMac fullWiring 60 1001 exC 7 9 duelWorld = (Inr resp, w') \<and> opWinTeamNo resp = Some 2
     \<and> rdUserMatch w' 1002 = None \<and> map evWinTeamNo (mqEvents w') = [2]"
proof -
  have b: "on_board 7 9" by (simp add: on_board_def)
  have m: "cellMine rowMac exampleSeason exC 7 9" using rowMac_mine [OF b] by simp
  have n: "\<not> mhas (csOpenedCells exSt) (9 * 128 + 7)" "\<not> mhas (csFlaggedBy exSt) (9 * 128 + 7)"
    by (simp_all add: exSt_def NewMineChunkState_def mhas_def)
  have e: "mqEvents duelWorld = []" "mhas (mmUserTeams duelMatch) 1002"
    by (simp_all add: duelWorld_def fieldWith_def emptyWorld_def duelMatch_sel mhas_def)
  from mine_loses_match [OF duelWorld_at duelWorld_facts(1-4) b exSt_facts(2) m n exSt_facts(3)]
  obtain resp w' where "openCellInWorker rowMac fullWiring 60 1001 exC 7 9 duelWorld = (Inr resp, w')" "opWinTeamNo resp = Some 2"
    "rdUserMatch w' 1002 = (if mhas (mmUserTeams duelMatch) 1002 then None else rdUserMatch duelWorld 1002)"
    "map evWinTeamNo (mqEvents w') = [2]" by (auto simp: e)
  then show ?thesis using e(2) by auto
qed

text \<open>A step next to a mined row opens one cell.\<close>

lemma rowMac_adj_8: "cellAdj rowMac exampleSeason exC 7 8 \<noteq> 0"
proof -
  have "(- 1, 1) \<in> mineNeighbours rowMac exampleSeason ''cn'' 6 1287 2568"
    using rowMac_mineAt [of 2569] by (simp add: mineNeighbours_def in_world_def worldSize_def)
  then have "mineNeighbours rowMac exampleSeason ''cn'' 6 1287 2568 \<noteq> {}" by blast
  moreover have "finite (mineNeighbours rowMac exampleSeason ''cn'' 6 1287 2568)"
    by (rule finite_subset [of _ "{- 1..1} \<times> {- 1..1}"]) (auto simp: mineNeighbours_def)
  ultimately show ?thesis by (simp add: cellAdj_def exC_def)
qed

lemma opening_scores_witness:
  "\<exists>resp w'. openCellInWorker rowMac fullWiring 60 1002 exC 7 8 duelWorld = (Inr resp, w')
     \<and> opNewOpenedCount resp = 1 \<and> mget (opMatchScores resp) 1002 = Some 1 \<and> mget (opMatchScores resp) 1001 = Some 0"
proof -
  have o: "openable rowMac exampleSeason exC exSt (7, 8)"
    using rowMac_mine [of 7 8] by (simp add: on_board_def exSt_def NewMineChunkState_def mhas_def)
  have b: "on_board 7 8" by (simp add: on_board_def)
  have new: "newlyOpened rowMac exampleSeason exC (openState exSt) 7 8 = {(7, 8)}"
    using rowMac_adj_8 by (simp add: newlyOpened_def)
  from opening_scores [OF duelWorld_at duelWorld_facts(1) duelWorld_facts(2,5) b exSt_facts(2) o, of 1002]
  obtain resp w' where "openCellInWorker rowMac fullWiring 60 1002 exC 7 8 duelWorld = (Inr resp, w')"
    "opNewOpenedCount resp = 1" "opMatchScores resp = mput 1002 (wrap64 1) [(1001, 0), (1002, 0)]"
    by (auto simp: new duelMatch_sel mget0_def)
  moreover have "wrap64 1 = 1" by (simp add: in64_def)
  ultimately show ?thesis by (intro exI conjI) (assumption, simp_all)
qed

end
