(* ===== verification/MatchInvariant.thy ===== *)
theory MatchInvariant
  imports ServerRuns MatchPlay
begin

text \<open>
  What is always true of the matches on the minefield, failures of the stores included: a match is finished
  exactly when it has a winner, one of its teams, and then it never changes again; only its players are
  bound to it; and nobody has more points than cells he has opened on the match's chunk. \<open>play_ok\<close> is the invariant,
  also over time: every match state seen before has only moved on (\<open>later\<close>). This theory has the invariant, the
  writes that keep it, and the end of a match; \<open>MatchHonest\<close> has the steps on the minefield and \<open>MatchServer\<close> the rest of the server.
\<close>

section \<open>The invariant\<close>

text \<open>The cells of a chunk a player has opened, of all seasons: a match does not look at the season of a step.\<close>

definition cellsOpenedBy :: "world \<Rightarrow> string \<Rightarrow> int \<Rightarrow> (int \<times> int) set" where
  "cellsOpenedBy w cid u = {(sid, i). \<exists>cell. cellsOf w (sid, cid) i = Some cell \<and> ocOpenedBy cell = u}"

definition match_ok :: "MineMatchState \<Rightarrow> bool" where
  "match_ok m \<longleftrightarrow> map_ok (mmTeams m) \<and> map_ok (mmPlayerScores m)
     \<and> dom (mget (mmPlayerScores m)) = dom (mget (mmUserTeams m)) \<and> (\<forall>u. 0 \<le> mget0 0 (mmPlayerScores m) u)
     \<and> (mmStatus m = MineMatchStatusFinished \<longleftrightarrow> mmWinTeamNo m \<noteq> None)
     \<and> (mmStatus m = MineMatchStatusFinished \<longleftrightarrow> mmFinishedAt m \<noteq> None)
     \<and> (\<forall>t. mmWinTeamNo m = Some t \<longrightarrow> mhas (mmTeams m) t)"

definition earned :: "world \<Rightarrow> MineMatchState \<Rightarrow> bool" where
  "earned w m \<longleftrightarrow> (\<forall>u. mget0 0 (mmPlayerScores m) u \<le> int (card (cellsOpenedBy w (mmChunkID m) u)))"

text \<open>A match state and one of the same match at a later time.\<close>

definition later :: "MineMatchState \<Rightarrow> MineMatchState \<Rightarrow> bool" where
  "later m m' \<longleftrightarrow> mmMatchID m' = mmMatchID m \<and> mmRoomID m' = mmRoomID m \<and> mmSeasonID m' = mmSeasonID m
     \<and> mmChunkID m' = mmChunkID m \<and> mmTeams m' = mmTeams m \<and> mmUserTeams m' = mmUserTeams m \<and> mmStartedAt m' = mmStartedAt m
     \<and> (\<forall>u. mget0 0 (mmPlayerScores m) u \<le> mget0 0 (mmPlayerScores m') u)
     \<and> (mmStatus m = MineMatchStatusFinished \<longrightarrow> m' = m)"

lemma later_refl: "later m m"
  by (simp add: later_def)

lemma later_trans: "later m m' \<Longrightarrow> later m' m'' \<Longrightarrow> later m m''"
  unfolding later_def by (elim conjE) (intro conjI; (metis | meson order_trans))

text \<open>\<open>F\<close> are match states seen before.\<close>

definition play_ok :: "(int \<Rightarrow> MineMatchState option) \<Rightarrow> world \<Rightarrow> bool" where
  "play_ok F w \<longleftrightarrow>
     (\<forall>i m. rdMineMatches w i = Some m \<longrightarrow> mmMatchID m = i \<and> i < dbNextMatchID w \<and> match_ok m \<and> earned w m)
     \<and> (\<forall>u i. rdUserMatch w u = Some i \<longrightarrow> (\<exists>m. rdMineMatches w i = Some m \<and> mhas (mmUserTeams m) u))
     \<and> (\<forall>i m. F i = Some m \<longrightarrow> (\<exists>m'. rdMineMatches w i = Some m' \<and> later m m'))"

lemma play_okD:
  assumes "play_ok F w"
  shows "rdMineMatches w i = Some m \<Longrightarrow> mmMatchID m = i" "rdMineMatches w i = Some m \<Longrightarrow> i < dbNextMatchID w"
    "rdMineMatches w i = Some m \<Longrightarrow> match_ok m" "rdMineMatches w i = Some m \<Longrightarrow> earned w m"
    "rdUserMatch w u = Some i \<Longrightarrow> \<exists>m. rdMineMatches w i = Some m \<and> mhas (mmUserTeams m) u"
    "F i = Some m \<Longrightarrow> \<exists>m'. rdMineMatches w i = Some m' \<and> later m m'"
  using assms unfolding play_ok_def by blast+

lemma play_okI:
  assumes "\<And>i m. rdMineMatches w i = Some m \<Longrightarrow> mmMatchID m = i \<and> i < dbNextMatchID w \<and> match_ok m \<and> earned w m"
    "\<And>u i. rdUserMatch w u = Some i \<Longrightarrow> \<exists>m. rdMineMatches w i = Some m \<and> mhas (mmUserTeams m) u"
    "\<And>i m. F i = Some m \<Longrightarrow> \<exists>m'. rdMineMatches w i = Some m' \<and> later m m'"
  shows "play_ok F w"
  using assms unfolding play_ok_def by blast

definition playInv :: "mac \<Rightarrow> int \<Rightarrow> MineSeason list \<Rightarrow> (int \<Rightarrow> MineMatchState option) \<Rightarrow> world \<Rightarrow> bool" where
  "playInv mac dur ss F w \<longleftrightarrow> fieldInv mac dur ss w \<and> play_ok F w \<and> length ss \<le> 2 ^ 40"

text \<open>What the invariant reads beside the field.\<close>

definition matchPart :: "world \<Rightarrow> (int \<Rightarrow> MineMatchState option) \<times> (int \<Rightarrow> int option) \<times> int" where
  "matchPart w = (rdMineMatches w, rdUserMatch w, dbNextMatchID w)"

lemma play_ok_same:
  assumes "play_ok F w" "matchPart w' = matchPart w" "\<And>m. earned w m \<Longrightarrow> earned w' m"
  shows "play_ok F w'"
proof -
  have "rdMineMatches w' = rdMineMatches w" "rdUserMatch w' = rdUserMatch w" "dbNextMatchID w' = dbNextMatchID w"
    using assms(2) by (simp_all add: matchPart_def)
  then show ?thesis using play_okD [OF assms(1)] assms(3) by (intro play_okI) metis+
qed

lemma earned_chunks: "rdChunks w' = rdChunks w \<Longrightarrow> earned w' = earned w"
  by (simp add: fun_eq_iff earned_def cellsOpenedBy_def cellsOf_def)

lemma playInv_same:
  assumes "playInv mac dur ss F w" "dbSeasons w' = dbSeasons w" "rdChunks w' = rdChunks w" "rdClosed w' = rdClosed w"
    "matchPart w' = matchPart w"
  shows "playInv mac dur ss F w'"
  using assms field_dataD [OF field_data_fieldInv _ assms(2-4)] play_ok_same [OF _ assms(5)] earned_chunks [OF assms(3)]
  by (simp add: playInv_def)

lemma data_inv_playInv [simp]: "data_inv (playInv mac dur ss F)"
proof -
  have "playInv mac dur ss F (w\<lparr>net := os\<rparr>) = playInv mac dur ss F w" for w os
    using playInv_same [of mac dur ss F w "w\<lparr>net := os\<rparr>"] playInv_same [of mac dur ss F "w\<lparr>net := os\<rparr>" w] by (auto simp: matchPart_def)
  moreover have "playInv mac dur ss F (w\<lparr>clock := ts\<rparr>) = playInv mac dur ss F w" for w ts
    using playInv_same [of mac dur ss F w "w\<lparr>clock := ts\<rparr>"] playInv_same [of mac dur ss F "w\<lparr>clock := ts\<rparr>" w] by (auto simp: matchPart_def)
  ultimately show ?thesis by (rule data_invI)
qed

section \<open>Cells and their owners\<close>

lemma cellsOpenedBy_range:
  assumes "fieldInv mac dur ss w" shows "cellsOpenedBy w cid u \<subseteq> seID ` set ss \<times> {0..<16384}"
proof
  fix d assume "d \<in> cellsOpenedBy w cid u"
  then obtain sid i cell where d: "d = (sid, i)" "cellsOf w (sid, cid) i = Some cell" by (auto simp: cellsOpenedBy_def)
  then obtain st where st: "rdChunks w (sid, cid) = Some st" "mget (csOpenedCells st) i = Some cell"
    by (auto simp: cellsOf_def split: option.splits)
  obtain s c where s: "s \<in> set ss" "sid = seID s" "chunk_ok mac dur s c st" using fieldInv_lookup [OF assms st(1)] by blast
  then have "cell_ok mac s c i cell" using st(2) by (simp add: chunk_ok_def)
  then have "0 \<le> i" "i < 16384" using index_range by (auto simp: cell_ok_def)
  then show "d \<in> seID ` set ss \<times> {0..<16384}" using d(1) s(1,2) by simp
qed

lemma finite_cellsOpenedBy:
  assumes "fieldInv mac dur ss w" shows "finite (cellsOpenedBy w cid u)"
  by (rule finite_subset [OF cellsOpenedBy_range [OF assms]]) simp

lemma card_cellsOpenedBy:
  assumes "fieldInv mac dur ss w" "length ss \<le> 2 ^ 40" shows "int (card (cellsOpenedBy w cid u)) \<le> 2 ^ 54"
proof -
  have "card (cellsOpenedBy w cid u) \<le> card (seID ` set ss \<times> {0 :: int..<16384})"
    by (rule card_mono [OF _ cellsOpenedBy_range [OF assms(1)]]) simp
  also have "\<dots> = card (seID ` set ss) * 16384" by (simp add: card_cartesian_product)
  also have "\<dots> \<le> 2 ^ 40 * 16384"
    using card_image_le [OF finite_set, of seID ss] card_length [of ss] assms(2) by (intro mult_right_mono) linarith+
  finally show ?thesis by simp
qed

lemma cellsOpenedBy_mono:
  "(\<And>k. cellsOf w k \<subseteq>\<^sub>m cellsOf w' k) \<Longrightarrow> cellsOpenedBy w cid u \<subseteq> cellsOpenedBy w' cid u"
  unfolding cellsOpenedBy_def map_le_def by (auto simp: dom_def)

lemma earned_mono:
  assumes "fieldInv mac dur ss w'" "\<And>k. cellsOf w k \<subseteq>\<^sub>m cellsOf w' k" "earned w m"
  shows "earned w' m"
proof -
  have "card (cellsOpenedBy w cid u) \<le> card (cellsOpenedBy w' cid u)" for cid u
    by (rule card_mono [OF finite_cellsOpenedBy [OF assms(1)] cellsOpenedBy_mono [OF assms(2)]])
  then show ?thesis using assms(3) unfolding earned_def by (meson le_trans of_nat_le_iff order_trans)
qed

text \<open>An operation that only adds cells and leaves the matches alone.\<close>

lemma keeps_growth:
  assumes "\<And>k C. keeps (grown mac dur ss k C) m" "\<And>X. keeps (\<lambda>w. matchPart w = X) m"
  shows "keeps (playInv mac dur ss F) m"
  unfolding gives_def
proof (intro allI impI conjI TrueI)
  fix w assume inv: "playInv mac dur ss F w"
  let ?w = "snd (m w)"
  have f: "fieldInv mac dur ss w" using inv by (simp add: playInv_def)
  have g: "grown mac dur ss k (cellsOf w k) ?w" for k
    by (rule givesD [OF assms(1)]) (simp add: grown_def f)
  have "matchPart ?w = matchPart w" by (rule givesD [OF assms(2)]) (rule refl)
  moreover have "earned ?w mm" if "earned w mm" for mm
    by (rule earned_mono [OF _ _ that]) (use g in \<open>auto simp: grown_def\<close>)
  ultimately show "playInv mac dur ss F ?w"
    using inv g play_ok_same [of F w ?w] by (simp add: playInv_def grown_def)
qed

section \<open>Writes\<close>

text \<open>A match state that may be written.\<close>

definition storable :: "(int \<Rightarrow> MineMatchState option) \<Rightarrow> MineMatchState \<Rightarrow> world \<Rightarrow> bool" where
  "storable F m w \<longleftrightarrow> mmMatchID m < dbNextMatchID w \<and> match_ok m \<and> earned w m \<and> (\<forall>m0. F (mmMatchID m) = Some m0 \<longrightarrow> later m0 m)
     \<and> (\<forall>u. rdUserMatch w u = Some (mmMatchID m) \<longrightarrow> mhas (mmUserTeams m) u)"

lemma earned_storeMatch: "earned (storeMatch m w) = earned w"
  by (rule earned_chunks) (simp add: storeMatch_def)

lemma storable_storeMatch: "storable F m (storeMatch m' w) = storable F m w"
  by (simp add: storable_def earned_storeMatch) (simp add: storeMatch_def)

lemma playInv_storeMatch:
  assumes "playInv mac dur ss F w" "storable F m w"
  shows "playInv mac dur ss F (storeMatch m w)"
proof -
  have ok: "play_ok F w" and f: "fieldInv mac dur ss w" "length ss \<le> 2 ^ 40" using assms(1) by (simp_all add: playInv_def)
  have get: "rdMineMatches (storeMatch m w) = (rdMineMatches w)(mmMatchID m \<mapsto> m)" by (simp add: storeMatch_def)
  have same: "rdUserMatch (storeMatch m w) = rdUserMatch w" "dbNextMatchID (storeMatch m w) = dbNextMatchID w" by (simp_all add: storeMatch_def)
  have "play_ok F (storeMatch m w)"
  proof (rule play_okI)
    show "mmMatchID m' = i \<and> i < dbNextMatchID (storeMatch m w) \<and> match_ok m' \<and> earned (storeMatch m w) m'"
      if "rdMineMatches (storeMatch m w) i = Some m'" for i m'
      using that assms(2) play_okD(1-4) [OF ok, of i m'] by (auto simp: get same earned_storeMatch storable_def split: if_splits)
    show "\<exists>m'. rdMineMatches (storeMatch m w) i = Some m' \<and> mhas (mmUserTeams m') u" if "rdUserMatch (storeMatch m w) u = Some i" for u i
      using that assms(2) play_okD(5) [OF ok, of u i] by (auto simp: get same storable_def)
    show "\<exists>m''. rdMineMatches (storeMatch m w) i = Some m'' \<and> later m' m''" if "F i = Some m'" for i m'
      using that assms(2) play_okD(6) [OF ok, of i m'] by (auto simp: get storable_def)
  qed
  moreover have "fieldInv mac dur ss (storeMatch m w)" by (rule field_dataD [OF field_data_fieldInv f(1)]) (simp_all add: storeMatch_def)
  ultimately show ?thesis using f(2) by (simp add: playInv_def)
qed

lemma playInv_bindUsers:
  assumes "playInv mac dur ss F w" "\<And>i. v = Some i \<Longrightarrow> \<exists>m. rdMineMatches w i = Some m \<and> set us \<subseteq> dom (mget (mmUserTeams m))"
  shows "playInv mac dur ss F (bindUsers us v w)"
proof -
  have ok: "play_ok F w" and f: "fieldInv mac dur ss w" "length ss \<le> 2 ^ 40" using assms(1) by (simp_all add: playInv_def)
  have same: "rdMineMatches (bindUsers us v w) = rdMineMatches w" "dbNextMatchID (bindUsers us v w) = dbNextMatchID w"
    "earned (bindUsers us v w) = earned w" by (simp_all add: bindUsers_def, rule earned_chunks, simp)
  have "play_ok F (bindUsers us v w)"
  proof (rule play_okI)
    show "\<exists>m. rdMineMatches (bindUsers us v w) i = Some m \<and> mhas (mmUserTeams m) u" if b: "rdUserMatch (bindUsers us v w) u = Some i" for u i
    proof (cases "u \<in> set us")
      case True
      then have "v = Some i" using b by (simp add: bindUsers_def)
      then show ?thesis unfolding same using assms(2) True by (auto simp: mhas_iff)
    next
      case False
      then show ?thesis using b play_okD(5) [OF ok, of u i] by (simp add: same) (simp add: bindUsers_def)
    qed
  qed (use play_okD [OF ok] in \<open>simp_all add: same\<close>)
  moreover have "fieldInv mac dur ss (bindUsers us v w)" by (rule field_dataD [OF field_data_fieldInv f(1)]) (simp_all add: bindUsers_def)
  ultimately show ?thesis using f(2) by (simp add: playInv_def)
qed

text \<open>Writes to the records, the locks and the events.\<close>

lemma playInv_records:
  assumes "playInv mac dur ss F w"
  shows "playInv mac dur ss F (updateMatchRow r w)" "playInv mac dur ss F (w\<lparr>mqEvents := es\<rparr>)"
    "playInv mac dur ss F (takeLock k i w)" "playInv mac dur ss F (dropLock k w)"
    "playInv mac dur ss F (w\<lparr>dbMatches := ms, dbMatchPlayers := ps\<rparr>)" "playInv mac dur ss F (w\<lparr>memRooms := rs\<rparr>)"
    "playInv mac dur ss F (w\<lparr>dbUsers := us\<rparr>)"
  by (rule playInv_same [OF assms]; simp add: updateMatchRow_def takeLock_def dropLock_def matchPart_def)+

lemma keeps_UnlockChunk_play: "keeps (playInv mac dur ss F) (UnlockChunk s c i)"
  by (rule keeps_UnlockChunk) (simp_all add: playInv_records)

lemma keeps_release_play: "keeps (playInv mac dur ss F) (DeleteActiveMatchForUsers m)"
  unfolding DeleteActiveMatchForUsers_def by (rule keeps_pipeUsers [OF data_inv_playInv]) (erule playInv_bindUsers, simp)

section \<open>Finishing\<close>

text \<open>The invariant with a match state about to be written; it survives what leaves \<open>matchPart\<close> and the chunks alone.\<close>

definition about :: "mac \<Rightarrow> int \<Rightarrow> MineSeason list \<Rightarrow> (int \<Rightarrow> MineMatchState option) \<Rightarrow> MineMatchState \<Rightarrow> world \<Rightarrow> bool" where
  "about mac dur ss F m w \<longleftrightarrow> playInv mac dur ss F w \<and> storable F m w"

lemma about_same:
  assumes "about mac dur ss F m w" "dbSeasons w' = dbSeasons w" "rdChunks w' = rdChunks w" "rdClosed w' = rdClosed w" "matchPart w' = matchPart w"
  shows "about mac dur ss F m w'"
  using assms playInv_same [OF _ assms(2-5)] earned_chunks [OF assms(3)] by (simp add: about_def storable_def matchPart_def)

lemma data_inv_about_match [simp]: "data_inv (about mac dur ss F m)"
proof -
  have "storable F m (w\<lparr>net := os\<rparr>) = storable F m w" "storable F m (w\<lparr>clock := ts\<rparr>) = storable F m w" for w os ts
    using earned_chunks [of "w\<lparr>net := os\<rparr>" w] earned_chunks [of "w\<lparr>clock := ts\<rparr>" w] by (simp_all add: storable_def)
  then show ?thesis using data_inv_playInv [of mac dur ss F] by (simp add: data_inv_def about_def)
qed

lemma keeps_SetMatchResult_about: "keeps (about mac dur ss F m) (SetMatchResult p i t)"
  unfolding SetMatchResult_def GetMatchByID_def UpdateMatch_def PublishJSON_def
  by (auto intro!: keeps_andThen gives_onErr gives_intros keeps_rd keeps_wr keeps_timeNow
      elim!: about_same simp: updateMatchRow_def matchPart_def)

lemma storable_finished:
  assumes "storable F m w" "mhas (mmTeams m) team" "mmStatus m \<noteq> MineMatchStatusFinished"
  shows "storable F (finishedState m team t) w"
proof -
  have "later m (finishedState m team t)" using assms(3) by (simp add: later_def finishedState_def)
  then have "later m0 (finishedState m team t)" if "F (mmMatchID m) = Some m0" for m0
    using assms(1) that later_trans by (auto simp: storable_def)
  then show ?thesis using assms(1,2) by (simp add: storable_def finishedState_def match_ok_def earned_def)
qed

lemma triple_finishMatch:
  assumes "mhas (mmTeams m) team"
  shows "triple (about mac dur ss F m) (finishMatch wi m team t r) (\<lambda>_. playInv mac dur ss F) (playInv mac dur ss F)"
proof (cases "mmStatus m = MineMatchStatusFinished")
  case True
  then show ?thesis by (auto simp: finishMatch_def about_def intro: triple_ret)
next
  case False
  let ?I = "playInv mac dur ss F" and ?m = "finishedState m team t"
  have any: "triple ?I k (\<lambda>_. ?I) ?I" if "keeps ?I k" for k :: "'x io" using triple_keeps [OF that] .
  have first: "triple (about mac dur ss F m) (if wiMatchService wi then SetMatchResult (wiPublisher wi) (mmMatchID m) team else ret ())
      (\<lambda>_. about mac dur ss F m) ?I"
    by (rule triple_weaken [OF triple_keeps [where I = "about mac dur ss F m"]])
      (auto intro: gives_intros keeps_SetMatchResult_about, simp add: about_def)
  have save: "triple (about mac dur ss F m) (SaveMatchState ?m) (\<lambda>_. ?I) ?I"
    unfolding SaveMatchState_def using storable_finished [OF _ assms False]
    by (intro triple_wr) (auto simp: about_def [of _ _ _ _ m] intro: playInv_storeMatch)
  show ?thesis
    unfolding finishMatch_def Let_def finishedState_def [symmetric] if_not_P [OF False]
    by (rule triple_andThen [OF first], rule triple_andThen [OF save], rule triple_andThen [OF any [OF keeps_release_play]],
        rule triple_andThen [OF any [OF keeps_UnlockChunk_play]], rule triple_ret)
qed

end
