(* ===== verification/MatchHonest.thy ===== *)
theory MatchHonest
  imports MatchInvariant
begin

text \<open>
  Playing keeps the invariant of \<open>MatchInvariant\<close>: a step on the minefield, its score, and the end of a match. The
  point is that a step pays for cells that the player has just opened and nobody has been paid for.
\<close>

section \<open>Scoring\<close>

text \<open>Player \<open>u\<close> has opened at least \<open>n\<close> more cells of the chunk than any match on it has counted for him.\<close>

definition unpaid :: "int \<Rightarrow> int \<Rightarrow> string \<Rightarrow> MineMatchState \<Rightarrow> world \<Rightarrow> bool" where
  "unpaid u n cid m w \<longleftrightarrow> (0 < n \<and> mmChunkID m = cid \<longrightarrow>
     mget0 0 (mmPlayerScores m) u + n \<le> int (card (cellsOpenedBy w cid u)))"

definition allUnpaid :: "int \<Rightarrow> int \<Rightarrow> string \<Rightarrow> world \<Rightarrow> bool" where
  "allUnpaid u n cid w \<longleftrightarrow> (\<forall>i m. rdMineMatches w i = Some m \<longrightarrow> unpaid u n cid m w)"

lemma cellsOpenedBy_data [simp]: "cellsOpenedBy (w\<lparr>net := os\<rparr>) = cellsOpenedBy w" "cellsOpenedBy (w\<lparr>clock := ts\<rparr>) = cellsOpenedBy w"
  by (simp_all add: fun_eq_iff cellsOpenedBy_def cellsOf_def)

lemma data_inv_unpaid [simp]: "data_inv (allUnpaid u n cid)" "data_inv (unpaid u n cid m)"
  by (simp_all add: data_inv_def allUnpaid_def unpaid_def)

lemma data_inv_storable [simp]: "data_inv (storable F m)"
  by (simp add: data_inv_def storable_def earned_def)

lemma storable_stored:
  assumes "playInv mac dur ss F w" "rdMineMatches w i = Some m"
  shows "storable F m w"
proof -
  have ok: "play_ok F w" using assms(1) by (simp add: playInv_def)
  note m = play_okD(1-4) [OF ok assms(2)]
  have "later m0 m" if "F i = Some m0" for m0 using play_okD(6) [OF ok that] assms(2) by auto
  moreover have "mhas (mmUserTeams m) u" if "rdUserMatch w u = Some i" for u
    using play_okD(5) [OF ok that] assms(2) by auto
  ultimately show ?thesis using m by (simp add: storable_def)
qed

lemma addScore_scores: "0 \<le> mget0 0 (mmPlayerScores m) u + n \<Longrightarrow> mget0 0 (mmPlayerScores m) u + n < 2 ^ 63 \<Longrightarrow>
    mget0 0 (mmPlayerScores (addScore m u n t)) v = mget0 0 (mmPlayerScores m) v + (if v = u then n else 0)"
  by (simp add: addScore_def mget0_def in64_def split: option.split)

lemma addScore_result: "mmWinTeamNo (addScore m u n t) = mmWinTeamNo m" "mmFinishedAt (addScore m u n t) = mmFinishedAt m"
  by (simp_all add: addScore_def)

lemma storable_addScore:
  assumes inv: "playInv mac dur ss F w" and m: "storable F m w" "mhas (mmUserTeams m) u" "mmStatus m = MineMatchStatusOngoing"
    and n: "0 < n" "unpaid u n (mmChunkID m) m w"
  shows "storable F (addScore m u n t) w"
proof -
  have old: "0 \<le> mget0 0 (mmPlayerScores m) u" using m(1) by (simp add: storable_def match_ok_def)
  have le: "mget0 0 (mmPlayerScores m) u + n \<le> int (card (cellsOpenedBy w (mmChunkID m) u))" using n by (simp add: unpaid_def)
  also have "\<dots> \<le> 2 ^ 54" by (rule card_cellsOpenedBy [of mac dur ss]) (use inv in \<open>simp_all add: playInv_def\<close>)
  finally have s: "mget0 0 (mmPlayerScores (addScore m u n t)) v = mget0 0 (mmPlayerScores m) v + (if v = u then n else 0)" for v
    using old n(1) by (intro addScore_scores) simp_all
  have "earned w (addScore m u n t)"
    using m(1) le by (simp add: earned_def s storable_def)
  moreover have "dom (mget (mmPlayerScores (addScore m u n t))) = dom (mget (mmPlayerScores m))"
  proof -
    have "u \<in> dom (mget (mmPlayerScores m))" using m by (simp add: storable_def match_ok_def mhas_iff)
    moreover have "dom (mget (mmPlayerScores (addScore m u n t))) = insert u (dom (mget (mmPlayerScores m)))"
      by (auto simp: addScore_def split: if_splits)
    ultimately show ?thesis by (simp add: insert_absorb)
  qed
  moreover have "0 \<le> mget0 0 (mmPlayerScores (addScore m u n t)) v" for v
    using m(1) n(1) by (simp add: s storable_def match_ok_def)
  moreover have "map_ok (mmPlayerScores (addScore m u n t))" using m(1) by (simp add: addScore_def storable_def match_ok_def)
  moreover have "later m0 (addScore m u n t)" if "F (mmMatchID m) = Some m0" for m0
  proof -
    have "later m (addScore m u n t)" using m(3) n(1) s by (auto simp: later_def addScore_def [of m u n t])
    then show ?thesis using m(1) that later_trans by (auto simp: storable_def)
  qed
  ultimately show ?thesis
    using m(1) unfolding storable_def match_ok_def addScore_sel addScore_result
    by (elim conjE) (intro conjI allI impI; simp)
qed

text \<open>The match a player is found in.\<close>

definition found :: "(int \<Rightarrow> MineMatchState option) \<Rightarrow> int \<Rightarrow> int \<Rightarrow> string \<Rightarrow> MineMatchState \<Rightarrow> world \<Rightarrow> bool" where
  "found F u n cid m w \<longleftrightarrow> storable F m w \<and> mhas (mmUserTeams m) u \<and> unpaid u n cid m w \<and> mmStatus m = MineMatchStatusOngoing"

lemma triple_GetActive:
  "triple (\<lambda>w. playInv mac dur ss F w \<and> allUnpaid u n cid w) (GetActiveMatchByUser u)
     (\<lambda>r w. playInv mac dur ss F w \<and> (\<forall>m. r = Some m \<longrightarrow> found F u n cid m w)) (playInv mac dur ss F)"
proof -
  let ?P = "\<lambda>w. playInv mac dur ss F w \<and> allUnpaid u n cid w"
  let ?R = "\<lambda>raw w. ?P w \<and> rdUserMatch w u = raw"
  let ?Q = "\<lambda>r w. playInv mac dur ss F w \<and> (\<forall>m. r = Some m \<longrightarrow> found F u n cid m w)"
  have di: "data_inv ?P" by (rule data_inv_conj) simp_all
  have di': "data_inv (?R raw)" for raw by (rule data_inv_conj [OF di]) (simp add: data_inv_def)
  have get: "triple (?R (Some i)) (GetMatchState i) (\<lambda>v w. playInv mac dur ss F w
      \<and> (\<forall>m. v = Some m \<and> mmStatus m = MineMatchStatusOngoing \<longrightarrow> found F u n cid m w)) (playInv mac dur ss F)" for i
    unfolding GetMatchState_def
  proof (rule triple_rd [OF di'])
    fix w assume R: "?R (Some i) w"
    have "found F u n cid m w" if "rdMineMatches w i = Some m" "mmStatus m = MineMatchStatusOngoing" for m
      using R that storable_stored [of mac dur ss F w i m] play_okD(5) [of F w u i] by (auto simp: found_def playInv_def allUnpaid_def)
    then show "playInv mac dur ss F w \<and> (\<forall>m. rdMineMatches w i = Some m \<and> mmStatus m = MineMatchStatusOngoing \<longrightarrow> found F u n cid m w)"
      using R by blast
  qed simp
  show ?thesis
    unfolding GetActiveMatchByUser_def
  proof (rule triple_andThen)
    show "triple ?P (rd (\<lambda>w. rdUserMatch w u)) ?R (playInv mac dur ss F)"
      by (rule triple_rd [OF di]) simp_all
    fix raw
    show "triple (?R raw) (case raw of None \<Rightarrow> ret None
       | Some matchID \<Rightarrow> andThen (GetMatchState matchID) (\<lambda>state. case state of
           None \<Rightarrow> ret None
         | Some st \<Rightarrow> ret (if mmStatus st \<noteq> MineMatchStatusOngoing then None else Some st))) ?Q (playInv mac dur ss F)"
    proof (cases raw)
      case None
      then show ?thesis by (auto intro: triple_ret)
    next
      case (Some i)
      have "triple (?R (Some i)) (andThen (GetMatchState i) (\<lambda>state. case state of
           None \<Rightarrow> ret None
         | Some st \<Rightarrow> ret (if mmStatus st \<noteq> MineMatchStatusOngoing then None else Some st))) ?Q (playInv mac dur ss F)"
      proof (rule triple_andThen [OF get])
        fix v show "triple (\<lambda>w. playInv mac dur ss F w \<and> (\<forall>m. v = Some m \<and> mmStatus m = MineMatchStatusOngoing \<longrightarrow> found F u n cid m w))
            (case v of None \<Rightarrow> ret None | Some st \<Rightarrow> ret (if mmStatus st \<noteq> MineMatchStatusOngoing then None else Some st)) ?Q (playInv mac dur ss F)"
        proof (cases v)
          case (Some st)
          then show ?thesis by (cases "mmStatus st") (auto simp: triple_def ret_def)
        qed (auto simp: triple_def ret_def)
      qed
      then show ?thesis by (simp only: Some option.case)
    qed
  qed
qed

lemma opponentTeam_known: "opponentTeam m u = Inr t \<Longrightarrow> mhas (mmTeams m) t"
proof -
  assume o: "opponentTeam m u = Inr t"
  then obtain own ts where "filter (\<lambda>t. t \<noteq> own) (mkeys (mmTeams m)) = t # ts"
    by (auto simp: opponentTeam_def split: option.splits list.splits)
  then have "t \<in> set (filter (\<lambda>t. t \<noteq> own) (mkeys (mmTeams m)))" by simp
  then show ?thesis by (simp add: mhas_iff mkeys_dom)
qed

lemma scoreLoop_team: "scoreLoop st ts a = Some b \<Longrightarrow> fst b \<in> fst ` set ts \<or> (\<exists>c. a = Some c \<and> fst b = fst c)"
proof (induction ts arbitrary: a)
  case (Cons d ts)
  obtain score last where t: "teamTotals st (snd d) 0 0 = (score, last)" by (cases "teamTotals st (snd d) 0 0")
  have "scoreLoop st (d # ts) a = scoreLoop st ts (Some (fst d, score, last)) \<or> (a \<noteq> None \<and> scoreLoop st (d # ts) a = scoreLoop st ts a)"
    using t by (cases d; cases a) auto
  then show ?case using Cons.IH [of a] Cons.IH [of "Some (fst d, score, last)"] Cons.prems by auto
qed simp

lemma scoreWinnerTeam_known: "scoreWinnerTeam m = Inr t \<Longrightarrow> mhas (mmTeams m) t"
  by (auto simp: scoreWinnerTeam_def mhas_iff simp flip: mkeys_dom dest!: scoreLoop_team split: option.splits)
     (force simp: mkeys_def)

lemma data_inv_found [simp]: "data_inv (\<lambda>w. playInv mac dur ss F w \<and> found F u n c m w)"
  unfolding found_def by (intro data_inv_conj) (simp_all, simp_all add: data_inv_def)

text \<open>The end of a match with a known winner keeps the invariant.\<close>

lemma triple_decided:
  assumes "\<And>t. r = Inr t \<Longrightarrow> mhas (mmTeams m) t"
  shows "triple (about mac dur ss F m) (andThen (liftE r) (\<lambda>team. andThen timeNow (\<lambda>now. finishMatch wi m team now rs)))
    (\<lambda>_. playInv mac dur ss F) (playInv mac dur ss F)"
proof -
  let ?I = "playInv mac dur ss F"
  have finish: "triple (\<lambda>w. about mac dur ss F m w \<and> r = Inr team) (andThen timeNow (\<lambda>now. finishMatch wi m team now rs)) (\<lambda>_. ?I) ?I" for team
  proof (cases "r = Inr team")
    case True
    then have "mhas (mmTeams m) team" by (rule assms)
    then have "triple (about mac dur ss F m) (andThen timeNow (\<lambda>now. finishMatch wi m team now rs)) (\<lambda>_. ?I) ?I"
      by (intro triple_andThen [OF triple_timeNow triple_finishMatch]) simp_all
    then show ?thesis by (rule triple_weaken) simp_all
  qed (simp add: triple_def)
  show ?thesis
    by (rule triple_andThen [OF triple_weaken [OF triple_liftE [of "about mac dur ss F m" r]] finish])
      (simp_all, simp add: about_def)
qed

text \<open>Saving the score of a step.\<close>

lemma triple_saveScore:
  assumes that: "mmChunkID m = chunkString c"
  shows "triple (\<lambda>w. playInv mac dur ss F w \<and> found F u n (chunkString c) m w) (if 0 < n then andThen timeNow (\<lambda>now. let m' = addScore m u n now in
       andThen (SaveMatchState m') (\<lambda>_. ret (m', f m'))) else ret (m, rs)) (\<lambda>(m', r') w. about mac dur ss F m' w) (playInv mac dur ss F)"
  (is "triple ?A _ _ ?I")
proof (cases "0 < n")
  case True
  have w: "?A w \<Longrightarrow> storable F (addScore m u n now) w" for w now
    by (rule storable_addScore) (use True that in \<open>auto simp: found_def\<close>)
  have s: "triple ?A (SaveMatchState (addScore m u n now)) (\<lambda>_. about mac dur ss F (addScore m u n now)) ?I" for now
    unfolding SaveMatchState_def
  proof (rule triple_wr [OF data_inv_found])
    fix v assume v: "?A v"
    note st = w [OF v, of now]
    show "?I (storeMatch (addScore m u n now) v)" using v playInv_storeMatch [OF _ st] by simp
    then show "about mac dur ss F (addScore m u n now) (storeMatch (addScore m u n now) v)"
      using st by (simp add: about_def storable_storeMatch)
  qed simp
  show ?thesis unfolding if_P [OF True] Let_def
    by (rule triple_andThen [OF triple_timeNow [OF data_inv_found]], assumption) (rule triple_andThen [OF s], rule triple_ret, simp)
next
  case False
  then show ?thesis by (auto simp: about_def found_def intro: triple_ret)
qed

lemma triple_scoreStep:
  assumes "mmChunkID m = chunkString c"
  shows "triple (\<lambda>w. playInv mac dur ss F w \<and> found F u n (chunkString c) m w)
    (andThen (if 0 < n then andThen timeNow (\<lambda>now. let m' = addScore m u n now in
          andThen (SaveMatchState m') (\<lambda>_. ret (m', f m'))) else ret (m, rs)) (\<lambda>(m', r').
       andThen (liftE (allSafeCellsOpened mac s c st)) (\<lambda>completed.
       if \<not> completed then ret r'
       else andThen (liftE (scoreWinnerTeam m')) (\<lambda>team. andThen timeNow (\<lambda>now. finishMatch wi m' team now r')))))
    (\<lambda>_. playInv mac dur ss F) (playInv mac dur ss F)"
  (is "triple _ _ _ ?I")
proof (rule triple_andThen [OF triple_saveScore [OF assms]])
  fix p :: "MineMatchState \<times> OpenMineCellResponse"
  obtain m' r' where p: "p = (m', r')" by (cases p)
  have "triple (about mac dur ss F m' ) (if \<not> b then ret r'
       else andThen (liftE (scoreWinnerTeam m')) (\<lambda>team. andThen timeNow (\<lambda>now. finishMatch wi m' team now r'))) (\<lambda>_. ?I) ?I" for b
    using triple_decided [of "scoreWinnerTeam m'" m' mac dur ss F wi r', OF scoreWinnerTeam_known] by (auto simp: about_def intro: triple_ret)
  then have "triple (about mac dur ss F m') (andThen (liftE (allSafeCellsOpened mac s c st)) (\<lambda>completed.
     if \<not> completed then ret r'
     else andThen (liftE (scoreWinnerTeam m')) (\<lambda>team. andThen timeNow (\<lambda>now. finishMatch wi m' team now r')))) (\<lambda>_. ?I) ?I"
    by (rule triple_andThen [where R = "\<lambda>_. about mac dur ss F m'", OF triple_weaken [OF triple_liftE [of "about mac dur ss F m'"]], rotated 3])
      (simp_all, simp add: about_def)
  then show "triple (case p of (m', r') \<Rightarrow> about mac dur ss F m') (case p of (m', r') \<Rightarrow>
     andThen (liftE (allSafeCellsOpened mac s c st)) (\<lambda>completed.
     if \<not> completed then ret r'
     else andThen (liftE (scoreWinnerTeam m')) (\<lambda>team. andThen timeNow (\<lambda>now. finishMatch wi m' team now r')))) (\<lambda>_. ?I) ?I"
    by (simp add: p)
qed

lemma triple_ApplyOpenResult:
  "triple (\<lambda>w. playInv mac dur ss F w \<and> allUnpaid u (opNewOpenedCount resp) (chunkString c) w)
     (ApplyOpenResult mac wi u s c st resp) (\<lambda>_. playInv mac dur ss F) (playInv mac dur ss F)"
proof -
  let ?I = "playInv mac dur ss F" and ?n = "opNewOpenedCount resp"
  let ?A = "\<lambda>m w. ?I w \<and> found F u ?n (chunkString c) m w"
  have mine: "triple (?A m) (andThen (liftE (opponentTeam m u)) (\<lambda>team. andThen timeNow (\<lambda>now. finishMatch wi m team now rs))) (\<lambda>_. ?I) ?I" for m rs
    by (rule triple_weaken [OF triple_decided [OF opponentTeam_known]]) (auto simp: about_def found_def)
  have stop: "triple (?A m) (ret r) (\<lambda>_. ?I) ?I" for m r by (rule triple_ret) simp
  show ?thesis
  proof (cases "wiMatch wi")
    case True
    then have wi: "\<not> \<not> wiMatch wi" by simp
    have n: "opNewOpenedCount (attachMineMatchResponse resp m) = ?n" for m by (simp add: attachMineMatchResponse_def)
    show ?thesis
      unfolding ApplyOpenResult_def if_not_P [OF wi]
    proof (rule triple_andThen [OF triple_GetActive])
      fix r
      show "triple (\<lambda>w. ?I w \<and> (\<forall>m. r = Some m \<longrightarrow> found F u ?n (chunkString c) m w)) (case r of None \<Rightarrow> ret resp
        | Some matchState \<Rightarrow>
          if mmChunkID matchState \<noteq> chunkString c then ret resp
          else let resp = attachMineMatchResponse resp matchState in
            if opCanceled resp then ret resp
            else if opMine resp then
              andThen (liftE (opponentTeam matchState u)) (\<lambda>winTeamNo.
              andThen timeNow (\<lambda>now. finishMatch wi matchState winTeamNo now resp))
            else
              andThen (if opNewOpenedCount resp > 0
                 then andThen timeNow (\<lambda>now.
                   let m' = addScore matchState u (opNewOpenedCount resp) now in
                   andThen (SaveMatchState m') (\<lambda>_. ret (m', attachMineMatchResponse resp m')))
                 else ret (matchState, resp)) (\<lambda>(m', resp').
              andThen (liftE (allSafeCellsOpened mac s c st)) (\<lambda>completed.
              if \<not> completed then ret resp'
              else andThen (liftE (scoreWinnerTeam m')) (\<lambda>winTeamNo.
                andThen timeNow (\<lambda>now. finishMatch wi m' winTeamNo now resp'))))) (\<lambda>_. ?I) ?I"
      proof (cases r)
        case (Some m)
        have pre: "(\<lambda>w. ?I w \<and> (\<forall>m'. Some m = Some m' \<longrightarrow> found F u ?n (chunkString c) m' w)) = ?A m" by simp
        show ?thesis unfolding Some option.case Let_def n pre
          by (intro triple_if stop mine triple_scoreStep [unfolded Let_def]) simp
      qed (simp add: triple_ret)
    qed
  qed (auto simp: ApplyOpenResult_def intro: triple_ret)
qed

section \<open>Opening a cell\<close>

text \<open>The invariant, with the opened cells of a chunk pinned down.\<close>

definition withCells :: "mac \<Rightarrow> int \<Rightarrow> MineSeason list \<Rightarrow> (int \<Rightarrow> MineMatchState option) \<Rightarrow> int \<times> string
    \<Rightarrow> MineChunkState \<Rightarrow> world \<Rightarrow> bool" where
  "withCells mac dur ss F k st w \<longleftrightarrow> playInv mac dur ss F w \<and> cellsOf w k = mget (csOpenedCells st)"

lemma data_inv_withCells [simp]: "data_inv (withCells mac dur ss F k st)"
  using data_inv_playInv [of mac dur ss F] by (simp add: data_inv_def withCells_def cellsOf_def)

lemma playInv_storeChunk:
  assumes inv: "playInv mac dur ss F w" and s: "s \<in> set ss" "playable c" and ok: "chunk_ok mac dur s c st"
    and more: "cellsOf w (seID s, chunkString c) \<subseteq>\<^sub>m mget (csOpenedCells st)"
  shows "playInv mac dur ss F (storeChunk st w)"
proof -
  have k: "chunkKey st = (seID s, chunkString c)" using ok by (simp add: chunk_ok_def chunkKey_def)
  have f: "fieldInv mac dur ss (storeChunk st w)" by (rule fieldInv_storeChunk [OF _ s ok]) (use inv in \<open>simp add: playInv_def\<close>)
  have "cellsOf w k' \<subseteq>\<^sub>m cellsOf (storeChunk st w) k'" for k' using more by (simp add: cellsOf_storeChunk k)
  then have "earned w m \<Longrightarrow> earned (storeChunk st w) m" for m by (rule earned_mono [OF f])
  moreover have "matchPart (storeChunk st w) = matchPart w" by (simp add: matchPart_def storeChunk_def)
  ultimately show ?thesis using inv f play_ok_same [of F w "storeChunk st w"] by (simp add: playInv_def)
qed

text \<open>Saving a chunk with the same cells.\<close>

lemma triple_SaveSame:
  assumes s: "s \<in> set ss" "playable c" and ok: "chunk_ok mac dur s c st'" and same: "csOpenedCells st' = csOpenedCells st"
  shows "triple (withCells mac dur ss F (seID s, chunkString c) st) (SaveState st')
    (\<lambda>_. withCells mac dur ss F (seID s, chunkString c) st') (playInv mac dur ss F)"
proof -
  have k: "chunkKey st' = (seID s, chunkString c)" using ok by (simp add: chunk_ok_def chunkKey_def)
  have "playInv mac dur ss F (storeChunk st' w)" if "withCells mac dur ss F (seID s, chunkString c) st w" for w
    by (rule playInv_storeChunk [OF _ s ok]) (use that in \<open>simp_all add: withCells_def same\<close>)
  then show ?thesis unfolding SaveState_def
    by (intro triple_wr) (simp_all add: withCells_def [of _ _ _ _ _ st'] cellsOf_storeChunk k, simp add: withCells_def)
qed

lemma triple_enterChunk:
  assumes "playable c"
  shows "triple (playInv mac dur ss F) (enterChunk wi dur u c)
    (\<lambda>(s, st) w. withCells mac dur ss F (seID s, chunkString c) st w \<and> s \<in> set ss \<and> season_ok s \<and> chunk_ok mac dur s c st)
    (playInv mac dur ss F)"
proof -
  let ?I = "playInv mac dur ss F" and ?W = "\<lambda>s. withCells mac dur ss F (seID s, chunkString c)"
  have season: "triple ?I activeSeason (\<lambda>s w. ?I w \<and> s \<in> set ss \<and> season_ok s) ?I"
  proof -
    have "keeps (\<lambda>w. play_ok F w \<and> length ss \<le> 2 ^ 40) activeSeason"
      unfolding activeSeason_def
      by (intro keeps_andThen reads_GetActiveSeason gives_intros) (simp add: data_inv_def play_ok_def earned_def)+
    from gives_conj [OF whole.gives_activeSeason [of mac dur ss] this]
    show ?thesis by (intro triple_weaken [OF triple_gives]) (auto simp: playInv_def)
  qed
  have auth: "triple ?I (authorizeMineMatchOperation wi u (seID s) (chunkString c)) (\<lambda>_. ?I) ?I" for s
    unfolding authorizeMineMatchOperation_def by (intro triple_keeps gives_intros read_frame data_inv_playInv) simp
  have load: "triple ?I (loadOrNewChunkState (seID s) (chunkString c)) (\<lambda>st w. ?W s st w \<and> chunk_ok mac dur s c st) ?I"
    if s: "s \<in> set ss" for s
  proof -
    let ?R = "\<lambda>r w. ?I w \<and> rdChunks w (seID s, chunkString c) = r"
    have r: "triple ?I (loadChunkState (seID s) (chunkString c)) ?R ?I"
      unfolding loadChunkState_def GetState_def by (rule triple_rd) simp_all
    have "triple (?R r) (case r of None \<Rightarrow> ret (NewMineChunkState (seID s) (chunkString c)) | Some st \<Rightarrow> ret st)
        (\<lambda>st w. ?W s st w \<and> chunk_ok mac dur s c st) ?I" for r
      using fieldInv_stored [of mac dur ss _ s c] s assms
      by (cases r) (auto simp: withCells_def cellsOf_def playInv_def chunk_ok_new intro!: triple_ret, simp add: NewMineChunkState_def)
    then show ?thesis unfolding loadOrNewChunkState_def by (rule triple_andThen [OF r])
  qed
  have reopen: "triple (?W s st) (reopenExpiredChunk dur st t) (\<lambda>st' w. ?W s st' w \<and> chunk_ok mac dur s c st') ?I"
    if s: "s \<in> set ss" and ok: "chunk_ok mac dur s c st" for s st t
  proof (cases "csClosed st")
    case True
    have sv: "triple (?W s st) (SaveState (reopened st)) (\<lambda>_. ?W s (reopened st)) ?I"
      by (rule triple_SaveSame [OF s assms chunk_ok_reopened [OF ok]]) (simp add: reopened_def)
    have "triple (?W s st) (andThen (SaveState (reopened st)) (\<lambda>_. ret (reopened st))) (\<lambda>st' w. ?W s st' w \<and> chunk_ok mac dur s c st') ?I"
      by (rule triple_andThen [OF sv], rule triple_ret) (simp add: chunk_ok_reopened [OF ok])
    then show ?thesis
      unfolding reopenExpiredChunk_def fillClosure_ok [OF ok True] Let_def
      using ok True by (auto simp: chunk_ok_def closure_ok_def intro!: triple_ret)
  next
    case False
    then show ?thesis using ok by (auto simp: reopenExpiredChunk_def intro!: triple_ret)
  qed
  have check: "triple (\<lambda>w. ?W s st w \<and> chunk_ok mac dur s c st) (if csClosed st then fail ErrChunkClosed else ret (s, st))
      (\<lambda>(s, st) w. ?W s st w \<and> s \<in> set ss \<and> season_ok s \<and> chunk_ok mac dur s c st) ?I" if "s \<in> set ss" "season_ok s" for s st
    using that by (auto simp: withCells_def intro!: triple_ret triple_fail)
  have rest: "triple ?I (andThen (authorizeMineMatchOperation wi u (seID s) (chunkString c)) (\<lambda>_.
      andThen (loadOrNewChunkState (seID s) (chunkString c)) (\<lambda>st0.
      andThen timeNow (\<lambda>t.
      andThen (reopenExpiredChunk dur st0 t) (\<lambda>st. if csClosed st then fail ErrChunkClosed else ret (s, st))))))
      (\<lambda>(s, st) w. ?W s st w \<and> s \<in> set ss \<and> season_ok s \<and> chunk_ok mac dur s c st) ?I"
    if s: "s \<in> set ss" "season_ok s" for s
  proof (rule triple_andThen [OF auth], rule triple_andThen [OF load [OF s(1)]])
    fix st0
    show "triple (\<lambda>w. ?W s st0 w \<and> chunk_ok mac dur s c st0) (andThen timeNow (\<lambda>t. andThen (reopenExpiredChunk dur st0 t)
        (\<lambda>st. if csClosed st then fail ErrChunkClosed else ret (s, st))))
        (\<lambda>(s, st) w. ?W s st w \<and> s \<in> set ss \<and> season_ok s \<and> chunk_ok mac dur s c st) ?I"
    proof (rule triple_when)
      assume st0: "chunk_ok mac dur s c st0"
      show "triple (?W s st0) (andThen timeNow (\<lambda>t. andThen (reopenExpiredChunk dur st0 t)
        (\<lambda>st. if csClosed st then fail ErrChunkClosed else ret (s, st))))
        (\<lambda>(s, st) w. ?W s st w \<and> s \<in> set ss \<and> season_ok s \<and> chunk_ok mac dur s c st) ?I"
        by (rule triple_andThen [OF triple_timeNow [OF data_inv_withCells]], assumption)
          (rule triple_andThen [OF reopen [OF s(1) st0] check [OF s]])
    qed
  qed
  show ?thesis unfolding enterChunk_def
    by (rule triple_andThen [OF season], rule triple_when, elim conjE) (rule rest)
qed

text \<open>A saved safe step: the player has opened as many more cells as the step reports.\<close>

lemma allUnpaid_saved:
  assumes w: "withCells mac dur ss F (seID s, chunkString c) st w" and s: "s \<in> set ss" "playable c"
    and ok: "chunk_ok mac dur s c st" and m: "opened_more mac s c u t st new st1"
    and new: "\<And>d. d \<in> new \<Longrightarrow> openable mac s c st d"
  shows "playInv mac dur ss F (storeChunk (bumpVersion st1) w)"
    "allUnpaid u (mlen (csOpenedCells st1) - mlen (csOpenedCells st)) (chunkString c) (storeChunk (bumpVersion st1) w)"
proof -
  let ?w = "storeChunk (bumpVersion st1) w" and ?cid = "chunkString c" and ?K = "cellKey ` new"
  let ?n = "mlen (csOpenedCells st1) - mlen (csOpenedCells st)"
  have inv: "playInv mac dur ss F w" and cells: "cellsOf w (seID s, ?cid) = mget (csOpenedCells st)" using w by (simp_all add: withCells_def)
  have ok': "chunk_ok mac dur s c (bumpVersion st1)" by (rule chunk_ok_bumpVersion [OF chunk_ok_opened_more [OF ok m new]])
  have k: "chunkKey (bumpVersion st1) = (seID s, ?cid)" using ok' by (simp add: chunk_ok_def chunkKey_def)
  have more: "mget (csOpenedCells st) \<subseteq>\<^sub>m mget (csOpenedCells st1)" by (rule opened_more_grows [OF m new])
  show I: "playInv mac dur ss F ?w"
    by (rule playInv_storeChunk [OF inv s ok']) (use more in \<open>simp add: cells bumpVersion_def\<close>)
  then have f: "fieldInv mac dur ss ?w" by (simp add: playInv_def)
  have cells': "cellsOf ?w key = (if key = (seID s, ?cid) then mget (csOpenedCells st1) else cellsOf w key)" for key
    by (simp add: cellsOf_storeChunk k) (simp add: bumpVersion_def)
  let ?A = "cellsOpenedBy w ?cid u" and ?A' = "cellsOpenedBy ?w ?cid u" and ?D = "{seID s} \<times> ?K"
  have "on_board (fst d) (snd d)" if "d \<in> new" for d using new [OF that] by (cases d) simp
  then have "card ?K = card new" by (intro card_image cellKey_inj)
  then have cnt: "?n = int (card ?D)"
    using opened_more_count [OF m _ new] ok by (simp add: chunk_ok_def card_cartesian_product)
  have fin: "finite ?A'" by (rule finite_cellsOpenedBy [OF f])
  have "?A \<subseteq> ?A'"
    by (rule cellsOpenedBy_mono) (use more in \<open>simp add: cells' cells\<close>)
  moreover have "?D \<subseteq> ?A'"
  proof
    fix d assume "d \<in> ?D"
    then obtain i where d: "d = (seID s, i)" "i \<in> ?K" by auto
    then have "mget (csOpenedCells st1) i = Some (zeroSnap mac s c u t i)" using opened_more_get [OF m, of i] by simp
    then show "d \<in> ?A'" using d(1) by (simp add: cellsOpenedBy_def cells' zeroSnap_def)
  qed
  moreover have "?A \<inter> ?D = {}"
  proof -
    have "mget (csOpenedCells st) i = None" if "i \<in> ?K" for i using new that by (force simp: mhas_def)
    then have "d \<notin> ?A" if "d \<in> ?D" for d using that by (cases d) (simp add: cellsOpenedBy_def cells)
    then show ?thesis by blast
  qed
  ultimately have le: "card ?A + card ?D \<le> card ?A'"
    using card_mono [OF fin, of "?A \<union> ?D"] finite_subset [OF _ fin] by (metis Un_least card_Un_disjoint)
  show "allUnpaid u ?n ?cid ?w"
    unfolding allUnpaid_def unpaid_def
  proof (intro allI impI)
    fix i mm assume mm: "rdMineMatches ?w i = Some mm" and c: "0 < ?n \<and> mmChunkID mm = ?cid"
    have "rdMineMatches w i = Some mm" using mm by (simp add: storeChunk_def)
    then have "earned w mm" using inv play_okD(4) [of F w] unfolding playInv_def by blast
    then have "mget0 0 (mmPlayerScores mm) u \<le> int (card ?A)" using c by (simp add: earned_def)
    then show "mget0 0 (mmPlayerScores mm) u + ?n \<le> int (card ?A')" using le cnt by linarith
  qed
qed

lemma allUnpaid_none: "n \<le> 0 \<Longrightarrow> allUnpaid u n cid w"
  by (simp add: allUnpaid_def unpaid_def)

lemma triple_applyOpen:
  "triple (\<lambda>w. playInv mac dur ss F w \<and> allUnpaid u (opNewOpenedCount resp) (chunkString c) w)
     (applyMineMatchOpenResult mac wi u s c st resp) (\<lambda>_. playInv mac dur ss F) (playInv mac dur ss F)"
  unfolding applyMineMatchOpenResult_def by (auto intro!: triple_if triple_ApplyOpenResult triple_ret)

lemma triple_applyNothing:
  assumes "opNewOpenedCount resp \<le> 0"
  shows "triple (withCells mac dur ss F k st0) (applyMineMatchOpenResult mac wi u s c st resp) (\<lambda>_. playInv mac dur ss F) (playInv mac dur ss F)"
  by (rule triple_weaken [OF triple_applyOpen]) (use assms in \<open>auto simp: withCells_def allUnpaid_none\<close>)

text \<open>Saving the outcome of a step, and telling the match.\<close>

lemma triple_saved:
  assumes s: "s \<in> set ss" "season_ok s" "playable c" and ok: "chunk_ok mac dur s c st" and b: "on_board x y"
    and new: "mget (csOpenedCells st) (y * 128 + x) = None" "\<not> mhas (csFlaggedBy st) (y * 128 + x)"
  shows "triple (withCells mac dur ss F (seID s, chunkString c) st)
    (andThen (liftE (if cellMine mac s c x y then Inr (closeByMine dur st u now, 0)
        else openSafeCell mac s c st x y (y * 128 + x) u now)) (\<lambda>(st1, adj).
      andThen (SaveState (bumpVersion st1)) (\<lambda>_. applyMineMatchOpenResult mac wi u s c (bumpVersion st1)
        (savedResponse c (bumpVersion st1) x y (y * 128 + x) now (cellMine mac s c x y) adj (mlen (csOpenedCells st))))))
    (\<lambda>_. playInv mac dur ss F) (playInv mac dur ss F)"
proof -
  let ?W = "withCells mac dur ss F (seID s, chunkString c) st" and ?I = "playInv mac dur ss F"
  have run: "triple ?W (andThen (SaveState (bumpVersion st1)) (\<lambda>_. applyMineMatchOpenResult mac wi u s c (bumpVersion st1)
        (savedResponse c (bumpVersion st1) x y (y * 128 + x) now b adj (mlen (csOpenedCells st))))) (\<lambda>_. ?I) ?I"
    if saved: "\<And>w. ?W w \<Longrightarrow> ?I (storeChunk (bumpVersion st1) w)"
      "\<And>w. ?W w \<Longrightarrow> allUnpaid u (mlen (csOpenedCells st1) - mlen (csOpenedCells st)) (chunkString c) (storeChunk (bumpVersion st1) w)"
    for st1 adj b
  proof (rule triple_andThen)
    show "triple ?W (SaveState (bumpVersion st1))
      (\<lambda>_ w. ?I w \<and> allUnpaid u (mlen (csOpenedCells st1) - mlen (csOpenedCells st)) (chunkString c) w) ?I"
      unfolding SaveState_def by (rule triple_wr [OF data_inv_withCells]) (use saved in \<open>simp_all add: withCells_def\<close>)
  next
    show "triple (\<lambda>w. ?I w \<and> allUnpaid u (mlen (csOpenedCells st1) - mlen (csOpenedCells st)) (chunkString c) w)
      (applyMineMatchOpenResult mac wi u s c (bumpVersion st1)
        (savedResponse c (bumpVersion st1) x y (y * 128 + x) now b adj (mlen (csOpenedCells st)))) (\<lambda>_. ?I) ?I" for a
      using triple_applyOpen [of mac dur ss F u "savedResponse c (bumpVersion st1) x y (y * 128 + x) now b adj (mlen (csOpenedCells st))" c wi s]
      by (simp add: savedResponse_def bumpVersion_def)
  qed
  show ?thesis
  proof (cases "cellMine mac s c x y")
    case True
    let ?st = "closeByMine dur st u now"
    have "?I (storeChunk (bumpVersion ?st) w)" if "?W w" for w
      by (rule playInv_storeChunk [OF _ s(1,3) chunk_ok_bumpVersion [OF chunk_ok_closeByMine [OF ok]]])
        (use that in \<open>simp_all add: withCells_def bumpVersion_def closeByMine_def\<close>)
    moreover have "allUnpaid u (mlen (csOpenedCells ?st) - mlen (csOpenedCells st)) (chunkString c) (storeChunk (bumpVersion ?st) w)" for w
      by (rule allUnpaid_none) (simp add: closeByMine_def)
    ultimately show ?thesis using run [of ?st] True by simp
  next
    case False
    then have o: "openable mac s c st (x, y)" using new b by (simp add: mhas_def)
    obtain st1 where st1: "openSafeCell mac s c st x y (y * 128 + x) u now = Inr (st1, cellAdj mac s c x y)"
      and m: "opened_more mac s c u now st (newlyOpened mac s c st x y) st1"
      using openSafeCell_spec [OF s(2) playable_in_grid [OF s(3)] o, of u now] by metis
    show ?thesis
      using run [OF allUnpaid_saved [OF _ s(1,3) ok m newlyOpened_openable [OF o]]] False st1 by simp
  qed
qed

lemma keeps_openCellInWorker_play:
  assumes "playable c"
  shows "keeps (playInv mac dur ss F) (openCellInWorker mac wi dur u c x y)"
proof (rule keeps_triple, cases "ChunkCellIndex x y")
  case (Inl e)
  then show "triple (playInv mac dur ss F) (openCellInWorker mac wi dur u c x y) (\<lambda>_. playInv mac dur ss F) (playInv mac dur ss F)"
    by (simp add: openCellInWorker_def triple_fail)
next
  let ?I = "playInv mac dur ss F"
  case (Inr i)
  then have b: "on_board x y" "i = y * 128 + x" by (simp_all add: ChunkCellIndex_Inr)
  show "triple ?I (openCellInWorker mac wi dur u c x y) (\<lambda>_. ?I) ?I"
    unfolding openCellInWorker_def Inr sum.case
  proof (rule triple_andThen [OF triple_enterChunk [OF assms]], rule triple_split, rule triple_when, elim conjE)
    fix s st assume s: "s \<in> set ss" "season_ok s" and ok: "chunk_ok mac dur s c st"
    have mine: "IsMine mac (Some s) c x y = Inr (cellMine mac s c x y)"
      using IsMine_board [OF _ playable_in_grid [OF assms] b(1)] s(2) by simp
    have idle: "opNewOpenedCount (alreadyOpenResponse c st op) \<le> 0" "opNewOpenedCount (protectedResponse c st x y i now) \<le> 0" for op now
      by (simp_all add: alreadyOpenResponse_def protectedResponse_def baseOpenResponse_def)
    show "triple (withCells mac dur ss F (seID s, chunkString c) st) (case mget (csOpenedCells st) i of
       Some opened \<Rightarrow> applyMineMatchOpenResult mac wi u s c st (alreadyOpenResponse c st opened)
     | None \<Rightarrow>
       if mhas (csFlaggedBy st) i then fail ErrCellFlagged
       else
         andThen timeNow (\<lambda>now.
         andThen (liftE (IsMine mac (Some s) c x y)) (\<lambda>isMine.
         if isMine \<and> \<not> playerHasOpenedCell st u
         then applyMineMatchOpenResult mac wi u s c st (protectedResponse c st x y i now)
         else
           andThen (liftE (if isMine then Inr (closeByMine dur st u now, 0)
                           else openSafeCell mac s c st x y i u now)) (\<lambda>(st1, adj).
           let st2 = bumpVersion st1 in
           andThen (SaveState st2) (\<lambda>_.
           applyMineMatchOpenResult mac wi u s c st2
             (savedResponse c st2 x y i now isMine adj (mlen (csOpenedCells st)))))))) (\<lambda>_. ?I) ?I"
    proof (cases "mget (csOpenedCells st) i")
      case (Some op)
      show ?thesis unfolding Some option.case by (rule triple_applyNothing [OF idle(1)])
    next
      case None
      show ?thesis unfolding None option.case mine liftE_simps andThen_ret Let_def
      proof (rule triple_if)
        show "triple (withCells mac dur ss F (seID s, chunkString c) st) (fail ErrCellFlagged) (\<lambda>_. ?I) ?I"
          by (rule triple_fail) (simp add: withCells_def)
        assume "\<not> mhas (csFlaggedBy st) i"
        then have saved: "triple (withCells mac dur ss F (seID s, chunkString c) st)
           (andThen (liftE (if cellMine mac s c x y then Inr (closeByMine dur st u now, 0)
                           else openSafeCell mac s c st x y i u now)) (\<lambda>(st1, adj).
           andThen (SaveState (bumpVersion st1)) (\<lambda>_.
           applyMineMatchOpenResult mac wi u s c (bumpVersion st1)
             (savedResponse c (bumpVersion st1) x y i now (cellMine mac s c x y) adj (mlen (csOpenedCells st)))))) (\<lambda>_. ?I) ?I" for now
          using triple_saved [of s ss c mac dur st x y F u now wi, folded b(2)] s ok None assms b(1) by simp
        show "triple (withCells mac dur ss F (seID s, chunkString c) st) (andThen timeNow (\<lambda>now.
         if cellMine mac s c x y \<and> \<not> playerHasOpenedCell st u
         then applyMineMatchOpenResult mac wi u s c st (protectedResponse c st x y i now)
         else
           andThen (liftE (if cellMine mac s c x y then Inr (closeByMine dur st u now, 0)
                           else openSafeCell mac s c st x y i u now)) (\<lambda>(st1, adj).
           andThen (SaveState (bumpVersion st1)) (\<lambda>_.
           applyMineMatchOpenResult mac wi u s c (bumpVersion st1)
             (savedResponse c (bumpVersion st1) x y i now (cellMine mac s c x y) adj (mlen (csOpenedCells st))))))) (\<lambda>_. ?I) ?I"
          by (rule triple_andThen [OF triple_timeNow [OF data_inv_withCells]], assumption)
            (rule triple_if [OF triple_applyNothing [OF idle(2)] saved])
      qed
    qed
  qed
qed

end
