(* ===== verification/MatchServer.thy ===== *)
theory MatchServer
  imports MatchHonest MineAssign
begin

text \<open>
  The matches of the running server. Starting a match keeps the invariant of \<open>MatchHonest\<close>, and so does every
  other request, the rank worker, the operators and the environment; so it holds of everything the server can
  reach.
\<close>

section \<open>Starting a match\<close>

text \<open>A match id that has been given out and has no state on the minefield yet.\<close>

definition awaiting :: "mac \<Rightarrow> int \<Rightarrow> MineSeason list \<Rightarrow> (int \<Rightarrow> MineMatchState option) \<Rightarrow> int \<Rightarrow> world \<Rightarrow> bool" where
  "awaiting mac dur ss F i w \<longleftrightarrow> playInv mac dur ss F w \<and> i < dbNextMatchID w \<and> rdMineMatches w i = None"

lemma awaiting_same:
  assumes "awaiting mac dur ss F i w" "dbSeasons w' = dbSeasons w" "rdChunks w' = rdChunks w" "rdClosed w' = rdClosed w"
    "matchPart w' = matchPart w"
  shows "awaiting mac dur ss F i w'"
  using assms playInv_same [OF _ assms(2-5)] by (simp add: awaiting_def matchPart_def)

lemma data_inv_awaiting [simp]: "data_inv (awaiting mac dur ss F i)"
  using data_inv_playInv [of mac dur ss F] by (simp add: data_inv_def awaiting_def)

lemma awaiting_playInv: "awaiting mac dur ss F i w \<Longrightarrow> playInv mac dur ss F w"
  by (simp add: awaiting_def)

text \<open>The id of a new match has no state: only ids given out before have one.\<close>

lemma awaiting_next:
  assumes "playInv mac dur ss F w"
  shows "awaiting mac dur ss F (dbNextMatchID w) (w\<lparr>dbNextMatchID := dbNextMatchID w + 1\<rparr>)"
proof -
  let ?w = "w\<lparr>dbNextMatchID := dbNextMatchID w + 1\<rparr>"
  have ok: "play_ok F w" and f: "fieldInv mac dur ss w" "length ss \<le> 2 ^ 40" using assms by (simp_all add: playInv_def)
  have "play_ok F ?w"
  proof (rule play_okI)
    show "mmMatchID m = i \<and> i < dbNextMatchID ?w \<and> match_ok m \<and> earned ?w m" if "rdMineMatches ?w i = Some m" for i m
      using that play_okD(1-4) [OF ok, of i m] earned_chunks [of ?w w] by simp
  qed (use play_okD(5,6) [OF ok] in simp_all)
  moreover have "fieldInv mac dur ss ?w" by (rule field_dataD [OF field_data_fieldInv f(1)]) simp_all
  moreover have "rdMineMatches w (dbNextMatchID w) = None"
  proof (cases "rdMineMatches w (dbNextMatchID w)")
    case (Some m)
    then show ?thesis using play_okD(2) [OF ok Some] by simp
  qed
  ultimately show ?thesis using f(2) by (simp add: awaiting_def playInv_def)
qed

lemma keeps_AddMatchPlayer: "data_inv I \<Longrightarrow> keeps I (AddMatchPlayer tx ps)"
  by (induction ps arbitrary: tx) (auto simp: insertMatchPlayer_def intro!: keeps_andThen gives_intros keeps_rd)

lemma keeps_CommitTx_awaiting: "keeps (awaiting mac dur ss F i) (CommitTx tx)"
  unfolding CommitTx_def by (rule keeps_wr) (auto elim!: awaiting_same simp: matchPart_def)

lemma triple_CreateMatchFromQueue:
  "triple (playInv mac dur ss F) (CreateMatchFromQueue q) (\<lambda>i. awaiting mac dur ss F i) (playInv mac dur ss F)"
proof -
  let ?I = "playInv mac dur ss F" and ?A = "awaiting mac dur ss F"
  have create: "triple ?I (CreateMatch tx m) (\<lambda>(i, _). ?A i) ?I" for tx m
    unfolding CreateMatch_def
    by (rule triple_wrapErr, rule triple_wr) (auto intro: awaiting_next awaiting_playInv)
  have players: "triple (?A i) (andThen (AddMatchPlayer tx ps) (\<lambda>tx2. ret (i, tx2))) (\<lambda>(i, _). ?A i) ?I" for i tx ps
    by (rule triple_weaken [OF triple_andThen [OF triple_keeps [OF keeps_AddMatchPlayer [OF data_inv_awaiting]]]])
      (auto intro: triple_ret awaiting_playInv)
  have stage: "triple ?I (stageMatch tx q) (\<lambda>(i, _). ?A i) ?I" for tx
    unfolding stageMatch_def
    by (rule triple_andThen [OF triple_timeNow [OF data_inv_playInv]], assumption)
      (rule triple_andThen [OF create], rule triple_split, rule players)
  have undo: "triple ?I (andThen (ignoreErr RollbackTx) (\<lambda>_. fail e)) Q ?I" for e and Q :: "int \<times> MatchTx \<Rightarrow> world \<Rightarrow> bool"
    unfolding RollbackTx_def
    by (rule triple_andThen [OF triple_keeps [OF gives_ignoreErr [OF keeps_rd [OF data_inv_playInv]]] triple_fail])
  have staged: "triple ?I (onErr (stageMatch tx q) (\<lambda>e. andThen (ignoreErr RollbackTx) (\<lambda>_. fail e))) (\<lambda>(i, _). ?A i) ?I" for tx
    by (rule triple_onErr [OF stage undo])
  have commit: "triple (?A i) (andThen (CommitTx tx) (\<lambda>_. ret i)) ?A ?I" for i tx
    by (rule triple_weaken [OF triple_andThen [OF triple_keeps [OF keeps_CommitTx_awaiting] triple_ret]]) (auto intro: awaiting_playInv)
  have begins: "triple ?I BeginTx (\<lambda>_. ?I) ?I"
    unfolding BeginTx_def by (rule triple_rd) simp_all
  show ?thesis
    unfolding CreateMatchFromQueue_def
    by (rule triple_andThen [OF begins], rule triple_andThen [OF staged], rule triple_split, rule commit)
qed

text \<open>The state a match starts with.\<close>

lemma addTeam_ok:
  assumes "map_ok (mmTeams m)" "map_ok (mmPlayerScores m)" "dom (mget (mmPlayerScores m)) = dom (mget (mmUserTeams m))"
    "\<And>u. mget0 0 (mmPlayerScores m) u = 0"
  shows "map_ok (mmTeams (addTeam m t)) \<and> map_ok (mmPlayerScores (addTeam m t))
    \<and> dom (mget (mmPlayerScores (addTeam m t))) = dom (mget (mmUserTeams (addTeam m t)))
    \<and> (\<forall>u. mget0 0 (mmPlayerScores (addTeam m t)) u = 0)
    \<and> mmWinTeamNo (addTeam m t) = mmWinTeamNo m \<and> mmFinishedAt (addTeam m t) = mmFinishedAt m"
proof -
  have "map_ok (foldl (\<lambda>m u. mput u 0 m) sc us) \<and> (\<forall>v. mget0 0 (foldl (\<lambda>m u. mput u 0 m) sc us) v = (0 :: int))"
    if "map_ok sc" "\<forall>v. mget0 0 sc v = 0" for us and sc :: "(int, int) gomap"
    using that by (induction us arbitrary: sc) (simp_all add: mget0_def)
  then show ?thesis using assms by (simp add: addTeam_def dom_fold_mput)
qed

lemma buildMineMatchState_ok:
  "match_ok (buildMineMatchState t i r s c teams)" "mget0 0 (mmPlayerScores (buildMineMatchState t i r s c teams)) u = 0"
proof -
  have "map_ok (mmTeams (foldl addTeam m ts)) \<and> map_ok (mmPlayerScores (foldl addTeam m ts))
      \<and> dom (mget (mmPlayerScores (foldl addTeam m ts))) = dom (mget (mmUserTeams (foldl addTeam m ts)))
      \<and> (\<forall>u. mget0 0 (mmPlayerScores (foldl addTeam m ts)) u = 0)
      \<and> mmWinTeamNo (foldl addTeam m ts) = mmWinTeamNo m \<and> mmFinishedAt (foldl addTeam m ts) = mmFinishedAt m"
    if "map_ok (mmTeams m)" "map_ok (mmPlayerScores m)" "dom (mget (mmPlayerScores m)) = dom (mget (mmUserTeams m))"
      "\<And>u. mget0 0 (mmPlayerScores m) u = 0" for ts and m
    using that
  proof (induction ts arbitrary: m)
    case (Cons t ts)
    then show ?case using addTeam_ok [OF Cons.prems, of t] Cons.IH [of "addTeam m t"] by simp
  qed simp
  note all = this
  let ?b = "\<lparr>mmMatchID = i, mmRoomID = r, mmSeasonID = s, mmChunkID = c,
      mmStatus = MineMatchStatusOngoing, mmTeams = [], mmUserTeams = [], mmPlayerScores = [],
      mmLastScoreAt = [], mmWinTeamNo = None, mmStartedAt = t, mmFinishedAt = None\<rparr>"
  have start: "map_ok (mmTeams ?b)" "map_ok (mmPlayerScores ?b)" "dom (mget (mmPlayerScores ?b)) = dom (mget (mmUserTeams ?b))"
    "mget0 0 (mmPlayerScores ?b) v = 0" for v by (simp_all add: mget0_def map_ok_def mkeys_def)
  note st = all [OF start, of teams, folded buildMineMatchState_def]
  show "match_ok (buildMineMatchState t i r s c teams)"
    unfolding match_ok_def buildMineMatchState_sel using st by simp
  show "mget0 0 (mmPlayerScores (buildMineMatchState t i r s c teams)) u = 0" using st by blast
qed

lemma storable_start:
  assumes "awaiting mac dur ss F i w"
  shows "storable F (buildMineMatchState t i r s c teams) w"
proof -
  have ok: "play_ok F w" and new: "rdMineMatches w i = None" "i < dbNextMatchID w" using assms by (simp_all add: awaiting_def playInv_def)
  have "F i = None"
  proof (cases "F i")
    case (Some m)
    then show ?thesis using play_okD(6) [OF ok Some] new by simp
  qed
  moreover have "rdUserMatch w u \<noteq> Some i" for u using play_okD(5) [OF ok, of u i] new by auto
  ultimately show ?thesis
    using new buildMineMatchState_ok by (simp add: storable_def buildMineMatchState_sel earned_def)
qed

text \<open>Finding a chunk writes locks only.\<close>

lemma keeps_locks:
  assumes "data_inv I" "\<And>k v w. I w \<Longrightarrow> I (takeLock k v w)" "\<And>k w. I w \<Longrightarrow> I (dropLock k w)"
  shows "keeps I (findAndLockCleanChunk perm s m)"
proof -
  note steps = keeps_andThen gives_onErr gives_ignoreErr gives_intros read_frame [OF assms(1)]
  have lock: "keeps I (TryLockChunk s c m)" "keeps I (UnlockChunk s c m)" for c
    unfolding TryLockChunk_def by (auto intro!: keeps_wr keeps_UnlockChunk assms)
  have "keeps I (tryChunks g s m vs)" for g vs
    by (induction vs) (auto simp: Let_def intro!: steps lock)
  then show ?thesis unfolding findAndLockCleanChunk_def by (intro keeps_andThen gives_intros) auto
qed

lemma triple_AssignChunkForMatch:
  "triple (awaiting mac dur ss F i) (AssignChunkForMatch wi perm i r teams) (\<lambda>_. playInv mac dur ss F) (playInv mac dur ss F)"
proof (cases "wiMatch wi")
  case True
  then have wi: "\<not> \<not> wiMatch wi" by simp
  let ?I = "playInv mac dur ss F" and ?A = "awaiting mac dur ss F i"
  have any: "triple ?A k (\<lambda>_. ?A) ?I" if "keeps ?A k" for k :: "'x io"
    by (rule triple_weaken [OF triple_keeps [OF that]]) (auto intro: awaiting_playInv)
  have find: "keeps ?A (findAndLockCleanChunk perm s i)" for s
    by (rule keeps_locks) (auto elim!: awaiting_same simp: takeLock_def dropLock_def matchPart_def)
  have undo: "triple ?I (andThen (ignoreErr (UnlockChunk s c i)) (\<lambda>_. fail e)) Q ?I" for s c e and Q :: "unit \<Rightarrow> world \<Rightarrow> bool"
    by (rule triple_andThen [OF triple_keeps [OF gives_ignoreErr [OF keeps_UnlockChunk_play]] triple_fail])
  let ?st = "\<lambda>t s c. buildMineMatchState t i r s c teams"
  let ?S = "\<lambda>t s c w. ?I w \<and> rdMineMatches w i = Some (?st t s c)"
  have save: "triple ?A (SaveMatchState (?st t s c)) (\<lambda>_. ?S t s c) ?I" for t s c
  proof -
    have w: "?I (storeMatch (?st t s c) w)" if "?A w" for w
      by (rule playInv_storeMatch [OF awaiting_playInv [OF that] storable_start [OF that]])
    show ?thesis unfolding SaveMatchState_def
      by (rule triple_wr [OF data_inv_awaiting]) (simp_all add: w awaiting_playInv, simp add: storeMatch_def buildMineMatchState_sel)
  qed
  have users: "triple (?S t s c) (SetActiveMatchForUsers (?st t s c)) (\<lambda>_. ?I) ?I" for t s c
  proof -
    have di: "data_inv (?S t s c)" by (rule data_inv_conj [OF data_inv_playInv]) (simp add: data_inv_def)
    have "?I (bindUsers (mkeys (mmUserTeams (?st t s c))) (Some i) w)" if "?S t s c w" for w
      by (rule playInv_bindUsers) (use that in \<open>auto simp: mkeys_dom\<close>)
    then show ?thesis unfolding SetActiveMatchForUsers_def pipeUsers_def buildMineMatchState_sel
      by (auto intro!: triple_if triple_ret triple_wr [OF di])
  qed
  have bind: "triple ?A (andThen timeNow (\<lambda>now. let state = ?st now s c;
              unlock = (\<lambda>e. andThen (ignoreErr (UnlockChunk s c i)) (\<lambda>_. fail e))
          in andThen (onErr (SaveMatchState state) unlock) (\<lambda>_.
             andThen (onErr (SetActiveMatchForUsers state) unlock) (\<lambda>_. ret c)))) (\<lambda>_. ?I) ?I" for s c
    unfolding Let_def
    by (rule triple_andThen [OF triple_timeNow [OF data_inv_awaiting]], assumption)
      (rule triple_andThen [OF triple_onErr [OF save undo]], rule triple_andThen [OF triple_onErr [OF users undo]], rule triple_ret)
  have found: "triple ?A (case season of None \<Rightarrow> fail ErrNoActiveSeason
      | Some s \<Rightarrow> andThen (findAndLockCleanChunk perm (seID s) i) (\<lambda>c.
          andThen timeNow (\<lambda>now. let state = ?st now (seID s) c;
              unlock = (\<lambda>e. andThen (ignoreErr (UnlockChunk (seID s) c i)) (\<lambda>_. fail e))
          in andThen (onErr (SaveMatchState state) unlock) (\<lambda>_.
             andThen (onErr (SetActiveMatchForUsers state) unlock) (\<lambda>_. ret c))))) (\<lambda>_. ?I) ?I" for season
    by (cases season) (auto intro: triple_fail awaiting_playInv triple_andThen [OF any [OF find] bind])
  show ?thesis
    unfolding AssignChunkForMatch_def if_not_P [OF wi]
    by (rule triple_andThen [OF any found], rule reads_GetActiveSeason) simp
qed (auto simp: AssignChunkForMatch_def intro: triple_ret awaiting_playInv)

section \<open>Every step\<close>

text \<open>The other components write elsewhere.\<close>

lemma play_outside:
  "outside_queue (playInv mac dur ss F)" "outside_ranks (playInv mac dur ss F)" "outside_users (playInv mac dur ss F)"
  "outside_queue (awaiting mac dur ss F i)"
proof -
  have play: "stable (playInv mac dur ss F) upd" if "\<And>w. dbSeasons (upd w) = dbSeasons w" "\<And>w. rdChunks (upd w) = rdChunks w"
      "\<And>w. rdClosed (upd w) = rdClosed w" "\<And>w. matchPart (upd w) = matchPart w" for upd
    by (rule stableI) (rule playInv_same, assumption, rule that, rule that, rule that, rule that)
  have wait: "stable (awaiting mac dur ss F i) upd" if "\<And>w. dbSeasons (upd w) = dbSeasons w" "\<And>w. rdChunks (upd w) = rdChunks w"
      "\<And>w. rdClosed (upd w) = rdClosed w" "\<And>w. matchPart (upd w) = matchPart w" for upd
    by (rule stableI) (rule awaiting_same, assumption, rule that, rule that, rule that, rule that)
  show "outside_queue (playInv mac dur ss F)" "outside_ranks (playInv mac dur ss F)" "outside_users (playInv mac dur ss F)"
    by (auto simp: outside_queue_def outside_ranks_def outside_users_def write_defs matchPart_def intro!: play)
  show "outside_queue (awaiting mac dur ss F i)"
    by (auto simp: outside_queue_def write_defs matchPart_def intro!: wait)
qed

lemma keeps_putRoom_play: "keeps (playInv mac dur ss F) (putRoom r)"
  by (auto simp: gives_def putRoom_def intro: playInv_records)

lemma keeps_CreateRoom_play: "keeps (playInv mac dur ss F) (CreateRoom r mode m teams)"
proof -
  have add: "keeps I (addRoomPlayers t us m)" if "data_inv I" for I :: "world \<Rightarrow> bool" and t us m
    by (induction us arbitrary: m) (auto intro!: keeps_andThen gives_ret keeps_timeNow that)
  have "keeps (playInv mac dur ss F) (roomPlayersOf ts m)" for ts m
    by (induction ts arbitrary: m) (auto intro!: keeps_andThen gives_ret add)
  then show ?thesis unfolding CreateRoom_def Let_def by (auto intro!: keeps_andThen gives_ret keeps_putRoom_play)
qed

lemma keeps_startMatch_play: "keeps (playInv mac dur ss F) (startMatch wi perm mode teams r)"
proof (rule keeps_triple)
  let ?I = "playInv mac dur ss F" and ?A = "awaiting mac dur ss F"
  note queue = gives_wrap gives_intros keeps_timeNow [OF outside_queue_inv] frame_updateUsers frame_restoreUsers
  have restore: "keeps ?I (wrapErr msg (restoreMatchedUsers teams mode))" for msg
    unfolding restoreMatchedUsers_def by (intro queue play_outside)
  have undo: "triple ?I (andThen (wrapErr msg (restoreMatchedUsers teams mode)) (\<lambda>_. fail e)) Q ?I"
    for msg e and Q :: "'x \<Rightarrow> world \<Rightarrow> bool"
    by (rule triple_andThen [OF triple_keeps [OF restore] triple_fail])
  have matched: "triple (?A i) (wrapErr msg (updateUserStateToMatched teams r i)) (\<lambda>_. ?A i) ?I" for i msg
  proof (rule triple_weaken [OF triple_keeps])
    show "keeps (?A i) (wrapErr msg (updateUserStateToMatched teams r i))"
      unfolding updateUserStateToMatched_def
      by (intro gives_wrap keeps_andThen keeps_timeNow frame_updateUsers play_outside data_inv_awaiting)
  qed (auto intro: awaiting_playInv)
  have chunk: "triple ?I (wrapErr msg (updateUserStateChunk teams c)) (\<lambda>_. ?I) ?I" for c msg
    unfolding updateUserStateChunk_def
    by (intro triple_keeps gives_wrap keeps_andThen keeps_timeNow frame_updateUsers play_outside data_inv_playInv)
  have assign: "triple (?A i) (if wiMatch wi \<and> mode = ''1v1'' then
        andThen (onErr (AssignChunkForMatch wi perm i r teams)
           (\<lambda>e. andThen (wrapErr m1 (restoreMatchedUsers teams mode)) (\<lambda>_. fail (f e)))) (\<lambda>chunkID.
         wrapErr m2 (updateUserStateChunk teams chunkID))
       else ret ()) (\<lambda>_. ?I) ?I" for i m1 m2 f
    by (rule triple_if, rule triple_andThen [OF triple_onErr [OF triple_AssignChunkForMatch undo] chunk])
      (rule triple_ret, erule awaiting_playInv)
  have room: "triple ?I (andThen (CreateRoom r mode i teams) (\<lambda>_. ret ())) (\<lambda>_. ?I) ?I" for i
    by (intro triple_keeps keeps_andThen keeps_CreateRoom_play gives_ret) simp
  show "triple ?I (startMatch wi perm mode teams r) (\<lambda>_. ?I) ?I"
    unfolding startMatch_def
    by (rule triple_andThen [OF triple_onErr [OF triple_CreateMatchFromQueue undo]], rule triple_andThen [OF matched],
        rule triple_andThen [OF assign room])
qed

lemma keeps_SetMatchResult_play: "keeps (playInv mac dur ss F) (SetMatchResult p i t)"
  unfolding SetMatchResult_def GetMatchByID_def UpdateMatch_def PublishJSON_def
  by (auto intro!: keeps_andThen gives_onErr gives_intros keeps_rd keeps_wr keeps_timeNow playInv_records)

text \<open>The field of the matches under the minefield's other operations.\<close>

lemma matchPart_outside: "outside_chunks (\<lambda>w. matchPart w = X)"
  by (simp add: outside_chunks_def data_inv_def stable_def matchPart_def storeChunk_def)

lemma keeps_OpenCell_play: "keeps (playInv mac dur ss F) (OpenCell mac wi dur u raw x y)"
  unfolding OpenCell_def handleChunkOperation_def
  by (auto simp: parsePlayableChunkID_iff intro!: gives_intros keeps_andThen keeps_openCellInWorker_play
      gives_andThen [OF gives_liftE [where P = playable]])

lemmas play_chunks =
  keeps_growth [OF growth.keeps_FlagCell frame_FlagCell [OF matchPart_outside]]
  keeps_growth [OF growth.keeps_GetChunkSummary frame_GetChunkSummary [OF matchPart_outside]]
  keeps_growth [OF growth.keeps_GetChunkSnapshot frame_GetChunkSnapshot [OF matchPart_outside]]
  keeps_growth [OF growth.keeps_ListChunks frame_ListChunks [OF matchPart_outside]]

lemma keeps_Join_play: "keeps (playInv mac dur ss F) (Join wi perm u mode)"
  by (rule frame_Join_start [OF play_outside(1) keeps_startMatch_play])

lemma keeps_Ready_play: "keeps (playInv mac dur ss F) (ReadyPlayer r u)"
  by (rule frame_ReadyPlayer_data [OF data_inv_playInv keeps_putRoom_play])

interpretation playing: server_invariant ap "playInv (apMac ap) (apClosure ap) ss F" for ap ss F
  by unfold_locales
    (intro keeps_OpenCell_play play_chunks keeps_Join_play keeps_Ready_play keeps_SetMatchResult_play footprints play_outside
      data_inv_playInv | erule playInv_records)+

end
