(* ===== verification/ServerLaws.thy ===== *)
theory ServerLaws
  imports Server
begin

text \<open>
  What the server promises its users: every execution of it is an execution of each component's
  system; nobody acts without a token; what a player changes on the minefield is announced
  to those who watch the chunk.
\<close>

section \<open>The components\<close>

text \<open>(C3) The server runs its components. Whatever requests, worker turns, socket messages, bans and
  failures make up an execution of the server, started on an empty store with some seasons, it is an
  execution of the minefield's system, of match making, of the rank settlement, of the accounts,
  of the rooms and of both hubs. So the invariants of all of them hold in every state of the server,
  with each other's operations in between.\<close>

theorem server_runs_components:
  assumes "server_reach ap ss sv"
  shows "field_reach (apMac ap) (apClosure ap) (emptyWorld\<lparr>dbSeasons := ss\<rparr>) (svWorld sv)
    \<and> queue_reach (svWorld sv) \<and> rank_reach (svWorld sv) \<and> users_reach (apDeps ap) (svWorld sv)
    \<and> room_reach (emptyWorld\<lparr>dbSeasons := ss\<rparr>) (svWorld sv) \<and> hub_reach (svMap sv) \<and> room_hub_reach (svRooms sv)"
  using server_reach_systems [OF assms] unfolding systems_def hubs_reach_def by blast

section \<open>Who may act\<close>

lemma authenticate_cases:
  obtains (accepted) claims now w where "same_data v w" "extractToken cr \<noteq> ''''"
      "dpParse dp (keyFor jm) now (extractToken cr) = Inr (claims, True)"
      "authenticate dp jm cr v = (Inr (ucUserID claims, ucUserName claims), w)"
  | (refused) msg w where "same_data v w" "authenticate dp jm cr v = (Inl (Errorf msg), w)"
proof (cases "extractToken cr = ''''")
  case True
  then show ?thesis using refused [of v "''not logged in''"] by (simp add: authenticate_def fail_def)
next
  case False
  obtain now w where t: "timeNow v = (Inr now, w)" "same_data v w"
    using timeNow_same [of v] timeNow_Inr [of v] by (metis snd_conv)
  show ?thesis
  proof (cases "\<exists>claims. dpParse dp (keyFor jm) now (extractToken cr) = Inr (claims, True)")
    case True
    then obtain claims where "dpParse dp (keyFor jm) now (extractToken cr) = Inr (claims, True)" by blast
    then show ?thesis using accepted [OF t(2) False, of now claims] False t(1)
      by (simp add: authenticate_def ParseToken_def prog_defs)
  next
    case no: False
    then show ?thesis using refused [OF t(2), of "''token invalid or expired''"] False t(1)
      by (cases "dpParse dp (keyFor jm) now (extractToken cr)")
         (auto simp: authenticate_def ParseToken_def prog_defs split: prod.splits if_splits)
  qed
qed

text \<open>(C22) Behind the login: on every route but registration, login and the three map queries, a request is either
  carried out in the name of the user of a token that is valid under the server's own key, or it is
  answered with 401 and nothing that is stored, no room and no subscription changes.\<close>

theorem protected_routes_need_token:
  assumes "publicRoute ap rq = None"
  shows "(\<exists>claims now w. same_data (svWorld sv) w \<and> extractToken cr \<noteq> ''''
        \<and> dpParse (apDeps ap) (keyFor (apJWT ap)) now (extractToken cr) = Inr (claims, True)
        \<and> handleRequest ap cr rq sv = userRoute ap (ucUserID claims) rq (sv\<lparr>svWorld := w\<rparr>))
    \<or> (\<exists>w msg. same_data (svWorld sv) w \<and> handleRequest ap cr rq sv = (Json 401 401 msg NoData, sv\<lparr>svWorld := w\<rparr>))"
proof (cases rule: authenticate_cases [of "svWorld sv" cr "apDeps ap" "apJWT ap"])
  case (accepted claims now w)
  then show ?thesis using assms by (auto simp: handleRequest_def respond_def)
next
  case (refused msg w)
  then show ?thesis using assms by (auto simp: handleRequest_def respond_def failReply_def)
qed

text \<open>Any user may set the result of any match: the route does not ask who he is.\<close>

lemma any_user_sets_results: "userRoute ap u (MatchResult body) = userRoute ap v (MatchResult body)"
  by simp

section \<open>Announcements\<close>

lemma keeps_True: "keeps (\<lambda>_. True) m"
  by (simp add: gives_def)

definition of_chunk :: "ChunkID \<Rightarrow> OpenMineCellResponse \<Rightarrow> bool" where
  "of_chunk c r \<longleftrightarrow> opChunkID r = chunkString c"

lemma of_chunk_attach [simp]: "of_chunk c (attachMineMatchResponse r st) = of_chunk c r"
  by (simp add: of_chunk_def attachMineMatchResponse_def)

lemmas any_then = gives_andThen [OF keeps_True]

lemma finishMatch_chunk: "of_chunk c r \<Longrightarrow> gives (\<lambda>_. True) (finishMatch wi st t now r) (of_chunk c)"
  unfolding finishMatch_def Let_def by (auto intro!: any_then gives_intros)

lemma ApplyOpenResult_chunk:
  assumes r: "of_chunk c r"
  shows "gives (\<lambda>_. True) (ApplyOpenResult mac wi u s c' st r) (of_chunk c)"
proof -
  have scored: "gives (\<lambda>_. True) (if b then andThen timeNow (\<lambda>now. let m' = f now in
      andThen (SaveMatchState m') (\<lambda>_. ret (m', attachMineMatchResponse r' m'))) else ret (m, r')) (\<lambda>p. of_chunk c (snd p))"
    if "of_chunk c r'" for b m f r' using that by (auto simp: Let_def intro!: any_then gives_intros)
  have completed: "gives (\<lambda>_. True) (andThen (liftE e) (\<lambda>done. if \<not> done then ret r'
      else andThen (liftE (scoreWinnerTeam m)) (\<lambda>t. andThen timeNow (\<lambda>now. finishMatch wi m t now r')))) (of_chunk c)"
    if "of_chunk c r'" for e m r' using that by (auto intro!: any_then gives_intros finishMatch_chunk)
  have played: "gives (\<lambda>_. True) (andThen (if b then andThen timeNow (\<lambda>now. let m' = f now in
      andThen (SaveMatchState m') (\<lambda>_. ret (m', attachMineMatchResponse r' m'))) else ret (m, r')) (\<lambda>(m', r'').
      andThen (liftE e) (\<lambda>done. if \<not> done then ret r''
      else andThen (liftE (scoreWinnerTeam m')) (\<lambda>t. andThen timeNow (\<lambda>now. finishMatch wi m' t now r''))))) (of_chunk c)"
    if "of_chunk c r'" for b m f r' e
    by (rule gives_andThen [OF scored [OF that]]) (auto intro!: completed split: prod.split)
  have lost: "gives (\<lambda>_. True) (andThen (liftE e) (\<lambda>t. andThen timeNow (\<lambda>now. finishMatch wi m t now r'))) (of_chunk c)"
    if "of_chunk c r'" for e m r' using that by (auto intro!: any_then gives_intros finishMatch_chunk)
  have same: "gives (\<lambda>_. True) (ret r) (of_chunk c)" using r by (rule gives_ret)
  show ?thesis unfolding ApplyOpenResult_def
    by (rule gives_if, rule same, rule any_then, rule gives_case_option, rule same, rule gives_if,
        rule same, rule gives_let, rule gives_if, rule gives_ret, simp add: r, rule gives_if, rule lost, simp add: r,
        rule played, simp add: r)
qed

lemma openCell_chunk: "gives (\<lambda>_. True) (openCellInWorker mac wi dur u c x y) (of_chunk c)"
proof -
  have result: "gives (\<lambda>_. True) (applyMineMatchOpenResult mac wi u s c' st r) (of_chunk c)" if "of_chunk c r" for s c' st r
    unfolding applyMineMatchOpenResult_def using that by (auto intro!: gives_intros ApplyOpenResult_chunk)
  have base: "of_chunk c (alreadyOpenResponse c st o1)" "of_chunk c (protectedResponse c st x y i now)"
    "of_chunk c (savedResponse c st x y i now b n k)" for st o1 i now b n k
    by (simp_all add: of_chunk_def alreadyOpenResponse_def protectedResponse_def savedResponse_def baseOpenResponse_def)
  show ?thesis unfolding openCellInWorker_def Let_def
    by (auto intro!: any_then gives_intros result base)
qed

lemma OpenCell_chunk:
  assumes "OpenCell mac wi dur u raw x y w = (Inr (OpenReply r), w')" "parsePlayableChunkID raw = Inr c"
  shows "opChunkID r = chunkString c"
proof -
  have "wiMine wi" using assms(1) by (cases "wiMine wi") (simp_all add: OpenCell_def fail_def)
  then have run: "andThen (openCellInWorker mac wi dur u c x y) (\<lambda>r. ret (OpenReply r)) w = (Inr (OpenReply r), w')"
    using assms by (simp add: OpenCell_def handleChunkOperation_def)
  have "fst (openCellInWorker mac wi dur u c x y w) = Inr r"
    using run by (auto simp: andThen_def ret_def split: prod.splits sum.splits)
  with openCell_chunk [of mac wi dur u c x y] have "of_chunk c r" unfolding gives_def by blast
  then show ?thesis by (simp add: of_chunk_def)
qed

lemma FlagCell_chunk:
  assumes "FlagCell mac wi dur u raw x y f w = (Inr (FlagReply r), w')" "parsePlayableChunkID raw = Inr c"
  shows "flChunkID r = chunkString c"
proof -
  have "wiMine wi" using assms(1) by (cases "wiMine wi") (simp_all add: FlagCell_def fail_def)
  then have run: "andThen (flagCellInWorker wi dur u c x y f) (\<lambda>r. ret (FlagReply r)) w = (Inr (FlagReply r), w')"
    using assms by (simp add: FlagCell_def handleChunkOperation_def)
  have "fst (flagCellInWorker wi dur u c x y f w) = Inr r"
    using run by (auto simp: andThen_def ret_def split: prod.splits sum.splits)
  moreover have "gives (\<lambda>_. True) (flagCellInWorker wi dur u c x y f) (\<lambda>r. flChunkID r = chunkString c)"
    unfolding flagCellInWorker_def Let_def by (auto intro!: any_then gives_intros)
  ultimately show ?thesis unfolding gives_def by blast
qed

text \<open>What an event of a chunk does to the channels: its watchers get it, unless their channel is full.\<close>

definition delivered :: "string \<Rightarrow> string \<Rightarrow> hub \<Rightarrow> hub \<Rightarrow> bool" where
  "delivered chunkID msg h h' \<longleftrightarrow> (\<forall>k. hbSend h' k = (if \<not> subscribed h k chunkID then hbSend h k
     else if full h k then (hbSend h k)\<lparr>chClosed := True\<rparr>
     else (hbSend h k)\<lparr>chBuf := chBuf (hbSend h k) @ [msg]\<rparr>))"

definition watchers_open :: "string \<Rightarrow> hub \<Rightarrow> bool" where
  "watchers_open chunkID h \<longleftrightarrow> (\<forall>k. subscribed h k chunkID \<longrightarrow> \<not> chClosed (hbSend h k))"

lemma announced:
  assumes "hub_reach h" "watchers_open (ceChunkID ev) h" "apEncode ap ev = Some msg"
  obtains h' where "BroadcastChunkEvent ap ev h = (Inr (), h')" "delivered (ceChunkID ev) msg h h'"
  using broadcast_served [OF assms(1), of "ceChunkID ev" msg] assms(2,3)
  by (auto simp: BroadcastChunkEvent_def delivered_def watchers_open_def)


section \<open>An example\<close>

definition exampleApi :: api where
  "exampleApi = \<lparr>apMac = rowMac, apWiring = fullWiring, apClosure = 60, apDeps = plainDeps, apJWT = oneHour,
     apEncode = (\<lambda>ev. Some (ceType ev)), apEncodeReady = (\<lambda>_ _. Some ''player_ready'')\<rparr>"

definition noCredentials :: credentials where
  "noCredentials = \<lparr>hdAuthorization = '''', hdQueryToken = '''', hdCookie = None\<rparr>"

lemma noCredentials_token: "extractToken noCredentials = ''''"
  by code_simp

definition oneAccount :: server where
  "oneAccount = snd (handleRequest exampleApi noCredentials (Register Inr (Some (''player1'', ''Player'', ''pass word''))) (freshServer [exampleSeason]))"

lemma server_runs_components_witness:
  "users_reach plainDeps (svWorld oneAccount) \<and> queue_reach (svWorld oneAccount) \<and> map usUserName (dbUsers (svWorld oneAccount)) = [''player1'']"
proof -
  have r: "server_reach exampleApi [exampleSeason] oneAccount"
    unfolding oneAccount_def by (rule server_reach.step [OF server_reach.start server_step.request]) simp
  have "map usUserName (dbUsers (svWorld oneAccount)) = [''player1'']"
    by (simp add: oneAccount_def handleRequest_def handleRegister_def respond_def RegisterUser_def FindByUserName_def prog_defs Let_def
        rd_def wr_def popNet_def timeNow_def CreateUser_def insertUser_def nameTaken_def freshServer_def emptyWorld_def answer_def exampleApi_def)
  with server_runs_components [OF r] show ?thesis by (simp add: exampleApi_def)
qed

lemma protected_routes_need_token_witness:
  "\<exists>w msg. handleRequest exampleApi noCredentials Me (freshServer []) = (Json 401 401 msg NoData, (freshServer [])\<lparr>svWorld := w\<rparr>)"
  using protected_routes_need_token [of exampleApi Me "freshServer []" noCredentials] by (auto simp: noCredentials_token)

definition watchedField :: server where
  "watchedField = \<lparr>svWorld = virginField, svMap = oneWatcher, svRooms = NewRoomHub\<rparr>"


end
