(* ===== verification/ServerHistory.thy ===== *)
theory ServerHistory
  imports MatchServer ServerLaws
begin

text \<open>
  What holds of everything the running server can reach from an empty database, and over every run of it: opened
  cells stay, matches only move on, and points are earned. A run is any sequence of requests, turns of the rank worker,
  socket messages, moderation, and changes of the clock and of the failures to come.
\<close>

lemma reach_field:
  assumes "server_reach ap ss sv" "seasons_ok ss"
  shows "fieldInv (apMac ap) (apClosure ap) ss (svWorld sv)"
proof -
  have "field_reach (apMac ap) (apClosure ap) (emptyWorld\<lparr>dbSeasons := ss\<rparr>) (svWorld sv)"
    using server_reach_systems [OF assms(1)] by (simp add: systems_def)
  moreover have "emptyField (emptyWorld\<lparr>dbSeasons := ss\<rparr>)" using assms(2) by (simp add: emptyField_def emptyWorld_def)
  ultimately show ?thesis using field_reach_inv by fastforce
qed

lemma reach_play:
  assumes "server_reach ap ss sv" "seasons_ok ss" "length ss \<le> 2 ^ 40"
  shows "playInv (apMac ap) (apClosure ap) ss (\<lambda>_. None) (svWorld sv)"
proof (rule playing.server_reach_keeps [OF assms(1)])
  have "fieldInv (apMac ap) (apClosure ap) ss (emptyWorld\<lparr>dbSeasons := ss\<rparr>)"
    using emptyField_inv [of "emptyWorld\<lparr>dbSeasons := ss\<rparr>"] assms(2) by (simp add: emptyField_def emptyWorld_def)
  then show "playInv (apMac ap) (apClosure ap) ss (\<lambda>_. None) (emptyWorld\<lparr>dbSeasons := ss\<rparr>)"
    using assms(3) by (simp add: playInv_def play_ok_def emptyWorld_def)
qed

section \<open>The laws\<close>


text \<open>(C7) Matches are sound and points are earned. In every state the server can reach: a match on the minefield is
  filed under its own id, which has been given out; it keeps a score for exactly its players; it is finished exactly when it has a
  winner and an end, and the winner is one of its teams; only its players are bound to it; and no player has more points in
  it than there are cells of its chunk that he himself has opened (of any season: the code does not compare it).\<close>

theorem scores_are_earned:
  assumes "server_reach ap ss sv" "seasons_ok ss" "length ss \<le> 2 ^ 40" "rdMineMatches (svWorld sv) i = Some m"
  shows "mmMatchID m = i \<and> i < dbNextMatchID (svWorld sv)
    \<and> (\<forall>u. mhas (mmPlayerScores m) u \<longleftrightarrow> mhas (mmUserTeams m) u)
    \<and> (mmStatus m = MineMatchStatusFinished \<longleftrightarrow> mmWinTeamNo m \<noteq> None)
    \<and> (mmStatus m = MineMatchStatusFinished \<longleftrightarrow> mmFinishedAt m \<noteq> None)
    \<and> (\<forall>t. mmWinTeamNo m = Some t \<longrightarrow> mhas (mmTeams m) t)
    \<and> (\<forall>u. rdUserMatch (svWorld sv) u = Some i \<longrightarrow> mhas (mmUserTeams m) u)
    \<and> (\<forall>u n. mget (mmPlayerScores m) u = Some n \<longrightarrow> 0 \<le> n
        \<and> n \<le> int (card {(sid, j). \<exists>st cell. rdChunks (svWorld sv) (sid, mmChunkID m) = Some st
            \<and> mget (csOpenedCells st) j = Some cell \<and> ocOpenedBy cell = u}))"
proof -
  have ok: "play_ok (\<lambda>_. None) (svWorld sv)" using reach_play [OF assms(1-3)] by (simp add: playInv_def)
  note m = play_okD(1-4) [OF ok assms(4)]
  have cells: "{(sid, j). \<exists>st cell. rdChunks (svWorld sv) (sid, mmChunkID m) = Some st
      \<and> mget (csOpenedCells st) j = Some cell \<and> ocOpenedBy cell = u} = cellsOpenedBy (svWorld sv) (mmChunkID m) u" for u
    by (auto simp: cellsOpenedBy_def cellsOf_def split: option.splits)
  have "0 \<le> n \<and> n \<le> int (card (cellsOpenedBy (svWorld sv) (mmChunkID m) u))" if "mget (mmPlayerScores m) u = Some n" for u n
  proof -
    have n: "mget0 0 (mmPlayerScores m) u = n" using that by (simp add: mget0_def)
    show ?thesis using m(3,4) unfolding match_ok_def earned_def n [symmetric] by blast
  qed
  moreover have "mhas (mmUserTeams m) u" if "rdUserMatch (svWorld sv) u = Some i" for u
    using play_okD(5) [OF ok that] assms(4) by auto
  moreover have "mhas (mmPlayerScores m) u \<longleftrightarrow> mhas (mmUserTeams m) u" for u
    using m(3) by (simp add: match_ok_def mhas_iff)
  ultimately show ?thesis
    unfolding cells using m(1,2) m(3) [unfolded match_ok_def] by (elim conjE) (intro conjI allI impI; (assumption | blast))
qed

text \<open>(C8) Matches only move on, and a finished match is final. From any reachable state along any run: a match keeps its id,
  room, season, chunk, teams, players and start; nobody's score ever goes down; and once it is finished nothing of
  it changes any more, neither the winner nor the scores.\<close>

theorem matches_move_on:
  assumes "server_reach ap ss sv" "seasons_ok ss" "length ss \<le> 2 ^ 40" "(server_step ap)\<^sup>*\<^sup>* sv sv'"
    and "rdMineMatches (svWorld sv) i = Some m"
  shows "\<exists>m'. rdMineMatches (svWorld sv') i = Some m' \<and> mmRoomID m' = mmRoomID m \<and> mmSeasonID m' = mmSeasonID m
    \<and> mmChunkID m' = mmChunkID m \<and> mmTeams m' = mmTeams m \<and> mmUserTeams m' = mmUserTeams m \<and> mmStartedAt m' = mmStartedAt m
    \<and> (\<forall>u. mget0 0 (mmPlayerScores m) u \<le> mget0 0 (mmPlayerScores m') u)
    \<and> (mmStatus m = MineMatchStatusFinished \<longrightarrow> m' = m)"
proof -
  let ?F = "[i \<mapsto> m]"
  have "playInv (apMac ap) (apClosure ap) ss (\<lambda>_. None) (svWorld sv)" by (rule reach_play [OF assms(1-3)])
  then have "playInv (apMac ap) (apClosure ap) ss ?F (svWorld sv)"
    using assms(5) later_refl [of m] by (simp add: playInv_def play_ok_def)
  then have "playInv (apMac ap) (apClosure ap) ss ?F (svWorld sv')" by (rule playing.server_run_keeps [OF assms(4)])
  then have "play_ok ?F (svWorld sv')" by (simp add: playInv_def)
  from play_okD(6) [OF this, of i m] show ?thesis unfolding later_def by auto
qed

section \<open>An example\<close>

text \<open>Tokens that name their bearer, and the example server with them; the clock shows 50.\<close>

definition nameToken :: "(bool \<Rightarrow> err + string) \<Rightarrow> int \<Rightarrow> string \<Rightarrow> err + (UserClaims \<times> bool)" where
  "nameToken key now tok = Inr (\<lparr>ucUserID = (if tok = ''a'' then 1001 else 1002), ucUserName = tok, ucSubject = tok,
     ucIssuedAt = 0, ucExpiresAt = 0\<rparr>, True)"

definition duelApi :: api where
  "duelApi = exampleApi\<lparr>apDeps := plainDeps\<lparr>dpParse := nameToken\<rparr>\<rparr>"

definition token :: "string \<Rightarrow> credentials" where
  "token t = \<lparr>hdAuthorization = '''', hdQueryToken = t, hdCookie = None\<rparr>"

definition at50 :: server where
  "at50 = (freshServer [exampleSeason])\<lparr>svWorld := (svWorld (freshServer [exampleSeason]))\<lparr>net := [], clock := [50]\<rparr>\<rparr>"

text \<open>Players 1001 and 1002 join the queue for a duel; in another run 1001 opens a cell.\<close>

definition duelOn :: server where
  "duelOn = snd (handleRequest duelApi (token ''b'') (QueueJoin [1290] (Some ''1v1''))
     (snd (handleRequest duelApi (token ''a'') (QueueJoin [1290] (Some ''1v1'')) at50)))"

definition cellOpen :: server where
  "cellOpen = snd (handleRequest duelApi (token ''a'') (OpenAt ''cn:6:10:20'' (Some (7, 8))) at50)"

lemma at50_world: "svWorld at50 = virginField" "svMap at50 = NewMapHub"
  by (simp_all add: at50_def freshServer_def virginField_def emptyWorld_def)

lemma at50_reach: "server_reach duelApi [exampleSeason] at50"
  unfolding at50_def by (rule server_reach.step [OF server_reach.start server_step.environment])

lemma example_reach: "server_reach duelApi [exampleSeason] duelOn" "server_reach duelApi [exampleSeason] cellOpen"
  unfolding duelOn_def cellOpen_def
  by (rule server_reach.step [OF server_reach.step [OF at50_reach server_step.request] server_step.request]; simp)
    (rule server_reach.step [OF at50_reach server_step.request], simp)

lemma example_seasons: "seasons_ok [exampleSeason]"
  using exampleSeason_ok by (simp add: seasons_ok_def)

lemma one_request: "fresh_socket rq sv \<Longrightarrow> (server_step ap)\<^sup>*\<^sup>* sv (snd (handleRequest ap cr rq sv))"
  by (rule r_into_rtranclp) (rule server_step.request)

lemma duelOn_match: "map_option (\<lambda>m. (mmChunkID m, mmTeams m, mmPlayerScores m, mmStatus m)) (rdMineMatches (svWorld duelOn) 1)
    = Some (''cn:6:10:20'', [(0, [1001]), (1, [1002])], [(1001, 0), (1002, 0)], MineMatchStatusOngoing)"
  by code_simp

lemma virginField_open:
  "\<exists>r w st cell. OpenCell rowMac fullWiring 60 1001 ''cn:6:10:20'' 7 8 virginField = (Inr (OpenReply r), w)
     \<and> rdChunks w (1, ''cn:6:10:20'') = Some st \<and> mget (csOpenedCells st) 1031 = Some cell \<and> ocOpenedBy cell = 1001"
proof -
  let ?st = "NewMineChunkState 1 ''cn:6:10:20''"
  have b: "on_board 7 8" by (simp add: on_board_def)
  have o: "openable rowMac exampleSeason exC ?st (7, 8)"
    using rowMac_mine [of 7 8] b by (simp add: NewMineChunkState_def mhas_def)
  have e: "openState ?st = ?st" "entered ?st virginField = virginField" by (simp_all add: openState_def entered_def NewMineChunkState_def)
  have free: "free_player fullWiring virginField 1001 (seID exampleSeason) (chunkString exC)"
    by (simp add: free_player_def virginField_def emptyWorld_def activeMatchOf_def lockOwner_def)
  have enter: "enterChunk fullWiring 60 1001 exC virginField = (Inr (exampleSeason, openState ?st), entered ?st virginField)"
    unfolding e by (rule virginField_enter)
  obtain st1 where m: "opened_more rowMac exampleSeason exC 1001 50 (openState ?st) (newlyOpened rowMac exampleSeason exC (openState ?st) 7 8) st1"
    and run: "openCellInWorker rowMac fullWiring 60 1001 exC 7 8 virginField = applyMineMatchOpenResult rowMac fullWiring 1001 exampleSeason exC (bumpVersion st1)
       (savedResponse exC (bumpVersion st1) 7 8 (8 * 128 + 7) 50 False (cellAdj rowMac exampleSeason exC 7 8) (mlen (csOpenedCells ?st)))
       (storeChunk (bumpVersion st1) (entered ?st virginField))"
    by (rule open_safe_run [OF virginField_at enter b o])
  have new: "newlyOpened rowMac exampleSeason exC ?st 7 8 = {(7, 8)}" using rowMac_adj_8 by (simp add: newlyOpened_def)
  have cell: "mget (csOpenedCells st1) 1031 = Some (zeroSnap rowMac exampleSeason exC 1001 50 1031)"
    using opened_more_get [OF m, of 1031] by (simp add: e new)
  have k: "chunkKey (bumpVersion st1) = (1, ''cn:6:10:20'')"
    using opened_more_frame [OF m] by (simp add: e chunkKey_def bumpVersion_def NewMineChunkState_def)
  show ?thesis
    using run apply_free_entered(2) [OF virginField_at free] virginField_enter(2) cs.put_get [of "bumpVersion st1" virginField] cell
    by (simp add: e k OpenCell_def handleChunkOperation_def fullWiring_def andThen_def ret_def, simp add: bumpVersion_def zeroSnap_def)
qed

lemma token_auth: "clock w = [50] \<Longrightarrow> authenticate (apDeps duelApi) (apJWT duelApi) (token ''a'') w = (Inr (1001, ''a''), w)"
proof -
  have "extractToken (token ''a'') = ''a''" by code_simp
  then show "clock w = [50] \<Longrightarrow> ?thesis"
    by (simp add: authenticate_def ParseToken_def duelApi_def nameToken_def prog_defs timeNow_def)
qed

lemma announce_world: "svWorld (snd (announce ap r sv)) = svWorld sv"
  by (cases r) (simp_all add: announce_def onMap_def split: prod.split sum.split)

lemma cellOpen_cell:
  "\<exists>st cell. rdChunks (svWorld cellOpen) (1, ''cn:6:10:20'') = Some st \<and> mget (csOpenedCells st) 1031 = Some cell \<and> ocOpenedBy cell = 1001"
proof -
  obtain r w st cell where run: "OpenCell rowMac fullWiring 60 1001 ''cn:6:10:20'' 7 8 virginField = (Inr (OpenReply r), w)"
    and got: "rdChunks w (1, ''cn:6:10:20'') = Some st" "mget (csOpenedCells st) 1031 = Some cell" "ocOpenedBy cell = 1001"
    using virginField_open by blast
  have ap: "apMac duelApi = rowMac" "apWiring duelApi = fullWiring" "apClosure duelApi = 60" by (simp_all add: duelApi_def exampleApi_def)
  have auth: "authenticate (apDeps duelApi) (apJWT duelApi) (token ''a'') virginField = (Inr (1001, ''a''), virginField)"
    by (rule token_auth) (simp add: virginField_def)
  have "svWorld cellOpen = w"
    using run auth
    by (simp add: cellOpen_def handleRequest_def respond_def handleOpenCell_def at50_world ap announce_world)
  then show ?thesis using got by blast
qed


lemma scores_are_earned_witness:
  "\<exists>m. rdMineMatches (svWorld duelOn) 1 = Some m \<and> mmMatchID m = 1 \<and> mmWinTeamNo m = None
     \<and> (\<exists>n. mget (mmPlayerScores m) 1001 = Some n \<and> 0 \<le> n)"
proof -
  obtain m where m: "rdMineMatches (svWorld duelOn) 1 = Some m" "mmPlayerScores m = [(1001, 0), (1002, 0)]" "mmStatus m = MineMatchStatusOngoing"
    using duelOn_match by auto
  have "length [exampleSeason] \<le> 2 ^ 40" by simp
  note sc = scores_are_earned [OF example_reach(1) example_seasons this m(1)]
  show ?thesis using m sc by (intro exI [of _ m]) simp
qed

lemma matches_move_on_witness:
  "\<exists>m'. rdMineMatches (svWorld (snd (handleRequest duelApi (token ''a'') (OpenAt ''cn:6:10:20'' (Some (7, 8))) duelOn))) 1 = Some m'
     \<and> mmChunkID m' = ''cn:6:10:20'' \<and> mmTeams m' = [(0, [1001]), (1, [1002])] \<and> 0 \<le> mget0 0 (mmPlayerScores m') 1001"
proof -
  obtain m where m: "rdMineMatches (svWorld duelOn) 1 = Some m" "mmChunkID m = ''cn:6:10:20''" "mmTeams m = [(0, [1001]), (1, [1002])]"
    "mmPlayerScores m = [(1001, 0), (1002, 0)]"
    using duelOn_match by auto
  have l: "length [exampleSeason] \<le> 2 ^ 40" by simp
  have "fresh_socket (OpenAt ''cn:6:10:20'' (Some (7, 8))) duelOn" by simp
  from matches_move_on [OF example_reach(1) example_seasons l one_request [OF this] m(1)]
  obtain m' where m': "rdMineMatches (svWorld (snd (handleRequest duelApi (token ''a'') (OpenAt ''cn:6:10:20'' (Some (7, 8))) duelOn))) 1 = Some m'"
    "mmChunkID m' = mmChunkID m" "mmTeams m' = mmTeams m" "\<forall>u. mget0 0 (mmPlayerScores m) u \<le> mget0 0 (mmPlayerScores m') u"
    by blast
  have "mget0 0 (mmPlayerScores m) 1001 = 0" by (simp add: m(4) mget0_def)
  then show ?thesis using m m' by metis
qed

end
