(* ===== verification/ChunkIsolation.thy ===== *)
theory ChunkIsolation
  imports ServerHistory
begin

text \<open>
  The workers of different chunks run at the same time. What a request on one chunk guarantees to all others: it writes
  that chunk, its locks, and the matches on it, with their records and the bindings of their players, and nothing else.
  So two workers never write the same thing, and each finds its own chunk as it left it. The guarantee
  is a relation of the stored state before (\<open>w0\<close>) and at any point of the request.
\<close>

section \<open>The chunks\<close>

definition otherChunks :: "string \<Rightarrow> world \<Rightarrow> world \<Rightarrow> bool" where
  "otherChunks cid w0 w \<longleftrightarrow> (\<forall>s x. x \<noteq> cid \<longrightarrow> rdChunks w (s, x) = rdChunks w0 (s, x)
     \<and> (x \<in> set (rdClosed w s) \<longleftrightarrow> x \<in> set (rdClosed w0 s)))"

lemma otherChunks_store: "otherChunks cid w0 w \<Longrightarrow> csChunkID st = cid \<Longrightarrow> otherChunks cid w0 (storeChunk st w)"
  by (auto simp: otherChunks_def storeChunk_def)

interpretation single: worked_chunks mac dur ss "\<lambda>c. playable c \<and> chunkString c = cid"
    "\<lambda>w. fieldInv mac dur ss w \<and> otherChunks cid w0 w" "chunk_ok mac dur" for mac dur ss cid w0
proof unfold_locales
  show "field_data (\<lambda>w. fieldInv mac dur ss w \<and> otherChunks cid w0 w)"
    unfolding field_data_def fieldInv_def field_ok_def closed_index_ok_def otherChunks_def by (rule exI, rule refl)
  show "fieldInv mac dur ss (storeChunk st w) \<and> otherChunks cid w0 (storeChunk st w)"
    if "fieldInv mac dur ss w \<and> otherChunks cid w0 w" "s \<in> set ss" "playable c \<and> chunkString c = cid" "chunk_ok mac dur s c st" for w s c st
  proof -
    have "csChunkID st = cid" using that(3,4) by (simp add: chunk_ok_def)
    then show ?thesis using that fieldInv_storeChunk otherChunks_store by blast
  qed
qed (use whole.seasons in \<open>auto simp: fieldInv_stored chunk_ok_new\<close>)

section \<open>The matches\<close>

text \<open>A state of a match that was on the chunk at the start, with the same players.\<close>

definition ofMatch :: "world \<Rightarrow> string \<Rightarrow> MineMatchState \<Rightarrow> bool" where
  "ofMatch w0 cid m \<longleftrightarrow> mmChunkID m = cid
     \<and> (\<exists>m0. rdMineMatches w0 (mmMatchID m) = Some m0 \<and> mmChunkID m0 = cid \<and> mmUserTeams m0 = mmUserTeams m)"

definition playsOn :: "world \<Rightarrow> string \<Rightarrow> int \<Rightarrow> bool" where
  "playsOn w0 cid u \<longleftrightarrow> (\<exists>i m. rdMineMatches w0 i = Some m \<and> mmChunkID m = cid \<and> mhas (mmUserTeams m) u)"

definition matchOn :: "world \<Rightarrow> string \<Rightarrow> int \<Rightarrow> bool" where
  "matchOn w0 cid i \<longleftrightarrow> (\<exists>m. rdMineMatches w0 i = Some m \<and> mmChunkID m = cid)"

definition otherMatches :: "string \<Rightarrow> world \<Rightarrow> world \<Rightarrow> bool" where
  "otherMatches cid w0 w \<longleftrightarrow>
     (\<forall>i m. rdMineMatches w i = Some m \<and> mmChunkID m = cid \<longrightarrow> ofMatch w0 cid m)
   \<and> (\<forall>i. \<not> matchOn w0 cid i \<longrightarrow> rdMineMatches w i = rdMineMatches w0 i \<and> findMatch i (dbMatches w) = findMatch i (dbMatches w0))
   \<and> (\<forall>s x. x \<noteq> cid \<longrightarrow> rdChunkLock w (s, x) = rdChunkLock w0 (s, x))
   \<and> (\<forall>u. \<not> playsOn w0 cid u \<longrightarrow> rdUserMatch w u = rdUserMatch w0 u)"

lemma otherMatches_same:
  assumes "otherMatches cid w0 w" "rdMineMatches w' = rdMineMatches w" "dbMatches w' = dbMatches w"
    "rdChunkLock w' = rdChunkLock w" "rdUserMatch w' = rdUserMatch w"
  shows "otherMatches cid w0 w'"
  using assms(1) unfolding otherMatches_def assms(2-5) .

lemma otherMatches_data [simp]: "data_inv (otherMatches cid w0)"
  by (rule data_invI) (auto elim: otherMatches_same)

lemma otherMatches_chunks: "outside_chunks (otherMatches cid w0)"
  by (auto simp: outside_chunks_def storeChunk_def intro!: stableI elim!: otherMatches_same)

text \<open>The writes.\<close>

lemma otherMatches_storeMatch: "otherMatches cid w0 w \<Longrightarrow> ofMatch w0 cid m \<Longrightarrow> otherMatches cid w0 (storeMatch m w)"
  by (auto simp: otherMatches_def storeMatch_def ofMatch_def matchOn_def)

lemma otherMatches_release:
  assumes "otherMatches cid w0 w" "ofMatch w0 cid m"
  shows "otherMatches cid w0 (bindUsers (mkeys (mmUserTeams m)) None w)"
proof -
  have "u \<in> set (mkeys (mmUserTeams m)) \<Longrightarrow> playsOn w0 cid u" for u
    using assms(2) unfolding ofMatch_def playsOn_def mhas_iff mkeys_dom by metis
  then show ?thesis using assms(1) by (auto simp: otherMatches_def bindUsers_def)
qed

lemma otherMatches_unlock: "otherMatches cid w0 w \<Longrightarrow> otherMatches cid w0 (dropLock (s, cid) w)"
  by (auto simp: otherMatches_def dropLock_def)

lemma otherMatches_row: "otherMatches cid w0 w \<Longrightarrow> matchOn w0 cid (maID r) \<Longrightarrow> otherMatches cid w0 (updateMatchRow r w)"
proof -
  have "rdMineMatches (updateMatchRow r w) = rdMineMatches w" "rdChunkLock (updateMatchRow r w) = rdChunkLock w"
    "rdUserMatch (updateMatchRow r w) = rdUserMatch w" by (simp_all add: updateMatchRow_def)
  moreover assume "otherMatches cid w0 w" "matchOn w0 cid (maID r)"
  moreover from this(2) have "findMatch i (dbMatches (updateMatchRow r w)) = findMatch i (dbMatches w)" if "\<not> matchOn w0 cid i" for i
    using that by (cases "findMatch i (dbMatches w)") (auto simp: findMatch_updateMatchRow)
  ultimately show ?thesis unfolding otherMatches_def by metis
qed

lemma otherMatches_events: "otherMatches cid w0 w \<Longrightarrow> otherMatches cid w0 (w\<lparr>mqEvents := es\<rparr>)"
  by (erule otherMatches_same) simp_all

text \<open>The operations.\<close>

lemma keeps_SetMatchResult_other:
  assumes "matchOn w0 cid i"
  shows "keeps (otherMatches cid w0) (SetMatchResult p i t)"
proof -
  let ?I = "otherMatches cid w0"
  have row: "gives ?I (GetMatchByID i) (\<lambda>found. \<forall>r. found = Some r \<longrightarrow> maID r = i)"
    unfolding GetMatchByID_def by (rule gives_rd) (auto dest: findMatch_ID)
  have up: "keeps ?I (UpdateMatch r)" if "maID r = i" for r
    unfolding UpdateMatch_def GetMatchByID_def using assms that
    by (intro keeps_andThen gives_onErr gives_intros keeps_wr keeps_rd otherMatches_row) simp_all
  have pub: "keeps ?I (PublishJSON e)" for e
    unfolding PublishJSON_def by (intro gives_onErr gives_intros keeps_wr otherMatches_events) simp_all
  show ?thesis
    unfolding SetMatchResult_def
    by (rule gives_andThen [OF row]) (auto intro!: gives_intros keeps_andThen keeps_timeNow up pub)
qed

lemma ofMatch_same: "ofMatch w0 cid m \<Longrightarrow> mmMatchID m' = mmMatchID m \<Longrightarrow> mmChunkID m' = mmChunkID m \<Longrightarrow>
    mmUserTeams m' = mmUserTeams m \<Longrightarrow> ofMatch w0 cid m'"
  by (simp add: ofMatch_def)

lemma keeps_finishMatch_other:
  assumes m: "ofMatch w0 cid m"
  shows "keeps (otherMatches cid w0) (finishMatch wi m team t r)"
proof -
  let ?I = "otherMatches cid w0" and ?m = "finishedState m team t"
  have m': "ofMatch w0 cid ?m" "mmChunkID ?m = cid" by (rule ofMatch_same [OF m], simp_all add: finishedState_def) (use m in \<open>simp add: ofMatch_def\<close>)
  have "matchOn w0 cid (mmMatchID m)" using m by (auto simp: ofMatch_def matchOn_def)
  note set = keeps_SetMatchResult_other [OF this]
  have save: "keeps ?I (SaveMatchState ?m)"
    unfolding SaveMatchState_def by (rule keeps_wr) (simp_all add: otherMatches_storeMatch m')
  have free: "keeps ?I (DeleteActiveMatchForUsers ?m)"
    unfolding DeleteActiveMatchForUsers_def by (rule keeps_pipeUsers) (simp_all add: otherMatches_release m')
  have unlock: "keeps ?I (UnlockChunk s (mmChunkID ?m) i)" for s i
    unfolding m'(2) by (rule keeps_UnlockChunk) (simp_all add: otherMatches_unlock)
  show ?thesis
    unfolding finishMatch_def Let_def finishedState_def [symmetric]
    by (intro gives_if keeps_andThen gives_ret set save free unlock TrueI)
qed

lemma keeps_ApplyOpenResult_other:
  "keeps (otherMatches (chunkString c) w0) (ApplyOpenResult mac wi u s c st resp)"
proof -
  let ?I = "otherMatches (chunkString c) w0" and ?of = "ofMatch w0 (chunkString c)"
  have active: "gives ?I (GetActiveMatchByUser u) (\<lambda>r. \<forall>m. r = Some m \<and> mmChunkID m = chunkString c \<longrightarrow> ?of m)"
    by (rule gives_GetActiveMatchByUser [where Q = "\<lambda>m. mmChunkID m = chunkString c \<longrightarrow> ?of m"])
      (simp_all, auto simp: stored_def otherMatches_def)
  have finish: "keeps ?I (andThen (liftE r) (\<lambda>team. andThen timeNow (\<lambda>now. finishMatch wi m team now rs)))" if "?of m" for m r rs
    by (intro keeps_andThen gives_intros keeps_timeNow keeps_finishMatch_other that) simp_all
  have scored: "?of (addScore m v n t)" if "?of m" for m v n t
    by (rule ofMatch_same [OF that]) (simp_all add: addScore_def)
  have save: "keeps ?I (SaveMatchState m)" if "?of m" for m
    unfolding SaveMatchState_def by (rule keeps_wr) (simp_all add: otherMatches_storeMatch that)
  have score: "gives ?I (if 0 < n then andThen timeNow (\<lambda>now. let m' = addScore m u n now in
       andThen (SaveMatchState m') (\<lambda>_. ret (m', f m'))) else ret (m, rs)) (\<lambda>(m', r'). ?of m')" if "?of m" for m n f rs
    using that by (auto simp: Let_def intro!: gives_intros gives_andThen [OF keeps_timeNow] gives_andThen [OF save] scored)
  have last: "keeps ?I (case p of (m', r') \<Rightarrow> andThen (liftE (allSafeCellsOpened mac s c st)) (\<lambda>completed.
      if \<not> completed then ret r'
      else andThen (liftE (scoreWinnerTeam m')) (\<lambda>team. andThen timeNow (\<lambda>now. finishMatch wi m' team now r'))))"
    if "case p of (m', r') \<Rightarrow> ?of m'" for p
    using that by (auto intro!: keeps_andThen gives_intros finish split: prod.splits)
  note tail = gives_andThen [OF score last]
  have "keeps ?I (case r of None \<Rightarrow> ret resp
     | Some matchState \<Rightarrow>
         if mmChunkID matchState \<noteq> chunkString c then ret resp
         else let resp = attachMineMatchResponse resp matchState in
           if opCanceled resp then ret resp
           else if opMine resp then
             andThen (liftE (opponentTeam matchState u)) (\<lambda>winTeamNo. andThen timeNow (\<lambda>now. finishMatch wi matchState winTeamNo now resp))
           else
             andThen (if opNewOpenedCount resp > 0
                then andThen timeNow (\<lambda>now.
                  let m' = addScore matchState u (opNewOpenedCount resp) now in
                  andThen (SaveMatchState m') (\<lambda>_. ret (m', attachMineMatchResponse resp m')))
                else ret (matchState, resp)) (\<lambda>(m', resp').
             andThen (liftE (allSafeCellsOpened mac s c st)) (\<lambda>completed.
             if \<not> completed then ret resp'
             else andThen (liftE (scoreWinnerTeam m')) (\<lambda>winTeamNo. andThen timeNow (\<lambda>now. finishMatch wi m' winTeamNo now resp')))))"
    if "\<forall>m. r = Some m \<and> mmChunkID m = chunkString c \<longrightarrow> ?of m" for r
  proof (cases r)
    case (Some m)
    then have m: "\<not> mmChunkID m \<noteq> chunkString c \<Longrightarrow> ?of m" using that by blast
    show ?thesis unfolding Some option.case by (intro gives_if gives_let gives_ret TrueI finish tail m) assumption+
  qed (simp add: gives_ret)
  then show ?thesis
    unfolding ApplyOpenResult_def by (intro gives_if gives_ret TrueI gives_andThen [OF active])
qed

section \<open>Requests\<close>

lemma keeps_request_other:
  "keeps (otherMatches (chunkString c) w0) (handleChunkOperation mac wi dur cancelled u c op)"
proof -
  let ?I = "otherMatches (chunkString c) w0"
  have apply': "keeps ?I (applyMineMatchOpenResult mac wi u s c st r)" for s st r
    unfolding applyMineMatchOpenResult_def by (auto intro!: gives_intros keeps_ApplyOpenResult_other)
  note chunks = frame_enterChunk [OF otherMatches_chunks] frame_SaveState [OF otherMatches_chunks]
  have "keeps ?I (openCellInWorker mac wi dur u c x y)" for x y
    unfolding openCellInWorker_def Let_def by (auto intro!: keeps_andThen gives_intros keeps_timeNow chunks apply')
  then show ?thesis
    unfolding handleChunkOperation_def
    by (cases op) (auto intro!: keeps_andThen gives_intros frame_flagCellInWorker [OF otherMatches_chunks])
qed

text \<open>The stores of the other services.\<close>

definition otherStores :: "world \<Rightarrow> world \<Rightarrow> bool" where
  "otherStores w0 w \<longleftrightarrow> dbSeasons w = dbSeasons w0 \<and> rdQueues w = rdQueues w0 \<and> rdQueueUsers w = rdQueueUsers w0
     \<and> memRooms w = memRooms w0 \<and> dbUsers w = dbUsers w0 \<and> dbRankEvents w = dbRankEvents w0
     \<and> dbPlayerRanks w = dbPlayerRanks w0 \<and> rdLeaderboard w = rdLeaderboard w0"

lemma keeps_request_stores: "keeps (otherStores w0) (handleChunkOperation mac wi dur cancelled u c op)"
proof -
  have "outside_chunks (otherStores w0)" "outside_match (otherStores w0)"
    by (simp_all add: outside_chunks_def outside_match_def data_inv_def stable_def match_write_def otherStores_def storeChunk_def)
  note f = frame_openCellInWorker [OF this] frame_flagCellInWorker [OF this(1)]
  show ?thesis unfolding handleChunkOperation_def by (cases op) (auto intro!: keeps_andThen gives_intros f)
qed

text \<open>(C10) Requests on different chunks do not interfere. In every state the server can reach, a request on one chunk, whatever
  comes of it and whichever of its store calls fail, leaves every other chunk, its lock and its place in the list of
  closed chunks alone; every match on another chunk with its record; the binding of everybody who does not play on
  this chunk; and the seasons, queues, rooms, accounts, ranks and the leaderboard.\<close>

theorem chunk_requests_isolated:
  fixes wi :: wiring and cancelled :: bool and u :: int and op :: chunkOperation
  assumes "server_reach ap ss sv" "seasons_ok ss" "length ss \<le> 2 ^ 40" "playable c"
  defines "w \<equiv> svWorld sv"
  defines "w' \<equiv> snd (handleChunkOperation (apMac ap) wi (apClosure ap) cancelled u c op w)"
  shows "(\<forall>s x. x \<noteq> chunkString c \<longrightarrow> rdChunks w' (s, x) = rdChunks w (s, x) \<and> rdChunkLock w' (s, x) = rdChunkLock w (s, x)
        \<and> (x \<in> set (rdClosed w' s) \<longleftrightarrow> x \<in> set (rdClosed w s)))
    \<and> (\<forall>i. (\<forall>m. rdMineMatches w i = Some m \<longrightarrow> mmChunkID m \<noteq> chunkString c) \<longrightarrow>
        rdMineMatches w' i = rdMineMatches w i \<and> findMatch i (dbMatches w') = findMatch i (dbMatches w))
    \<and> (\<forall>v. (\<forall>i m. rdMineMatches w i = Some m \<and> mhas (mmUserTeams m) v \<longrightarrow> mmChunkID m \<noteq> chunkString c) \<longrightarrow>
        rdUserMatch w' v = rdUserMatch w v)
    \<and> dbSeasons w' = dbSeasons w \<and> rdQueues w' = rdQueues w \<and> rdQueueUsers w' = rdQueueUsers w \<and> memRooms w' = memRooms w
    \<and> dbUsers w' = dbUsers w \<and> dbRankEvents w' = dbRankEvents w \<and> dbPlayerRanks w' = dbPlayerRanks w
    \<and> rdLeaderboard w' = rdLeaderboard w"
proof -
  let ?cid = "chunkString c" and ?m = "handleChunkOperation (apMac ap) wi (apClosure ap) cancelled u c op"
  have "play_ok (\<lambda>_. None) w" using reach_play [OF assms(1-3)] by (simp add: playInv_def w_def)
  then have "otherMatches ?cid w w" using play_okD(1) by (fastforce simp: otherMatches_def ofMatch_def)
  then have m: "otherMatches ?cid w w'" unfolding w'_def by (rule givesD [OF keeps_request_other])
  have "fieldInv (apMac ap) (apClosure ap) ss w" using reach_field [OF assms(1,2)] by (simp add: w_def)
  then have "fieldInv (apMac ap) (apClosure ap) ss w \<and> otherChunks ?cid w w" by (simp add: otherChunks_def)
  then have f: "otherChunks ?cid w w'"
    using givesD [OF single.keeps_handleChunkOperation, of c ?cid] assms(4) unfolding w'_def by blast
  have o: "otherStores w w'" unfolding w'_def by (rule givesD [OF keeps_request_stores]) (simp add: otherStores_def)
  have "\<not> matchOn w ?cid i \<longleftrightarrow> (\<forall>m. rdMineMatches w i = Some m \<longrightarrow> mmChunkID m \<noteq> ?cid)" for i by (auto simp: matchOn_def)
  moreover have "\<not> playsOn w ?cid v \<longleftrightarrow> (\<forall>i m. rdMineMatches w i = Some m \<and> mhas (mmUserTeams m) v \<longrightarrow> mmChunkID m \<noteq> ?cid)" for v
    by (auto simp: playsOn_def)
  ultimately show ?thesis using m f o unfolding otherMatches_def otherChunks_def otherStores_def by simp
qed

lemma chunk_requests_isolated_witness:
  "rdChunks (snd (handleChunkOperation (apMac duelApi) fullWiring (apClosure duelApi) False 1001 exC (OpenOp 7 8) (svWorld duelOn))) (1, ''cn:6:11:20'')
    = rdChunks (svWorld duelOn) (1, ''cn:6:11:20'')"
proof -
  have l: "length [exampleSeason] \<le> 2 ^ 40" and p: "playable exC" and k: "''cn:6:11:20'' \<noteq> chunkString exC"
    by simp (simp add: exC_def playable_def, code_simp)
  show ?thesis using chunk_requests_isolated [OF example_reach(1) example_seasons l p] k by blast
qed

end
