(* ===== verification/ChunkRuns.thy ===== *)
theory ChunkRuns
  imports ChunkPool FieldSafety
begin

text \<open>
  The workers of \<open>ChunkWorker\<close> and what they do to the stored chunks, together: when a worker finishes a request it has
  run \<open>handleChunkOperation\<close> on the stored state, and its reply is what the caller gets. The rest of the server goes on
  meanwhile; \<open>Elsewhere f\<close> is an effect of it. The log lists both in the order in which they took effect. A
  caller that has left before its request was handled has had its context cancelled, others may have.
\<close>

section \<open>State and steps\<close>

type_synonym request_of = "nat \<Rightarrow> int \<times> ChunkID \<times> chunkOperation"

datatype effect = Handled nat bool | Elsewhere "world \<Rightarrow> world"

record pooled =
  plPool :: pool
  plWorld :: world
  plReply :: "nat \<Rightarrow> (err + chunkReply) option"
  plLog :: "effect list"

definition requestChunk :: "request_of \<Rightarrow> nat \<Rightarrow> string" where
  "requestChunk req r = (case req r of (u, c, op) \<Rightarrow> chunkString c)"

definition runRequest :: "mac \<Rightarrow> wiring \<Rightarrow> int \<Rightarrow> request_of \<Rightarrow> nat \<Rightarrow> bool \<Rightarrow> chunkReply io" where
  "runRequest mac wi dur req r cancelled = (case req r of (u, c, op) \<Rightarrow> handleChunkOperation mac wi dur cancelled u c op)"

definition handleRequest_at :: "mac \<Rightarrow> wiring \<Rightarrow> int \<Rightarrow> request_of \<Rightarrow> nat \<Rightarrow> nat \<Rightarrow> bool \<Rightarrow> pooled \<Rightarrow> pooled" where
  "handleRequest_at mac wi dur req r wk cancelled s = (case runRequest mac wi dur req r cancelled (plWorld s) of (res, w) \<Rightarrow>
     \<lparr>plPool = finishOp r wk (plPool s), plWorld = w, plReply = (plReply s)(r \<mapsto> res), plLog = plLog s @ [Handled r cancelled]\<rparr>)"

definition stillThere :: "nat \<Rightarrow> pool \<Rightarrow> bool" where
  "stillThere r p \<longleftrightarrow> (\<exists>w. poCallers p r = Waiting w)"

inductive pooled_step :: "mac \<Rightarrow> wiring \<Rightarrow> int \<Rightarrow> int \<Rightarrow> request_of \<Rightarrow> pooled \<Rightarrow> pooled \<Rightarrow> bool" for mac wi dur q req where
  goes_on: "pool_step q (requestChunk req) (plPool s) p \<Longrightarrow> poHandled p = poHandled (plPool s) \<Longrightarrow>
    pooled_step mac wi dur q req s (s\<lparr>plPool := p\<rparr>)"
| handles: "cwRunning (poWorkers (plPool s) wk) \<Longrightarrow> cwBusy (poWorkers (plPool s) wk) = Some r \<Longrightarrow>
    cancelled \<or> stillThere r (plPool s) \<Longrightarrow> pooled_step mac wi dur q req s (handleRequest_at mac wi dur req r wk cancelled s)"
| elsewhere: "pooled_step mac wi dur q req s (s\<lparr>plWorld := f (plWorld s), plLog := plLog s @ [Elsewhere f]\<rparr>)"

definition idlePool :: "world \<Rightarrow> pooled" where
  "idlePool w = \<lparr>plPool = emptyPool, plWorld = w, plReply = (\<lambda>_. None), plLog = []\<rparr>"

section \<open>The sequential reading\<close>

fun runEffect :: "mac \<Rightarrow> wiring \<Rightarrow> int \<Rightarrow> request_of \<Rightarrow> world \<Rightarrow> effect \<Rightarrow> world" where
  "runEffect mac wi dur req w (Handled r cancelled) = snd (runRequest mac wi dur req r cancelled w)"
| "runEffect mac wi dur req w (Elsewhere f) = f w"

definition runLog :: "mac \<Rightarrow> wiring \<Rightarrow> int \<Rightarrow> request_of \<Rightarrow> world \<Rightarrow> effect list \<Rightarrow> world" where
  "runLog mac wi dur req = foldl (runEffect mac wi dur req)"

fun handledIn :: "effect list \<Rightarrow> nat list" where
  "handledIn [] = []"
| "handledIn (Handled r b # es) = r # handledIn es"
| "handledIn (Elsewhere f # es) = handledIn es"

lemma handledIn_append [simp]: "handledIn (es @ es') = handledIn es @ handledIn es'"
  by (induction es rule: handledIn.induct) simp_all

lemma runLog_simps [simp]: "runLog mac wi dur req w [] = w" "runLog mac wi dur req w (es @ [e]) = runEffect mac wi dur req (runLog mac wi dur req w es) e"
  by (simp_all add: runLog_def)

text \<open>The reply of a request is that of the sequential run at its place in the log.\<close>

definition repliedAt :: "mac \<Rightarrow> wiring \<Rightarrow> int \<Rightarrow> request_of \<Rightarrow> world \<Rightarrow> effect list \<Rightarrow> nat \<Rightarrow> (err + chunkReply) \<Rightarrow> bool" where
  "repliedAt mac wi dur req w0 es r res \<longleftrightarrow> (\<exists>before cancelled after. es = before @ Handled r cancelled # after
     \<and> res = fst (runRequest mac wi dur req r cancelled (runLog mac wi dur req w0 before)))"

lemma repliedAt_more: "repliedAt mac wi dur req w0 es r res \<Longrightarrow> repliedAt mac wi dur req w0 (es @ es') r res"
  unfolding repliedAt_def by (metis append.assoc append_Cons)

section \<open>The invariant\<close>

definition sequential :: "mac \<Rightarrow> wiring \<Rightarrow> int \<Rightarrow> int \<Rightarrow> request_of \<Rightarrow> world \<Rightarrow> pooled \<Rightarrow> bool" where
  "sequential mac wi dur q req w0 s \<longleftrightarrow> pool_reach q (requestChunk req) (plPool s)
     \<and> plWorld s = runLog mac wi dur req w0 (plLog s)
     \<and> (\<forall>c. filter (\<lambda>r. requestChunk req r = c) (handledIn (plLog s)) = poHandled (plPool s) c)
     \<and> (\<forall>r. (plReply s r \<noteq> None) = poResult (plPool s) r)
     \<and> (\<forall>r res. plReply s r = Some res \<longrightarrow> repliedAt mac wi dur req w0 (plLog s) r res)"

lemma sequentialD:
  assumes "sequential mac wi dur q req w0 s"
  shows "pool_reach q (requestChunk req) (plPool s)" "plWorld s = runLog mac wi dur req w0 (plLog s)"
    "filter (\<lambda>r. requestChunk req r = c) (handledIn (plLog s)) = poHandled (plPool s) c"
    "(plReply s r \<noteq> None) = poResult (plPool s) r" "plReply s r = Some res \<Longrightarrow> repliedAt mac wi dur req w0 (plLog s) r res"
    "order_ok (plPool s)" "once_ok (requestChunk req) (plPool s)"
  using assms pool_reach_inv [of q "requestChunk req" "plPool s"] unfolding sequential_def by simp_all

lemma pool_step_result: "pool_step q chunkOf p p' \<Longrightarrow> poHandled p' = poHandled p \<Longrightarrow> poResult p' = poResult p"
proof (induction rule: pool_step.induct)
  case (finish_op p w r)
  then have "poHandled (finishOp r w p) (cwChunkID (poWorkers p w)) = poHandled p (cwChunkID (poWorkers p w))" by simp
  then show ?case by (simp add: finishOp_def)
qed (simp_all add: sendOp_def leavePool_def releaseChunkWorker_def takeOp_def idleTick_def removeIdleChunkWorker_def Let_def split: prod.split)

text \<open>The request a worker has in hand is one of its chunk.\<close>

lemma busy_chunk:
  assumes "pool_reach q chunkOf p" "cwRunning (poWorkers p w)" "cwBusy (poWorkers p w) = Some r"
  shows "cwChunkID (poWorkers p w) = chunkOf r"
proof -
  note inv = pool_reach_inv [OF assms(1)]
  have "poTable p (cwChunkID (poWorkers p w)) = Some w" using table_okD(1) [of p] inv assms(2) by simp
  then have "r \<in> set (inflight p (cwChunkID (poWorkers p w)))" using assms(3) by (simp add: inflight_def inHand_def)
  then show ?thesis using order_okD [of p "cwChunkID (poWorkers p w)"] once_okD(2) [of chunkOf p r "cwChunkID (poWorkers p w)"] inv by simp
qed

lemma sequential_handles:
  assumes seq: "sequential mac wi dur q req w0 s" and w: "cwRunning (poWorkers (plPool s) wk)" "cwBusy (poWorkers (plPool s) wk) = Some r"
  shows "sequential mac wi dur q req w0 (handleRequest_at mac wi dur req r wk cancelled s)"
proof -
  let ?s = "handleRequest_at mac wi dur req r wk cancelled s" and ?run = "runRequest mac wi dur req r cancelled (plWorld s)"
  note I = seq [unfolded sequential_def]
  have s: "plPool ?s = finishOp r wk (plPool s)" "plWorld ?s = snd ?run" "plReply ?s = (plReply s)(r \<mapsto> fst ?run)"
      "plLog ?s = plLog s @ [Handled r cancelled]"
    by (simp_all add: handleRequest_at_def split: prod.split)
  have c: "cwChunkID (poWorkers (plPool s) wk) = requestChunk req r" by (rule busy_chunk [where q = q]) (use I w in simp_all)
  have p: "poHandled (plPool ?s) d = poHandled (plPool s) d @ (if d = requestChunk req r then [r] else [])"
      "poResult (plPool ?s) = (poResult (plPool s))(r := True)" for d
    by (simp_all add: s finishOp_def c)
  have world: "plWorld s = runLog mac wi dur req w0 (plLog s)" using I by simp
  have reach: "pool_reach q (requestChunk req) (plPool ?s)"
    unfolding s using I w by (blast intro: pool_reach.step pool_step.finish_op)
  have replied: "repliedAt mac wi dur req w0 (plLog ?s) u res" if "plReply ?s u = Some res" for u res
  proof (cases "u = r")
    case True
    then have "res = fst (runRequest mac wi dur req r cancelled (runLog mac wi dur req w0 (plLog s)))" using that world by (simp add: s)
    then show ?thesis unfolding repliedAt_def s True by blast
  next
    case False
    then show ?thesis using that I repliedAt_more unfolding s by simp
  qed
  have "filter (\<lambda>u. requestChunk req u = d) (handledIn (plLog ?s)) = poHandled (plPool ?s) d" for d
    using I by (simp add: p(1)) (simp add: s)
  moreover have "(plReply ?s u \<noteq> None) = poResult (plPool ?s) u" for u using I by (simp add: p(2) s(3))
  moreover have "plWorld ?s = runLog mac wi dur req w0 (plLog ?s)" by (simp add: s world)
  ultimately show ?thesis using reach replied by (simp add: sequential_def)
qed

lemma sequential_step: "pooled_step mac wi dur q req s s' \<Longrightarrow> sequential mac wi dur q req w0 s \<Longrightarrow> sequential mac wi dur q req w0 s'"
proof (induction rule: pooled_step.induct)
  case (goes_on s p)
  then show ?case using pool_step_result [OF goes_on(1,2)] by (auto simp: sequential_def intro: pool_reach.step)
next
  case (elsewhere s f)
  then show ?case by (auto simp: sequential_def intro: repliedAt_more)
qed (simp add: sequential_handles)

lemma sequential_start: "sequential mac wi dur q req w0 (idlePool w0)"
  using pool_reach.start by (simp add: sequential_def idlePool_def) (simp add: emptyPool_def)

lemma sequential_run: "(pooled_step mac wi dur q req)\<^sup>*\<^sup>* s s' \<Longrightarrow> sequential mac wi dur q req w0 s \<Longrightarrow> sequential mac wi dur q req w0 s'"
  by (induction rule: rtranclp_induct) (auto intro: sequential_step)

text \<open>The log only grows.\<close>

lemma pooled_step_log: "pooled_step mac wi dur q req s s' \<Longrightarrow> \<exists>later. plLog s' = plLog s @ later"
  by (induction rule: pooled_step.induct) (auto simp: handleRequest_at_def split: prod.split)

lemma pooled_run_log: "(pooled_step mac wi dur q req)\<^sup>*\<^sup>* s s' \<Longrightarrow> \<exists>later. plLog s' = plLog s @ later"
  by (induction rule: rtranclp_induct) (auto dest: pooled_step_log)

lemma distinct_filters: "(\<And>c. distinct (filter (\<lambda>r. f r = c) xs)) \<Longrightarrow> distinct xs"
proof (induction xs)
  case (Cons x xs)
  have "distinct (filter (\<lambda>r. f r = c) xs)" for c using Cons.prems [of c] by (simp split: if_splits)
  moreover have "x \<notin> set xs" using Cons.prems [of "f x"] by simp
  ultimately show ?case using Cons.IH by simp
qed simp

lemma handled_once:
  assumes "sequential mac wi dur q req w0 s"
  shows "distinct (handledIn (plLog s))" "r \<in> set (handledIn (plLog s)) \<longleftrightarrow> plReply s r \<noteq> None"
    "r \<in> set (handledIn (plLog s)) \<Longrightarrow> poCallers (plPool s) r \<noteq> Outside"
proof -
  let ?p = "plPool s" and ?c = "requestChunk req r"
  note D = sequentialD [OF assms]
  have "distinct (filter (\<lambda>r. requestChunk req r = c) (handledIn (plLog s)))" for c
    unfolding D(3) using order_okD [OF D(6), of c] once_okD(1) [OF D(7), of c] by simp
  then show "distinct (handledIn (plLog s))" by (rule distinct_filters)
  have h: "r \<in> set (handledIn (plLog s)) \<longleftrightarrow> r \<in> set (poHandled ?p ?c)" using arg_cong [OF D(3) [of ?c], of set] by auto
  then show "r \<in> set (handledIn (plLog s)) \<longleftrightarrow> plReply s r \<noteq> None" unfolding D(4) once_okD(6) [OF D(7)] .
  show "poCallers ?p r \<noteq> Outside" if "r \<in> set (handledIn (plLog s))"
    using that h order_okD [OF D(6), of ?c] once_okD(3) [OF D(7), of r ?c] by simp
qed

section \<open>Concurrent requests are sequential ones\<close>


text \<open>So what holds of every sequential execution holds of the concurrent one: the stored chunks stay consistent with the
  mine layout if the rest of the server keeps them so.\<close>

lemma concurrent_field:
  assumes "(pooled_step mac wi dur q req)\<^sup>*\<^sup>* (idlePool w0) s" "fieldInv mac dur ss w0"
    and "\<And>r u c op. req r = (u, c, op) \<Longrightarrow> playable c"
    and "\<And>f w. Elsewhere f \<in> set (plLog s) \<Longrightarrow> fieldInv mac dur ss w \<Longrightarrow> fieldInv mac dur ss (f w)"
  shows "fieldInv mac dur ss (plWorld s)"
proof -
  have run: "fieldInv mac dur ss (snd (runRequest mac wi dur req r cancelled w))" if "fieldInv mac dur ss w" for r cancelled w
    using givesD [OF whole.keeps_handleChunkOperation that] assms(3) by (auto simp: runRequest_def split: prod.split)
  have "fieldInv mac dur ss (runLog mac wi dur req w0 es)" if "set es \<subseteq> set (plLog s)" for es
    using that
  proof (induction es rule: rev_induct)
    case (snoc e es)
    then show ?case using run assms(4) by (cases e) auto
  qed (simp add: assms(2))
  then show ?thesis using sequentialD(2) [OF sequential_run [OF assms(1) sequential_start]] by simp
qed

section \<open>An example\<close>

text \<open>One opening goes through the pool; there is no season, so its reply is an error.\<close>

definition oneReq :: request_of where
  "oneReq r = (7, mkChunkID ''cn'' 6 10 20, OpenOp 3 4)"

definition oneSent :: pool where
  "oneSent = sendOp ''cn:6:10:20'' 5 0 (enterPool ''cn:6:10:20'' 5 emptyPool)"

definition oneHandled :: pooled where
  "oneHandled = handleRequest_at rowMac fullWiring 300 oneReq 5 0 False ((idlePool emptyWorld)\<lparr>plPool := takeOp 0 oneSent\<rparr>)"

lemma oneHandled_run: "(pooled_step rowMac fullWiring 300 256 oneReq)\<^sup>*\<^sup>* (idlePool emptyWorld) oneHandled"
proof -
  let ?k = "''cn:6:10:20''" and ?S = "pooled_step rowMac fullWiring 300 256 oneReq" and ?at = "\<lambda>p. (idlePool emptyWorld)\<lparr>plPool := p\<rparr>"
  have k: "requestChunk oneReq 5 = ?k" by (simp add: requestChunk_def oneReq_def) code_simp
  have go: "?S (?at p) (?at p')" if "pool_step 256 (requestChunk oneReq) p p'" "poHandled p' = poHandled p" for p p'
    using pooled_step.goes_on [of 256 oneReq "?at p" p'] that by simp
  have "pool_step 256 (requestChunk oneReq) emptyPool (enterPool ?k 5 emptyPool)"
    using pool_step.enter [of emptyPool 5 256 "requestChunk oneReq"] k by (simp add: emptyPool_def)
  then have 1: "?S (idlePool emptyWorld) (?at (enterPool ?k 5 emptyPool))"
    using go [of emptyPool] by (simp add: idlePool_def)
  have "pool_step 256 (requestChunk oneReq) (enterPool ?k 5 emptyPool) oneSent"
    unfolding oneSent_def k [symmetric] by (rule pool_step.send; unfold k; code_simp)
  then have 2: "?S (?at (enterPool ?k 5 emptyPool)) (?at oneSent)" by (rule go) (simp add: oneSent_def sendOp_def)
  have "pool_step 256 (requestChunk oneReq) oneSent (takeOp 0 oneSent)" by (rule pool_step.take_op; code_simp)
  then have 3: "?S (?at oneSent) (?at (takeOp 0 oneSent))" by (rule go) (simp add: takeOp_def)
  have "cwRunning (poWorkers (takeOp 0 oneSent) 0)" "cwBusy (poWorkers (takeOp 0 oneSent) 0) = Some 5"
    "poCallers (takeOp 0 oneSent) 5 = Waiting 0" by code_simp+
  then have 4: "?S (?at (takeOp 0 oneSent)) oneHandled"
    unfolding oneHandled_def by (intro pooled_step.handles) (auto simp: stillThere_def)
  show ?thesis using 1 2 3 4 by (meson converse_rtranclp_into_rtranclp rtranclp.rtrancl_refl)
qed


end
