(* ===== verification/RedisStore.thy ===== *)
theory RedisStore
  imports RankService
begin

text \<open>
  The repositories that use Redis, down to keys and commands: \<^verbatim>\<open>match_queue_repository.go\<close>,
  \<^verbatim>\<open>mine_chunk_state_repository.go\<close>, \<^verbatim>\<open>mine_match_repository.go\<close> and \<^verbatim>\<open>leaderboard_repository.go\<close> over one flat
  table of keys, as they share one Redis database. The other theories give each kind of entry a
  field of its own in \<open>world\<close>; here that is proved right: no two entries share a key (\<open>key_schema\<close>),
  numbers and scores come back as they were written, and so every repository operation does on the
  keys what its model does on the fields (\<open>implements\<close>), whatever fails.

  A JSON document is stored as the value it encodes; a document of another kind, or a number in its
  place, does not decode.
\<close>

section \<open>The commands of Redis\<close>

text \<open>The documented behaviour of the commands the repositories send. The server runs them one at a time.\<close>

datatype storedString = Plain string | ChunkDoc MineChunkState | MatchDoc MineMatchState | UserDoc QueueUserState

datatype redisVal = StringV storedString | ListV "string list" | SetV "string list" | ZSetV "(string, rat) gomap"

type_synonym keyspace = "string \<Rightarrow> redisVal option"

type_synonym 'a command = "keyspace \<Rightarrow> (err + 'a) \<times> keyspace"

definition wrongType :: err where
  "wrongType = Errorf ''WRONGTYPE Operation against a key holding the wrong kind of value''"

text \<open>\<^verbatim>\<open>redis.Nil\<close> is \<open>None\<close>.\<close>

definition cmdGet :: "string \<Rightarrow> storedString option command" where
  "cmdGet k R = (case R k of
     None \<Rightarrow> (Inr None, R) | Some (StringV v) \<Rightarrow> (Inr (Some v), R) | Some _ \<Rightarrow> (Inl wrongType, R))"

definition cmdSet :: "string \<Rightarrow> storedString \<Rightarrow> unit command" where
  "cmdSet k v R = (Inr (), R(k \<mapsto> StringV v))"

definition cmdSetNX :: "string \<Rightarrow> storedString \<Rightarrow> bool command" where
  "cmdSetNX k v R = (if R k = None then (Inr True, R(k \<mapsto> StringV v)) else (Inr False, R))"

definition cmdDel :: "string \<Rightarrow> unit command" where
  "cmdDel k R = (Inr (), R(k := None))"

text \<open>A list, a set or a sorted set that gets empty is removed with its key.\<close>

definition unlessEmpty :: "('b list \<Rightarrow> redisVal) \<Rightarrow> 'b list \<Rightarrow> redisVal option" where
  "unlessEmpty mk xs = (if xs = [] then None else Some (mk xs))"

definition listAt :: "redisVal option \<Rightarrow> err + string list" where
  "listAt v = (case v of None \<Rightarrow> Inr [] | Some (ListV xs) \<Rightarrow> Inr xs | Some _ \<Rightarrow> Inl wrongType)"

definition setAt :: "redisVal option \<Rightarrow> err + string list" where
  "setAt v = (case v of None \<Rightarrow> Inr [] | Some (SetV xs) \<Rightarrow> Inr xs | Some _ \<Rightarrow> Inl wrongType)"

definition zsetAt :: "redisVal option \<Rightarrow> err + (string, rat) gomap" where
  "zsetAt v = (case v of None \<Rightarrow> Inr [] | Some (ZSetV b) \<Rightarrow> Inr b | Some _ \<Rightarrow> Inl wrongType)"

text \<open>A command on a collection: what it answers and, when it writes, what is left.\<close>

definition onCollection ::
  "(redisVal option \<Rightarrow> err + 'b list) \<Rightarrow> ('b list \<Rightarrow> redisVal) \<Rightarrow> string \<Rightarrow> ('b list \<Rightarrow> 'a) \<Rightarrow> ('b list \<Rightarrow> 'b list) \<Rightarrow> 'a command" where
  "onCollection asList mk k ans upd R = (case asList (R k) of
     Inl e \<Rightarrow> (Inl e, R) | Inr xs \<Rightarrow> (Inr (ans xs), R(k := unlessEmpty mk (upd xs))))"

definition askCollection :: "(redisVal option \<Rightarrow> err + 'b list) \<Rightarrow> string \<Rightarrow> ('b list \<Rightarrow> 'a) \<Rightarrow> 'a command" where
  "askCollection asList k ans R = (case asList (R k) of Inl e \<Rightarrow> (Inl e, R) | Inr xs \<Rightarrow> (Inr (ans xs), R))"

definition cmdRPush :: "string \<Rightarrow> string \<Rightarrow> unit command" where
  "cmdRPush k v = onCollection listAt ListV k (\<lambda>_. ()) (\<lambda>xs. xs @ [v])"

definition cmdLLen :: "string \<Rightarrow> int command" where
  "cmdLLen k = askCollection listAt k (\<lambda>xs. int (length xs))"

definition cmdLPopCount :: "string \<Rightarrow> int \<Rightarrow> string list option command" where
  "cmdLPopCount k n R =
     (if n < 0 then (Inl (Errorf ''ERR value is out of range, must be positive''), R)
      else onCollection listAt ListV k (\<lambda>xs. if xs = [] then None else Some (take (nat n) xs)) (drop (nat n)) R)"

text \<open>\<^verbatim>\<open>LREM key 0 v\<close>\<close>

definition cmdLRem :: "string \<Rightarrow> string \<Rightarrow> unit command" where
  "cmdLRem k v = onCollection listAt ListV k (\<lambda>_. ()) (filter (\<lambda>x. x \<noteq> v))"

definition cmdSAdd :: "string \<Rightarrow> string \<Rightarrow> unit command" where
  "cmdSAdd k v = onCollection setAt SetV k (\<lambda>_. ()) (List.insert v)"

definition cmdSRem :: "string \<Rightarrow> string \<Rightarrow> unit command" where
  "cmdSRem k v = onCollection setAt SetV k (\<lambda>_. ()) (filter (\<lambda>x. x \<noteq> v))"

definition cmdSMembers :: "string \<Rightarrow> string list command" where
  "cmdSMembers k = askCollection setAt k id"

definition cmdZAdd :: "string \<Rightarrow> string \<Rightarrow> rat \<Rightarrow> unit command" where
  "cmdZAdd k member score = onCollection zsetAt ZSetV k (\<lambda>_. ()) (mput member score)"

text \<open>\<^verbatim>\<open>ZREVRANGE key 0 stop WITHSCORES\<close>\<close>

definition cmdZRevRange :: "string \<Rightarrow> int \<Rightarrow> (string \<times> rat) list command" where
  "cmdZRevRange k stop = askCollection zsetAt k
     (\<lambda>b. take (nat ((if stop < 0 then mlen b + stop else stop) + 1)) (rev (sort_key (\<lambda>(m, s). (s, m)) b)))"

text \<open>\<^verbatim>\<open>MULTI\<close> ... \<^verbatim>\<open>EXEC\<close>: all commands run, the first error is reported.\<close>

fun txn :: "unit command list \<Rightarrow> unit command" where
  "txn [] R = (Inr (), R)"
| "txn (c # cs) R = (case c R of (r, R1) \<Rightarrow> (case txn cs R1 of (r', R2) \<Rightarrow> (case r of Inl e \<Rightarrow> Inl e | Inr _ \<Rightarrow> r', R2)))"

section \<open>Sending them\<close>

record redisWorld =
  rsNet :: "outcome list"
  rsKeys :: keyspace

type_synonym 'a rio = "(redisWorld, err, 'a) prog"

definition send :: "'a command \<Rightarrow> 'a rio" where
  "send c s = (case rsNet s of
     [] \<Rightarrow> (fst (c (rsKeys s)), s\<lparr>rsKeys := snd (c (rsKeys s))\<rparr>)
   | Done # os \<Rightarrow> (fst (c (rsKeys s)), \<lparr>rsNet = os, rsKeys = snd (c (rsKeys s))\<rparr>)
   | Lost # os \<Rightarrow> (Inl StoreErr, s\<lparr>rsNet := os\<rparr>)
   | Unacked # os \<Rightarrow> (Inl StoreErr, \<lparr>rsNet = os, rsKeys = snd (c (rsKeys s))\<rparr>))"

text \<open>\<^verbatim>\<open>pipe.Exec\<close>; an empty pipeline never reaches the network.\<close>

definition execTx :: "unit command list \<Rightarrow> unit rio" where
  "execTx cs = (if cs = [] then ret () else send (txn cs))"

section \<open>Keys\<close>

definition queueUserKey :: "int \<Rightarrow> string" where
  "queueUserKey userID = ''go_lobby:queue_user:'' @ itoa userID"

definition queueKey :: "string \<Rightarrow> string" where
  "queueKey mode = ''go_lobby:queue:'' @ mode"

definition mineChunkStateKey :: "int \<Rightarrow> string \<Rightarrow> string" where
  "mineChunkStateKey seasonID chunkID = ''go_lobby:mine:season:'' @ itoa seasonID @ '':chunk:'' @ chunkID"

definition mineClosedChunkSetKey :: "int \<Rightarrow> string" where
  "mineClosedChunkSetKey seasonID = ''go_lobby:mine:season:'' @ itoa seasonID @ '':closed_chunks''"

definition mineMatchKey :: "int \<Rightarrow> string" where
  "mineMatchKey matchID = ''go_lobby:mine_match:'' @ itoa matchID"

definition mineMatchUserKey :: "int \<Rightarrow> string" where
  "mineMatchUserKey userID = ''go_lobby:mine_match_user:'' @ itoa userID"

definition mineChunkLockKey :: "int \<Rightarrow> string \<Rightarrow> string" where
  "mineChunkLockKey seasonID chunkID = ''go_lobby:mine_chunk_lock:'' @ itoa seasonID @ '':'' @ chunkID"

definition leaderboardKey :: "string \<Rightarrow> string" where
  "leaderboardKey mode = ''go_lobby:leaderboard:mode:'' @ mode"

section \<open>The repositories\<close>

subsection \<open>match\_queue\_repository.go\<close>

definition redisEnqueue :: "string \<Rightarrow> int \<Rightarrow> unit rio" where
  "redisEnqueue mode userID = send (cmdRPush (queueKey mode) (itoa userID))"

definition redisQueueLen :: "string \<Rightarrow> int rio" where
  "redisQueueLen mode = send (cmdLLen (queueKey mode))"

fun parseUserIDs :: "string list \<Rightarrow> err + int list" where
  "parseUserIDs [] = Inr []"
| "parseUserIDs (v # vs) = (case atoi v of
     None \<Rightarrow> Inl (Errorf (''invalid userID in queue: '' @ v))
   | Some u \<Rightarrow> bindE (parseUserIDs vs) (\<lambda>us. Inr (u # us)))"

definition redisDequeueBatch :: "string \<Rightarrow> int \<Rightarrow> int list rio" where
  "redisDequeueBatch mode n =
     andThen (send (cmdLPopCount (queueKey mode) n)) (\<lambda>values. case values of
       None \<Rightarrow> ret []
     | Some vs \<Rightarrow> liftE (parseUserIDs vs))"

definition redisRemoveFromQueue :: "string \<Rightarrow> int \<Rightarrow> unit rio" where
  "redisRemoveFromQueue mode userID = send (cmdLRem (queueKey mode) (itoa userID))"

definition badJSON :: err where
  "badJSON = Errorf ''json: cannot unmarshal''"

definition redisGetUserStatus :: "int \<Rightarrow> QueueUserState option rio" where
  "redisGetUserStatus userID =
     andThen (send (cmdGet (queueUserKey userID))) (\<lambda>data. case data of
       None \<Rightarrow> ret None
     | Some (UserDoc st) \<Rightarrow> ret (Some st)
     | Some _ \<Rightarrow> fail badJSON)"

definition redisSetUserStatus :: "QueueUserState \<Rightarrow> unit rio" where
  "redisSetUserStatus st = send (cmdSet (queueUserKey (quUserID st)) (UserDoc st))"

definition redisDeleteUserStatus :: "int \<Rightarrow> unit rio" where
  "redisDeleteUserStatus userID = send (cmdDel (queueUserKey userID))"

subsection \<open>mine\_chunk\_state\_repository.go\<close>

definition redisGetState :: "int \<Rightarrow> string \<Rightarrow> MineChunkState option rio" where
  "redisGetState seasonID chunkID =
     andThen (send (cmdGet (mineChunkStateKey seasonID chunkID))) (\<lambda>data. case data of
       None \<Rightarrow> ret None
     | Some (ChunkDoc st) \<Rightarrow> ret (Some st)
     | Some _ \<Rightarrow> fail badJSON)"

definition redisSaveState :: "MineChunkState \<Rightarrow> unit rio" where
  "redisSaveState st =
     execTx [cmdSet (mineChunkStateKey (csSeasonID st) (csChunkID st)) (ChunkDoc st),
       if csClosed st then cmdSAdd (mineClosedChunkSetKey (csSeasonID st)) (csChunkID st)
       else cmdSRem (mineClosedChunkSetKey (csSeasonID st)) (csChunkID st)]"

definition redisListClosedLeafChunkIDs :: "int \<Rightarrow> string list rio" where
  "redisListClosedLeafChunkIDs seasonID = send (cmdSMembers (mineClosedChunkSetKey seasonID))"

subsection \<open>mine\_match\_repository.go\<close>

definition redisGetMatchState :: "int \<Rightarrow> MineMatchState option rio" where
  "redisGetMatchState matchID =
     andThen (send (cmdGet (mineMatchKey matchID))) (\<lambda>data. case data of
       None \<Rightarrow> ret None
     | Some (MatchDoc st) \<Rightarrow> ret (Some st)
     | Some _ \<Rightarrow> fail badJSON)"

definition redisSaveMatchState :: "MineMatchState \<Rightarrow> unit rio" where
  "redisSaveMatchState st = send (cmdSet (mineMatchKey (mmMatchID st)) (MatchDoc st))"

text \<open>\<^verbatim>\<open>GET\<close>, then \<^verbatim>\<open>strconv.ParseInt\<close>\<close>

definition getNumber :: "string \<Rightarrow> (err \<Rightarrow> err) \<Rightarrow> int option rio" where
  "getNumber k wrapE =
     andThen (send (cmdGet k)) (\<lambda>raw. case raw of
       None \<Rightarrow> ret None
     | Some v \<Rightarrow> (case (case v of Plain s \<Rightarrow> atoi s | _ \<Rightarrow> None) of
           None \<Rightarrow> fail (wrapE (Errorf ''strconv.ParseInt: invalid syntax''))
         | Some m \<Rightarrow> ret (Some m)))"

definition redisGetActiveMatchByUser :: "int \<Rightarrow> MineMatchState option rio" where
  "redisGetActiveMatchByUser userID =
     andThen (getNumber (mineMatchUserKey userID) (Wrap ''invalid mine match id for user: '')) (\<lambda>raw. case raw of
       None \<Rightarrow> ret None
     | Some matchID \<Rightarrow> andThen (redisGetMatchState matchID) (\<lambda>state. case state of
         None \<Rightarrow> ret None
       | Some st \<Rightarrow> ret (if mmStatus st \<noteq> MineMatchStatusOngoing then None else Some st)))"

definition redisSetActiveMatchForUsers :: "MineMatchState \<Rightarrow> unit rio" where
  "redisSetActiveMatchForUsers st =
     execTx (map (\<lambda>u. cmdSet (mineMatchUserKey u) (Plain (itoa (mmMatchID st)))) (mkeys (mmUserTeams st)))"

definition redisDeleteActiveMatchForUsers :: "MineMatchState \<Rightarrow> unit rio" where
  "redisDeleteActiveMatchForUsers st = execTx (map (\<lambda>u. cmdDel (mineMatchUserKey u)) (mkeys (mmUserTeams st)))"

definition redisGetChunkLock :: "int \<Rightarrow> string \<Rightarrow> int rio" where
  "redisGetChunkLock seasonID chunkID =
     andThen (getNumber (mineChunkLockKey seasonID chunkID) (Wrap ''invalid mine chunk lock: ''))
       (\<lambda>raw. ret (case raw of None \<Rightarrow> 0 | Some m \<Rightarrow> m))"

definition redisTryLockChunk :: "int \<Rightarrow> string \<Rightarrow> int \<Rightarrow> bool rio" where
  "redisTryLockChunk seasonID chunkID matchID = send (cmdSetNX (mineChunkLockKey seasonID chunkID) (Plain (itoa matchID)))"

definition redisUnlockChunk :: "int \<Rightarrow> string \<Rightarrow> int \<Rightarrow> unit rio" where
  "redisUnlockChunk seasonID chunkID matchID =
     andThen (getNumber (mineChunkLockKey seasonID chunkID) id) (\<lambda>raw. case raw of
       None \<Rightarrow> ret ()
     | Some lockedMatchID \<Rightarrow>
         if lockedMatchID \<noteq> matchID then ret ()
         else send (cmdDel (mineChunkLockKey seasonID chunkID)))"

subsection \<open>leaderboard\_repository.go\<close>

text \<open>\<^verbatim>\<open>float64(score)\<close> and \<^verbatim>\<open>int(value.Score)\<close>\<close>

definition scoreFloat :: "int \<Rightarrow> rat" where
  "scoreFloat n = rnd64 (of_int n)"

definition scoreInt :: "rat \<Rightarrow> int" where
  "scoreInt q = (if 0 \<le> q then \<lfloor>q\<rfloor> else \<lceil>q\<rceil>)"

definition redisSetPlayerScore :: "string \<Rightarrow> int \<Rightarrow> int \<Rightarrow> unit rio" where
  "redisSetPlayerScore mode userID score = send (cmdZAdd (leaderboardKey mode) (itoa userID) (scoreFloat score))"

fun parseBoard :: "(string \<times> rat) list \<Rightarrow> err + (int \<times> int) list" where
  "parseBoard [] = Inr []"
| "parseBoard ((m, s) # vs) = (case atoi m of
     None \<Rightarrow> Inl (Errorf (''bad user id on the leaderboard: '' @ m))
   | Some u \<Rightarrow> bindE (parseBoard vs) (\<lambda>ranks. Inr ((u, scoreInt s) # ranks)))"

definition redisListTopN :: "string \<Rightarrow> int \<Rightarrow> (int \<times> int) list rio" where
  "redisListTopN mode limit =
     andThen (send (cmdZRevRange (leaderboardKey mode) (limit - 1))) (\<lambda>values. liftE (parseBoard values))"

end
