(* ===== verification/RedisRefinement.thy ===== *)
theory RedisRefinement
  imports RedisStore MatchQueue
begin

text \<open>
  The fields of \<open>world\<close> that stand for Redis are refined by the keys of \<open>RedisStore\<close>: every repository
  operation gives the same answer on both and leaves them related, whatever calls fail.
\<close>

section \<open>Numbers and scores come back\<close>

lemma nlog2_bound: "n < 2 ^ Suc k \<Longrightarrow> nlog2 n \<le> k"
proof (induction k arbitrary: n)
  case 0
  then show ?case by (simp add: nlog2.simps [of n])
next
  case (Suc k)
  then have "n div 2 < 2 ^ Suc k" by (simp add: less_mult_imp_div_less mult.commute)
  then show ?case using Suc.IH [of "n div 2"] by (simp add: nlog2.simps [of n])
qed

lemma round_even_int [simp]: "round_even (of_int z) = z"
  by (simp add: round_even_def Let_def)

text \<open>A binary64 holds every integer below \<open>2 ^ 53\<close>.\<close>

lemma scoreFloat_exact: "\<bar>n\<bar> < 2 ^ 53 \<Longrightarrow> scoreFloat n = of_int n"
proof (cases "n = 0")
  case False
  assume n: "\<bar>n\<bar> < 2 ^ 53"
  define e where "e = max (- 1074) (flog2 (of_int n) - 52)"
  have "nat \<bar>n\<bar> < 2 ^ Suc 52" using n by simp
  then have "nlog2 (nat \<bar>n\<bar>) \<le> 52" by (rule nlog2_bound)
  moreover have "flog2 (of_int n) = int (nlog2 (nat \<bar>n\<bar>))" using False by (simp add: flog2_def Let_def nlog2.simps [of 0] flip: of_int_abs)
  ultimately have "e \<le> 0" by (simp add: e_def)
  then have p: "pow2 e = 1 / 2 ^ nat (- e)" by (auto simp: pow2_def)
  have "of_int n / pow2 e = (of_int (n * 2 ^ nat (- e)) :: rat)" by (simp add: p)
  then have "scoreFloat n = of_int (n * 2 ^ nat (- e)) * pow2 e"
    using False by (simp only: scoreFloat_def rnd64_def Let_def e_def [symmetric] round_even_int of_int_eq_0_iff if_False)
  then show ?thesis by (simp add: p)
qed (simp add: scoreFloat_def rnd64_def)

lemma scoreInt_of_int [simp]: "scoreInt (of_int n) = n"
  by (simp add: scoreInt_def)

lemma parseUserIDs_itoa: "\<forall>u \<in> set us. in64 u \<Longrightarrow> parseUserIDs (map itoa us) = Inr us"
  by (induction us) auto

section \<open>One key per entry\<close>

text \<open>What the keys must give: distinct entries have distinct keys. Then a write changes one entry only.\<close>

locale key_schema =
  fixes key :: "'e \<Rightarrow> 'k"
  assumes key_eq: "key e = key e' \<longleftrightarrow> e = e'"
begin

lemma write_one:
  "\<forall>e. R (key e) = V e \<Longrightarrow> \<forall>e. V' e = (if e = e0 then v else V e) \<Longrightarrow> \<forall>e. (R(key e0 := v)) (key e) = V' e"
  by (simp add: key_eq)

end

datatype entity =
    QueueUser int | Queue string | ChunkState int string | ClosedSet int
  | MatchState int | UserMatch int | ChunkLock int string | Board string

fun keyOf :: "entity \<Rightarrow> string" where
  "keyOf (QueueUser u) = queueUserKey u"
| "keyOf (Queue mode) = queueKey mode"
| "keyOf (ChunkState s c) = mineChunkStateKey s c"
| "keyOf (ClosedSet s) = mineClosedChunkSetKey s"
| "keyOf (MatchState m) = mineMatchKey m"
| "keyOf (UserMatch u) = mineMatchUserKey u"
| "keyOf (ChunkLock s c) = mineChunkLockKey s c"
| "keyOf (Board mode) = leaderboardKey mode"

lemma sep_eq_iff: "c \<notin> set a \<Longrightarrow> c \<notin> set b \<Longrightarrow> a @ c # x = b @ c # y \<longleftrightarrow> a = b \<and> x = y"
  by (auto simp: append_eq_append_conv2 Cons_eq_append_conv append_eq_Cons_conv)

lemma itoa_sep: "itoa a @ CHR '':'' # x = itoa b @ CHR '':'' # y \<longleftrightarrow> a = b \<and> x = y"
  by (simp only: sep_eq_iff [OF itoa_no_colon itoa_no_colon] itoa_inj)

lemmas key_defs = queueUserKey_def queueKey_def mineChunkStateKey_def mineClosedChunkSetKey_def mineMatchKey_def
  mineMatchUserKey_def mineChunkLockKey_def leaderboardKey_def

lemma keyOf_inj: "keyOf e = keyOf e' \<longleftrightarrow> e = e'"
  by (cases e; cases e') (simp_all add: key_defs itoa_sep itoa_inj)

interpretation ks: key_schema keyOf
  by unfold_locales (rule keyOf_inj)

section \<open>The keys mirror the fields\<close>

fun valueOf :: "world \<Rightarrow> entity \<Rightarrow> redisVal option" where
  "valueOf w (QueueUser u) = map_option (\<lambda>st. StringV (UserDoc st)) (rdQueueUsers w u)"
| "valueOf w (Queue mode) = unlessEmpty ListV (map itoa (rdQueues w mode))"
| "valueOf w (ChunkState s c) = map_option (\<lambda>st. StringV (ChunkDoc st)) (rdChunks w (s, c))"
| "valueOf w (ClosedSet s) = unlessEmpty SetV (rdClosed w s)"
| "valueOf w (MatchState m) = map_option (\<lambda>st. StringV (MatchDoc st)) (rdMineMatches w m)"
| "valueOf w (UserMatch u) = map_option (\<lambda>m. StringV (Plain (itoa m))) (rdUserMatch w u)"
| "valueOf w (ChunkLock s c) = map_option (\<lambda>m. StringV (Plain (itoa m))) (rdChunkLock w (s, c))"
| "valueOf w (Board mode) = unlessEmpty ZSetV (map (\<lambda>(u, s). (itoa u, scoreFloat s)) (rdLeaderboard w mode))"

text \<open>What is stored as a decimal number is an \<^verbatim>\<open>int64\<close>, and scores are exact as a \<^verbatim>\<open>float64\<close>.\<close>

definition board_ok :: "(int, int) gomap \<Rightarrow> bool" where
  "board_ok b \<longleftrightarrow> (\<forall>(u, s) \<in> set b. in64 u \<and> \<bar>s\<bar> < 2 ^ 53)"

definition numbers_ok :: "world \<Rightarrow> bool" where
  "numbers_ok w \<longleftrightarrow> (\<forall>mode. \<forall>u \<in> set (rdQueues w mode). in64 u)
     \<and> (\<forall>u m. rdUserMatch w u = Some m \<longrightarrow> in64 m) \<and> (\<forall>k m. rdChunkLock w k = Some m \<longrightarrow> in64 m)
     \<and> (\<forall>mode. board_ok (rdLeaderboard w mode))"

definition represents :: "keyspace \<Rightarrow> world \<Rightarrow> bool" where
  "represents R w \<longleftrightarrow> (\<forall>e. R (keyOf e) = valueOf w e) \<and> numbers_ok w"

definition mirrors :: "redisWorld \<Rightarrow> world \<Rightarrow> bool" where
  "mirrors s w \<longleftrightarrow> rsNet s = net w \<and> represents (rsKeys s) w"

definition implements :: "'a rio \<Rightarrow> 'a io \<Rightarrow> bool" where
  "implements p m \<longleftrightarrow> (\<forall>s w. mirrors s w \<longrightarrow> fst (p s) = fst (m w) \<and> mirrors (snd (p s)) (snd (m w)))"

text \<open>The relation says nothing about \<open>net\<close> and \<open>clock\<close>.\<close>

lemma valueOf_net [simp]: "valueOf (w\<lparr>net := os\<rparr>) e = valueOf w e"
  by (cases e) simp_all

lemma represents_net [simp]: "represents R (w\<lparr>net := os\<rparr>) = represents R w"
  by (simp add: represents_def numbers_ok_def)

lemma represents_write:
  assumes "represents R w" "numbers_ok w'" "\<And>e. e \<noteq> e0 \<Longrightarrow> valueOf w' e = valueOf w e"
  shows "represents (R(keyOf e0 := valueOf w' e0)) w'"
proof -
  have "\<forall>e. R (keyOf e) = valueOf w e" using assms(1) by (simp add: represents_def)
  moreover have "\<forall>e. valueOf w' e = (if e = e0 then valueOf w' e0 else valueOf w e)" using assms(3) by metis
  ultimately have "\<forall>e. (R(keyOf e0 := valueOf w' e0)) (keyOf e) = valueOf w' e" by (rule ks.write_one)
  then show ?thesis using assms(2) unfolding represents_def by blast
qed

text \<open>A call and what is made of its answer against a call of the model.\<close>

lemma rd_as_wr: "rd f = wr f id"
  by (simp add: rd_def wr_def fun_eq_iff split: prod.splits outcome.splits)

lemma implements_call:
  assumes ans: "\<And>R w. represents R w \<Longrightarrow> \<exists>a R'. c R = (Inr a, R') \<and> k a = ret (f w) \<and> represents R' (upd w)"
    and net: "\<And>w. net (upd w) = net w"
  shows "implements (andThen (send c) k) (wr f upd)"
  unfolding implements_def
proof (intro allI impI)
  fix s w assume m: "mirrors s w"
  then have r: "represents (rsKeys s) w" by (simp add: mirrors_def)
  define p where "p = (case net w of [] \<Rightarrow> (Done, w) | o1 # os \<Rightarrow> (o1, w\<lparr>net := os\<rparr>))"
  have p: "popNet w = p" by (simp add: popNet_def p_def)
  have r': "represents (rsKeys s) (snd p)" using r by (simp add: p_def split: list.splits)
  obtain a R' where a: "c (rsKeys s) = (Inr a, R')" "k a = ret (f (snd p))" "represents R' (upd (snd p))" using ans [OF r'] by blast
  have n: "rsNet s = net w" using m by (simp add: mirrors_def)
  show "fst (andThen (send c) k s) = fst (wr f upd w) \<and> mirrors (snd (andThen (send c) k s)) (snd (wr f upd w))"
  proof (cases "net w")
    case Nil
    then show ?thesis using a m n by (simp add: p_def andThen_def send_def ret_def mirrors_def net)
  next
    case (Cons o1 os)
    then show ?thesis using a r' n
      by (cases o1) (simp_all add: p_def popNet_def wr_def andThen_def send_def ret_def mirrors_def net)
  qed
qed

lemma implements_andThen:
  assumes "implements p m" "\<And>a. implements (k a) (h a)"
  shows "implements (andThen p k) (andThen m h)"
  unfolding implements_def
proof (intro allI impI)
  fix s w assume m: "mirrors s w"
  then have "fst (p s) = fst (m w)" "mirrors (snd (p s)) (snd (m w))" using assms(1) by (simp_all add: implements_def)
  then show "fst (andThen p k s) = fst (andThen m h w) \<and> mirrors (snd (andThen p k s)) (snd (andThen m h w))"
    using assms(2) by (cases "p s"; cases "m w") (auto simp: andThen_def implements_def split: sum.splits)
qed

lemma implements_ret: "implements (ret a) (ret a)"
  by (simp add: implements_def ret_def)

lemma implements_fail: "implements (fail e) (fail e)"
  by (simp add: implements_def fail_def)

lemma implements_cmd:
  assumes "\<And>R w. represents R w \<Longrightarrow> fst (c R) = Inr (f w) \<and> represents (snd (c R)) (upd w)" "\<And>w. net (upd w) = net w"
  shows "implements (send c) (wr f upd)"
proof -
  have "andThen (send c) ret = send c" by (auto simp: andThen_def ret_def fun_eq_iff split: prod.splits sum.splits)
  moreover have "implements (andThen (send c) ret) (wr f upd)"
    by (rule implements_call) (use assms in \<open>auto intro: prod_eqI simp: prod_eq_iff\<close>)
  ultimately show ?thesis by simp
qed

lemma implements_read:
  assumes "\<And>R w. represents R w \<Longrightarrow> \<exists>a. c R = (Inr a, R) \<and> k a = ret (f w)"
  shows "implements (andThen (send c) k) (rd f)"
  unfolding rd_as_wr by (rule implements_call) (use assms in fastforce)+

lemma implements_ask:
  assumes "\<And>R w. represents R w \<Longrightarrow> c R = (Inr (f w), R)"
  shows "implements (send c) (rd f)"
  unfolding rd_as_wr by (rule implements_cmd) (simp_all add: assms)

section \<open>The operations\<close>

lemma at_unlessEmpty [simp]: "listAt (unlessEmpty ListV xs) = Inr xs" "setAt (unlessEmpty SetV xs) = Inr xs"
  "zsetAt (unlessEmpty ZSetV b) = Inr b"
  by (simp_all add: unlessEmpty_def listAt_def setAt_def zsetAt_def)

lemma rep_at:
  assumes "represents R w"
  shows "R (queueUserKey u) = valueOf w (QueueUser u)" "R (queueKey mode) = valueOf w (Queue mode)"
    "R (mineChunkStateKey s c) = valueOf w (ChunkState s c)" "R (mineClosedChunkSetKey s) = valueOf w (ClosedSet s)"
    "R (mineMatchKey m) = valueOf w (MatchState m)" "R (mineMatchUserKey u) = valueOf w (UserMatch u)"
    "R (mineChunkLockKey s c) = valueOf w (ChunkLock s c)" "R (leaderboardKey mode) = valueOf w (Board mode)"
  using assms unfolding represents_def by (metis keyOf.simps)+

lemma represents_upd:
  "represents R w \<Longrightarrow> numbers_ok w' \<Longrightarrow> k = keyOf e0 \<Longrightarrow> v = valueOf w' e0 \<Longrightarrow> (\<And>e. e \<noteq> e0 \<Longrightarrow> valueOf w' e = valueOf w e) \<Longrightarrow>
   represents (R(k := v)) w'"
  using represents_write by simp

lemmas repD = rep_at represents_def [THEN iffD1, THEN conjunct2]

lemmas collection_defs = onCollection_def askCollection_def cmdRPush_def cmdLLen_def cmdLPopCount_def cmdLRem_def cmdSAdd_def
  cmdSRem_def cmdSMembers_def cmdZAdd_def cmdZRevRange_def

subsection \<open>Queues\<close>

lemma valueOf_queue: "e \<noteq> Queue mode \<Longrightarrow> valueOf (w\<lparr>rdQueues := (rdQueues w)(mode := q)\<rparr>) e = valueOf w e"
  by (cases e) auto

lemma represents_queue:
  assumes "represents R w" "\<forall>u \<in> set q. in64 u"
  shows "represents (R(queueKey mode := unlessEmpty ListV (map itoa q))) (w\<lparr>rdQueues := (rdQueues w)(mode := q)\<rparr>)"
  by (rule represents_upd [OF assms(1), of _ _ "Queue mode"]) (use assms repD(9) in \<open>auto simp: numbers_ok_def valueOf_queue\<close>)

lemma queue_in64: "represents R w \<Longrightarrow> \<forall>u \<in> set (rdQueues w mode). in64 u"
  by (simp add: represents_def numbers_ok_def)

lemma filter_itoa: "filter (\<lambda>x. x \<noteq> itoa u) (map itoa q) = map itoa (filter (\<lambda>v. v \<noteq> u) q)"
  by (induction q) (auto simp: itoa_inj)

lemma implements_Enqueue: "in64 u \<Longrightarrow> implements (redisEnqueue mode u) (Enqueue mode u)"
  unfolding redisEnqueue_def Enqueue_def
  by (rule implements_cmd)
    (use queue_in64 represents_queue [of _ _ "_ @ [u]" mode] in \<open>auto simp: collection_defs rep_at pushQueue_def\<close>)

lemma implements_QueueLen: "implements (redisQueueLen mode) (QueueLen mode)"
  unfolding redisQueueLen_def QueueLen_def by (rule implements_ask) (simp add: collection_defs rep_at)

lemma implements_RemoveFromQueue: "implements (redisRemoveFromQueue mode u) (RemoveFromQueue mode u)"
  unfolding redisRemoveFromQueue_def RemoveFromQueue_def
proof (rule implements_cmd)
  fix R w assume r: "represents R w"
  then have "\<forall>v \<in> set (filter (\<lambda>v. v \<noteq> u) (rdQueues w mode)). in64 v" using queue_in64 by auto
  from represents_queue [OF r this]
  show "fst (cmdLRem (queueKey mode) (itoa u) R) = Inr () \<and> represents (snd (cmdLRem (queueKey mode) (itoa u) R)) (dropFromQueue mode u w)"
    by (simp add: collection_defs rep_at [OF r] dropFromQueue_def filter_itoa)
qed (simp add: dropFromQueue_def)

lemma implements_DequeueBatch:
  assumes "0 \<le> n"
  shows "implements (redisDequeueBatch mode n) (DequeueBatch mode n)"
  unfolding redisDequeueBatch_def DequeueBatch_def
proof (rule implements_call)
  fix R w assume r: "represents R w"
  let ?q = "rdQueues w mode" and ?c = "cmdLPopCount (queueKey mode) n"
  let ?R = "R(queueKey mode := unlessEmpty ListV (map itoa (drop (nat n) ?q)))"
  have in64: "\<forall>u \<in> set (drop (nat n) ?q). in64 u" "\<forall>u \<in> set (take (nat n) ?q). in64 u"
    using queue_in64 [OF r, of mode] by (auto dest: in_set_dropD in_set_takeD)
  have "?c R = (Inr (if ?q = [] then None else Some (map itoa (take (nat n) ?q))), ?R)"
    using assms by (simp add: collection_defs rep_at [OF r] drop_map take_map)
  moreover have "(case (if ?q = [] then None else Some (map itoa (take (nat n) ?q))) of None \<Rightarrow> ret [] | Some vs \<Rightarrow> liftE (parseUserIDs vs))
      = ret (take (nat n) ?q)"
    using parseUserIDs_itoa [OF in64(2)] by simp
  moreover have "represents ?R (popQueue mode n w)" using represents_queue [OF r in64(1)] by (simp add: popQueue_def)
  ultimately show "\<exists>a R'. ?c R = (Inr a, R') \<and> (case a of None \<Rightarrow> ret [] | Some vs \<Rightarrow> liftE (parseUserIDs vs)) = ret (take (nat n) ?q)
      \<and> represents R' (popQueue mode n w)"
    by blast
qed (simp add: popQueue_def)

lemma implements_GetUserStatus: "implements (redisGetUserStatus u) (GetUserStatus u)"
  unfolding redisGetUserStatus_def GetUserStatus_def
  by (rule implements_read) (auto simp: cmdGet_def rep_at split: option.splits)

lemma valueOf_user: "e \<noteq> QueueUser u \<Longrightarrow> valueOf (w\<lparr>rdQueueUsers := (rdQueueUsers w)(u := v)\<rparr>) e = valueOf w e"
  by (cases e) auto

lemma represents_user:
  assumes "represents R w"
  shows "represents (R(queueUserKey u := map_option (\<lambda>st. StringV (UserDoc st)) v)) (w\<lparr>rdQueueUsers := (rdQueueUsers w)(u := v)\<rparr>)"
  by (rule represents_upd [OF assms, of _ _ "QueueUser u"]) (use repD(9) [OF assms] in \<open>auto simp: numbers_ok_def valueOf_user\<close>)

lemma implements_SetUserStatus: "implements (redisSetUserStatus st) (SetUserStatus st)"
  unfolding redisSetUserStatus_def SetUserStatus_def
  by (rule implements_cmd) (use represents_user [of _ _ "quUserID st" "Some st"] in \<open>auto simp: cmdSet_def storeUser_def\<close>)

lemma implements_DeleteUserStatus: "implements (redisDeleteUserStatus u) (DeleteUserStatus u)"
  unfolding redisDeleteUserStatus_def DeleteUserStatus_def
  by (rule implements_cmd) (use represents_user [of _ _ u None] in \<open>auto simp: cmdDel_def forgetUser_def\<close>)

subsection \<open>Chunk states\<close>

lemma implements_GetState: "implements (redisGetState s c) (GetState s c)"
  unfolding redisGetState_def GetState_def
  by (rule implements_read) (auto simp: cmdGet_def rep_at split: option.splits)

lemma implements_ListClosedLeafChunkIDs: "implements (redisListClosedLeafChunkIDs s) (ListClosedLeafChunkIDs s)"
  unfolding redisListClosedLeafChunkIDs_def ListClosedLeafChunkIDs_def
  by (rule implements_ask) (simp add: collection_defs rep_at)

text \<open>The document first, then the set of closed chunks, in one transaction.\<close>

definition storeDoc :: "MineChunkState \<Rightarrow> world \<Rightarrow> world" where
  "storeDoc st w = w\<lparr>rdChunks := (rdChunks w)((csSeasonID st, csChunkID st) := Some st)\<rparr>"

lemma valueOf_storeDoc: "e \<noteq> ChunkState (csSeasonID st) (csChunkID st) \<Longrightarrow> valueOf (storeDoc st w) e = valueOf w e"
  by (cases e) (auto simp: storeDoc_def)

lemma represents_storeDoc:
  assumes "represents R w"
  shows "represents (R(mineChunkStateKey (csSeasonID st) (csChunkID st) := Some (StringV (ChunkDoc st)))) (storeDoc st w)"
  by (rule represents_upd [OF assms, of _ _ "ChunkState (csSeasonID st) (csChunkID st)"])
    (use repD(9) [OF assms] in \<open>auto simp: numbers_ok_def valueOf_storeDoc\<close>, simp_all add: storeDoc_def)

lemma valueOf_closed: "e \<noteq> ClosedSet s \<Longrightarrow> valueOf (w\<lparr>rdClosed := (rdClosed w)(s := xs)\<rparr>) e = valueOf w e"
  by (cases e) auto

lemma represents_closed:
  assumes "represents R w"
  shows "represents (R(mineClosedChunkSetKey s := unlessEmpty SetV xs)) (w\<lparr>rdClosed := (rdClosed w)(s := xs)\<rparr>)"
  by (rule represents_upd [OF assms, of _ _ "ClosedSet s"]) (use repD(9) [OF assms] in \<open>auto simp: numbers_ok_def valueOf_closed\<close>)

lemma implements_SaveState: "implements (redisSaveState st) (SaveState st)"
proof -
  let ?s = "csSeasonID st" and ?c = "csChunkID st"
  let ?set = "if csClosed st then cmdSAdd (mineClosedChunkSetKey ?s) ?c else cmdSRem (mineClosedChunkSetKey ?s) ?c"
  let ?tx = "txn [cmdSet (mineChunkStateKey ?s ?c) (ChunkDoc st), ?set]"
  let ?xs = "\<lambda>w. if csClosed st then List.insert ?c (rdClosed w ?s) else filter (\<lambda>x. x \<noteq> ?c) (rdClosed w ?s)"
  have "implements (send ?tx) (wr (\<lambda>_. ()) (storeChunk st))"
  proof (rule implements_cmd)
    fix R w assume "represents R w"
    let ?R = "R(mineChunkStateKey ?s ?c \<mapsto> StringV (ChunkDoc st))" and ?w = "storeDoc st w"
    from \<open>represents R w\<close> have r: "represents ?R ?w" by (rule represents_storeDoc)
    have c: "rdClosed ?w = rdClosed w" by (simp add: storeDoc_def)
    have "?set ?R = (Inr (), ?R(mineClosedChunkSetKey ?s := unlessEmpty SetV (?xs w)))"
      using rep_at(4) [OF r, of ?s] by (simp add: collection_defs c)
    then have "?tx R = (Inr (), ?R(mineClosedChunkSetKey ?s := unlessEmpty SetV (?xs w)))" by (simp add: cmdSet_def)
    moreover have "?w\<lparr>rdClosed := (rdClosed ?w)(?s := ?xs w)\<rparr> = storeChunk st w" by (simp add: storeDoc_def storeChunk_def)
    ultimately show "fst (?tx R) = Inr () \<and> represents (snd (?tx R)) (storeChunk st w)"
      using represents_closed [OF r, of ?s "?xs w"] by simp
  qed (simp add: storeChunk_def)
  then show ?thesis by (simp only: redisSaveState_def SaveState_def execTx_def list.distinct if_False)
qed

subsection \<open>Matches and locks\<close>

lemma implements_GetMatchState: "implements (redisGetMatchState m) (GetMatchState m)"
  unfolding redisGetMatchState_def GetMatchState_def
  by (rule implements_read) (auto simp: cmdGet_def rep_at split: option.splits)

lemma valueOf_match: "e \<noteq> MatchState m \<Longrightarrow> valueOf (w\<lparr>rdMineMatches := (rdMineMatches w)(m := v)\<rparr>) e = valueOf w e"
  by (cases e) auto

lemma represents_match:
  assumes "represents R w"
  shows "represents (R(mineMatchKey (mmMatchID st) := Some (StringV (MatchDoc st)))) (storeMatch st w)"
  unfolding storeMatch_def
  by (rule represents_upd [OF assms, of _ _ "MatchState (mmMatchID st)"]) (use repD(9) [OF assms] in \<open>auto simp: numbers_ok_def valueOf_match\<close>)

lemma implements_SaveMatchState: "implements (redisSaveMatchState st) (SaveMatchState st)"
  unfolding redisSaveMatchState_def SaveMatchState_def
  by (rule implements_cmd) (use represents_match in \<open>auto simp: cmdSet_def storeMatch_def\<close>)

text \<open>A number that is stored under a key.\<close>

lemma implements_getNumber:
  assumes "\<And>R w. represents R w \<Longrightarrow> R k = map_option (\<lambda>m. StringV (Plain (itoa m))) (f w)"
    "\<And>R w m. represents R w \<Longrightarrow> f w = Some m \<Longrightarrow> in64 m"
  shows "implements (getNumber k wrapE) (rd f)"
  unfolding getNumber_def
proof (rule implements_read)
  fix R w assume r: "represents R w"
  show "\<exists>a. cmdGet k R = (Inr a, R) \<and> (case a of None \<Rightarrow> ret None
      | Some v \<Rightarrow> (case (case v of Plain s \<Rightarrow> atoi s | _ \<Rightarrow> None) of
          None \<Rightarrow> fail (wrapE (Errorf ''strconv.ParseInt: invalid syntax'')) | Some m \<Rightarrow> ret (Some m))) = ret (f w)"
    using assms(1) [OF r] assms(2) [OF r] by (cases "f w") (simp_all add: cmdGet_def)
qed

lemma implements_userNumber: "implements (getNumber (mineMatchUserKey u) wrapE) (rd (\<lambda>w. rdUserMatch w u))"
  by (rule implements_getNumber) (use repD(9) in \<open>auto simp: rep_at numbers_ok_def\<close>)

lemma implements_lockNumber: "implements (getNumber (mineChunkLockKey s c) wrapE) (rd (\<lambda>w. rdChunkLock w (s, c)))"
  by (rule implements_getNumber) (use repD(9) in \<open>auto simp: rep_at numbers_ok_def\<close>)

lemma implements_GetActiveMatchByUser: "implements (redisGetActiveMatchByUser u) (GetActiveMatchByUser u)"
  unfolding redisGetActiveMatchByUser_def GetActiveMatchByUser_def
  by (rule implements_andThen [OF implements_userNumber])
    (auto split: option.split intro!: implements_ret implements_andThen [OF implements_GetMatchState])

lemma valueOf_bind: "e \<noteq> UserMatch u \<Longrightarrow> valueOf (bindUsers [u] v w) e = valueOf w e"
  by (cases e) (auto simp: bindUsers_def)

lemma represents_bind:
  assumes "represents R w" "\<And>m. v = Some m \<Longrightarrow> in64 m"
  shows "represents (R(mineMatchUserKey u := map_option (\<lambda>m. StringV (Plain (itoa m))) v)) (bindUsers [u] v w)"
proof (rule represents_upd [OF assms(1), of _ _ "UserMatch u"])
  show "numbers_ok (bindUsers [u] v w)" using assms(2) repD(9) [OF assms(1)] by (auto simp: numbers_ok_def bindUsers_def split: if_splits)
qed (simp_all add: valueOf_bind, simp add: bindUsers_def)

lemma bindUsers_Cons: "bindUsers (u # us) v w = bindUsers us v (bindUsers [u] v w)"
  by (cases w) (simp add: bindUsers_def fun_eq_iff)

lemma implements_pipeUsers:
  assumes "\<And>u R. c u R = (Inr (), R(mineMatchUserKey u := map_option (\<lambda>m. StringV (Plain (itoa m))) v))" "\<And>m. v = Some m \<Longrightarrow> in64 m"
  shows "implements (execTx (map c us)) (pipeUsers us v)"
proof -
  have tx: "fst (txn (map c us) R) = Inr () \<and> represents (snd (txn (map c us) R)) (bindUsers us v w)" if "represents R w" for R w
    using that
  proof (induction us arbitrary: R w)
    case Nil
    then show ?case by (simp add: bindUsers_def)
  next
    case (Cons u us)
    have r: "represents (R(mineMatchUserKey u := map_option (\<lambda>m. StringV (Plain (itoa m))) v)) (bindUsers [u] v w)"
      by (rule represents_bind [OF Cons.prems assms(2)])
    have "txn (map c (u # us)) R = txn (map c us) (R(mineMatchUserKey u := map_option (\<lambda>m. StringV (Plain (itoa m))) v))"
      by (simp only: list.map txn.simps assms(1) prod.case sum.case case_prod_beta prod.collapse fst_conv snd_conv)
    then show ?case using Cons.IH [OF r] by (simp only: bindUsers_Cons [of u us])
  qed
  have "implements (send (txn (map c us))) (wr (\<lambda>_. ()) (bindUsers us v))"
    by (rule implements_cmd) (use tx in \<open>auto simp: bindUsers_def\<close>)
  then show ?thesis by (simp add: execTx_def pipeUsers_def implements_ret)
qed

lemma implements_SetActiveMatchForUsers:
  "in64 (mmMatchID st) \<Longrightarrow> implements (redisSetActiveMatchForUsers st) (SetActiveMatchForUsers st)"
  unfolding redisSetActiveMatchForUsers_def SetActiveMatchForUsers_def
  by (rule implements_pipeUsers) (auto simp: cmdSet_def)

lemma implements_DeleteActiveMatchForUsers: "implements (redisDeleteActiveMatchForUsers st) (DeleteActiveMatchForUsers st)"
  unfolding redisDeleteActiveMatchForUsers_def DeleteActiveMatchForUsers_def
  by (rule implements_pipeUsers) (auto simp: cmdDel_def)

lemma implements_GetChunkLock: "implements (redisGetChunkLock s c) (GetChunkLock s c)"
proof -
  have "GetChunkLock s c = andThen (rd (\<lambda>w. rdChunkLock w (s, c))) (\<lambda>raw. ret (case raw of None \<Rightarrow> 0 | Some m \<Rightarrow> m))"
    by (simp add: GetChunkLock_def rd_def andThen_def ret_def fun_eq_iff split: prod.splits outcome.splits)
  then show ?thesis unfolding redisGetChunkLock_def by (simp add: implements_andThen [OF implements_lockNumber] implements_ret)
qed

lemma valueOf_lock: "e \<noteq> ChunkLock s c \<Longrightarrow> valueOf (w\<lparr>rdChunkLock := (rdChunkLock w)((s, c) := v)\<rparr>) e = valueOf w e"
  by (cases e) auto

lemma represents_lock:
  assumes "represents R w" "\<And>m. v = Some m \<Longrightarrow> in64 m"
  shows "represents (R(mineChunkLockKey s c := map_option (\<lambda>m. StringV (Plain (itoa m))) v)) (w\<lparr>rdChunkLock := (rdChunkLock w)((s, c) := v)\<rparr>)"
  by (rule represents_upd [OF assms(1), of _ _ "ChunkLock s c"])
    (use assms(2) repD(9) [OF assms(1)] in \<open>auto simp: numbers_ok_def valueOf_lock\<close>)

lemma implements_TryLockChunk:
  assumes "in64 m"
  shows "implements (redisTryLockChunk s c m) (TryLockChunk s c m)"
  unfolding redisTryLockChunk_def TryLockChunk_def
proof (rule implements_cmd)
  fix R w assume r: "represents R w"
  show "fst (cmdSetNX (mineChunkLockKey s c) (Plain (itoa m)) R) = Inr (rdChunkLock w (s, c) = None)
      \<and> represents (snd (cmdSetNX (mineChunkLockKey s c) (Plain (itoa m)) R)) (takeLock (s, c) m w)"
    using represents_lock [OF r, of "Some m" s c] rep_at(7) [OF r, of s c] assms r
    by (cases "rdChunkLock w (s, c)") (simp_all add: cmdSetNX_def takeLock_def)
qed (simp add: takeLock_def)

lemma implements_UnlockChunk: "implements (redisUnlockChunk s c m) (UnlockChunk s c m)"
proof -
  have "implements (send (cmdDel (mineChunkLockKey s c))) (wr (\<lambda>_. ()) (dropLock (s, c)))"
    by (rule implements_cmd) (use represents_lock [of _ _ None s c] in \<open>auto simp: cmdDel_def dropLock_def\<close>)
  then show ?thesis unfolding redisUnlockChunk_def UnlockChunk_def
    by (auto split: option.split intro!: implements_ret implements_andThen [OF implements_lockNumber])
qed

subsection \<open>The leaderboard\<close>

definition boardOf :: "(int, int) gomap \<Rightarrow> (string, rat) gomap" where
  "boardOf b = map (\<lambda>(u, s). (itoa u, scoreFloat s)) b"

lemma boardOf_mput: "mput (itoa u) (scoreFloat s) (boardOf b) = boardOf (mput u s b)"
  by (induction b) (auto simp: boardOf_def itoa_inj)

lemma boardOf_exact: "board_ok b \<Longrightarrow> boardOf b = map (\<lambda>(u, s). (itoa u, of_int s)) b"
  by (auto simp: board_ok_def boardOf_def scoreFloat_exact)

lemma rep_board: "represents R w \<Longrightarrow> board_ok (rdLeaderboard w mode)"
  by (simp add: represents_def numbers_ok_def)

lemma board_ok_mput: "board_ok b \<Longrightarrow> in64 u \<Longrightarrow> \<bar>s\<bar> < 2 ^ 53 \<Longrightarrow> board_ok (mput u s b)"
  by (induction b) (auto simp: board_ok_def split: if_splits)

lemma insort_key_map: "insort_key f (g x) (map g xs) = map g (insort_key (\<lambda>y. f (g y)) x xs)"
  by (induction xs) auto

lemma sort_key_map: "sort_key f (map g xs) = map g (sort_key (\<lambda>y. f (g y)) xs)"
  by (induction xs) (simp_all add: insort_key_map)

lemma insort_key_mono:
  fixes f :: "'a \<Rightarrow> 'b :: linorder" and g :: "'a \<Rightarrow> 'c :: linorder"
  assumes "\<And>x y. f x \<le> f y \<longleftrightarrow> g x \<le> g y"
  shows "insort_key f x xs = insort_key g x xs"
  by (induction xs) (auto simp: assms)

lemma sort_key_mono:
  fixes f :: "'a \<Rightarrow> 'b :: linorder" and g :: "'a \<Rightarrow> 'c :: linorder"
  assumes "\<And>x y. f x \<le> f y \<longleftrightarrow> g x \<le> g y"
  shows "sort_key f xs = sort_key g xs"
  by (induction xs) (simp_all add: insort_key_mono [OF assms])

lemma sort_boardOf: "board_ok b \<Longrightarrow> sort_key (\<lambda>(m, s). (s, m)) (boardOf b) = boardOf (sort_key (\<lambda>(u, s). (s, itoa u)) b)"
proof -
  assume b: "board_ok b"
  have ok: "board_ok (sort_key (\<lambda>(u, s). (s, itoa u)) b)" using b by (simp add: board_ok_def)
  have "sort_key (\<lambda>(m, s). (s, m)) (boardOf b) = map (\<lambda>(u, s). (itoa u, of_int s))
      (sort_key (\<lambda>p. case (case p of (u, s) \<Rightarrow> (itoa u, of_int s :: rat)) of (m, s) \<Rightarrow> (s, m)) b)"
    by (simp only: boardOf_exact [OF b] sort_key_map)
  also have "sort_key (\<lambda>p. case (case p of (u, s) \<Rightarrow> (itoa u, of_int s :: rat)) of (m, s) \<Rightarrow> (s, m)) b = sort_key (\<lambda>(u, s). (s, itoa u)) b"
    by (rule sort_key_mono) (auto simp: less_eq_prod_def)
  finally show ?thesis by (simp add: boardOf_exact [OF ok])
qed

lemma parseBoard_boardOf: "board_ok b \<Longrightarrow> parseBoard (boardOf b) = Inr b"
  by (induction b) (auto simp: board_ok_def boardOf_def scoreFloat_exact)

lemma implements_ListTopN: "implements (redisListTopN mode limit) (ListTopN mode limit)"
  unfolding redisListTopN_def ListTopN_def
proof (rule implements_read)
  fix R w assume r: "represents R w"
  let ?b = "rdLeaderboard w mode" and ?c = "cmdZRevRange (leaderboardKey mode) (limit - 1)"
  note ok = rep_board [OF r, of mode]
  have "board_ok (zrevrange (limit - 1) ?b)" using ok unfolding board_ok_def zrevrange_def by (auto dest!: in_set_takeD)
  then have p: "parseBoard (boardOf (zrevrange (limit - 1) ?b)) = Inr (zrevrange (limit - 1) ?b)" by (rule parseBoard_boardOf)
  have "R (leaderboardKey mode) = unlessEmpty ZSetV (boardOf ?b)" using rep_at(8) [OF r] by (simp add: boardOf_def)
  moreover have "mlen (boardOf ?b) = mlen ?b" by (simp add: mlen_def boardOf_def)
  ultimately have "?c R = (Inr (boardOf (zrevrange (limit - 1) ?b)), R)"
    by (simp add: collection_defs sort_boardOf [OF ok] zrevrange_def) (simp add: boardOf_def take_map rev_map)
  then show "\<exists>a. ?c R = (Inr a, R) \<and> liftE (parseBoard a) = ret (zrevrange (limit - 1) ?b)" using p by simp
qed

lemma valueOf_board: "e \<noteq> Board mode \<Longrightarrow> valueOf (w\<lparr>rdLeaderboard := (rdLeaderboard w)(mode := b)\<rparr>) e = valueOf w e"
  by (cases e) auto

lemma represents_board:
  assumes "represents R w" "board_ok b"
  shows "represents (R(leaderboardKey mode := unlessEmpty ZSetV (boardOf b))) (w\<lparr>rdLeaderboard := (rdLeaderboard w)(mode := b)\<rparr>)"
  by (rule represents_upd [OF assms(1), of _ _ "Board mode"])
    (use assms(2) repD(9) [OF assms(1)] in \<open>auto simp: numbers_ok_def valueOf_board boardOf_def\<close>)

lemma implements_SetPlayerScore:
  assumes "in64 u" "\<bar>score\<bar> < 2 ^ 53"
  shows "implements (redisSetPlayerScore mode u score) (SetPlayerScore mode u score)"
  unfolding redisSetPlayerScore_def SetPlayerScore_def
proof (rule implements_cmd)
  fix R w assume r: "represents R w"
  have "R (leaderboardKey mode) = unlessEmpty ZSetV (boardOf (rdLeaderboard w mode))" using rep_at(8) [OF r] by (simp add: boardOf_def)
  then show "fst (cmdZAdd (leaderboardKey mode) (itoa u) (scoreFloat score) R) = Inr ()
      \<and> represents (snd (cmdZAdd (leaderboardKey mode) (itoa u) (scoreFloat score) R)) (zadd mode u score w)"
    using represents_board [OF r board_ok_mput [OF rep_board [OF r] assms]]
    by (simp add: collection_defs boardOf_mput zadd_def)
qed (simp add: zadd_def)

section \<open>No client can tell\<close>

text \<open>The calls of the repositories, and what they answer.\<close>

datatype repoCall =
    CallEnqueue string int | CallQueueLen string | CallDequeueBatch string int | CallRemoveFromQueue string int
  | CallGetUserStatus int | CallSetUserStatus QueueUserState | CallDeleteUserStatus int
  | CallGetState int string | CallSaveState MineChunkState | CallListClosed int
  | CallGetMatchState int | CallSaveMatchState MineMatchState | CallGetActive int | CallSetActive MineMatchState
  | CallDeleteActive MineMatchState | CallGetLock int string | CallTryLock int string int | CallUnlock int string int
  | CallSetScore string int int | CallListTopN string int

datatype repoReply = RUnit | RInt int | RBool bool | RIDs "int list" | RUser "QueueUserState option" | RChunk "MineChunkState option"
  | RClosed "string list" | RMatch "MineMatchState option" | RBoard "(int \<times> int) list"

definition answering :: "('a \<Rightarrow> repoReply) \<Rightarrow> ('w, err, 'a) prog \<Rightarrow> ('w, err, repoReply) prog" where
  "answering f m = andThen m (\<lambda>a. ret (f a))"

fun onRedis :: "repoCall \<Rightarrow> repoReply rio" where
  "onRedis (CallEnqueue mode u) = answering (\<lambda>_. RUnit) (redisEnqueue mode u)"
| "onRedis (CallQueueLen mode) = answering RInt (redisQueueLen mode)"
| "onRedis (CallDequeueBatch mode n) = answering RIDs (redisDequeueBatch mode n)"
| "onRedis (CallRemoveFromQueue mode u) = answering (\<lambda>_. RUnit) (redisRemoveFromQueue mode u)"
| "onRedis (CallGetUserStatus u) = answering RUser (redisGetUserStatus u)"
| "onRedis (CallSetUserStatus st) = answering (\<lambda>_. RUnit) (redisSetUserStatus st)"
| "onRedis (CallDeleteUserStatus u) = answering (\<lambda>_. RUnit) (redisDeleteUserStatus u)"
| "onRedis (CallGetState s c) = answering RChunk (redisGetState s c)"
| "onRedis (CallSaveState st) = answering (\<lambda>_. RUnit) (redisSaveState st)"
| "onRedis (CallListClosed s) = answering RClosed (redisListClosedLeafChunkIDs s)"
| "onRedis (CallGetMatchState m) = answering RMatch (redisGetMatchState m)"
| "onRedis (CallSaveMatchState st) = answering (\<lambda>_. RUnit) (redisSaveMatchState st)"
| "onRedis (CallGetActive u) = answering RMatch (redisGetActiveMatchByUser u)"
| "onRedis (CallSetActive st) = answering (\<lambda>_. RUnit) (redisSetActiveMatchForUsers st)"
| "onRedis (CallDeleteActive st) = answering (\<lambda>_. RUnit) (redisDeleteActiveMatchForUsers st)"
| "onRedis (CallGetLock s c) = answering RInt (redisGetChunkLock s c)"
| "onRedis (CallTryLock s c m) = answering RBool (redisTryLockChunk s c m)"
| "onRedis (CallUnlock s c m) = answering (\<lambda>_. RUnit) (redisUnlockChunk s c m)"
| "onRedis (CallSetScore mode u n) = answering (\<lambda>_. RUnit) (redisSetPlayerScore mode u n)"
| "onRedis (CallListTopN mode n) = answering RBoard (redisListTopN mode n)"

fun onFields :: "repoCall \<Rightarrow> repoReply io" where
  "onFields (CallEnqueue mode u) = answering (\<lambda>_. RUnit) (Enqueue mode u)"
| "onFields (CallQueueLen mode) = answering RInt (QueueLen mode)"
| "onFields (CallDequeueBatch mode n) = answering RIDs (DequeueBatch mode n)"
| "onFields (CallRemoveFromQueue mode u) = answering (\<lambda>_. RUnit) (RemoveFromQueue mode u)"
| "onFields (CallGetUserStatus u) = answering RUser (GetUserStatus u)"
| "onFields (CallSetUserStatus st) = answering (\<lambda>_. RUnit) (SetUserStatus st)"
| "onFields (CallDeleteUserStatus u) = answering (\<lambda>_. RUnit) (DeleteUserStatus u)"
| "onFields (CallGetState s c) = answering RChunk (GetState s c)"
| "onFields (CallSaveState st) = answering (\<lambda>_. RUnit) (SaveState st)"
| "onFields (CallListClosed s) = answering RClosed (ListClosedLeafChunkIDs s)"
| "onFields (CallGetMatchState m) = answering RMatch (GetMatchState m)"
| "onFields (CallSaveMatchState st) = answering (\<lambda>_. RUnit) (SaveMatchState st)"
| "onFields (CallGetActive u) = answering RMatch (GetActiveMatchByUser u)"
| "onFields (CallSetActive st) = answering (\<lambda>_. RUnit) (SetActiveMatchForUsers st)"
| "onFields (CallDeleteActive st) = answering (\<lambda>_. RUnit) (DeleteActiveMatchForUsers st)"
| "onFields (CallGetLock s c) = answering RInt (GetChunkLock s c)"
| "onFields (CallTryLock s c m) = answering RBool (TryLockChunk s c m)"
| "onFields (CallUnlock s c m) = answering (\<lambda>_. RUnit) (UnlockChunk s c m)"
| "onFields (CallSetScore mode u n) = answering (\<lambda>_. RUnit) (SetPlayerScore mode u n)"
| "onFields (CallListTopN mode n) = answering RBoard (ListTopN mode n)"

text \<open>Numbers that are stored fit an \<^verbatim>\<open>int64\<close>; queues are asked for groups, not for negative numbers of players;
  scores stay where a \<^verbatim>\<open>float64\<close> is exact.\<close>

fun callOk :: "repoCall \<Rightarrow> bool" where
  "callOk (CallEnqueue mode u) = in64 u"
| "callOk (CallDequeueBatch mode n) = (0 \<le> n)"
| "callOk (CallSetActive st) = in64 (mmMatchID st)"
| "callOk (CallTryLock s c m) = in64 m"
| "callOk (CallSetScore mode u n) = (in64 u \<and> \<bar>n\<bar> < 2 ^ 53)"
| "callOk _ = True"

lemma implements_answering: "implements p m \<Longrightarrow> implements (answering f p) (answering f m)"
  unfolding answering_def by (rule implements_andThen) (simp_all add: implements_ret)

lemma implements_repoCall: "callOk c \<Longrightarrow> implements (onRedis c) (onFields c)"
  by (cases c)
    (auto intro!: implements_answering implements_Enqueue implements_QueueLen implements_DequeueBatch implements_RemoveFromQueue
      implements_GetUserStatus implements_SetUserStatus implements_DeleteUserStatus implements_GetState implements_SaveState
      implements_ListClosedLeafChunkIDs implements_GetMatchState implements_SaveMatchState implements_GetActiveMatchByUser
      implements_SetActiveMatchForUsers implements_DeleteActiveMatchForUsers implements_GetChunkLock implements_TryLockChunk
      implements_UnlockChunk implements_SetPlayerScore implements_ListTopN)

text \<open>A client makes a call, sees the answer or the error, and decides what it calls next.\<close>

datatype client = Finish | Ask repoCall "err + repoReply \<Rightarrow> client"

primrec clientOk :: "client \<Rightarrow> bool" where
  "clientOk Finish = True"
| "clientOk (Ask c k) = (callOk c \<and> (\<forall>r. clientOk (k r)))"

primrec clientRun :: "(repoCall \<Rightarrow> ('w, err, repoReply) prog) \<Rightarrow> client \<Rightarrow> 'w \<Rightarrow> (err + repoReply) list \<times> 'w" where
  "clientRun run Finish w = ([], w)"
| "clientRun run (Ask c k) w = (case clientRun run (k (fst (run c w))) (snd (run c w)) of (rs, w') \<Rightarrow> (fst (run c w) # rs, w'))"

lemma answers_agree:
  "clientOk p \<Longrightarrow> mirrors s w \<Longrightarrow> fst (clientRun onRedis p s) = fst (clientRun onFields p w) \<and>
     mirrors (snd (clientRun onRedis p s)) (snd (clientRun onFields p w))"
proof (induction p arbitrary: s w)
  case Finish
  then show ?case by simp
next
  case (Ask c k)
  have "implements (onRedis c) (onFields c)" using Ask.prems(1) by (simp add: implements_repoCall)
  then have "fst (onRedis c s) = fst (onFields c w)" "mirrors (snd (onRedis c s)) (snd (onFields c w))"
    using Ask.prems(2) by (simp_all add: implements_def)
  moreover have "clientOk (k r)" for r using Ask.prems(1) by simp
  ultimately show ?case
    using Ask.IH [OF rangeI, of "fst (onFields c w)" "snd (onRedis c s)" "snd (onFields c w)"] by (simp add: case_prod_beta)
qed

definition emptyRedis :: redisWorld where
  "emptyRedis = \<lparr>rsNet = [], rsKeys = (\<lambda>_. None)\<rparr>"

lemma mirrors_empty: "mirrors (emptyRedis\<lparr>rsNet := os\<rparr>) (emptyWorld\<lparr>net := os\<rparr>)"
proof -
  have "valueOf emptyWorld e = None" for e by (cases e) (simp_all add: emptyWorld_def unlessEmpty_def)
  moreover have "numbers_ok emptyWorld" by (simp add: numbers_ok_def emptyWorld_def board_ok_def)
  ultimately show ?thesis by (simp add: mirrors_def emptyRedis_def represents_def) (simp add: numbers_ok_def)
qed

text \<open>(C11) The Redis repositories promise what their models say. Take any client of the repositories of queues, chunks, matches,
  locks and the leaderboard, which decides on every answer and every error what it calls next, and any pattern of lost and
  unacknowledged commands. On one flat Redis database, with the keys and commands of the code, it gets exactly the answers it
  gets on the separate fields of the model, and afterwards the keys still mirror the fields. In particular no write to one
  entry ever changes another entry.\<close>

theorem clients_cannot_tell:
  assumes "clientOk p"
  shows "fst (clientRun onRedis p (emptyRedis\<lparr>rsNet := os\<rparr>)) = fst (clientRun onFields p (emptyWorld\<lparr>net := os\<rparr>))
    \<and> (\<forall>e. rsKeys (snd (clientRun onRedis p (emptyRedis\<lparr>rsNet := os\<rparr>))) (keyOf e)
          = valueOf (snd (clientRun onFields p (emptyWorld\<lparr>net := os\<rparr>))) e)"
proof -
  note a = answers_agree [OF assms mirrors_empty, of os]
  then have "represents (rsKeys (snd (clientRun onRedis p (emptyRedis\<lparr>rsNet := os\<rparr>)))) (snd (clientRun onFields p (emptyWorld\<lparr>net := os\<rparr>)))"
    by (simp add: mirrors_def)
  then show ?thesis using a by (simp add: represents_def)
qed

text \<open>Match 7 takes a lock, the answer gets lost, it asks who holds it, match 8 tries to release it.\<close>

definition lockClient :: client where
  "lockClient = Ask (CallTryLock 1 ''cn:6:10:20'' 7) (\<lambda>_. Ask (CallUnlock 1 ''cn:6:10:20'' 8) (\<lambda>_.
     Ask (CallGetLock 1 ''cn:6:10:20'') (\<lambda>_. Finish)))"

lemma clients_cannot_tell_witness:
  "fst (clientRun onRedis lockClient (emptyRedis\<lparr>rsNet := [Unacked]\<rparr>)) = [Inl StoreErr, Inr RUnit, Inr (RInt 7)]"
proof -
  have "clientOk lockClient" by (simp add: lockClient_def in64_def)
  moreover have "fst (clientRun onFields lockClient (emptyWorld\<lparr>net := [Unacked]\<rparr>)) = [Inl StoreErr, Inr RUnit, Inr (RInt 7)]"
    by (simp add: lockClient_def answering_def andThen_def ret_def TryLockChunk_def UnlockChunk_def GetChunkLock_def takeLock_def
        wr_def popNet_def emptyWorld_def)
  ultimately show ?thesis using clients_cannot_tell [of lockClient "[Unacked]"] by simp
qed

end
