(* ===== verification/Duration.thy ===== *)
theory Duration
  imports GoStrings Float64
begin

text \<open>
  \<^verbatim>\<open>time.ParseDuration\<close>, which \<^verbatim>\<open>config/config.go\<close> reads the closing time of a chunk with: a sign, then numbers with
  their units, each number with an optional fraction. The arithmetic is the library's, on unsigned 64-bit
  values with its overflow checks; the fraction goes through binary64. None stands for its errors.
\<close>

section \<open>The parts of a number\<close>

text \<open>\<^verbatim>\<open>leadingInt\<close>: the value of the leading digits and the rest, None when it exceeds \<open>2 ^ 63\<close>.\<close>

fun leadingInt :: "int \<Rightarrow> string \<Rightarrow> (int \<times> string) option" where
  "leadingInt x [] = Some (x, [])"
| "leadingInt x (c # cs) =
     (if \<not> is_digit c then Some (x, c # cs)
      else if x > 2 ^ 63 div 10 then None
      else let x' = x * 10 + int (digit_val c) in if x' > 2 ^ 63 then None else leadingInt x' cs)"

text \<open>\<^verbatim>\<open>leadingFraction\<close>: digits that no longer fit are read over. The scale is a binary64 power of ten.\<close>

fun times10 :: "f64 \<Rightarrow> f64" where
  "times10 (Fin a) = (let r = rnd64 (a * 10) in if 2 ^ 1024 \<le> r then PInf else Fin r)"
| "times10 x = x"

fun leadingFraction :: "int \<Rightarrow> f64 \<Rightarrow> bool \<Rightarrow> string \<Rightarrow> int \<times> f64 \<times> string" where
  "leadingFraction x scale overflow [] = (x, scale, [])"
| "leadingFraction x scale overflow (c # cs) =
     (if \<not> is_digit c then (x, scale, c # cs)
      else if overflow \<or> x > (2 ^ 63 - 1) div 10 then leadingFraction x scale True cs
      else let y = x * 10 + int (digit_val c) in
        if y > 2 ^ 63 then leadingFraction x scale True cs else leadingFraction y (times10 scale) False cs)"

text \<open>The units; micro is written with the sign U+00B5 or the letter U+03BC too, in UTF-8.\<close>

definition unitOf :: "string \<Rightarrow> int option" where
  "unitOf u = map_of
     [(''ns'', 1), (''us'', 1000), ([CHR 0xC2, CHR 0xB5, CHR ''s''], 1000), ([CHR 0xCE, CHR 0xBC, CHR ''s''], 1000),
      (''ms'', 1000000), (''s'', 1000000000), (''m'', 60000000000), (''h'', 3600000000000)] u"

text \<open>\<^verbatim>\<open>uint64(float64(f) * (float64(unit) / scale))\<close>.\<close>

fun fractionOf :: "int \<Rightarrow> int \<Rightarrow> f64 \<Rightarrow> int" where
  "fractionOf f unit (Fin scale) = \<lfloor>rnd64 (rnd64 (of_int f) * rnd64 (of_int unit / scale))\<rfloor>"
| "fractionOf f unit _ = 0"

definition isUnitChar :: "char \<Rightarrow> bool" where
  "isUnitChar c \<longleftrightarrow> c \<noteq> CHR ''.'' \<and> \<not> is_digit c"

text \<open>The optional fraction: its digits, its scale, the rest, and whether there was a digit.\<close>

definition fractionPart :: "string \<Rightarrow> int \<times> f64 \<times> string \<times> bool" where
  "fractionPart s = (case s of
     [] \<Rightarrow> (0, Fin 1, s, False)
   | c # t \<Rightarrow>
       if c \<noteq> CHR ''.'' then (0, Fin 1, s, False)
       else (case leadingFraction 0 (Fin 1) False t of (f, scale, t') \<Rightarrow> (f, scale, t', length t' \<noteq> length t)))"

text \<open>One number with its unit: its value in nanoseconds, and the rest of the text.\<close>

definition nextPart :: "string \<Rightarrow> (int \<times> string) option" where
  "nextPart s =
     (if \<not> (case s of [] \<Rightarrow> False | c # _ \<Rightarrow> c = CHR ''.'' \<or> is_digit c) then None
      else (case leadingInt 0 s of
        None \<Rightarrow> None
      | Some (v, s1) \<Rightarrow>
          let pre = length s1 \<noteq> length s;
              (f, scale, s2, post) = fractionPart s1;
              u = takeWhile isUnitChar s2; s3 = dropWhile isUnitChar s2
          in if \<not> pre \<and> \<not> post then None
             else if u = [] then None
             else (case unitOf u of
               None \<Rightarrow> None
             | Some unit \<Rightarrow>
                 if v > 2 ^ 63 div unit then None
                 else let v' = (if f > 0 then v * unit + fractionOf f unit scale else v * unit)
                      in if v' > 2 ^ 63 then None else Some (v', s3))))"

section \<open>The loop\<close>

lemma leadingInt_rest: "leadingInt x s = Some (v, r) \<Longrightarrow> length r \<le> length s"
  by (induction x s rule: leadingInt.induct) (auto simp: Let_def split: if_splits)

lemma leadingFraction_rest: "length (snd (snd (leadingFraction x sc ov s))) \<le> length s"
  by (induction x sc ov s rule: leadingFraction.induct) (auto simp: Let_def)

lemma dropWhile_shorter: "takeWhile P s \<noteq> [] \<Longrightarrow> length (dropWhile P s) < length s"
  by (cases s) (auto simp: length_dropWhile_le le_imp_less_Suc split: if_splits)

lemma fractionPart_rest: "length (fst (snd (snd (fractionPart s)))) \<le> length s"
  using leadingFraction_rest [of 0 "Fin 1" False "tl s"] by (auto simp: fractionPart_def split: list.split prod.splits)

lemma nextPart_rest: "nextPart s = Some (v, r) \<Longrightarrow> length r < length s"
proof -
  assume n: "nextPart s = Some (v, r)"
  then obtain w s1 where i: "leadingInt 0 s = Some (w, s1)"
    by (auto simp: nextPart_def split: option.splits if_splits)
  obtain f sc s2 post where q: "fractionPart s1 = (f, sc, s2, post)" by (cases "fractionPart s1")
  have "takeWhile isUnitChar s2 \<noteq> [] \<and> r = dropWhile isUnitChar s2"
    using n by (auto simp: nextPart_def i q Let_def split: if_splits option.splits)
  moreover have "length s2 \<le> length s1" using fractionPart_rest [of s1] q by simp
  ultimately show ?thesis using dropWhile_shorter [of isUnitChar s2] leadingInt_rest [OF i] by simp
qed

function partsLoop :: "int \<Rightarrow> string \<Rightarrow> int option" where
  "partsLoop d s =
     (if s = [] then Some d
      else (case nextPart s of
        None \<Rightarrow> None
      | Some (v, s') \<Rightarrow> if d + v > 2 ^ 63 then None else partsLoop (d + v) s'))"
  by pat_completeness auto

termination partsLoop
  by (relation "measure (\<lambda>(d, s). length s)") (auto dest: nextPart_rest)

declare partsLoop.simps [simp del]

definition ParseDuration :: "string \<Rightarrow> int option" where
  "ParseDuration raw =
     (case sign_split raw of (neg, s) \<Rightarrow>
        if s = ''0'' then Some 0
        else if s = '''' then None
        else (case partsLoop 0 s of
          None \<Rightarrow> None
        | Some d \<Rightarrow> if neg then Some (- d) else if d > 2 ^ 63 - 1 then None else Some d))"

section \<open>Range\<close>

lemma leadingInt_nonneg: "leadingInt x s = Some (v, r) \<Longrightarrow> 0 \<le> x \<Longrightarrow> 0 \<le> v"
  by (induction x s rule: leadingInt.induct) (auto simp: Let_def split: if_splits)

lemma rnd64_nonneg: "0 \<le> x \<Longrightarrow> 0 \<le> rnd64 x"
proof -
  assume "0 \<le> x"
  then have "0 \<le> round_even (x / pow2 e)" for e
  proof -
    have "0 \<le> \<lfloor>x / pow2 e\<rfloor>" using \<open>0 \<le> x\<close> pow2_pos [of e] by (simp add: less_imp_le)
    then show ?thesis by (simp add: round_even_def Let_def)
  qed
  then show ?thesis by (simp add: rnd64_def Let_def less_imp_le)
qed

lemma leadingFraction_nonneg:
  "leadingFraction x sc ov s = (f, sc', r) \<Longrightarrow> 0 \<le> x \<Longrightarrow> (\<forall>a. sc = Fin a \<longrightarrow> 0 \<le> a) \<Longrightarrow>
   0 \<le> f \<and> (\<forall>a. sc' = Fin a \<longrightarrow> 0 \<le> a)"
proof (induction x sc ov s rule: leadingFraction.induct)
  case (2 x sc ov c cs)
  have "\<forall>a. times10 sc = Fin a \<longrightarrow> 0 \<le> a"
    using 2(6) by (cases sc) (auto simp: Let_def rnd64_nonneg split: if_splits)
  then show ?case using 2 by (auto simp: Let_def split: if_splits)
qed simp

lemma fractionOf_nonneg: "0 \<le> f \<Longrightarrow> 0 \<le> unit \<Longrightarrow> (\<And>a. sc = Fin a \<Longrightarrow> 0 \<le> a) \<Longrightarrow> 0 \<le> fractionOf f unit sc"
  by (cases sc) (auto intro!: rnd64_nonneg mult_nonneg_nonneg)

lemma unitOf_pos: "unitOf u = Some k \<Longrightarrow> 0 < k"
  by (auto simp: unitOf_def split: if_splits)

lemma nextPart_nonneg:
  assumes n: "nextPart s = Some (v, r)"
  shows "0 \<le> v"
proof -
  obtain w s1 where i: "leadingInt 0 s = Some (w, s1)" using n by (auto simp: nextPart_def split: option.splits if_splits)
  obtain f sc s2 post where q: "fractionPart s1 = (f, sc, s2, post)" by (cases "fractionPart s1")
  have f: "0 \<le> f \<and> (\<forall>a. sc = Fin a \<longrightarrow> 0 \<le> a)"
    using q leadingFraction_nonneg [of 0 "Fin 1" False "tl s1"] by (auto simp: fractionPart_def split: list.splits if_splits prod.splits)
  obtain k where k: "unitOf (takeWhile isUnitChar s2) = Some k" and v: "v = (if f > 0 then w * k + fractionOf f k sc else w * k)"
    using n by (auto simp: nextPart_def i q Let_def split: if_splits option.splits)
  have "0 \<le> w" by (rule leadingInt_nonneg [OF i]) simp
  moreover have "0 \<le> fractionOf f k sc" using f unitOf_pos [OF k] by (intro fractionOf_nonneg) auto
  ultimately show ?thesis using v unitOf_pos [OF k] by simp
qed

lemma partsLoop_range: "partsLoop d s = Some r \<Longrightarrow> 0 \<le> d \<Longrightarrow> d \<le> 2 ^ 63 \<Longrightarrow> 0 \<le> r \<and> r \<le> 2 ^ 63"
proof (induction d s rule: partsLoop.induct)
  case (1 d s)
  show ?case
  proof (cases "s = []")
    case False
    then obtain v s' where n: "nextPart s = Some (v, s')" and le: "\<not> d + v > 2 ^ 63" and run: "partsLoop (d + v) s' = Some r"
      using 1(2) by (subst (asm) partsLoop.simps) (auto split: option.splits if_splits)
    show ?thesis by (rule 1(1) [OF False n refl le run]) (use 1(3) nextPart_nonneg [OF n] le in simp_all)
  qed (use 1 in \<open>simp add: partsLoop.simps\<close>)
qed

lemma ParseDuration_range: "ParseDuration raw = Some d \<Longrightarrow> in64 d"
  using partsLoop_range [of 0 "snd (sign_split raw)"]
  by (auto simp: ParseDuration_def in64_def split: prod.splits option.splits if_splits)

section \<open>Reading what was printed\<close>

lemma digits_val_ge: "acc \<le> digits_val acc ds"
proof (induction ds arbitrary: acc)
  case (Cons c ds)
  have "10 * acc + digit_val c \<le> digits_val (10 * acc + digit_val c) ds" by (rule Cons.IH)
  then show ?case by simp
qed simp

lemma leadingInt_digits:
  "list_all is_digit ds \<Longrightarrow> (case t of [] \<Rightarrow> True | c # _ \<Rightarrow> \<not> is_digit c) \<Longrightarrow> int (digits_val n ds) \<le> 2 ^ 63 \<Longrightarrow>
   leadingInt (int n) (ds @ t) = Some (int (digits_val n ds), t)"
proof (induction ds arbitrary: n)
  case Nil
  then show ?case by (cases t) simp_all
next
  case (Cons c ds)
  let ?m = "10 * n + digit_val c"
  have "int ?m \<le> 2 ^ 63" using Cons.prems(3) digits_val_ge [of ?m ds] by simp
  then have "\<not> int n > 2 ^ 63 div 10" "\<not> int n * 10 + int (digit_val c) > 2 ^ 63" by simp_all
  moreover have "int n * 10 + int (digit_val c) = int ?m" by simp
  moreover have "leadingInt (int ?m) (ds @ t) = Some (int (digits_val ?m ds), t)"
    by (rule Cons.IH) (use Cons.prems in simp_all)
  moreover have "is_digit c" using Cons.prems(1) by simp
  ultimately show ?case by (simp only: append_Cons leadingInt.simps Let_def if_False not_True_eq_False digits_val.simps)
qed

lemma nextPart_printed:
  assumes u: "unitOf u = Some k" "u \<noteq> []" "list_all isUnitChar u" and le: "int n * k \<le> 2 ^ 63"
    and t: "case t of [] \<Rightarrow> True | c # _ \<Rightarrow> is_digit c"
  shows "nextPart (itoa_nat n @ u @ t) = Some (int n * k, t)"
proof -
  have k: "1 \<le> k" using unitOf_pos [OF u(1)] by simp
  then have "int n \<le> int n * k" by (simp add: mult_le_cancel_left1)
  then have n: "int (digits_val 0 (itoa_nat n)) \<le> 2 ^ 63" using le by (simp add: digits_val_itoa_nat)
  have nd: "case u @ t of [] \<Rightarrow> True | c # _ \<Rightarrow> \<not> is_digit c" using u(2,3) by (cases u) (auto simp: isUnitChar_def)
  obtain c cs where c: "itoa_nat n = c # cs" using itoa_nat_nonempty by (cases "itoa_nat n") auto
  then have head: "is_digit c" by (rule itoa_nat_head_digit)
  have i: "leadingInt 0 (itoa_nat n @ u @ t) = Some (int n, u @ t)"
    using leadingInt_digits [OF itoa_nat_digits nd n] by (simp add: digits_val_itoa_nat)
  have f: "fractionPart (u @ t) = (0, Fin 1, u @ t, False)"
    using u(2,3) by (cases u) (auto simp: fractionPart_def isUnitChar_def)
  have all: "\<forall>x \<in> set u. isUnitChar x" using u(3) by (simp add: list_all_iff)
  have tw: "takeWhile isUnitChar (u @ t) = u" "dropWhile isUnitChar (u @ t) = t"
    using all t by (simp_all add: takeWhile_append dropWhile_append, (cases t; auto simp: isUnitChar_def)+)
  have "int n \<le> 2 ^ 63 div k" using zdiv_mono1 [OF le, of k] k by simp
  then have "\<not> int n > 2 ^ 63 div k" "\<not> int n * k > 2 ^ 63" using le by simp_all
  moreover have "length (u @ t) \<noteq> length (itoa_nat n @ u @ t)" using c by simp
  ultimately show ?thesis using head u(1,2) c i unfolding nextPart_def f Let_def tw prod.case by (auto simp: f tw)
qed

lemma unit_names: "unitOf ''h'' = Some 3600000000000" "unitOf ''m'' = Some 60000000000" "unitOf ''s'' = Some 1000000000"
  "list_all isUnitChar ''h''" "list_all isUnitChar ''m''" "list_all isUnitChar ''s''"
  by code_simp+

lemma partsLoop_printed:
  assumes "unitOf u = Some k" "u \<noteq> []" "list_all isUnitChar u" "0 \<le> d" "d + int n * k \<le> 2 ^ 63"
    "case t of [] \<Rightarrow> True | c # _ \<Rightarrow> is_digit c"
  shows "partsLoop d (itoa_nat n @ u @ t) = partsLoop (d + int n * k) t"
proof -
  have "nextPart (itoa_nat n @ u @ t) = Some (int n * k, t)"
    by (rule nextPart_printed [OF assms(1-3) _ assms(6)]) (use assms(4,5) in linarith)
  then show ?thesis using assms(5) itoa_nat_nonempty [of n] by (subst partsLoop.simps) simp
qed

lemma itoa_nat_starts: "case itoa_nat n @ t of [] \<Rightarrow> True | c # _ \<Rightarrow> is_digit c"
  using itoa_nat_nonempty [of n] itoa_nat_head_digit [of n] by (cases "itoa_nat n") auto

lemma unit_ends: "itoa_nat n @ u @ t \<noteq> ''0''" if "u \<noteq> []" "list_all isUnitChar u"
proof
  assume eq: "itoa_nat n @ u @ t = ''0''"
  have "length (itoa_nat n @ u @ t) = 1" unfolding eq by simp
  then have "length (itoa_nat n) + length u + length t = 1" by simp
  moreover have "0 < length (itoa_nat n)" "0 < length u" using itoa_nat_nonempty that(1) by simp_all
  ultimately show False by linarith
qed

text \<open>A duration of hours, minutes and seconds is read as what it says.\<close>

lemma ParseDuration_hms:
  assumes "(int h * 3600 + int m * 60 + int s) * 1000000000 < 2 ^ 63"
  shows "ParseDuration (itoa_nat h @ ''h'' @ itoa_nat m @ ''m'' @ itoa_nat s @ ''s'')
    = Some ((int h * 3600 + int m * 60 + int s) * 1000000000)"
proof -
  let ?t = "itoa_nat h @ ''h'' @ itoa_nat m @ ''m'' @ itoa_nat s @ ''s''"
  have "partsLoop 0 ?t = partsLoop (0 + int h * 3600000000000) (itoa_nat m @ ''m'' @ itoa_nat s @ ''s'')"
    by (rule partsLoop_printed [OF unit_names(1) _ unit_names(4)]) (use assms itoa_nat_starts in simp_all)
  also have "\<dots> = partsLoop (0 + int h * 3600000000000 + int m * 60000000000) (itoa_nat s @ ''s'')"
    by (rule partsLoop_printed [OF unit_names(2) _ unit_names(5)]) (use assms itoa_nat_starts in simp_all)
  also have "itoa_nat s @ ''s'' = itoa_nat s @ ''s'' @ []" by simp
  also have "partsLoop (0 + int h * 3600000000000 + int m * 60000000000) (itoa_nat s @ ''s'' @ [])
      = partsLoop (0 + int h * 3600000000000 + int m * 60000000000 + int s * 1000000000) []"
    by (rule partsLoop_printed [OF unit_names(3) _ unit_names(6)]) (use assms in simp_all)
  also have "\<dots> = Some ((int h * 3600 + int m * 60 + int s) * 1000000000)" by (simp add: partsLoop.simps)
  finally have run: "partsLoop 0 ?t = Some ((int h * 3600 + int m * 60 + int s) * 1000000000)" by simp
  obtain c cs where c: "itoa_nat h = c # cs" using itoa_nat_nonempty by (cases "itoa_nat h") auto
  then have "sign_split ?t = (False, ?t)"
    using is_digit_not_sign [OF itoa_nat_head_digit [OF c]] by (simp add: sign_split_def)
  moreover have "?t \<noteq> ''0''" by (rule unit_ends [OF _ unit_names(4)]) simp
  ultimately show ?thesis using run assms itoa_nat_nonempty [of h] unfolding ParseDuration_def by simp
qed

end
