(* ===== verification/Configuration.thy ===== *)
theory Configuration
  imports Duration
begin

text \<open>
  The configuration: \<^verbatim>\<open>config/config.go\<close>. Reading a file and decoding YAML are parameters (\<^verbatim>\<open>os.ReadFile\<close>,
  \<^verbatim>\<open>yaml.Unmarshal\<close>); what the code does with the decoded text of the closing time is modelled. A
  duration is its number of nanoseconds.
\<close>

section \<open>The records\<close>

definition DefaultMineChunkClosureDuration :: int where
  "DefaultMineChunkClosureDuration = 5 * 60 * 1000000000"

record ServerConfig =
  scAddr :: string

record DatabaseConfig =
  dcType :: string
  dcDSN :: string

record JWTConfig =
  jcSecret :: string
  jcExpireSec :: int

record RedisConfig =
  rcAddr :: string
  rcPassword :: string
  rcDB :: int

record RabbitMQConfig =
  mqURL :: string
  mqExchange :: string
  mqMatchResultQueue :: string

text \<open>The second field is not exported: it is not read from the file, only set by \<open>normalize\<close>.\<close>

record MineConfig =
  mcChunkClosureDuration :: string
  mcClosure :: int

record Config =
  cfServer :: ServerConfig
  cfDatabase :: DatabaseConfig
  cfJWT :: JWTConfig
  cfRedis :: RedisConfig
  cfRabbitMQ :: RabbitMQConfig
  cfMine :: MineConfig

section \<open>Loading\<close>

definition ChunkClosureDurationValue :: "MineConfig \<Rightarrow> int" where
  "ChunkClosureDurationValue c = (if mcClosure c > 0 then mcClosure c else DefaultMineChunkClosureDuration)"

definition withClosure :: "Config \<Rightarrow> int \<Rightarrow> Config" where
  "withClosure c d = c\<lparr>cfMine := (cfMine c)\<lparr>mcClosure := d\<rparr>\<rparr>"

definition normalize :: "Config \<Rightarrow> err + Config" where
  "normalize c =
     (let rawDuration = mcChunkClosureDuration (cfMine c) in
      if rawDuration = '''' then Inr (withClosure c DefaultMineChunkClosureDuration)
      else (case ParseDuration rawDuration of
        None \<Rightarrow> Inl (Wrap (''invalid mine.chunk_closure_duration '' @ rawDuration) (Errorf ''invalid duration''))
      | Some duration \<Rightarrow>
          if duration \<le> 0 then Inl (Errorf (''invalid mine.chunk_closure_duration '' @ rawDuration @ '': must be positive''))
          else Inr (withClosure c duration)))"

definition Load :: "(string \<Rightarrow> err + string) \<Rightarrow> (string \<Rightarrow> err + Config) \<Rightarrow> string \<Rightarrow> err + Config" where
  "Load readFile unmarshal path =
     bindE (readFile path) (\<lambda>data.
     bindE (unmarshal data) (\<lambda>cfg.
     normalize cfg))"

section \<open>The closing time\<close>

lemma normalize_Inr:
  assumes "normalize c = Inr c'"
  shows "c' = withClosure c (ChunkClosureDurationValue (cfMine c'))"
    "0 < ChunkClosureDurationValue (cfMine c')" "ChunkClosureDurationValue (cfMine c') < 2 ^ 63"
    "mcChunkClosureDuration (cfMine c) = '''' \<Longrightarrow> ChunkClosureDurationValue (cfMine c') = DefaultMineChunkClosureDuration"
    "mcChunkClosureDuration (cfMine c) \<noteq> '''' \<Longrightarrow> ParseDuration (mcChunkClosureDuration (cfMine c)) = Some (ChunkClosureDurationValue (cfMine c'))"
proof -
  obtain d where d: "c' = withClosure c d" "0 < d" "d < 2 ^ 63"
    "mcChunkClosureDuration (cfMine c) = '''' \<longrightarrow> d = DefaultMineChunkClosureDuration"
    "mcChunkClosureDuration (cfMine c) \<noteq> '''' \<longrightarrow> ParseDuration (mcChunkClosureDuration (cfMine c)) = Some d"
  proof (cases "mcChunkClosureDuration (cfMine c) = ''''")
    case True
    then show ?thesis using assms by (intro that) (auto simp: normalize_def DefaultMineChunkClosureDuration_def)
  next
    case False
    then obtain d where p: "ParseDuration (mcChunkClosureDuration (cfMine c)) = Some d" "\<not> d \<le> 0" "c' = withClosure c d"
      using assms by (auto simp: normalize_def Let_def split: option.splits if_splits)
    moreover have "d < 2 ^ 63" using ParseDuration_range [OF p(1)] by (simp add: in64_def)
    ultimately show ?thesis using False by (intro that) simp_all
  qed
  have v: "ChunkClosureDurationValue (cfMine c') = d" using d by (simp add: ChunkClosureDurationValue_def withClosure_def)
  show "c' = withClosure c (ChunkClosureDurationValue (cfMine c'))" unfolding v by (rule d(1))
  show "0 < ChunkClosureDurationValue (cfMine c')" "ChunkClosureDurationValue (cfMine c') < 2 ^ 63"
    "mcChunkClosureDuration (cfMine c) = '''' \<Longrightarrow> ChunkClosureDurationValue (cfMine c') = DefaultMineChunkClosureDuration"
    "mcChunkClosureDuration (cfMine c) \<noteq> '''' \<Longrightarrow> ParseDuration (mcChunkClosureDuration (cfMine c)) = Some (ChunkClosureDurationValue (cfMine c'))"
    using d v by simp_all
qed

text \<open>(C37) The closing time the server works with. Loading succeeds exactly when the file can be read and decoded and
  its closing time is absent or a positive duration; the value then used is positive, fits 64 bits,
  is five minutes when nothing is given and the duration written otherwise (hours, minutes and seconds as they
  are read), and nothing else of the decoded configuration is changed.\<close>

theorem Load_closing_time:
  "(\<forall>cfg. Load readFile unmarshal path = Inr cfg \<longrightarrow>
      (\<exists>data raw. readFile path = Inr data \<and> unmarshal data = Inr raw
        \<and> cfg = withClosure raw (ChunkClosureDurationValue (cfMine cfg))
        \<and> 0 < ChunkClosureDurationValue (cfMine cfg) \<and> ChunkClosureDurationValue (cfMine cfg) < 2 ^ 63
        \<and> (mcChunkClosureDuration (cfMine raw) = '''' \<longrightarrow> ChunkClosureDurationValue (cfMine cfg) = 300 * 1000000000)
        \<and> (mcChunkClosureDuration (cfMine raw) \<noteq> '''' \<longrightarrow>
            ParseDuration (mcChunkClosureDuration (cfMine raw)) = Some (ChunkClosureDurationValue (cfMine cfg)))
        \<and> (\<forall>h m s. mcChunkClosureDuration (cfMine raw) = itoa_nat h @ ''h'' @ itoa_nat m @ ''m'' @ itoa_nat s @ ''s''
            \<and> (int h * 3600 + int m * 60 + int s) * 1000000000 < 2 ^ 63 \<longrightarrow>
            ChunkClosureDurationValue (cfMine cfg) = (int h * 3600 + int m * 60 + int s) * 1000000000)))
   \<and> ((\<exists>e. Load readFile unmarshal path = Inl e) \<longleftrightarrow>
      (\<forall>data raw. readFile path = Inr data \<and> unmarshal data = Inr raw \<longrightarrow>
        mcChunkClosureDuration (cfMine raw) \<noteq> ''''
        \<and> (case ParseDuration (mcChunkClosureDuration (cfMine raw)) of None \<Rightarrow> True | Some d \<Rightarrow> d \<le> 0)))"
proof (intro conjI allI impI)
  fix cfg assume "Load readFile unmarshal path = Inr cfg"
  then obtain data raw where r: "readFile path = Inr data" "unmarshal data = Inr raw" "normalize raw = Inr cfg"
    by (auto simp: Load_def bindE_Inr)
  note n = normalize_Inr [OF r(3)]
  have hms: "ChunkClosureDurationValue (cfMine cfg) = (int h * 3600 + int m * 60 + int s) * 1000000000"
    if t: "mcChunkClosureDuration (cfMine raw) = itoa_nat h @ ''h'' @ itoa_nat m @ ''m'' @ itoa_nat s @ ''s''"
      and le: "(int h * 3600 + int m * 60 + int s) * 1000000000 < 2 ^ 63" for h m s
    using n(5) ParseDuration_hms [OF le] unfolding t by simp
  show "\<exists>data raw. readFile path = Inr data \<and> unmarshal data = Inr raw
        \<and> cfg = withClosure raw (ChunkClosureDurationValue (cfMine cfg))
        \<and> 0 < ChunkClosureDurationValue (cfMine cfg) \<and> ChunkClosureDurationValue (cfMine cfg) < 2 ^ 63
        \<and> (mcChunkClosureDuration (cfMine raw) = '''' \<longrightarrow> ChunkClosureDurationValue (cfMine cfg) = 300 * 1000000000)
        \<and> (mcChunkClosureDuration (cfMine raw) \<noteq> '''' \<longrightarrow>
            ParseDuration (mcChunkClosureDuration (cfMine raw)) = Some (ChunkClosureDurationValue (cfMine cfg)))
        \<and> (\<forall>h m s. mcChunkClosureDuration (cfMine raw) = itoa_nat h @ ''h'' @ itoa_nat m @ ''m'' @ itoa_nat s @ ''s''
            \<and> (int h * 3600 + int m * 60 + int s) * 1000000000 < 2 ^ 63 \<longrightarrow>
            ChunkClosureDurationValue (cfMine cfg) = (int h * 3600 + int m * 60 + int s) * 1000000000)"
    by (rule exI [of _ data], rule exI [of _ raw], intro conjI impI allI;
        (rule r(1) | rule r(2) | rule n(1) | (use n(2-5) hms in \<open>simp add: DefaultMineChunkClosureDuration_def\<close>)))
next
  show "(\<exists>e. Load readFile unmarshal path = Inl e) \<longleftrightarrow>
      (\<forall>data raw. readFile path = Inr data \<and> unmarshal data = Inr raw \<longrightarrow>
        mcChunkClosureDuration (cfMine raw) \<noteq> ''''
        \<and> (case ParseDuration (mcChunkClosureDuration (cfMine raw)) of None \<Rightarrow> True | Some d \<Rightarrow> d \<le> 0))"
    by (auto simp: Load_def bindE_def normalize_def Let_def split: sum.splits option.splits)
qed

section \<open>An example\<close>

definition exampleConfig :: "string \<Rightarrow> Config" where
  "exampleConfig closing = \<lparr>cfServer = \<lparr>scAddr = '':8080''\<rparr>, cfDatabase = \<lparr>dcType = ''mysql'', dcDSN = ''dsn''\<rparr>,
     cfJWT = \<lparr>jcSecret = ''go-lobby-secret'', jcExpireSec = 7200\<rparr>, cfRedis = \<lparr>rcAddr = ''127.0.0.1:6379'', rcPassword = '''', rcDB = 0\<rparr>,
     cfRabbitMQ = \<lparr>mqURL = ''amqp://localhost/'', mqExchange = ''go_lobby.events'', mqMatchResultQueue = ''go_lobby.rank.match_result''\<rparr>,
     cfMine = \<lparr>mcChunkClosureDuration = closing, mcClosure = 0\<rparr>\<rparr>"

lemma ParseDuration_examples:
  "ParseDuration ''5m'' = Some (300 * 1000000000)" "ParseDuration ''1h30m'' = Some (5400 * 1000000000)"
  "ParseDuration ''-3s'' = Some (- 3000000000)" "ParseDuration ''bad-duration'' = None" "ParseDuration ''10'' = None"
  by code_simp+

lemma Load_closing_time_witness:
  "(\<exists>cfg. Load Inr (\<lambda>data. Inr (exampleConfig data)) ''5m'' = Inr cfg \<and> ChunkClosureDurationValue (cfMine cfg) = 300000000000)
   \<and> (\<exists>e. Load Inr (\<lambda>data. Inr (exampleConfig data)) ''-3s'' = Inl e)"
proof -
  have raw: "mcChunkClosureDuration (cfMine (exampleConfig t)) = t" for t by (simp add: exampleConfig_def)
  note L = Load_closing_time [of Inr "\<lambda>data. Inr (exampleConfig data)"]
  have "\<nexists>e. Load Inr (\<lambda>data. Inr (exampleConfig data)) ''5m'' = Inl e"
    using L [of "''5m''"] by (auto simp: raw ParseDuration_examples)
  then obtain cfg where c: "Load Inr (\<lambda>data. Inr (exampleConfig data)) ''5m'' = Inr cfg"
    by (cases "Load Inr (\<lambda>data. Inr (exampleConfig data)) ''5m''") auto
  then have "ParseDuration ''5m'' = Some (ChunkClosureDurationValue (cfMine cfg))"
    using L [of "''5m''"] by (auto simp: raw)
  moreover have "\<exists>e. Load Inr (\<lambda>data. Inr (exampleConfig data)) ''-3s'' = Inl e"
    using L [of "''-3s''"] by (auto simp: raw ParseDuration_examples)
  ultimately show ?thesis using c by (simp add: ParseDuration_examples)
qed

end
