(* ===== verification/Startup.thy ===== *)
theory Startup
  imports Configuration Handlers ChunkWorker
begin

text \<open>
  How the two processes start: \<^verbatim>\<open>cmd/api/main.go\<close>, \<^verbatim>\<open>cmd/worker/main.go\<close>, \<^verbatim>\<open>internal/mq/publisher.go\<close>,
  \<^verbatim>\<open>internal/cache/redis.go\<close> and the constructors of the services. The database driver, the Redis client and the AMQP library are
  not interpreted: the model records the calls made to them, in order, with the answer each got; the answers
  are the environment's. \<^verbatim>\<open>log.Fatal\<close> ends the process without running deferred calls, so it is
  the error of the run.
\<close>

section \<open>Calls to the outside\<close>

datatype call =
    ConnectDB string string
  | PingRedis string string int
  | Dial string
  | OpenChannel
  | ExchangeDeclare string string bool
  | QueueDeclare string bool
  | QueueBind string string string
  | Consume string string bool
  | CloseChannel
  | CloseConnection
  | Listen string

record outside =
  osAnswers :: "bool list"
  osLog :: "(call \<times> bool) list"

type_synonym 'a boot = "(outside, err, 'a) prog"

text \<open>A call gets the next answer; when none is left it succeeds.\<close>

definition doCall :: "call \<Rightarrow> unit boot" where
  "doCall c s = (let ok = (osAnswers s = [] \<or> hd (osAnswers s));
       s' = s\<lparr>osAnswers := tl (osAnswers s), osLog := osLog s @ [(c, ok)]\<rparr>
     in (if ok then Inr () else Inl StoreErr, s'))"

section \<open>The publisher\<close>

record Publisher =
  puConn :: bool
  puChannel :: bool
  puExchange :: string

definition MatchResultFinishedRoutingKey :: string where
  "MatchResultFinishedRoutingKey = ''match.result.finished''"

text \<open>\<^verbatim>\<open>_ = ch.Close(); _ = conn.Close(); return nil, fmt.Errorf(...)\<close>\<close>

definition closeBoth :: "string \<Rightarrow> err \<Rightarrow> 'a boot" where
  "closeBoth msg e = andThen (ignoreErr (doCall CloseChannel)) (\<lambda>_.
     andThen (ignoreErr (doCall CloseConnection)) (\<lambda>_. fail (Wrap msg e)))"

definition NewPublisher :: "RabbitMQConfig \<Rightarrow> Publisher boot" where
  "NewPublisher cfg =
     andThen (onErr (doCall (Dial (mqURL cfg))) (\<lambda>e. fail (Wrap ''rabbitmq connect: '' e))) (\<lambda>_.
     andThen (onErr (doCall OpenChannel) (\<lambda>e.
        andThen (ignoreErr (doCall CloseConnection)) (\<lambda>_. fail (Wrap ''rabbitmq channel: '' e)))) (\<lambda>_.
     andThen (onErr (doCall (ExchangeDeclare (mqExchange cfg) ''direct'' True)) (closeBoth ''exchange declare: '')) (\<lambda>_.
     andThen (if mqMatchResultQueue cfg \<noteq> ''''
        then onErr (doCall (QueueDeclare (mqMatchResultQueue cfg) True)) (closeBoth ''queue declare: '') else ret ()) (\<lambda>_.
     andThen (onErr (doCall (QueueBind (mqMatchResultQueue cfg) MatchResultFinishedRoutingKey (mqExchange cfg)))
        (closeBoth ''queue bind: '')) (\<lambda>_.
     ret \<lparr>puConn = True, puChannel = True, puExchange = mqExchange cfg\<rparr>)))))"

definition ClosePublisher :: "Publisher option \<Rightarrow> unit boot" where
  "ClosePublisher p = (case p of
     None \<Rightarrow> ret ()
   | Some p \<Rightarrow>
       andThen (if puChannel p then ignoreErr (doCall CloseChannel) else ret ()) (\<lambda>_.
       andThen (if puConn p then ignoreErr (doCall CloseConnection) else ret ()) (\<lambda>_. ret ())))"

section \<open>The services\<close>

definition NewRedisClient :: "RedisConfig \<Rightarrow> string \<times> string \<times> int" where
  "NewRedisClient cfg = (rcAddr cfg, rcPassword cfg, rcDB cfg)"

definition PingRedisClient :: "string \<times> string \<times> int \<Rightarrow> unit boot" where
  "PingRedisClient client = (case client of (addr, password, db) \<Rightarrow> doCall (PingRedis addr password db))"

definition NewJWTManager :: "string \<Rightarrow> int \<Rightarrow> JWTManager" where
  "NewJWTManager secret expireDuration = \<lparr>jmSecret = secret, jmExpire = expireDuration\<rparr>"

text \<open>A component that is given to a constructor is a flag: whether it is not nil.\<close>

record match_service =
  msPublisher :: bool

record mine_match_service =
  mxSeasonReader :: bool
  mxChunkStore :: bool
  mxMatchStore :: bool
  mxMatchService :: "match_service option"

record chunk_service =
  ccSeasonReader :: bool
  ccStateStore :: bool
  ccMineGen :: bool
  ccMineMatchService :: "mine_match_service option"
  ccClosureDuration :: int
  ccWorkerIdleTimeout :: int
  ccWorkerQueueSize :: int

record match_queue_service =
  qsRepo :: bool
  qsRooms :: bool
  qsMatches :: "match_service option"
  qsMineMatch :: "mine_match_service option"

definition NewMatchService :: "Publisher option \<Rightarrow> match_service" where
  "NewMatchService publisher = \<lparr>msPublisher = (publisher \<noteq> None)\<rparr>"

definition NewMineMatchService :: "bool \<Rightarrow> bool \<Rightarrow> bool \<Rightarrow> match_service option \<Rightarrow> mine_match_service" where
  "NewMineMatchService seasonReader chunkStore matchStore matchService =
     \<lparr>mxSeasonReader = seasonReader, mxChunkStore = chunkStore, mxMatchStore = matchStore, mxMatchService = matchService\<rparr>"

text \<open>The last argument is variadic: only its first value counts.\<close>

definition NewMatchQueueService :: "match_service option \<Rightarrow> bool \<Rightarrow> bool \<Rightarrow> mine_match_service list \<Rightarrow> match_queue_service" where
  "NewMatchQueueService ms rooms repo mineMatchService =
     \<lparr>qsRepo = repo, qsRooms = rooms, qsMatches = ms,
      qsMineMatch = (case mineMatchService of [] \<Rightarrow> None | m # _ \<Rightarrow> Some m)\<rparr>"

definition defaultChunkWorkerIdleTimeout :: int where
  "defaultChunkWorkerIdleTimeout = 5 * 60 * 1000000000"

definition NewChunkService :: chunk_service where
  "NewChunkService = \<lparr>ccSeasonReader = False, ccStateStore = False, ccMineGen = True, ccMineMatchService = None,
     ccClosureDuration = defaultChunkClosureDuration, ccWorkerIdleTimeout = defaultChunkWorkerIdleTimeout,
     ccWorkerQueueSize = defaultChunkWorkerQueueSize\<rparr>"

definition NewChunkServiceWithDeps :: "bool \<Rightarrow> bool \<Rightarrow> int list \<Rightarrow> chunk_service" where
  "NewChunkServiceWithDeps seasonReader stateStore closureDurations =
     \<lparr>ccSeasonReader = seasonReader, ccStateStore = stateStore, ccMineGen = True, ccMineMatchService = None,
      ccClosureDuration = resolveChunkClosureDuration closureDurations, ccWorkerIdleTimeout = defaultChunkWorkerIdleTimeout,
      ccWorkerQueueSize = defaultChunkWorkerQueueSize\<rparr>"

definition SetMineMatchService :: "chunk_service \<Rightarrow> mine_match_service option \<Rightarrow> chunk_service" where
  "SetMineMatchService s m = s\<lparr>ccMineMatchService := m\<rparr>"

definition hasMineDeps :: "chunk_service \<Rightarrow> bool" where
  "hasMineDeps s \<longleftrightarrow> ccSeasonReader s \<and> ccStateStore s \<and> ccMineGen s"

text \<open>What the operations of the services ask about their components.\<close>

definition wiringOf :: "chunk_service \<Rightarrow> wiring" where
  "wiringOf s = (let m = ccMineMatchService s; v = (case m of None \<Rightarrow> None | Some m \<Rightarrow> mxMatchService m) in
     \<lparr>wiMine = hasMineDeps s,
      wiMatch = (case m of None \<Rightarrow> False | Some m \<Rightarrow> mxSeasonReader m \<and> mxChunkStore m \<and> mxMatchStore m),
      wiMatchService = (v \<noteq> None),
      wiPublisher = (case v of None \<Rightarrow> False | Some v \<Rightarrow> msPublisher v)\<rparr>)"

section \<open>The API server\<close>

text \<open>The libraries the server is linked with: HMAC, bcrypt and JWT, JSON.\<close>

record libraries =
  lbMac :: mac
  lbDeps :: deps
  lbEncode :: "ChunkEvent \<Rightarrow> string option"
  lbEncodeReady :: "string \<Rightarrow> RoomInfoResponse \<Rightarrow> string option"

text \<open>The services that work together on matches: the one of the chunks and the one of the queues.\<close>

definition buildServices :: "Config \<Rightarrow> Publisher \<Rightarrow> chunk_service \<times> match_queue_service" where
  "buildServices cfg publisher =
     (let matchService = NewMatchService (Some publisher);
          chunkService = NewChunkServiceWithDeps True True [ChunkClosureDurationValue (cfMine cfg)];
          mineMatchService = NewMineMatchService True True True (Some matchService);
          chunkService = SetMineMatchService chunkService (Some mineMatchService);
          matchQueueService = NewMatchQueueService (Some matchService) True True [mineMatchService]
      in (chunkService, matchQueueService))"

definition buildApi :: "libraries \<Rightarrow> Config \<Rightarrow> Publisher \<Rightarrow> api" where
  "buildApi lb cfg publisher =
     (let jwtManager = NewJWTManager (jcSecret (cfJWT cfg)) (wrap64 (jcExpireSec (cfJWT cfg) * 1000000000));
          chunkService = fst (buildServices cfg publisher)
      in \<lparr>apMac = lbMac lb, apWiring = wiringOf chunkService, apClosure = ccClosureDuration chunkService, apDeps = lbDeps lb,
          apJWT = jwtManager, apEncode = lbEncode lb, apEncodeReady = lbEncodeReady lb\<rparr>)"

definition startApi :: "libraries \<Rightarrow> (string \<Rightarrow> err + string) \<Rightarrow> (string \<Rightarrow> err + Config) \<Rightarrow> api boot" where
  "startApi lb readFile unmarshal =
     andThen (liftE (Load readFile unmarshal ''config.yaml'')) (\<lambda>cfg.
     andThen (doCall (ConnectDB (dcType (cfDatabase cfg)) (dcDSN (cfDatabase cfg)))) (\<lambda>_.
     andThen (PingRedisClient (NewRedisClient (cfRedis cfg))) (\<lambda>_.
     andThen (NewPublisher (cfRabbitMQ cfg)) (\<lambda>publisher.
     andThen (ignoreErr (doCall (Listen (scAddr (cfServer cfg))))) (\<lambda>_.
     ret (buildApi lb cfg publisher))))))"

section \<open>The rank worker\<close>

text \<open>The calls before the loop over the deliveries.\<close>

definition startWorker :: "(string \<Rightarrow> err + string) \<Rightarrow> (string \<Rightarrow> err + Config) \<Rightarrow> unit boot" where
  "startWorker readFile unmarshal =
     andThen (liftE (Load readFile unmarshal ''config.yaml'')) (\<lambda>cfg.
     let mq = cfRabbitMQ cfg; fatal = (\<lambda>e. andThen (ignoreErr (doCall CloseChannel)) (\<lambda>_.
           andThen (ignoreErr (doCall CloseConnection)) (\<lambda>_. fail e)))
     in andThen (doCall (ConnectDB (dcType (cfDatabase cfg)) (dcDSN (cfDatabase cfg)))) (\<lambda>_.
     andThen (PingRedisClient (NewRedisClient (cfRedis cfg))) (\<lambda>_.
     andThen (doCall (Dial (mqURL mq))) (\<lambda>_.
     andThen (onErr (doCall OpenChannel) (\<lambda>e. andThen (ignoreErr (doCall CloseConnection)) (\<lambda>_. fail e))) (\<lambda>_.
     andThen (onErr (doCall (ExchangeDeclare (mqExchange mq) ''direct'' True)) fatal) (\<lambda>_.
     andThen (if mqMatchResultQueue mq \<noteq> '''' then onErr (doCall (QueueDeclare (mqMatchResultQueue mq) True)) fatal else ret ()) (\<lambda>_.
     andThen (onErr (doCall (QueueBind (mqMatchResultQueue mq) MatchResultFinishedRoutingKey (mqExchange mq))) fatal) (\<lambda>_.
     doCall (Consume (mqMatchResultQueue mq) ''go-lobby-rank-worker'' False)))))))))"

section \<open>Sequences of calls\<close>

text \<open>Calls in order, each with what is closed when it fails and with the error that is then reported.\<close>

fun closes :: "call list \<Rightarrow> unit boot" where
  "closes [] = ret ()"
| "closes (c # cs) = andThen (ignoreErr (doCall c)) (\<lambda>_. closes cs)"

fun steps :: "(call \<times> call list \<times> (err \<Rightarrow> err)) list \<Rightarrow> 'a boot \<Rightarrow> 'a boot" where
  "steps [] k = k"
| "steps ((c, undo, f) # ps) k = andThen (onErr (doCall c) (\<lambda>e. andThen (closes undo) (\<lambda>_. fail (f e)))) (\<lambda>_. steps ps k)"

lemma doCall_run:
  obtains ok s' where "doCall c s = (if ok then Inr () else Inl StoreErr, s')" "osLog s' = osLog s @ [(c, ok)]"
    "osAnswers s = [] \<Longrightarrow> ok \<and> osAnswers s' = []"
  by (rule that [of "osAnswers s = [] \<or> hd (osAnswers s)" "snd (doCall c s)"]) (simp_all add: doCall_def Let_def)

lemma closes_run: "\<exists>s' as. closes cs s = (Inr (), s') \<and> osLog s' = osLog s @ as \<and> map fst as = cs"
proof (induction cs arbitrary: s)
  case (Cons c cs)
  obtain ok s1 where 1: "doCall c s = (if ok then Inr () else Inl StoreErr, s1)" "osLog s1 = osLog s @ [(c, ok)]"
    by (rule doCall_run)
  obtain s2 as where 2: "closes cs s1 = (Inr (), s2)" "osLog s2 = osLog s1 @ as" "map fst as = cs" using Cons by blast
  have "closes (c # cs) s = (Inr (), s2)" using 1(1) 2(1) by (simp add: andThen_def ignoreErr_def)
  then show ?case using 1(2) 2(2,3) by (intro exI [of _ s2] exI [of _ "(c, ok) # as"]) simp
qed (simp add: ret_def)

text \<open>Either every call succeeds and the rest runs, or the first that fails ends the run, after its closes.\<close>

definition allDone :: "call list \<Rightarrow> (call \<times> bool) list" where
  "allDone cs = map (\<lambda>c. (c, True)) cs"

lemma steps_run:
  obtains (all) s' where "steps ps k s = k s'" "osLog s' = osLog s @ allDone (map fst ps)"
  | (failed) i c undo f s' as where "i < length ps" "ps ! i = (c, undo, f)" "steps ps k s = (Inl (f StoreErr), s')"
      "osLog s' = osLog s @ allDone (map fst (take i ps)) @ (c, False) # as" "map fst as = undo"
proof (induction ps arbitrary: s thesis)
  case Nil
  then show ?case by (simp add: allDone_def)
next
  case (Cons p ps)
  obtain c undo f where p: "p = (c, undo, f)" by (cases p)
  obtain ok s1 where 1: "doCall c s = (if ok then Inr () else Inl StoreErr, s1)" "osLog s1 = osLog s @ [(c, ok)]"
    by (rule doCall_run)
  show ?case
  proof (cases ok)
    case True
    then have run: "steps (p # ps) k s = steps ps k s1" using 1(1) by (simp add: p andThen_def onErr_def)
    show ?thesis
    proof (rule Cons.IH [of s1])
      fix s' assume "steps ps k s1 = k s'" "osLog s' = osLog s1 @ allDone (map fst ps)"
      then show thesis using 1(2) True run by (intro Cons.prems(1) [of s']) (simp_all add: p allDone_def)
    next
      fix i c' undo' f' s' as assume "i < length ps" "ps ! i = (c', undo', f')" "steps ps k s1 = (Inl (f' StoreErr), s')"
        "osLog s' = osLog s1 @ allDone (map fst (take i ps)) @ (c', False) # as" "map fst as = undo'"
      then show thesis using 1(2) True run by (intro Cons.prems(2) [of "Suc i" c' undo' f' s' as]) (simp_all add: p allDone_def)
    qed
  next
    case False
    obtain s2 as where 2: "closes undo s1 = (Inr (), s2)" "osLog s2 = osLog s1 @ as" "map fst as = undo" using closes_run by blast
    have "steps (p # ps) k s = (Inl (f StoreErr), s2)" using 1(1) 2(1) False by (simp add: p andThen_def onErr_def fail_def)
    then show ?thesis using 1(2) 2(2,3) False by (intro Cons.prems(2) [of 0 c undo f s2 as]) (simp_all add: p allDone_def)
  qed
qed

section \<open>The topology\<close>

text \<open>What both processes declare, with what is open before each call.\<close>

definition topology :: "RabbitMQConfig \<Rightarrow> call list" where
  "topology cfg = [Dial (mqURL cfg), OpenChannel, ExchangeDeclare (mqExchange cfg) ''direct'' True]
     @ (if mqMatchResultQueue cfg \<noteq> '''' then [QueueDeclare (mqMatchResultQueue cfg) True] else [])
     @ [QueueBind (mqMatchResultQueue cfg) ''match.result.finished'' (mqExchange cfg)]"

fun undoAt :: "nat \<Rightarrow> call list" where
  "undoAt 0 = []"
| "undoAt (Suc 0) = [CloseConnection]"
| "undoAt n = [CloseChannel, CloseConnection]"

definition planWith :: "RabbitMQConfig \<Rightarrow> (nat \<Rightarrow> err \<Rightarrow> err) \<Rightarrow> (call \<times> call list \<times> (err \<Rightarrow> err)) list" where
  "planWith cfg f = map (\<lambda>i. (topology cfg ! i, undoAt i, f i)) [0..<length (topology cfg)]"

lemma planWith_fst: "map fst (planWith cfg f) = topology cfg"
  by (simp add: planWith_def comp_def map_nth)

lemma planWith_cases: "planWith cfg f = [(Dial (mqURL cfg), [], f 0), (OpenChannel, [CloseConnection], f 1),
    (ExchangeDeclare (mqExchange cfg) ''direct'' True, [CloseChannel, CloseConnection], f 2)]
  @ (if mqMatchResultQueue cfg \<noteq> ''''
     then [(QueueDeclare (mqMatchResultQueue cfg) True, [CloseChannel, CloseConnection], f 3),
           (QueueBind (mqMatchResultQueue cfg) ''match.result.finished'' (mqExchange cfg), [CloseChannel, CloseConnection], f 4)]
     else [(QueueBind (mqMatchResultQueue cfg) ''match.result.finished'' (mqExchange cfg), [CloseChannel, CloseConnection], f 3)])"
  by (simp add: planWith_def topology_def upt_rec numeral_eq_Suc)

text \<open>Setting up the broker, from a run of the calls: all of them, or closed again.\<close>

lemma plan_run:
  obtains (all) s' where "steps (planWith cfg f) k s = k s'" "osLog s' = osLog s @ allDone (topology cfg)"
  | (failed) i s' as where "i < length (topology cfg)" "steps (planWith cfg f) k s = (Inl (f i StoreErr), s')"
      "osLog s' = osLog s @ allDone (take i (topology cfg)) @ (topology cfg ! i, False) # as" "map fst as = undoAt i"
proof (rule steps_run [of "planWith cfg f" k s])
  fix s' assume "steps (planWith cfg f) k s = k s'" "osLog s' = osLog s @ allDone (map fst (planWith cfg f))"
  then show thesis using all by (simp add: planWith_fst)
next
  fix i c undo g s' as
  assume i: "i < length (planWith cfg f)" "planWith cfg f ! i = (c, undo, g)" "steps (planWith cfg f) k s = (Inl (g StoreErr), s')"
    "osLog s' = osLog s @ allDone (map fst (take i (planWith cfg f))) @ (c, False) # as" "map fst as = undo"
  have l: "i < length (topology cfg)" using i(1) by (simp add: planWith_def)
  have "c = topology cfg ! i" "undo = undoAt i" "g = f i" using i(2) l by (simp_all add: planWith_def)
  moreover have "map fst (take i (planWith cfg f)) = take i (topology cfg)" by (simp flip: take_map add: planWith_fst)
  ultimately show thesis using i l failed [of i s' as] by simp
qed

text \<open>Both setups are such runs.\<close>

definition publisherErrors :: "RabbitMQConfig \<Rightarrow> nat \<Rightarrow> err \<Rightarrow> err" where
  "publisherErrors cfg i = Wrap (([''rabbitmq connect: '', ''rabbitmq channel: '', ''exchange declare: '']
     @ (if mqMatchResultQueue cfg \<noteq> '''' then [''queue declare: ''] else []) @ [''queue bind: '']) ! i)"

lemma NewPublisher_steps:
  "NewPublisher cfg = steps (planWith cfg (publisherErrors cfg)) (ret \<lparr>puConn = True, puChannel = True, puExchange = mqExchange cfg\<rparr>)"
  unfolding NewPublisher_def planWith_cases closeBoth_def MatchResultFinishedRoutingKey_def
  by (cases "mqMatchResultQueue cfg = []") (simp_all add: publisherErrors_def andThen_assoc)

text \<open>Setting up the publisher is all or nothing, whatever the broker answers: either the connection, the channel, the
  durable direct exchange, the queue (when one is configured) and its binding to the routing key of finished
  matches were all obtained, in this order, and the publisher sends to that exchange; or the caller gets the
  error of the first call that failed, nothing was tried after it, and what had been opened before it is closed again, channel
  first.\<close>

theorem NewPublisher_all_or_nothing:
  "case NewPublisher cfg s of (r, s') \<Rightarrow>
     (r = Inr \<lparr>puConn = True, puChannel = True, puExchange = mqExchange cfg\<rparr> \<and> osLog s' = osLog s @ map (\<lambda>c. (c, True)) (topology cfg))
   \<or> (\<exists>i msg as. i < length (topology cfg) \<and> r = Inl (Wrap msg StoreErr)
        \<and> osLog s' = osLog s @ map (\<lambda>c. (c, True)) (take i (topology cfg)) @ (topology cfg ! i, False) # as
        \<and> map fst as = (if i = 0 then [] else if i = 1 then [CloseConnection] else [CloseChannel, CloseConnection]))"
proof (cases rule: plan_run [of cfg "publisherErrors cfg" "ret \<lparr>puConn = True, puChannel = True, puExchange = mqExchange cfg\<rparr>" s])
  case (all s')
  then show ?thesis unfolding NewPublisher_steps by (simp add: ret_def allDone_def)
next
  case (failed i s' as)
  have "undoAt i = (if i = 0 then [] else if i = 1 then [CloseConnection] else [CloseChannel, CloseConnection])"
    by (cases i rule: undoAt.cases) simp_all
  then have as: "map fst as = (if i = 0 then [] else if i = 1 then [CloseConnection] else [CloseChannel, CloseConnection])"
    using failed(4) by simp
  show ?thesis unfolding NewPublisher_steps failed(2) prod.case
    by (rule disjI2, intro exI conjI, rule failed(1), simp only: publisherErrors_def, rule failed(3) [unfolded allDone_def], rule as)
qed

section \<open>Ready to serve\<close>

text \<open>The calls before the broker is set up.\<close>

definition stores :: "Config \<Rightarrow> call list" where
  "stores cfg = [ConnectDB (dcType (cfDatabase cfg)) (dcDSN (cfDatabase cfg)),
     PingRedis (rcAddr (cfRedis cfg)) (rcPassword (cfRedis cfg)) (rcDB (cfRedis cfg))]"

definition bare :: "call \<Rightarrow> call \<times> call list \<times> (err \<Rightarrow> err)" where
  "bare c = (c, [], \<lambda>e. e)"

lemma doCall_bare: "andThen (doCall c) (\<lambda>_. k) = steps [bare c] k"
proof
  fix s
  obtain ok s1 where "doCall c s = (if ok then Inr () else Inl StoreErr, s1)" by (rule doCall_run)
  then show "andThen (doCall c) (\<lambda>_. k) s = steps [bare c] k s"
    by (simp add: bare_def andThen_def onErr_def ret_def fail_def)
qed

lemma steps_append: "steps (ps @ qs) k = steps ps (steps qs k)"
  by (induction ps k rule: steps.induct) simp_all

lemma steps_fail: "steps ps k s = (Inr a, s') \<Longrightarrow> \<exists>s1. k s1 = (Inr a, s') \<and> osLog s1 = osLog s @ allDone (map fst ps)"
  by (cases rule: steps_run [of ps k s]) auto

lemma steps_andThen: "steps ps (andThen m k) = andThen (steps ps m) k"
proof (induction ps m rule: steps.induct)
  case (2 c undo f ps m)
  then show ?case by (simp add: andThen_assoc)
qed simp

lemma onErr_fail: "onErr m fail = m"
  by (simp add: fun_eq_iff onErr_def fail_def split: prod.split sum.split)

text \<open>Both processes as runs of calls.\<close>

definition bootCalls :: "Config \<Rightarrow> (nat \<Rightarrow> err \<Rightarrow> err) \<Rightarrow> (call \<times> call list \<times> (err \<Rightarrow> err)) list" where
  "bootCalls cfg f = map bare (stores cfg) @ planWith (cfRabbitMQ cfg) f"

lemma bootCalls_fst: "map fst (bootCalls cfg f) = stores cfg @ topology (cfRabbitMQ cfg)"
  by (simp add: bootCalls_def planWith_fst bare_def comp_def)

lemma startApi_steps:
  "startApi lb readFile unmarshal = andThen (liftE (Load readFile unmarshal ''config.yaml'')) (\<lambda>cfg.
     steps (bootCalls cfg (publisherErrors (cfRabbitMQ cfg)))
       (andThen (ignoreErr (doCall (Listen (scAddr (cfServer cfg))))) (\<lambda>_.
        ret (buildApi lb cfg \<lparr>puConn = True, puChannel = True, puExchange = mqExchange (cfRabbitMQ cfg)\<rparr>))))"
  unfolding startApi_def bootCalls_def stores_def NewRedisClient_def PingRedisClient_def NewPublisher_steps
  by (simp add: doCall_bare steps_andThen [symmetric] flip: steps_append)

lemma startWorker_steps:
  "startWorker readFile unmarshal = andThen (liftE (Load readFile unmarshal ''config.yaml'')) (\<lambda>cfg.
     steps (bootCalls cfg (\<lambda>_ e. e))
       (doCall (Consume (mqMatchResultQueue (cfRabbitMQ cfg)) ''go-lobby-rank-worker'' False)))"
  unfolding startWorker_def bootCalls_def stores_def NewRedisClient_def PingRedisClient_def Let_def
    planWith_cases bare_def MatchResultFinishedRoutingKey_def
  by (rule arg_cong [where f = "andThen (liftE (Load readFile unmarshal ''config.yaml''))"], rule ext)
    (simp add: andThen_assoc onErr_fail)

lemma buildApi_wired:
  "apWiring (buildApi lb cfg p) = fullWiring" "apJWT (buildApi lb cfg p) = \<lparr>jmSecret = jcSecret (cfJWT cfg), jmExpire = wrap64 (jcExpireSec (cfJWT cfg) * 1000000000)\<rparr>"
  "0 < ChunkClosureDurationValue (cfMine cfg) \<Longrightarrow> apClosure (buildApi lb cfg p) = ChunkClosureDurationValue (cfMine cfg)"
  by (simp_all add: buildApi_def buildServices_def Let_def wiringOf_def SetMineMatchService_def NewChunkServiceWithDeps_def NewMineMatchService_def
      NewMatchService_def NewJWTManager_def hasMineDeps_def fullWiring_def)

text \<open>The match queue works with the same services as the chunks; that is why one \<open>wiring\<close> describes both.\<close>

definition queue_wired :: "chunk_service \<Rightarrow> match_queue_service \<Rightarrow> bool" where
  "queue_wired cc q \<longleftrightarrow> qsRepo q \<and> qsRooms q \<and> qsMineMatch q \<noteq> None \<and> qsMineMatch q = ccMineMatchService cc
     \<and> qsMatches q = (case ccMineMatchService cc of None \<Rightarrow> None | Some m \<Rightarrow> mxMatchService m)"

lemma buildServices_wired: "case buildServices cfg p of (cc, q) \<Rightarrow> queue_wired cc q"
  by (simp add: buildServices_def Let_def queue_wired_def NewMatchQueueService_def SetMineMatchService_def NewMineMatchService_def)

lemma Load_positive: "Load readFile unmarshal path = Inr cfg \<Longrightarrow> 0 < ChunkClosureDurationValue (cfMine cfg) \<and> ChunkClosureDurationValue (cfMine cfg) < 2 ^ 63"
  using normalize_Inr(2,3) by (auto simp: Load_def bindE_Inr)

lemma ignore_doCall: "\<exists>ok s'. ignoreErr (doCall c) s = (Inr (), s') \<and> osLog s' = osLog s @ [(c, ok)]"
  by (rule doCall_run [of c s]) (simp add: ignoreErr_def)

lemma liftE_run: "andThen (liftE r) k s = (case r of Inl e \<Rightarrow> (Inl e, s) | Inr a \<Rightarrow> k a s)"
  by (simp add: andThen_def liftE_def split: sum.split)

text \<open>(C36) A process that starts is complete. The API server listens only after the configuration was read, both stores
  answered and the whole broker topology stands; then every component is wired, the match queue with the very services the
  chunks work with, the chunks close for the
  configured time, which is positive and fits 64 bits, and tokens are signed with the configured secret. The
  rank worker consumes only from a queue declared and bound by exactly the calls of the publisher with the same
  configuration, and it acknowledges by hand.\<close>

theorem started_complete:
  "(\<forall>ap s'. startApi lb readFile unmarshal s = (Inr ap, s') \<longrightarrow>
      (\<exists>cfg ok. Load readFile unmarshal ''config.yaml'' = Inr cfg
        \<and> osLog s' = osLog s @ map (\<lambda>c. (c, True)) (stores cfg @ topology (cfRabbitMQ cfg)) @ [(Listen (scAddr (cfServer cfg)), ok)]
        \<and> apWiring ap = fullWiring \<and> (\<exists>p cc q. ap = buildApi lb cfg p \<and> buildServices cfg p = (cc, q) \<and> queue_wired cc q)
        \<and> apClosure ap = ChunkClosureDurationValue (cfMine cfg) \<and> 0 < apClosure ap \<and> apClosure ap < 2 ^ 63
        \<and> jmSecret (apJWT ap) = jcSecret (cfJWT cfg)))
   \<and> (\<forall>s'. startWorker readFile unmarshal s = (Inr (), s') \<longrightarrow>
      (\<exists>cfg. Load readFile unmarshal ''config.yaml'' = Inr cfg
        \<and> osLog s' = osLog s @ map (\<lambda>c. (c, True)) (stores cfg @ topology (cfRabbitMQ cfg)
            @ [Consume (mqMatchResultQueue (cfRabbitMQ cfg)) ''go-lobby-rank-worker'' False])))"
proof (intro conjI allI impI)
  fix ap s' assume run: "startApi lb readFile unmarshal s = (Inr ap, s')"
  then obtain cfg where cfg: "Load readFile unmarshal ''config.yaml'' = Inr cfg"
    by (auto simp: startApi_steps liftE_run split: sum.splits)
  let ?p = "\<lparr>puConn = True, puChannel = True, puExchange = mqExchange (cfRabbitMQ cfg)\<rparr>"
  obtain s1 where k: "andThen (ignoreErr (doCall (Listen (scAddr (cfServer cfg))))) (\<lambda>_. ret (buildApi lb cfg ?p)) s1 = (Inr ap, s')"
    and log: "osLog s1 = osLog s @ allDone (stores cfg @ topology (cfRabbitMQ cfg))"
    using run steps_fail [of "bootCalls cfg (publisherErrors (cfRabbitMQ cfg))" _ s ap s']
    by (auto simp: startApi_steps liftE_run cfg bootCalls_fst)
  obtain ok s2 where l: "ignoreErr (doCall (Listen (scAddr (cfServer cfg)))) s1 = (Inr (), s2)" "osLog s2 = osLog s1 @ [(Listen (scAddr (cfServer cfg)), ok)]"
    using ignore_doCall by blast
  have ap: "ap = buildApi lb cfg ?p" "s' = s2" using k l(1) by (simp_all add: andThen_def ret_def)
  have queue: "\<exists>p cc q. buildApi lb cfg ?p = buildApi lb cfg p \<and> buildServices cfg p = (cc, q) \<and> queue_wired cc q"
    using buildServices_wired [of cfg ?p] by (intro exI [of _ ?p]) (auto split: prod.splits)
  note pos = Load_positive [OF cfg]
  show "\<exists>cfg ok. Load readFile unmarshal ''config.yaml'' = Inr cfg
        \<and> osLog s' = osLog s @ map (\<lambda>c. (c, True)) (stores cfg @ topology (cfRabbitMQ cfg)) @ [(Listen (scAddr (cfServer cfg)), ok)]
        \<and> apWiring ap = fullWiring \<and> (\<exists>p cc q. ap = buildApi lb cfg p \<and> buildServices cfg p = (cc, q) \<and> queue_wired cc q)
        \<and> apClosure ap = ChunkClosureDurationValue (cfMine cfg) \<and> 0 < apClosure ap \<and> apClosure ap < 2 ^ 63
        \<and> jmSecret (apJWT ap) = jcSecret (cfJWT cfg)"
    using cfg log l(2) pos queue unfolding ap buildApi_wired(1,2) buildApi_wired(3) [OF conjunct1 [OF pos]]
    by (intro exI [of _ cfg] exI [of _ ok]) (simp add: allDone_def)
next
  fix s' assume run: "startWorker readFile unmarshal s = (Inr (), s')"
  then obtain cfg where cfg: "Load readFile unmarshal ''config.yaml'' = Inr cfg"
    by (auto simp: startWorker_steps liftE_run split: sum.splits)
  let ?c = "Consume (mqMatchResultQueue (cfRabbitMQ cfg)) ''go-lobby-rank-worker'' False"
  obtain s1 where k: "doCall ?c s1 = (Inr (), s')" and log: "osLog s1 = osLog s @ allDone (stores cfg @ topology (cfRabbitMQ cfg))"
    using run steps_fail [of "bootCalls cfg (\<lambda>_ e. e)" _ s "()" s']
    by (auto simp: startWorker_steps liftE_run cfg bootCalls_fst)
  obtain ok s2 where "doCall ?c s1 = (if ok then Inr () else Inl StoreErr, s2)" "osLog s2 = osLog s1 @ [(?c, ok)]" by (rule doCall_run)
  then have "osLog s' = osLog s1 @ [(?c, True)]" using k by (simp split: if_splits)
  then show "\<exists>cfg. Load readFile unmarshal ''config.yaml'' = Inr cfg
        \<and> osLog s' = osLog s @ map (\<lambda>c. (c, True)) (stores cfg @ topology (cfRabbitMQ cfg)
            @ [Consume (mqMatchResultQueue (cfRabbitMQ cfg)) ''go-lobby-rank-worker'' False])"
    using cfg log by (intro exI [of _ cfg]) (simp add: allDone_def)
qed

section \<open>An example\<close>

definition quiet :: outside where
  "quiet = \<lparr>osAnswers = [], osLog = []\<rparr>"

definition exampleLibraries :: libraries where
  "exampleLibraries = \<lparr>lbMac = (\<lambda>_ _. 0),
     lbDeps = \<lparr>dpCompare = (=), dpSign = (\<lambda>k _. Inr k), dpParse = (\<lambda>_ _ _. Inl StoreErr), dpSame = (=)\<rparr>,
     lbEncode = (\<lambda>_. None), lbEncodeReady = (\<lambda>_ _. None)\<rparr>"

text \<open>The broker refuses the queue.\<close>

lemma NewPublisher_all_or_nothing_witness:
  "\<exists>e. fst (NewPublisher (cfRabbitMQ (exampleConfig ''5m'')) (quiet\<lparr>osAnswers := [True, True, True, False]\<rparr>)) = Inl e
    \<and> map fst (drop 4 (osLog (snd (NewPublisher (cfRabbitMQ (exampleConfig ''5m'')) (quiet\<lparr>osAnswers := [True, True, True, False]\<rparr>)))))
      = [CloseChannel, CloseConnection]"
proof -
  let ?cfg = "cfRabbitMQ (exampleConfig ''5m'')" and ?s = "quiet\<lparr>osAnswers := [True, True, True, False]\<rparr>"
  have "(case fst (NewPublisher ?cfg ?s) of Inl _ \<Rightarrow> True | Inr _ \<Rightarrow> False)" by code_simp
  then have fails: "\<exists>e. fst (NewPublisher ?cfg ?s) = Inl e" by (simp split: sum.splits)
  have "length (osLog (snd (NewPublisher ?cfg ?s))) = 6" "osLog ?s = []" by code_simp+
  moreover obtain r s' where run: "NewPublisher ?cfg ?s = (r, s')" by fastforce
  moreover have "length (topology ?cfg) = 5" by code_simp
  ultimately show ?thesis
    using NewPublisher_all_or_nothing [of ?cfg ?s] fails by (auto split: if_splits)
qed

lemma started_complete_witness:
  "\<exists>ap s'. startApi exampleLibraries Inr (\<lambda>data. Inr (exampleConfig ''5m'')) quiet = (Inr ap, s')
     \<and> apWiring ap = fullWiring \<and> 0 < apClosure ap"
proof -
  let ?run = "startApi exampleLibraries Inr (\<lambda>data. Inr (exampleConfig ''5m'')) quiet"
  have "(case fst ?run of Inl _ \<Rightarrow> False | Inr _ \<Rightarrow> True)" by code_simp
  then obtain ap s' where run: "?run = (Inr ap, s')" by (cases ?run) (auto split: sum.splits)
  then show ?thesis using started_complete [of exampleLibraries Inr "\<lambda>data. Inr (exampleConfig ''5m'')" quiet] by auto
qed

end
