(* ===== verification/Requests.thy ===== *)
theory Requests
  imports Handlers
begin

text \<open>
  The bodies of requests, \<^verbatim>\<open>internal/dto/req\<close>: the structs and what \<^verbatim>\<open>ShouldBindJSON\<close> accepts by their \<^verbatim>\<open>binding\<close>
  tags. \<open>None\<close> is a body that does not decode, which includes a number outside the type of its field. \<^verbatim>\<open>min\<close> and \<^verbatim>\<open>max\<close>
  count the runes of a string, whose bytes are valid UTF-8 after decoding; \<^verbatim>\<open>required\<close> refuses the empty string.
\<close>

section \<open>Structs\<close>

record UserRegisterRequest =
  rqUserName :: string
  rqNickname :: string
  rqPassword :: string

record UserLoginRequest =
  lqUserName :: string
  lqPassword :: string

record JoinMatchQueueRequest =
  jqMode :: string

record OpenMineCellRequest =
  omX :: int
  omY :: int

record FlagMineCellRequest =
  fmX :: int
  fmY :: int
  fmFlagged :: bool

record SetMatchResultRequest =
  smMatchID :: int
  smWinTeamNo :: int

section \<open>Binding\<close>

definition runeCount :: "string \<Rightarrow> nat" where
  "runeCount s = length (filter (\<lambda>c. (of_char c :: nat) < 128 \<or> 192 \<le> (of_char c :: nat)) s)"

definition runesBetween :: "nat \<Rightarrow> nat \<Rightarrow> string \<Rightarrow> bool" where
  "runesBetween lo hi s \<longleftrightarrow> s \<noteq> '''' \<and> lo \<le> runeCount s \<and> runeCount s \<le> hi"

definition cellRange :: "int \<Rightarrow> bool" where
  "cellRange v \<longleftrightarrow> 0 \<le> v \<and> v \<le> 127"

definition intRange :: "nat \<Rightarrow> int \<Rightarrow> bool" where
  "intRange w v \<longleftrightarrow> - (2 ^ (w - 1)) \<le> v \<and> v < 2 ^ (w - 1)"

definition bindRegister :: "UserRegisterRequest option \<Rightarrow> (string \<times> string \<times> string) option" where
  "bindRegister body = (case body of None \<Rightarrow> None
   | Some r \<Rightarrow> if runesBetween 6 20 (rqUserName r) \<and> runesBetween 6 20 (rqNickname r) \<and> runesBetween 8 20 (rqPassword r)
       then Some (rqUserName r, rqNickname r, rqPassword r) else None)"

definition bindLogin :: "UserLoginRequest option \<Rightarrow> (string \<times> string) option" where
  "bindLogin body = (case body of None \<Rightarrow> None
   | Some r \<Rightarrow> if runesBetween 6 20 (lqUserName r) \<and> runesBetween 8 20 (lqPassword r)
       then Some (lqUserName r, lqPassword r) else None)"

definition bindJoin :: "JoinMatchQueueRequest option \<Rightarrow> string option" where
  "bindJoin body = (case body of None \<Rightarrow> None | Some r \<Rightarrow> if jqMode r \<noteq> '''' then Some (jqMode r) else None)"

definition bindOpen :: "OpenMineCellRequest option \<Rightarrow> (int \<times> int) option" where
  "bindOpen body = (case body of None \<Rightarrow> None
   | Some r \<Rightarrow> if cellRange (omX r) \<and> cellRange (omY r) then Some (omX r, omY r) else None)"

definition bindFlag :: "FlagMineCellRequest option \<Rightarrow> (int \<times> int \<times> bool) option" where
  "bindFlag body = (case body of None \<Rightarrow> None
   | Some r \<Rightarrow> if cellRange (fmX r) \<and> cellRange (fmY r) then Some (fmX r, fmY r, fmFlagged r) else None)"

text \<open>No tags here; a number that does not fit is a body that does not decode.\<close>

definition bindMatchResult :: "SetMatchResultRequest option \<Rightarrow> (int \<times> int) option" where
  "bindMatchResult body = (case body of None \<Rightarrow> None
   | Some r \<Rightarrow> if intRange 64 (smMatchID r) \<and> intRange 8 (smWinTeamNo r) then Some (smMatchID r, smWinTeamNo r) else None)"

section \<open>What the handlers can rely on\<close>

text \<open>A cell that was bound has an index: the index errors of the two workers cannot come from a request.\<close>

lemma bound_cell:
  "bindOpen body = Some (x, y) \<Longrightarrow> ChunkCellIndex x y = Inr (y * ChunkSize + x)"
  "bindFlag flag = Some (x, y, f) \<Longrightarrow> ChunkCellIndex x y = Inr (y * ChunkSize + x)"
  by (auto simp: bindOpen_def bindFlag_def cellRange_def ChunkCellIndex_def ChunkSize_def split: option.splits if_splits)

text \<open>What the browser sends for the shortest names, and one that is too short.\<close>

lemma bindRegister_example:
  "bindRegister (Some \<lparr>rqUserName = ''player'', rqNickname = ''player'', rqPassword = ''password''\<rparr>) = Some (''player'', ''player'', ''password'')"
  "bindRegister (Some \<lparr>rqUserName = ''play'', rqNickname = ''player'', rqPassword = ''password''\<rparr>) = None"
  by code_simp+

end
