(* ===== verification/RankWorker.thy ===== *)
theory RankWorker
  imports RankLedger "HOL-Library.Multiset"
begin

text \<open>
  The rank worker over the ledger: a settled result shows on the leaderboard, a result delivered
  again is acknowledged without an effect, every published result is settled in the end, and the
  leaderboard request lists the best players in order.
\<close>

section \<open>The leaderboard after a settlement\<close>

lemma rankFor_Some: "rankFor mode u a b \<noteq> None \<longleftrightarrow> a \<noteq> 0 \<or> b \<noteq> 0"
  by (simp add: rankFor_def)

lemma games_book:
  assumes "\<not> booked evt hist" "p \<in> set ps"
  shows "games True (evMode evt) (mpUserID p) (book evt ps hist) \<noteq> 0 \<or> games False (evMode evt) (mpUserID p) (book evt ps hist) \<noteq> 0"
proof -
  have "(evt, p) \<in> set (gamesOf (book evt ps hist))"
    using assms by (auto simp: gamesOf_def book_def)
  then show ?thesis by (cases "mpTeamNo p = evWinTeamNo evt") (auto simp: games_def filter_empty_conv)
qed

text \<open>When the settlement of a new result reports success, each player of the match has a rank
  and the leaderboard of the mode shows its score.\<close>

theorem SettleMatchResult_shows:
  assumes "ledger hist w" "\<not> booked evt hist" "SettleMatchResult evt w = (Inr (), w')" "p \<in> set (playersOf w (evMatchID evt))"
  shows "\<exists>r. findRank (evMode evt) (mpUserID p) (dbPlayerRanks w') = Some r
    \<and> mget (rdLeaderboard w' (evMode evt)) (mpUserID p) = Some (prScore r)"
proof -
  let ?h = "book evt (playersOf w (evMatchID evt)) hist"
  have l: "ledger ?h w'" and s: "synced (evMode evt) w' (mpUserID p)"
    using Settle_outcome [OF assms(1,3)] assms(2,4) by auto
  have "findRank (evMode evt) (mpUserID p) (dbPlayerRanks w') \<noteq> None"
    unfolding ledger_ranks [OF l] rankFor_Some using games_book [OF assms(2,4)] .
  then show ?thesis using s by (auto simp: synced_def)
qed

section \<open>Calm runs\<close>

text \<open>Without failures no operation of a settlement fails, and none makes failures up.\<close>

lemma calm_rd: "triple (\<lambda>w. net w = []) (rd f) (\<lambda>_ w. net w = []) (\<lambda>_. False)"
  by (simp add: triple_def)

lemma calm_wr: "(\<And>w. net (upd w) = net w) \<Longrightarrow> triple (\<lambda>w. net w = []) (wr f upd) (\<lambda>_ w. net w = []) (\<lambda>_. False)"
  by (simp add: triple_def)

lemma calm_ret: "triple (\<lambda>w. net w = []) (ret a) (\<lambda>_ w. net w = []) (\<lambda>_. False)"
  by (simp add: triple_def ret_def)

lemma triple_False: "triple (\<lambda>_. False) m Q E"
  by (simp add: triple_def)

lemma calm_onErr:
  "triple (\<lambda>w. net w = []) m (\<lambda>_ w. net w = []) (\<lambda>_. False) \<Longrightarrow>
   triple (\<lambda>w. net w = []) (onErr m h) (\<lambda>_ w. net w = []) (\<lambda>_. False)"
  by (rule triple_onErr, assumption, rule triple_False)

lemma calm_updateRanks:
  "triple (\<lambda>w. net w = []) (updateRanks evt tx ps) (\<lambda>_ w. net w = []) (\<lambda>_. False)"
proof (induction ps arbitrary: tx)
  case (Cons p ps)
  then show ?case
    by (cases "rankDelta evt p") (auto simp: UpdatePlayerRank_def intro!: triple_andThen [OF calm_onErr] calm_rd)
qed (simp add: calm_ret)

lemma calm_syncLeaderboard:
  "triple (\<lambda>w. net w = []) (syncLeaderboard mode ps) (\<lambda>_ w. net w = []) (\<lambda>_. False)"
proof (induction ps)
  case (Cons p ps)
  have "triple (\<lambda>w. net w = []) (case v of None \<Rightarrow> syncLeaderboard mode ps
      | Some r \<Rightarrow> andThen (wrapErr msg (SetPlayerScore mode (mpUserID p) (prScore r))) (\<lambda>_. syncLeaderboard mode ps))
      (\<lambda>_ w. net w = []) (\<lambda>_. False)" for v msg
    using Cons by (cases v) (auto simp: SetPlayerScore_def zadd_def intro!: triple_andThen [OF triple_wrap [OF calm_wr]])
  then show ?case
    unfolding syncLeaderboard.simps GetPlayerRank_def by (rule triple_andThen [OF triple_wrap [OF calm_rd]])
qed (simp add: calm_ret)

lemma AddRankEvent_calm:
  "net w = [] \<Longrightarrow> attempt (AddRankEvent tx ev) w =
     (Inr (if \<exists>r \<in> set (dbRankEvents w @ rxEvents tx). sameEvent ev r then Inl DupKeyErr
           else Inr (tx\<lparr>rxEvents := rxEvents tx @ [ev]\<rparr>)), w)"
  by (simp add: AddRankEvent_def attempt_def prog_defs)

lemma calm_add:
  "triple (\<lambda>w. net w = []) (attempt (AddRankEvent tx ev))
     (\<lambda>r w. (\<forall>e. r = Inl e \<longrightarrow> IsDuplicateKeyError e) \<and> net w = []) (\<lambda>_. False)"
  by (simp add: triple_def AddRankEvent_calm)

lemma triple_total: "triple P m Q (\<lambda>_. False) \<Longrightarrow> P w \<Longrightarrow> \<exists>a w'. m w = (Inr a, w') \<and> Q a w'"
  by (cases "m w", cases "fst (m w)") (auto simp: triple_def dest!: spec [of _ w])

lemma calm_ignore:
  fixes m :: "'x io"
  assumes "triple (\<lambda>w. net w = []) m (\<lambda>_ w. net w = []) (\<lambda>_. False)"
  shows "triple (\<lambda>w. net w = []) (ignoreErr m :: unit io) (\<lambda>_ w. net w = []) (\<lambda>_. False)"
  unfolding triple_def
proof (intro allI impI)
  fix w :: world assume "net w = []"
  then obtain a w' where "m w = (Inr a, w')" "net w' = []" using triple_total [OF assms] by blast
  then show "case ignoreErr m w of (Inl e, w') \<Rightarrow> False | (Inr a, w') \<Rightarrow> net w' = []" by (simp add: ignoreErr_def)
qed

lemma calm_Settle: "triple (\<lambda>w. net w = []) (SettleMatchResult evt) (\<lambda>_ w. net w = []) (\<lambda>_. False)"
proof -
  have dup: "triple (\<lambda>w. net w = []) (andThen (ignoreErr RollbackRankTx) (\<lambda>_.
         if IsDuplicateKeyError e then ret () else fail (f e))) (\<lambda>_ w. net w = []) (\<lambda>_. False)"
    if "IsDuplicateKeyError e" for e f
    using that unfolding RollbackRankTx_def by (auto intro!: triple_andThen [OF calm_ignore] calm_rd calm_ret)
  have new: "triple (\<lambda>w. net w = []) (andThen (updateRanks evt tx1 ps) (\<lambda>tx2.
         andThen (wrapErr msg (CommitRankTx tx2)) (\<lambda>_. syncLeaderboard (evMode evt) ps)))
         (\<lambda>_ w. net w = []) (\<lambda>_. False)" for tx1 msg ps
    unfolding CommitRankTx_def
    by (intro triple_andThen [OF calm_updateRanks] triple_andThen [OF triple_wrap [OF calm_wr]] calm_syncLeaderboard)
       (simp add: commitRanks_def)
  show ?thesis
    unfolding SettleMatchResult_def GetMatchPlayers_def BeginRankTx_def
    apply (rule triple_andThen [OF triple_wrap [OF calm_rd]])+
    apply (rule triple_andThen [OF calm_add], rule triple_pre)
    subgoal for ps tx r by (cases r) (use dup new in simp_all)
    done
qed

lemma calm_Settle_ok: "net w = [] \<Longrightarrow> \<exists>w'. SettleMatchResult evt w = (Inr (), w') \<and> net w' = []"
  using triple_total [OF calm_Settle, of w evt] by auto

text \<open>A result that is booked already is acknowledged and nothing at all changes. So a delivery
  that failed after the commit, while the leaderboard was being written, is not made up for when it
  comes again.\<close>

theorem SettleMatchResult_again:
  assumes "net w = []" "ledger hist w" "booked evt hist"
  shows "SettleMatchResult evt w = (Inr (), w)"
proof -
  have "\<exists>r \<in> set (dbRankEvents w). sameEvent (rankEventOf evt) r"
    using assms(2,3) by (auto simp: ledger_def booked_def)
  then show ?thesis using assms(1)
    by (simp add: SettleMatchResult_def GetMatchPlayers_def BeginRankTx_def RollbackRankTx_def wrapErr_def
        andThen_def onErr_def ignoreErr_def ret_def AddRankEvent_calm)
qed

section \<open>Every result is settled in the end\<close>

text \<open>Failures are used up: an operation leaves at most as many as there were.\<close>

definition net_le :: "nat \<Rightarrow> world \<Rightarrow> bool" where
  "net_le n w \<longleftrightarrow> length (net w) \<le> n"

lemma net_le_rd: "keeps (net_le n) (rd f)"
  by (auto simp: gives_def net_le_def rd_def popNet_def split: list.splits outcome.splits)

lemma net_le_wr: "(\<And>w. net (upd w) = net w) \<Longrightarrow> keeps (net_le n) (wr f upd)"
  by (auto simp: gives_def net_le_def wr_def popNet_def split: list.splits outcome.splits)

lemma net_le_updateRanks: "keeps (net_le n) (updateRanks evt tx ps)"
  by (induction ps arbitrary: tx)
     (auto simp: UpdatePlayerRank_def RollbackRankTx_def split: prod.splits
       intro!: keeps_andThen gives_onErr gives_ignoreErr gives_intros net_le_rd)

lemma net_le_sync: "keeps (net_le n) (syncLeaderboard mode ps)"
  by (induction ps)
     (auto simp: GetPlayerRank_def SetPlayerScore_def zadd_def
       intro!: keeps_andThen gives_wrap gives_intros net_le_rd net_le_wr)

lemma net_le_settle_rest:
  "keeps (net_le n) (andThen (wrapErr m1 BeginRankTx) (\<lambda>tx.
     andThen (attempt (AddRankEvent tx ev)) (\<lambda>added. case added of
       Inl e \<Rightarrow> andThen (ignoreErr RollbackRankTx) (\<lambda>_. if IsDuplicateKeyError e then ret () else fail (f e))
     | Inr tx1 \<Rightarrow> andThen (updateRanks evt tx1 ps) (\<lambda>tx2.
         andThen (wrapErr m2 (CommitRankTx tx2)) (\<lambda>_. syncLeaderboard mode ps)))))"
  unfolding BeginRankTx_def RollbackRankTx_def CommitRankTx_def AddRankEvent_def
  by (intro keeps_andThen gives_wrap keeps_attempt gives_ignoreErr gives_intros net_le_rd net_le_wr net_le_updateRanks net_le_sync)
     (simp_all add: commitRanks_def)

text \<open>The first call of a settlement takes one outcome from the network.\<close>

lemma andThen_run: "m w = (r, w') \<Longrightarrow> andThen m k w = (case r of Inl e \<Rightarrow> (Inl e, w') | Inr a \<Rightarrow> k a w')"
  by (simp add: andThen_def split: sum.split)

lemma wrapErr_rd_uses_net: "net w = x # xs \<Longrightarrow> \<exists>r. wrapErr msg (rd f) w = (r, w\<lparr>net := xs\<rparr>)"
  by (cases x) (simp_all add: wrapErr_def onErr_def fail_def rd_def popNet_def)

lemma Settle_uses_net:
  assumes "net w = x # xs"
  shows "length (net (snd (SettleMatchResult evt w))) < length (net w)"
proof -
  obtain r where r: "wrapErr ''querying the players failed: '' (GetMatchPlayers (evMatchID evt)) w = (r, w\<lparr>net := xs\<rparr>)"
    unfolding GetMatchPlayers_def using wrapErr_rd_uses_net [OF assms] by blast
  have le: "net_le (length xs) (w\<lparr>net := xs\<rparr>)" by (simp add: net_le_def)
  have "net_le (length xs) (snd (SettleMatchResult evt w))"
    unfolding SettleMatchResult_def andThen_run [where m = "wrapErr ''querying the players failed: '' (GetMatchPlayers (evMatchID evt))", OF r] using le
    by (cases r) (simp_all add: givesD [OF net_le_settle_rest])
  then show ?thesis using assms by (simp add: net_le_def)
qed

lemma mqEvents_Settle: "mqEvents (snd (SettleMatchResult evt w)) = mqEvents w"
proof -
  let ?I = "\<lambda>v. mqEvents v = mqEvents w"
  have di: "data_inv ?I" by (simp add: data_inv_def)
  have ranks: "keeps ?I (updateRanks evt tx ps)" for tx ps
    by (induction ps arbitrary: tx)
       (auto simp: UpdatePlayerRank_def RollbackRankTx_def split: prod.splits
         intro!: keeps_andThen gives_onErr gives_ignoreErr gives_intros keeps_rd [OF di])
  have sync: "keeps ?I (syncLeaderboard mode ps)" for mode ps
    by (induction ps)
       (auto simp: GetPlayerRank_def SetPlayerScore_def zadd_def
         intro!: keeps_andThen gives_wrap gives_intros keeps_rd [OF di] keeps_wr [OF di])
  have "keeps ?I (SettleMatchResult evt)"
    unfolding SettleMatchResult_def GetMatchPlayers_def BeginRankTx_def RollbackRankTx_def CommitRankTx_def AddRankEvent_def
    by (intro keeps_andThen gives_wrap keeps_attempt gives_ignoreErr gives_intros keeps_rd [OF di] keeps_wr [OF di] ranks sync)
       (simp_all add: commitRanks_def)
  then show ?thesis by (rule givesD) simp
qed

text \<open>Outcomes and deliveries that are left, and what a turn does to them.\<close>

definition workLeft :: "world \<Rightarrow> nat" where
  "workLeft w = length (net w) + length (mqEvents w)"

lemma net_Settle: "length (net (snd (SettleMatchResult evt w))) \<le> length (net w)"
proof (cases "net w")
  case Nil
  then show ?thesis using calm_Settle_ok [OF Nil, of evt] by auto
next
  case (Cons x xs)
  then show ?thesis using Settle_uses_net [OF Cons, of evt] by simp
qed

lemma workerTurn_progress:
  assumes "mqEvents w \<noteq> []"
  shows "workLeft (workerTurn w) < workLeft w"
proof -
  obtain evt evts where ev: "mqEvents w = evt # evts" using assms by (cases "mqEvents w") auto
  obtain r w' where run: "SettleMatchResult evt w = (r, w')" by (cases "SettleMatchResult evt w")
  have mq: "mqEvents w' = mqEvents w" using mqEvents_Settle [of evt w] run by simp
  have net: "length (net w') \<le> length (net w)" using net_Settle [of evt w] run by simp
  show ?thesis
  proof (cases r)
    case (Inl e)
    then have "net w \<noteq> []" using calm_Settle_ok [of w evt] run by auto
    then obtain x xs where "net w = x # xs" by (cases "net w") auto
    then have "length (net w') < length (net w)" using Settle_uses_net [of w x xs evt] run by simp
    then show ?thesis using run Inl mq by (simp add: workerTurn_def ev workLeft_def)
  next
    case (Inr u)
    then show ?thesis using run net by (simp add: workerTurn_def ev workLeft_def)
  qed
qed

text \<open>Booked or still to be delivered: no result is lost on the way.\<close>

definition pendingOrBooked :: "MatchResultFinishedEvent \<Rightarrow> world \<Rightarrow> bool" where
  "pendingOrBooked evt w \<longleftrightarrow> (\<exists>hist. ledger hist w \<and> (evt \<in> set (mqEvents w) \<or> booked evt hist))"

lemma booked_book: "booked evt (book evt ps hist)" "booked e hist \<Longrightarrow> booked e (book evt ps hist)"
  by (auto simp: booked_def book_def sameEvent_def)

lemma workerTurn_pending:
  assumes "pendingOrBooked evt w"
  shows "pendingOrBooked evt (workerTurn w)"
proof -
  obtain hist where h: "ledger hist w" "evt \<in> set (mqEvents w) \<or> booked evt hist"
    using assms by (auto simp: pendingOrBooked_def)
  show ?thesis
  proof (cases "mqEvents w")
    case Nil
    then show ?thesis using assms by (simp add: workerTurn_def)
  next
    case (Cons e evts)
    obtain r w' where run: "SettleMatchResult e w = (r, w')" by (cases "SettleMatchResult e w")
    have mq: "mqEvents w' = mqEvents w" using mqEvents_Settle [of e w] run by simp
    let ?b = "book e (playersOf w (evMatchID e)) hist"
    have out: "(r = Inr () \<and> ledger ?b w') \<or> (r \<noteq> Inr () \<and> (ledger hist w' \<or> ledger ?b w'))"
      using Settle_outcome [OF h(1) run] by blast
    show ?thesis
    proof (cases r)
      case (Inl err)
      then have t: "workerTurn w = w'" using Cons run by (simp add: workerTurn_def)
      have "ledger hist w' \<or> ledger ?b w'" using out Inl by simp
      then show ?thesis unfolding pendingOrBooked_def t mq using h(2) booked_book(2) by blast
    next
      case (Inr u)
      then have t: "workerTurn w = w'\<lparr>mqEvents := evts\<rparr>" using Cons run by (simp add: workerTurn_def)
      have "ledger ?b (workerTurn w)" using out Inr by (simp add: t ledger_def)
      moreover have "evt \<in> set (mqEvents (workerTurn w)) \<or> booked evt ?b"
        using h(2) Cons booked_book by (auto simp: t)
      ultimately show ?thesis unfolding pendingOrBooked_def by blast
    qed
  qed
qed

lemma workerTurns_idle: "mqEvents w = [] \<Longrightarrow> workerTurns n w = w"
  by (induction n) (simp_all add: workerTurn_def)

lemma workerTurns_drain: "workLeft w \<le> n \<Longrightarrow> mqEvents (workerTurns n w) = []"
proof (induction n arbitrary: w)
  case 0
  then show ?case by (simp add: workLeft_def)
next
  case (Suc n)
  show ?case
  proof (cases "mqEvents w = []")
    case True
    then show ?thesis by (simp add: workerTurns_idle [OF True] workerTurn_def)
  next
    case False
    then show ?thesis using Suc workerTurn_progress [OF False] by simp
  qed
qed

lemma workerTurns_pending: "pendingOrBooked evt w \<Longrightarrow> pendingOrBooked evt (workerTurns n w)"
  by (induction n arbitrary: w) (simp_all add: workerTurn_pending)

text \<open>If the stores fail only finitely often, the worker gets through: after as many turns as there
  are failures and deliveries the queue is empty and every result that was waiting in it is booked.\<close>

theorem worker_settles_all:
  assumes "ledger hist w" "length (net w) + length (mqEvents w) \<le> n"
  shows "mqEvents (workerTurns n w) = []
    \<and> (\<forall>evt \<in> set (mqEvents w). \<exists>hist'. ledger hist' (workerTurns n w) \<and> booked evt hist')"
proof
  show empty: "mqEvents (workerTurns n w) = []"
    using workerTurns_drain assms(2) by (simp add: workLeft_def)
  show "\<forall>evt \<in> set (mqEvents w). \<exists>hist'. ledger hist' (workerTurns n w) \<and> booked evt hist'"
  proof
    fix evt assume "evt \<in> set (mqEvents w)"
    then have "pendingOrBooked evt (workerTurns n w)"
      using assms(1) by (intro workerTurns_pending) (auto simp: pendingOrBooked_def)
    then show "\<exists>hist'. ledger hist' (workerTurns n w) \<and> booked evt hist'"
      using empty by (auto simp: pendingOrBooked_def)
  qed
qed

section \<open>The leaderboard request\<close>

lemma rankItems_sel:
  "map (\<lambda>i. (lbUserID i, lbScore i)) (rankItems k xs) = xs" "map lbRank (rankItems k xs) = [k + 1..k + int (length xs)]"
proof -
  show "map (\<lambda>i. (lbUserID i, lbScore i)) (rankItems k xs) = xs" by (induction k xs rule: rankItems.induct) auto
  show "map lbRank (rankItems k xs) = [k + 1..k + int (length xs)]"
  proof (induction k xs rule: rankItems.induct)
    case (2 i u s items)
    moreover have "[i + 1..i + int (length ((u, s) # items))] = (i + 1) # [i + 1 + 1..i + 1 + int (length items)]"
      by (subst upto_rec1) (simp_all add: algebra_simps)
    ultimately show ?case by simp
  qed simp
qed

definition boardOrder :: "int \<times> int \<Rightarrow> int \<times> string" where
  "boardOrder = (\<lambda>(u, s). (s, itoa u))"

lemma zrevrange_sort: "1 \<le> n \<Longrightarrow> zrevrange (n - 1) board = take (nat n) (rev (sort_key boardOrder board))"
  by (simp add: zrevrange_def boardOrder_def)

lemma zrevrange_facts:
  assumes "map_ok board" "1 \<le> n"
  defines "xs \<equiv> zrevrange (n - 1) board"
  shows "int (length xs) = min n (mlen board)" "distinct (map fst xs)" "set xs \<subseteq> set board"
    "sorted (rev (map snd xs))" "p \<in> set board \<Longrightarrow> p \<notin> set xs \<Longrightarrow> q \<in> set xs \<Longrightarrow> snd p \<le> snd q"
proof -
  let ?r = "rev (sort_key boardOrder board)"
  have xs: "xs = take (nat n) ?r" unfolding xs_def by (rule zrevrange_sort [OF assms(2)])
  have srt: "sorted_wrt (\<lambda>p q. boardOrder q \<le> boardOrder p) ?r"
    using sorted_sort_key [of boardOrder board] by (simp add: sorted_wrt_rev sorted_wrt_map)
  have le: "snd q \<le> snd p" if "boardOrder q \<le> boardOrder p" for p q
    using that by (cases p; cases q) (auto simp: boardOrder_def less_eq_prod_def)
  show "int (length xs) = min n (mlen board)" using assms(2) by (auto simp: xs mlen_def)
  have "mset (map fst ?r) = mset (map fst board)" by simp
  then have "distinct (map fst ?r) = distinct (map fst board)" by (rule mset_eq_imp_distinct_iff)
  then have "distinct (map fst ?r)" using assms(1) by (simp add: map_ok_def mkeys_def)
  then show "distinct (map fst xs)" unfolding xs take_map [symmetric] by (rule distinct_take)
  show "set xs \<subseteq> set board" using set_take_subset [of "nat n" ?r] by (simp add: xs)
  have "sorted_wrt (\<lambda>p q. snd q \<le> snd p) xs"
    unfolding xs by (rule sorted_wrt_mono_rel [OF _ sorted_wrt_take [OF srt]]) (rule le)
  then show "sorted (rev (map snd xs))" by (simp add: sorted_wrt_rev sorted_wrt_map)
  assume p: "p \<in> set board" "p \<notin> set xs" and q: "q \<in> set xs"
  have split: "?r = xs @ drop (nat n) ?r" by (simp add: xs)
  have "p \<in> set ?r" using p(1) by simp
  then have "p \<in> set (drop (nat n) ?r)" using p(2) split by (metis Un_iff set_append)
  then have "boardOrder p \<le> boardOrder q" using srt q split by (metis sorted_wrt_append)
  then show "snd p \<le> snd q" by (rule le)
qed

lemma clampLimit_eq: "clampLimit limit = (if limit \<le> 0 then 20 else min limit 100)"
  by (simp add: clampLimit_def Let_def)

text \<open>(C40) The leaderboard lists, with ranks counted from one, the players with the highest scores in
  descending order: as many as asked for, 20 unless that is positive and never more than 100, or
  all when there are fewer; nobody left out has a higher score than somebody listed.\<close>

theorem GetLeaderboard_top:
  fixes limit :: int
  assumes "net w = []" "mode \<noteq> ''''" "map_ok (rdLeaderboard w mode)"
  defines "board \<equiv> rdLeaderboard w mode" and "n \<equiv> if limit \<le> 0 then 20 else min limit 100"
  shows "\<exists>items. GetLeaderboard mode limit w = (Inr \<lparr>lrMode = mode, lrItems = items\<rparr>, w)
    \<and> int (length items) = min n (mlen board) \<and> map lbRank items = [1..int (length items)]
    \<and> distinct (map lbUserID items) \<and> sorted (rev (map lbScore items))
    \<and> (\<forall>i \<in> set items. mget board (lbUserID i) = Some (lbScore i))
    \<and> (\<forall>u s. mget board u = Some s \<and> u \<notin> lbUserID ` set items \<longrightarrow> (\<forall>i \<in> set items. s \<le> lbScore i))"
proof -
  let ?xs = "zrevrange (n - 1) board"
  let ?items = "rankItems 0 ?xs"
  have ok: "map_ok board" using assms(3) by (simp add: board_def)
  have n: "1 \<le> n" by (simp add: n_def)
  note z = zrevrange_facts [OF ok n]
  have run: "GetLeaderboard mode limit w = (Inr \<lparr>lrMode = mode, lrItems = ?items\<rparr>, w)"
    using assms(1,2) unfolding board_def n_def clampLimit_eq [symmetric]
    by (simp add: GetLeaderboard_def ListTopN_def wrapErr_def andThen_def onErr_def ret_def)
  have pairs: "map (\<lambda>i. (lbUserID i, lbScore i)) ?items = ?xs" by (rule rankItems_sel)
  have fsts: "map lbUserID ?items = map fst ?xs" and snds: "map lbScore ?items = map snd ?xs"
    using arg_cong [OF pairs, of "map fst"] arg_cong [OF pairs, of "map snd"] by (simp_all add: comp_def)
  have len: "length ?items = length ?xs" using arg_cong [OF pairs, of length] by simp
  have in_xs: "(lbUserID i, lbScore i) \<in> set ?xs" if "i \<in> set ?items" for i
    using that arg_cong [OF pairs, of set] by auto
  have "mget board (lbUserID i) = Some (lbScore i)" if "i \<in> set ?items" for i
    using in_xs [OF that] z(3) mget_set [OF ok] by auto
  moreover have "s \<le> lbScore i" if "mget board u = Some s" "u \<notin> lbUserID ` set ?items" "i \<in> set ?items" for u s i
  proof -
    have "u \<notin> fst ` set ?xs" using that(2) fsts by (metis set_map)
    then have "(u, s) \<notin> set ?xs" by force
    then show ?thesis using z(5) [of "(u, s)" "(lbUserID i, lbScore i)"] that(1) in_xs [OF that(3)] mget_set [OF ok] by simp
  qed
  moreover have "map lbRank ?items = [1..int (length ?items)]" using rankItems_sel(2) [of 0 ?xs] by (simp add: len)
  ultimately show ?thesis
    using z(1,2,4) run by (intro exI [of _ ?items]) (simp add: fsts snds len del: set_map, blast)
qed

section \<open>Examples\<close>

text \<open>Match 4 of players 7 and 9, won by player 9, is waiting to be settled.\<close>

definition wonByNine :: MatchResultFinishedEvent where
  "wonByNine = \<lparr>evEventID = ''evt_4'', evMatchID = 4, evWinTeamNo = 1, evMode = ''1v1'', evOccurredAt = 8\<rparr>"

definition sevenAndNine :: "MatchPlayer list" where
  "sevenAndNine = [\<lparr>mpMatchID = 4, mpUserID = 7, mpTeamNo = 0\<rparr>, \<lparr>mpMatchID = 4, mpUserID = 9, mpTeamNo = 1\<rparr>]"

definition toSettle :: world where
  "toSettle = emptyWorld\<lparr>dbMatchPlayers := sevenAndNine, mqEvents := [wonByNine]\<rparr>"

definition settledRanks :: "PlayerRank list" where
  "settledRanks = [\<lparr>prMode = ''1v1'', prUserID = 7, prScore = 940, prWinCount = 0, prLoseCount = 1, prMatchCount = 1\<rparr>,
     \<lparr>prMode = ''1v1'', prUserID = 9, prScore = 1100, prWinCount = 1, prLoseCount = 0, prMatchCount = 1\<rparr>]"

definition settledWorld :: world where
  "settledWorld = toSettle\<lparr>dbRankEvents := [rankEventOf wonByNine], dbPlayerRanks := settledRanks,
     rdLeaderboard := (\<lambda>_. [])(''1v1'' := [(7, 940), (9, 1100)])\<rparr>"

lemma toSettle_sel:
  "net toSettle = []" "dbMatchPlayers toSettle = sevenAndNine" "dbRankEvents toSettle = []" "dbPlayerRanks toSettle = []"
  "rdLeaderboard toSettle = (\<lambda>_. [])" "mqEvents toSettle = [wonByNine]"
  by (simp_all add: toSettle_def emptyWorld_def)

lemma ledger_toSettle: "ledger [] toSettle"
  by (simp add: ledger_def bookings_def toSettle_sel)

lemma playersOf_toSettle: "playersOf toSettle 4 = sevenAndNine"
  by (simp add: playersOf_def toSettle_sel sevenAndNine_def)

lemma settle_run: "SettleMatchResult wonByNine toSettle = (Inr (), settledWorld)"
  by (simp add: SettleMatchResult_def GetMatchPlayers_def BeginRankTx_def CommitRankTx_def commitRanks_def GetPlayerRank_def
      UpdatePlayerRank_def SetPlayerScore_def zadd_def wrapErr_def andThen_def onErr_def ret_def AddRankEvent_calm
      toSettle_sel sevenAndNine_def wonByNine_def rankDelta_def settledWorld_def settledRanks_def rankEventOf_def)

lemma SettleMatchResult_refines_witness:
  "\<exists>hist'. ledger hist' settledWorld \<and> booked wonByNine hist'"
  using SettleMatchResult_refines [OF ledger_toSettle, of wonByNine] booked_book(1) [of wonByNine]
  unfolding settle_run fst_conv snd_conv by metis

lemma SettleMatchResult_shows_witness:
  "\<exists>r. findRank ''1v1'' 9 (dbPlayerRanks settledWorld) = Some r \<and> mget (rdLeaderboard settledWorld ''1v1'') 9 = Some (prScore r)"
  using SettleMatchResult_shows [OF ledger_toSettle _ settle_run, of "\<lparr>mpMatchID = 4, mpUserID = 9, mpTeamNo = 1\<rparr>"]
  by (simp add: booked_def wonByNine_def playersOf_toSettle) (simp add: sevenAndNine_def)

lemma ledger_settled: "ledger [(wonByNine, sevenAndNine)] settledWorld"
  by (simp add: ledger_def settledWorld_def bookings_def upsertFor_def rankDelta_def wonByNine_def sevenAndNine_def settledRanks_def)

lemma SettleMatchResult_again_witness: "SettleMatchResult wonByNine settledWorld = (Inr (), settledWorld)"
  by (rule SettleMatchResult_again [OF _ ledger_settled])
     (simp_all add: settledWorld_def toSettle_sel booked_def sameEvent_def)


text \<open>Two failures, then the result of match 4 is settled: three turns are enough.\<close>

lemma worker_settles_all_witness:
  "mqEvents (workerTurns 3 (toSettle\<lparr>net := [Done, Lost]\<rparr>)) = []"
  using worker_settles_all [of "[]" "toSettle\<lparr>net := [Done, Lost]\<rparr>" 3] ledger_toSettle
  by (simp add: ledger_def toSettle_sel)

lemma GetLeaderboard_top_witness:
  "\<exists>items. fst (GetLeaderboard ''1v1'' 1 settledWorld) = Inr \<lparr>lrMode = ''1v1'', lrItems = items\<rparr>
     \<and> length items = 1 \<and> map lbRank items = [1]"
  using GetLeaderboard_top [of settledWorld "''1v1''" 1]
  by (auto simp: settledWorld_def toSettle_sel map_ok_def mkeys_def mlen_def)

end
