(* ===== verification/Deliveries.thy ===== *)
theory Deliveries
  imports RankWorker
begin

text \<open>
  The deliveries of the rank worker: the loop of \<^verbatim>\<open>cmd/worker/main.go\<close> over the bodies the broker hands it. Decoding JSON is
  a parameter. A body that does not decode is rejected for good, a result that could not be settled goes
  back to the head of the queue, a settled one is acknowledged. The loop refines the turns of
  \<open>RankService\<close>, whose queue holds the decoded results.
\<close>

section \<open>The loop\<close>

datatype acknowledgement = Ack | Nack bool

text \<open>\<open>Nack requeue\<close>; only one delivery is answered at a time.\<close>

definition handleDelivery :: "(string \<Rightarrow> MatchResultFinishedEvent option) \<Rightarrow> string \<Rightarrow> world \<Rightarrow> acknowledgement \<times> world" where
  "handleDelivery unmarshal body w = (case unmarshal body of
     None \<Rightarrow> (Nack False, w)
   | Some evt \<Rightarrow> (case SettleMatchResult evt w of
       (Inl _, w') \<Rightarrow> (Nack True, w')
     | (Inr _, w') \<Rightarrow> (Ack, w')))"

definition deliveryTurn :: "(string \<Rightarrow> MatchResultFinishedEvent option) \<Rightarrow> string list \<times> world \<Rightarrow> string list \<times> world" where
  "deliveryTurn unmarshal s = (case s of
     ([], w) \<Rightarrow> ([], w)
   | (body # bodies, w) \<Rightarrow> (case handleDelivery unmarshal body w of
       (Nack requeue, w') \<Rightarrow> (if requeue then body # bodies else bodies, w')
     | (Ack, w') \<Rightarrow> (bodies, w')))"

fun deliveryTurns :: "(string \<Rightarrow> MatchResultFinishedEvent option) \<Rightarrow> nat \<Rightarrow> string list \<times> world \<Rightarrow> string list \<times> world" where
  "deliveryTurns unmarshal 0 s = s"
| "deliveryTurns unmarshal (Suc n) s = deliveryTurns unmarshal n (deliveryTurn unmarshal s)"

section \<open>The queue of decoded results\<close>

definition decoded :: "(string \<Rightarrow> MatchResultFinishedEvent option) \<Rightarrow> string list \<Rightarrow> MatchResultFinishedEvent list" where
  "decoded unmarshal bodies = List.map_filter unmarshal bodies"

lemma decoded_simps [simp]:
  "decoded unmarshal [] = []"
  "decoded unmarshal (b # bs) = (case unmarshal b of None \<Rightarrow> decoded unmarshal bs | Some e \<Rightarrow> e # decoded unmarshal bs)"
  by (simp_all add: decoded_def map_filter_def split: option.split)

definition absDeliveries :: "(string \<Rightarrow> MatchResultFinishedEvent option) \<Rightarrow> string list \<times> world \<Rightarrow> world" where
  "absDeliveries unmarshal s = (case s of (bodies, w) \<Rightarrow> w\<lparr>mqEvents := decoded unmarshal bodies\<rparr>)"

text \<open>A settlement neither looks at the queue nor changes it.\<close>

definition blind :: "(world \<Rightarrow> world) \<Rightarrow> 'a io \<Rightarrow> bool" where
  "blind upd m \<longleftrightarrow> (\<forall>w. m (upd w) = (case m w of (r, w') \<Rightarrow> (r, upd w')))"

lemma blind_steps:
  "blind upd (ret a)" "blind upd (fail e)" "blind upd (liftE x)"
  "blind upd m \<Longrightarrow> (\<And>a. blind upd (k a)) \<Longrightarrow> blind upd (andThen m k)"
  "blind upd m \<Longrightarrow> (\<And>e. blind upd (h e)) \<Longrightarrow> blind upd (onErr m h)"
  "blind upd m \<Longrightarrow> blind upd (ignoreErr m)"
  "blind upd m \<Longrightarrow> blind upd (attempt m)"
  by (auto simp: blind_def ret_def fail_def liftE_def andThen_def onErr_def ignoreErr_def attempt_def split: prod.splits sum.splits)

lemma blind_wrap: "blind upd m \<Longrightarrow> blind upd (wrapErr msg m)"
  unfolding wrapErr_def by (rule blind_steps(5)) (auto intro: blind_steps)

definition setQueue :: "MatchResultFinishedEvent list \<Rightarrow> world \<Rightarrow> world" where
  "setQueue es w = w\<lparr>mqEvents := es\<rparr>"

lemma setQueue_sel:
  "net (setQueue es w) = net w" "(setQueue es w)\<lparr>net := os\<rparr> = setQueue es (w\<lparr>net := os\<rparr>)"
  "dbMatchPlayers (setQueue es w) = dbMatchPlayers w" "dbRankEvents (setQueue es w) = dbRankEvents w"
  "dbPlayerRanks (setQueue es w) = dbPlayerRanks w" "rdLeaderboard (setQueue es w) = rdLeaderboard w"
  "commitRanks tx (setQueue es w) = setQueue es (commitRanks tx w)" "zadd mode u x (setQueue es w) = setQueue es (zadd mode u x w)"
  by (simp_all add: setQueue_def commitRanks_def zadd_def)

lemma blind_rd: "(\<And>w. f (setQueue es w) = f w) \<Longrightarrow> blind (setQueue es) (rd f)"
  by (auto simp: blind_def rd_def popNet_def setQueue_sel split: list.splits outcome.splits)

lemma blind_wr: "(\<And>w. f (setQueue es w) = f w) \<Longrightarrow> (\<And>w. g (setQueue es w) = setQueue es (g w)) \<Longrightarrow> blind (setQueue es) (wr f g)"
  by (auto simp: blind_def wr_def popNet_def setQueue_sel split: list.splits outcome.splits)

lemma blind_Settle: "blind (setQueue es) (SettleMatchResult evt)"
proof -
  have ranks: "blind (setQueue es) (updateRanks e tx ps)" for e tx ps
  proof (induction ps arbitrary: tx)
    case (Cons p ps)
    then show ?case
      by (auto simp: UpdatePlayerRank_def RollbackRankTx_def setQueue_sel split: prod.splits intro!: blind_steps blind_rd)
  qed (simp add: blind_steps)
  have sync: "blind (setQueue es) (syncLeaderboard mode ps)" for mode ps
  proof (induction ps)
    case (Cons p ps)
    then show ?case
      by (auto simp: GetPlayerRank_def SetPlayerScore_def setQueue_sel split: option.splits
          intro!: blind_steps blind_wrap blind_rd blind_wr)
  qed (simp add: blind_steps)
  show ?thesis
    unfolding SettleMatchResult_def GetMatchPlayers_def BeginRankTx_def RollbackRankTx_def CommitRankTx_def AddRankEvent_def
    by (auto simp: setQueue_sel split: sum.splits intro!: blind_steps blind_wrap blind_rd blind_wr ranks sync)
qed

lemma Settle_setQueue: "SettleMatchResult evt (w\<lparr>mqEvents := es\<rparr>) = (case SettleMatchResult evt w of (r, w') \<Rightarrow> (r, w'\<lparr>mqEvents := es\<rparr>))"
  using blind_Settle [of es evt] by (simp add: blind_def setQueue_def)

text \<open>One delivery is one turn on the decoded queue, or none at all when the body does not decode.\<close>

lemma deliveryTurn_abs:
  "absDeliveries unmarshal (deliveryTurn unmarshal s) =
     (if \<exists>b bs w. s = (b # bs, w) \<and> unmarshal b = None then absDeliveries unmarshal s else workerTurn (absDeliveries unmarshal s))"
proof -
  obtain bodies w where s: "s = (bodies, w)" by (cases s)
  show ?thesis
  proof (cases bodies)
    case Nil
    then show ?thesis by (simp add: s deliveryTurn_def absDeliveries_def workerTurn_def)
  next
    case (Cons b bs)
    show ?thesis
    proof (cases "unmarshal b")
      case None
      then show ?thesis by (simp add: s Cons deliveryTurn_def handleDelivery_def absDeliveries_def)
    next
      case (Some evt)
      obtain r w' where "SettleMatchResult evt w = (r, w')" by (cases "SettleMatchResult evt w")
      then show ?thesis using Some
        by (cases r) (simp_all add: s Cons deliveryTurn_def handleDelivery_def absDeliveries_def workerTurn_def Settle_setQueue)
    qed
  qed
qed

lemma deliveryTurns_abs: "\<exists>k \<le> n. absDeliveries unmarshal (deliveryTurns unmarshal n s) = workerTurns k (absDeliveries unmarshal s)"
proof (induction n arbitrary: s)
  case (Suc n)
  obtain k where k: "k \<le> n" "absDeliveries unmarshal (deliveryTurns unmarshal n (deliveryTurn unmarshal s))
      = workerTurns k (absDeliveries unmarshal (deliveryTurn unmarshal s))" using Suc by blast
  then show ?case
    unfolding deliveryTurns.simps k(2) deliveryTurn_abs
    by (cases "\<exists>b bs w. s = (b # bs, w) \<and> unmarshal b = None") (auto intro: exI [of _ k] exI [of _ "Suc k"])
qed auto

section \<open>Everything is answered\<close>

definition deliveriesLeft :: "string list \<times> world \<Rightarrow> nat" where
  "deliveriesLeft s = length (net (snd s)) + length (fst s)"

lemma deliveryTurn_progress: "fst s \<noteq> [] \<Longrightarrow> deliveriesLeft (deliveryTurn unmarshal s) < deliveriesLeft s"
proof -
  assume "fst s \<noteq> []"
  then obtain b bs w where s: "s = (b # bs, w)" by (cases s, cases "fst s") auto
  show ?thesis
  proof (cases "unmarshal b")
    case None
    then show ?thesis by (simp add: s deliveryTurn_def handleDelivery_def deliveriesLeft_def)
  next
    case (Some evt)
    obtain r w' where run: "SettleMatchResult evt w = (r, w')" by (cases "SettleMatchResult evt w")
    have net: "length (net w') \<le> length (net w)" using net_Settle [of evt w] run by simp
    show ?thesis
    proof (cases r)
      case (Inl e)
      then have "net w \<noteq> []" using calm_Settle_ok [of w evt] run by auto
      then obtain x xs where "net w = x # xs" by (cases "net w") auto
      then have "length (net w') < length (net w)" using Settle_uses_net [of w x xs evt] run by simp
      then show ?thesis using run Inl Some by (simp add: s deliveryTurn_def handleDelivery_def deliveriesLeft_def)
    next
      case (Inr u)
      then show ?thesis using run net Some by (simp add: s deliveryTurn_def handleDelivery_def deliveriesLeft_def)
    qed
  qed
qed

lemma deliveryTurns_drain: "deliveriesLeft s \<le> n \<Longrightarrow> fst (deliveryTurns unmarshal n s) = []"
proof (induction n arbitrary: s)
  case 0
  then show ?case by (simp add: deliveriesLeft_def)
next
  case (Suc n)
  show ?case
  proof (cases "fst s = []")
    case True
    then have "deliveryTurn unmarshal s = s" by (cases s) (simp add: deliveryTurn_def)
    moreover have "deliveryTurns unmarshal m s = s" for m
      by (induction m) (simp_all add: \<open>deliveryTurn unmarshal s = s\<close>)
    ultimately show ?thesis using True by simp
  next
    case False
    then show ?thesis using Suc deliveryTurn_progress [OF False, of unmarshal] by simp
  qed
qed

text \<open>(C18) The rank worker answers every delivery, and no result is lost. If the stores fail only finitely often, then
  after as many deliveries as there are failures and bodies the queue is empty; every body that decodes has been
  settled into the ranks, also when one before it does not decode; and the bodies that do not decode changed
  nothing: the stored state is what the turns over the decoded results alone make of it.\<close>

theorem deliveries_settled:
  assumes "ledger hist w" "length (net w) + length bodies \<le> n"
  shows "fst (deliveryTurns unmarshal n (bodies, w)) = []
    \<and> (\<forall>body \<in> set bodies. \<forall>evt. unmarshal body = Some evt \<longrightarrow>
        (\<exists>hist'. ledger hist' (snd (deliveryTurns unmarshal n (bodies, w))) \<and> booked evt hist'))
    \<and> (\<exists>k \<le> n. (snd (deliveryTurns unmarshal n (bodies, w)))\<lparr>mqEvents := []\<rparr>
        = workerTurns k (w\<lparr>mqEvents := List.map_filter unmarshal bodies\<rparr>))"
proof -
  let ?s = "deliveryTurns unmarshal n (bodies, w)" and ?w = "w\<lparr>mqEvents := decoded unmarshal bodies\<rparr>"
  have empty: "fst ?s = []" by (rule deliveryTurns_drain) (use assms(2) in \<open>simp add: deliveriesLeft_def\<close>)
  obtain k where k: "k \<le> n" "absDeliveries unmarshal ?s = workerTurns k (absDeliveries unmarshal (bodies, w))"
    using deliveryTurns_abs by blast
  have abs: "absDeliveries unmarshal (bodies, w) = ?w" "absDeliveries unmarshal ?s = (snd ?s)\<lparr>mqEvents := []\<rparr>"
    using empty by (simp_all add: absDeliveries_def case_prod_beta)
  have "\<exists>hist'. ledger hist' (snd ?s) \<and> booked evt hist'" if "body \<in> set bodies" "unmarshal body = Some evt" for body evt
  proof -
    have "evt \<in> set (decoded unmarshal bodies)" using that by (force simp: decoded_def map_filter_def)
    moreover have "ledger hist ?w" using assms(1) by (simp add: ledger_def)
    ultimately have "pendingOrBooked evt ?w" by (auto simp: pendingOrBooked_def)
    then have "pendingOrBooked evt ((snd ?s)\<lparr>mqEvents := []\<rparr>)" using workerTurns_pending k(2) unfolding abs by metis
    then show ?thesis by (auto simp: pendingOrBooked_def ledger_def)
  qed
  then show ?thesis using empty k unfolding abs decoded_def by blast
qed

lemma deliveries_settled_witness:
  "fst (deliveryTurns (\<lambda>body. if body = ''result'' then Some wonByNine else None) 2 ([''garbage'', ''result''], toSettle)) = []
   \<and> (\<exists>hist. ledger hist (snd (deliveryTurns (\<lambda>body. if body = ''result'' then Some wonByNine else None) 2 ([''garbage'', ''result''], toSettle)))
        \<and> booked wonByNine hist)"
proof -
  have n: "length (net toSettle) + length [''garbage'', ''result''] \<le> 2" by (simp add: toSettle_sel)
  show ?thesis
    using deliveries_settled [OF ledger_toSettle n, of "\<lambda>body. if body = ''result'' then Some wonByNine else None"] by simp
qed

end
