(* ===== verification/Pump.thy ===== *)
theory Pump
  imports Prelude
begin

text \<open>
  The writing side of a socket, which \<^verbatim>\<open>internal/ws/client.go\<close> and \<^verbatim>\<open>internal/ws/map_client.go\<close> share: \<^verbatim>\<open>WritePump\<close> takes messages from
  the client's send channel and writes them, pings the client, and stops when the channel is closed or a
  write fails. A connection is what has been written to it, whether it is open and whether the pump still
  runs. \<open>delivery\<close> is the contract of a system of such sockets: along every run, what a client got and what still
  waits for him is what was accepted for him, in order and once each.
\<close>

section \<open>Timing\<close>

text \<open>Durations in nanoseconds.\<close>

definition writeWait :: int where
  "writeWait = 10 * 1000000000"

definition pongWait :: int where
  "pongWait = 60 * 1000000000"

definition pingPeriod :: int where
  "pingPeriod = 50 * 1000000000"

text \<open>A client that answers each ping within the time a write may take is never timed out.\<close>

lemma ping_in_time: "pingPeriod + writeWait \<le> pongWait"
  by (simp add: pingPeriod_def writeWait_def pongWait_def)

section \<open>The pump\<close>

datatype 'm frame = TextFrame 'm | PingFrame | CloseFrame

record 'm conn =
  cnOut :: "'m frame list"
  cnOpen :: bool
  cnWriter :: bool

text \<open>The two cases of the \<^verbatim>\<open>select\<close>: the channel, and the ticker.\<close>

datatype wake = OnSend | OnTick

text \<open>A reading goroutine: waiting for a message, handling one, or ended.\<close>

datatype 'r reader = Reading | Handling 'r | Gone

definition freshConn :: "'m conn" where
  "freshConn = \<lparr>cnOut = [], cnOpen = True, cnWriter = True\<rparr>"

text \<open>\<open>ok\<close>: the peer takes the write. A write on a closed connection fails.\<close>

definition writeFrame :: "bool \<Rightarrow> 'm frame \<Rightarrow> 'm conn \<Rightarrow> bool \<times> 'm conn" where
  "writeFrame ok f cn = (if ok \<and> cnOpen cn then (True, cn\<lparr>cnOut := cnOut cn @ [f]\<rparr>) else (False, cn))"

definition closeConn :: "'m conn \<Rightarrow> 'm conn" where
  "closeConn cn = cn\<lparr>cnOpen := False\<rparr>"

definition stopWriter :: "'m conn \<Rightarrow> 'm conn" where
  "stopWriter cn = (closeConn cn)\<lparr>cnWriter := False\<rparr>"

text \<open>One turn of the loop on the channel's messages; None while there is nothing to do.\<close>

definition writePump :: "wake \<Rightarrow> bool \<Rightarrow> 'm list \<Rightarrow> bool \<Rightarrow> 'm conn \<Rightarrow> ('m list \<times> 'm conn) option" where
  "writePump wk ok q closed cn =
     (if \<not> cnWriter cn then None
      else (case wk of
        OnSend \<Rightarrow> (case q of
            message # q' \<Rightarrow> (case writeFrame ok (TextFrame message) cn of (sent, cn') \<Rightarrow>
                Some (q', if sent then cn' else stopWriter cn'))
          | [] \<Rightarrow> if closed then Some ([], stopWriter (snd (writeFrame ok CloseFrame cn))) else None)
      | OnTick \<Rightarrow> (case writeFrame ok PingFrame cn of (sent, cn') \<Rightarrow> Some (q, if sent then cn' else stopWriter cn'))))"

fun textOf :: "'m frame \<Rightarrow> 'm list" where
  "textOf (TextFrame m) = [m]"
| "textOf _ = []"

definition texts :: "'m conn \<Rightarrow> 'm list" where
  "texts cn = concat (map textOf (cnOut cn))"

lemma texts_sel [simp]: "texts (closeConn cn) = texts cn" "texts (stopWriter cn) = texts cn" "texts freshConn = []"
    "cnWriter (closeConn cn) = cnWriter cn"
  by (simp_all add: texts_def stopWriter_def closeConn_def freshConn_def)

text \<open>While the pump runs, it only moves messages from the channel to the socket.\<close>

lemma writePump_moves:
  assumes "writePump wk ok q closed cn = Some (q', cn')"
  shows "cnWriter cn" "cnWriter cn' \<Longrightarrow> texts cn' @ q' = texts cn @ q" "\<exists>fs. cnOut cn' = cnOut cn @ fs"
  using assms
  by (auto simp: writePump_def writeFrame_def stopWriter_def closeConn_def texts_def split: wake.splits list.splits if_splits)

text \<open>Once the channel is closed, what waited in it is still written, then a close frame, and the connection is
  closed.\<close>

definition drain :: "'m list \<Rightarrow> 'm conn \<Rightarrow> 'm conn" where
  "drain q cn = cn\<lparr>cnOut := cnOut cn @ map TextFrame q @ [CloseFrame], cnOpen := False, cnWriter := False\<rparr>"

fun pumpTurns :: "nat \<Rightarrow> 'm list \<Rightarrow> 'm conn \<Rightarrow> 'm list \<times> 'm conn" where
  "pumpTurns 0 q cn = (q, cn)"
| "pumpTurns (Suc n) q cn = (case writePump OnSend True q True cn of None \<Rightarrow> (q, cn) | Some (q', cn') \<Rightarrow> pumpTurns n q' cn')"

lemma pumpTurns_drain: "cnOpen cn \<Longrightarrow> cnWriter cn \<Longrightarrow> pumpTurns (Suc (length q)) q cn = ([], drain q cn)"
proof (induction q arbitrary: cn)
  case Nil
  then show ?case by (simp add: writePump_def writeFrame_def stopWriter_def closeConn_def drain_def)
next
  case (Cons m q)
  let ?cn = "cn\<lparr>cnOut := cnOut cn @ [TextFrame m]\<rparr>"
  have "writePump OnSend True (m # q) True cn = Some (q, ?cn)" using Cons.prems by (simp add: writePump_def writeFrame_def)
  then have "pumpTurns (Suc (length (m # q))) (m # q) cn = pumpTurns (Suc (length q)) q ?cn" by simp
  also have "\<dots> = ([], drain q ?cn)" using Cons by simp
  finally show ?case by (simp add: drain_def)
qed

lemma texts_drain: "texts (drain q cn) = texts cn @ q"
proof -
  have "concat (map (textOf \<circ> TextFrame) q) = q" by (induction q) simp_all
  then show ?thesis by (simp add: texts_def drain_def)
qed

section \<open>Systems of sockets\<close>

text \<open>The messages of a list of acceptances that are for one client.\<close>

definition forClient :: "nat \<Rightarrow> (nat \<times> 'm) list \<Rightarrow> 'm list" where
  "forClient c tr = map snd (filter (\<lambda>e. fst e = c) tr)"

lemma forClient_simps [simp]: "forClient c [] = []" "forClient c (tr @ tr') = forClient c tr @ forClient c tr'"
  "forClient c (e # tr) = (if fst e = c then snd e # forClient c tr else forClient c tr)"
  by (simp_all add: forClient_def)

text \<open>Runs with what was accepted on the way.\<close>

inductive runs :: "('s \<Rightarrow> (nat \<times> 'm) list \<Rightarrow> 's \<Rightarrow> bool) \<Rightarrow> 's \<Rightarrow> (nat \<times> 'm) list \<Rightarrow> 's \<Rightarrow> bool" for step where
  none: "runs step s [] s"
| more: "runs step s tr s' \<Longrightarrow> step s' tr' s'' \<Longrightarrow> runs step s (tr @ tr') s''"

locale delivery =
  fixes step :: "'s \<Rightarrow> (nat \<times> 'm) list \<Rightarrow> 's \<Rightarrow> bool"
    and used :: "nat \<Rightarrow> 's \<Rightarrow> bool"
    and writing :: "nat \<Rightarrow> 's \<Rightarrow> bool"
    and sent :: "nat \<Rightarrow> 's \<Rightarrow> 'm list"
  assumes one: "step s tr s' \<Longrightarrow> used c s \<Longrightarrow> writing c s' \<Longrightarrow> writing c s \<and> sent c s' = sent c s @ forClient c tr"
    and stays: "step s tr s' \<Longrightarrow> used c s \<Longrightarrow> used c s'"
begin

lemma all_sent: "runs step s tr s' \<Longrightarrow> used c s \<Longrightarrow> used c s' \<and> (writing c s' \<longrightarrow> writing c s \<and> sent c s' = sent c s @ forClient c tr)"
proof (induction rule: runs.induct)
  case (more s tr s' tr' s'')
  then have u: "used c s'" by blast
  then show ?case using more stays [OF more.hyps(2) u] one [OF more.hyps(2) u] by auto
qed simp

end

end
