(* ===== verification/MapSocket.thy ===== *)
theory MapSocket
  imports MapHub Pump
begin

text \<open>
  The sockets of the map: \<^verbatim>\<open>internal/ws/map_client.go\<close> and \<^verbatim>\<open>MapWSHandler.JoinMap\<close>. A socket has a reading and a writing
  goroutine. The reader waits for a message from the client or for room in the client's own send channel; if it ends,
  also by a panic, which gin recovers, its deferred calls leave the hub and close the
  connection. The encoding of a server message is a parameter. The texts of the errors are in Chinese in the code.
\<close>

section \<open>State\<close>

text \<open>\<^verbatim>\<open>ServerMessage\<close> as the map uses it.\<close>

record mapMessage =
  mgType :: string
  mgData :: "string list option"
  mgError :: string

record mapSockets =
  mkHub :: hub
  mkReader :: "nat \<Rightarrow> string reader"
  mkConn :: "nat \<Rightarrow> string conn option"

definition NewMapClient :: "nat \<Rightarrow> hub \<Rightarrow> hub" where
  "NewMapClient c h = h\<lparr>hbSend := (hbSend h)(c := \<lparr>chBuf = [], chClosed = False\<rparr>)\<rparr>"

text \<open>\<^verbatim>\<open>JoinMap\<close>: a new client joins, and both goroutines start.\<close>

definition connectMap :: "nat \<Rightarrow> mapSockets \<Rightarrow> mapSockets" where
  "connectMap c s = s\<lparr>mkHub := HubJoin c (NewMapClient c (mkHub s)), mkReader := (mkReader s)(c := Reading),
     mkConn := (mkConn s)(c \<mapsto> freshConn)\<rparr>"

section \<open>Reading\<close>

text \<open>\<^verbatim>\<open>defer func() { c.Hub.Leave(c); c.Conn.Close() }\<close>\<close>

definition leaveMap :: "nat \<Rightarrow> mapSockets \<Rightarrow> mapSockets" where
  "leaveMap c s = s\<lparr>mkHub := Leave c (mkHub s), mkReader := (mkReader s)(c := Gone),
     mkConn := (mkConn s)(c := map_option closeConn (mkConn s c))\<rparr>"

text \<open>A reader that handles a message has an answer to send; \<open>sendTurn\<close> does it when there is room.\<close>

definition replyJSON :: "(mapMessage \<Rightarrow> string) \<Rightarrow> nat \<Rightarrow> mapMessage \<Rightarrow> mapSockets \<Rightarrow> mapSockets" where
  "replyJSON enc c msg s = s\<lparr>mkReader := (mkReader s)(c := Handling (enc msg))\<rparr>"

definition replyError :: "(mapMessage \<Rightarrow> string) \<Rightarrow> nat \<Rightarrow> string \<Rightarrow> mapSockets \<Rightarrow> mapSockets" where
  "replyError enc c code = replyJSON enc c \<lparr>mgType = ''error'', mgData = None, mgError = code\<rparr>"

definition sendTurn :: "nat \<Rightarrow> mapSockets \<Rightarrow> mapSockets option" where
  "sendTurn c s = (case mkReader s c of
     Handling data \<Rightarrow>
       (let ch = hbSend (mkHub s) c in
        if chClosed ch then Some (leaveMap c s)
        else if int (length (chBuf ch)) < sendCapacity
        then Some (s\<lparr>mkHub := (mkHub s)\<lparr>hbSend := (hbSend (mkHub s))(c := ch\<lparr>chBuf := chBuf ch @ [data]\<rparr>)\<rparr>,
                     mkReader := (mkReader s)(c := Reading)\<rparr>)
        else None)
   | _ \<Rightarrow> None)"

text \<open>\<open>data\<close> is the payload of a subscription: its chunk ids, or None when it does not decode.\<close>

definition subscribeTurn :: "(mapMessage \<Rightarrow> string) \<Rightarrow> nat \<Rightarrow> string list option \<Rightarrow> mapSockets \<Rightarrow> mapSockets" where
  "subscribeTurn enc c data s = (case data of
     None \<Rightarrow> replyError enc c ''invalid subscription'' s
   | Some raws \<Rightarrow> (case handleSubscribeChunks c raws (mkHub s) of
       (Inl _, _) \<Rightarrow> replyError enc c ''invalid chunk_id'' s
     | (Inr chunkIDs, h) \<Rightarrow> replyJSON enc c \<lparr>mgType = ''subscribed_chunks'', mgData = Some chunkIDs, mgError = ''''\<rparr> (s\<lparr>mkHub := h\<rparr>)))"

datatype mapInbound = MapReadFailed | MapMalformed | MapMessage string "string list option"

text \<open>One message; a closed connection cannot be read.\<close>

definition readTurn :: "(mapMessage \<Rightarrow> string) \<Rightarrow> nat \<Rightarrow> mapInbound \<Rightarrow> mapSockets \<Rightarrow> mapSockets option" where
  "readTurn enc c x s =
     (if mkReader s c \<noteq> Reading then None
      else if \<not> (case mkConn s c of None \<Rightarrow> False | Some cn \<Rightarrow> cnOpen cn) then Some (leaveMap c s)
      else Some (case x of
        MapReadFailed \<Rightarrow> leaveMap c s
      | MapMalformed \<Rightarrow> replyError enc c ''malformed json'' s
      | MapMessage type data \<Rightarrow>
          if type = ''ping'' then replyJSON enc c \<lparr>mgType = ''pong'', mgData = None, mgError = ''''\<rparr> s
          else if type = ''subscribe_chunks'' then subscribeTurn enc c data s
          else replyError enc c ''unknown message type'' s))"

section \<open>Writing\<close>

definition writeTurn :: "nat \<Rightarrow> wake \<Rightarrow> bool \<Rightarrow> mapSockets \<Rightarrow> mapSockets option" where
  "writeTurn c wk ok s = (case mkConn s c of
     None \<Rightarrow> None
   | Some cn \<Rightarrow> (let ch = hbSend (mkHub s) c in
       case writePump wk ok (chBuf ch) (chClosed ch) cn of
         None \<Rightarrow> None
       | Some (q, cn') \<Rightarrow> Some (s\<lparr>mkHub := (mkHub s)\<lparr>hbSend := (hbSend (mkHub s))(c := ch\<lparr>chBuf := q\<rparr>)\<rparr>,
             mkConn := (mkConn s)(c \<mapsto> cn')\<rparr>)))"

section \<open>Steps\<close>

text \<open>The messages a broadcast puts into channels, in the order of the loop, until a panic.\<close>

fun accepted :: "string \<Rightarrow> nat list \<Rightarrow> hub \<Rightarrow> (nat \<times> string) list" where
  "accepted msg [] h = []"
| "accepted msg (c # cs) h = (case trySend c msg h of
     (Inl _, _) \<Rightarrow> []
   | (Inr True, h') \<Rightarrow> (c, msg) # accepted msg cs h'
   | (Inr False, h') \<Rightarrow> accepted msg cs (snd (dropClient c h')))"

definition broadcastAccepted :: "string \<Rightarrow> string \<Rightarrow> hub \<Rightarrow> (nat \<times> string) list" where
  "broadcastAccepted chunkID msg h = (case mget (hbChunks h) chunkID of None \<Rightarrow> [] | Some cs \<Rightarrow> accepted msg cs h)"

text \<open>A step of the sockets and of the server's broadcasts, with what it put into send channels.\<close>

inductive socket_step :: "(mapMessage \<Rightarrow> string) \<Rightarrow> mapSockets \<Rightarrow> (nat \<times> string) list \<Rightarrow> mapSockets \<Rightarrow> bool" for enc where
  connects: "mkConn s c = None \<Longrightarrow> socket_step enc s [] (connectMap c s)"
| reads: "readTurn enc c x s = Some s' \<Longrightarrow> socket_step enc s [] s'"
| sends: "sendTurn c s = Some s' \<Longrightarrow> mkReader s c = Handling data \<Longrightarrow>
    socket_step enc s (if chClosed (hbSend (mkHub s) c) then [] else [(c, data)]) s'"
| writes: "writeTurn c wk ok s = Some s' \<Longrightarrow> socket_step enc s [] s'"
| broadcasts: "socket_step enc s (broadcastAccepted chunkID msg (mkHub s)) (s\<lparr>mkHub := snd (BroadcastToChunk chunkID msg (mkHub s))\<rparr>)"

definition noSockets :: mapSockets where
  "noSockets = \<lparr>mkHub = NewMapHub, mkReader = (\<lambda>_. Gone), mkConn = (\<lambda>_. None)\<rparr>"

section \<open>Delivery\<close>

text \<open>What a client has been sent: written to his socket, or waiting in his channel.\<close>

definition sentTo :: "nat \<Rightarrow> mapSockets \<Rightarrow> string list" where
  "sentTo c s = (case mkConn s c of None \<Rightarrow> [] | Some cn \<Rightarrow> texts cn) @ chBuf (hbSend (mkHub s) c)"

definition writingTo :: "nat \<Rightarrow> mapSockets \<Rightarrow> bool" where
  "writingTo c s \<longleftrightarrow> (case mkConn s c of None \<Rightarrow> False | Some cn \<Rightarrow> cnWriter cn)"

text \<open>Only sending changes what is in a channel.\<close>

lemma bufs_remove [simp]: "hbSend (removeClientLocked c h) = hbSend h" "hbSend (removeClientSubscriptionsLocked c h) = hbSend h"
  by (simp_all add: removeClientLocked_def removeClientSubscriptionsLocked_def removeFolded Let_def)

lemma bufs_closeSend [simp]: "chBuf (hbSend (closeSend c h) u) = chBuf (hbSend h u)"
  by (simp add: closeSend_def)

lemma bufs_Leave [simp]: "chBuf (hbSend (Leave c h) u) = chBuf (hbSend h u)"
  by (simp add: Leave_def)

lemma bufs_addSubscriptions: "hbSend (snd (addSubscriptions c chs added h)) = hbSend h"
  by (induction c chs added h rule: addSubscriptions.induct) simp_all

lemma bufs_subscribe: "handleSubscribeChunks c raws h = (r, h') \<Longrightarrow> hbSend h' = hbSend h"
  using bufs_addSubscriptions [of c _ "[]" "removeClientSubscriptionsLocked c h"]
  by (auto simp: handleSubscribeChunks_def ReplaceSubscriptions_def split: sum.splits prod.splits) (metis bufs_remove(2) snd_conv)+

lemma bufs_dropClient [simp]: "chBuf (hbSend (snd (dropClient c h)) u) = chBuf (hbSend h u)"
  by (simp add: dropClient_def)

lemma trySend_buf: "trySend c msg h = (r, h') \<Longrightarrow>
    chBuf (hbSend h' u) = chBuf (hbSend h u) @ (if r = Inr True \<and> u = c then [msg] else [])"
  by (auto simp: trySend_def Let_def split: if_splits)

lemma broadcastLoop_buf: "chBuf (hbSend (snd (broadcastLoop msg cs h)) u) = chBuf (hbSend h u) @ forClient u (accepted msg cs h)"
proof (induction cs arbitrary: h)
  case (Cons c cs)
  obtain r h' where t: "trySend c msg h = (r, h')" by fastforce
  note b = trySend_buf [OF t, of u]
  show ?case
  proof (cases r)
    case (Inl e)
    then show ?thesis using t b by (simp add: andThen_def)
  next
    case (Inr sent)
    show ?thesis
    proof (cases sent)
      case True
      then show ?thesis using t b Inr Cons [of h'] by (auto simp: andThen_def ret_def)
    next
      case False
      then have "broadcastLoop msg (c # cs) h = broadcastLoop msg cs (snd (dropClient c h'))"
        using t Inr by (simp add: andThen_def dropClient_def)
      then show ?thesis using t b Inr False Cons [of "snd (dropClient c h')"] by simp
    qed
  qed
qed (simp add: ret_def)

lemma broadcast_buf: "chBuf (hbSend (snd (BroadcastToChunk chunkID msg h)) u) = chBuf (hbSend h u) @ forClient u (broadcastAccepted chunkID msg h)"
  by (simp add: BroadcastToChunk_def broadcastAccepted_def broadcastLoop_buf split: option.split)

text \<open>One step, for a client that is connected.\<close>

lemma leave_sent: "sentTo c (leaveMap c' s) = sentTo c s" "writingTo c (leaveMap c' s) = writingTo c s" "mkConn s c \<noteq> None \<Longrightarrow> mkConn (leaveMap c' s) c \<noteq> None"
  by (auto simp: sentTo_def writingTo_def leaveMap_def split: option.split)

lemma reply_sent: "sentTo c (replyJSON enc c' m s) = sentTo c s" "writingTo c (replyJSON enc c' m s) = writingTo c s"
    "mkConn (replyJSON enc c' m s) = mkConn s"
  by (simp_all add: sentTo_def writingTo_def replyJSON_def)

lemma subscribe_sent: "sentTo c (subscribeTurn enc c' data s) = sentTo c s" "writingTo c (subscribeTurn enc c' data s) = writingTo c s"
    "mkConn (subscribeTurn enc c' data s) = mkConn s"
  by (auto simp: subscribeTurn_def replyError_def reply_sent split: option.split prod.split sum.split dest!: bufs_subscribe)
     (auto simp: sentTo_def writingTo_def)

lemma send_sent:
  assumes "sendTurn c' s = Some s'" "mkReader s c' = Handling data"
  shows "sentTo c s' = sentTo c s @ (if c' = c \<and> \<not> chClosed (hbSend (mkHub s) c') then [data] else [])"
    "writingTo c s' = writingTo c s" "mkConn s c \<noteq> None \<Longrightarrow> mkConn s' c \<noteq> None"
  using assms leave_sent [where c = c and c' = c' and s = s]
  by (auto simp: sendTurn_def Let_def sentTo_def writingTo_def split: if_splits)

lemma read_sent:
  assumes "readTurn enc c' x s = Some s'"
  shows "sentTo c s' = sentTo c s" "writingTo c s' = writingTo c s" "mkConn s c \<noteq> None \<Longrightarrow> mkConn s' c \<noteq> None"
  using assms leave_sent [where c = c and c' = c' and s = s]
  by (auto simp: readTurn_def reply_sent subscribe_sent replyError_def split: if_splits mapInbound.splits option.splits)

lemma write_sent:
  assumes "writeTurn c' wk ok s = Some s'"
  shows "mkConn s c \<noteq> None \<Longrightarrow> mkConn s' c \<noteq> None" "writingTo c s' \<Longrightarrow> writingTo c s \<and> sentTo c s' = sentTo c s"
proof -
  let ?ch = "hbSend (mkHub s) c'"
  obtain cn q cn' where cn: "mkConn s c' = Some cn" and w: "writePump wk ok (chBuf ?ch) (chClosed ?ch) cn = Some (q, cn')"
    and s': "s' = s\<lparr>mkHub := (mkHub s)\<lparr>hbSend := (hbSend (mkHub s))(c' := ?ch\<lparr>chBuf := q\<rparr>)\<rparr>, mkConn := (mkConn s)(c' \<mapsto> cn')\<rparr>"
    using assms by (auto simp: writeTurn_def Let_def split: option.splits)
  show "mkConn s c \<noteq> None \<Longrightarrow> mkConn s' c \<noteq> None" by (simp add: s')
  show "writingTo c s' \<Longrightarrow> writingTo c s \<and> sentTo c s' = sentTo c s"
    using writePump_moves [OF w] cn by (auto simp: s' writingTo_def sentTo_def)
qed

lemma socket_step_sent:
  assumes "socket_step enc s tr s'" "mkConn s c \<noteq> None"
  shows "mkConn s' c \<noteq> None" "writingTo c s' \<Longrightarrow> writingTo c s \<and> sentTo c s' = sentTo c s @ forClient c tr"
proof -
  have "mkConn s' c \<noteq> None \<and> (writingTo c s' \<longrightarrow> writingTo c s \<and> sentTo c s' = sentTo c s @ forClient c tr)"
    using assms
  proof (cases rule: socket_step.cases)
    case (connects c')
    then have "c' \<noteq> c" using assms(2) by auto
    then show ?thesis using connects assms(2)
      by (simp add: connectMap_def NewMapClient_def HubJoin_def sentTo_def writingTo_def)
  next
    case (reads c' x)
    then show ?thesis using read_sent [of enc c' x s s' c] assms(2) by simp
  next
    case (sends c' data)
    then show ?thesis using send_sent [of c' s s' data c] assms(2) by simp
  next
    case (writes c' wk ok)
    then show ?thesis using write_sent [of c' wk ok s s' c] assms(2) by simp
  next
    case (broadcasts chunkID msg)
    then show ?thesis using assms(2) by (simp add: sentTo_def writingTo_def broadcast_buf)
  qed
  then show "mkConn s' c \<noteq> None" "writingTo c s' \<Longrightarrow> writingTo c s \<and> sentTo c s' = sentTo c s @ forClient c tr" by simp_all
qed

interpretation mapped: delivery "socket_step enc" "\<lambda>c s. mkConn s c \<noteq> None" writingTo sentTo
  by unfold_locales (use socket_step_sent in blast)+

text \<open>(C24) Once a client is connected to the map, every message accepted for him - a reply to one of his own requests or
  an event of a chunk he subscribed to - is written to his socket in the order of acceptance, none lost and none
  twice, except that the last ones still wait in his channel; this holds whatever the other clients do and however
  the goroutines are interleaved, as long as his writer runs. If he is cut off meanwhile, because he
  did not keep up, his writer still writes all of it, if the connection takes it, and then a close frame.\<close>

theorem map_client_gets_in_order:
  assumes "runs (socket_step enc) (connectMap c s0) tr s"
    "mkConn s c = Some cn" "cnWriter cn"
  shows "texts cn @ chBuf (hbSend (mkHub s) c) = forClient c tr \<and>
    (chClosed (hbSend (mkHub s) c) \<and> cnOpen cn \<longrightarrow>
      (case pumpTurns (Suc (length (chBuf (hbSend (mkHub s) c)))) (chBuf (hbSend (mkHub s) c)) cn of
         (waiting, cn') \<Rightarrow> waiting = [] \<and> texts cn' = forClient c tr \<and> last (cnOut cn') = CloseFrame \<and> \<not> cnOpen cn'))"
proof -
  let ?s = "connectMap c s0"
  let ?q = "chBuf (hbSend (mkHub s) c)"
  have "mkConn ?s c \<noteq> None" "sentTo c ?s = []"
    by (simp_all add: connectMap_def sentTo_def texts_sel NewMapClient_def HubJoin_def)
  moreover have "writingTo c s" using assms(2,3) by (simp add: writingTo_def)
  ultimately have "sentTo c s = forClient c tr" using mapped.all_sent [OF assms(1), of c] by simp
  then have all: "texts cn @ ?q = forClient c tr" using assms(2) by (simp add: sentTo_def)
  have "cnOpen cn \<Longrightarrow> pumpTurns (Suc (length ?q)) ?q cn = ([], drain ?q cn)" by (rule pumpTurns_drain) (use assms(3) in simp_all)
  moreover have "last (cnOut (drain ?q cn)) = CloseFrame" "\<not> cnOpen (drain ?q cn)" by (simp_all add: drain_def)
  ultimately show ?thesis using all texts_drain [of ?q cn] by (auto simp del: pumpTurns.simps)
qed

section \<open>An example\<close>

definition typeOnly :: "mapMessage \<Rightarrow> string" where
  "typeOnly = mgType"

text \<open>Client 3 subscribes, reads the answer, and then an event is broadcast.\<close>

definition asked :: mapSockets where
  "asked = the (readTurn typeOnly 3 (MapMessage ''subscribe_chunks'' (Some [''cn:6:10:20''])) (connectMap 3 noSockets))"

definition answered :: mapSockets where
  "answered = the (writeTurn 3 OnSend True (the (sendTurn 3 asked)))"

definition notified :: mapSockets where
  "notified = answered\<lparr>mkHub := snd (BroadcastToChunk ''cn:6:10:20'' ''event'' (mkHub answered))\<rparr>"

lemma notified_runs:
  "runs (socket_step typeOnly) (connectMap 3 noSockets) [(3, ''subscribed_chunks''), (3, ''event'')] notified"
proof -
  have r: "socket_step typeOnly (connectMap 3 noSockets) [] asked"
    unfolding asked_def by (rule socket_step.reads [OF option.collapse [symmetric]]) code_simp
  have a: "mkReader asked 3 = Handling ''subscribed_chunks''" "\<not> chClosed (hbSend (mkHub asked) 3)" by code_simp+
  have "sendTurn 3 asked \<noteq> None" by code_simp
  then have s: "socket_step typeOnly asked [(3, ''subscribed_chunks'')] (the (sendTurn 3 asked))"
    using socket_step.sends [OF option.collapse [symmetric] a(1), of typeOnly] a(2) by (simp del: option.collapse)
  have w: "socket_step typeOnly (the (sendTurn 3 asked)) [] answered"
    unfolding answered_def by (rule socket_step.writes [OF option.collapse [symmetric]]) code_simp
  have "broadcastAccepted ''cn:6:10:20'' ''event'' (mkHub answered) = [(3, ''event'')]" by code_simp
  then have b: "socket_step typeOnly answered [(3, ''event'')] notified"
    unfolding notified_def by (metis socket_step.broadcasts)
  let ?step = "socket_step typeOnly"
  note more = runs.more [where step = ?step]
  have "runs ?step (connectMap 3 noSockets) [] asked" using more [OF runs.none r] by simp
  from more [OF this s] have "runs ?step (connectMap 3 noSockets) [(3, ''subscribed_chunks'')] (the (sendTurn 3 asked))" by simp
  from more [OF more [OF this w] b] show ?thesis by simp
qed

lemma map_client_gets_in_order_witness:
  "texts (the (mkConn notified 3)) @ chBuf (hbSend (mkHub notified) 3) = [''subscribed_chunks'', ''event'']"
proof -
  have "mkConn notified 3 \<noteq> None" "cnWriter (the (mkConn notified 3))" by code_simp+
  then show ?thesis using map_client_gets_in_order [OF notified_runs, of "the (mkConn notified 3)"] by simp
qed

end
