(* ===== verification/RoomSocket.thy ===== *)
theory RoomSocket
  imports RoomHub Pump
begin

text \<open>
  The sockets of the rooms: the goroutines of \<^verbatim>\<open>internal/ws/client.go\<close> and the end of \<^verbatim>\<open>WSHandler.JoinRoom\<close>, around the
  turns of \<^verbatim>\<open>RoomHub\<close>. They keep the contract \<open>delivery\<close> like those of the map, though
  they are written separately in the code. Messages are kept as structures, as in the hub.
\<close>

section \<open>State and steps\<close>

record roomSockets =
  rsHub :: roomHub
  rsReader :: "nat \<Rightarrow> inbound reader"
  rsConn :: "nat \<Rightarrow> payload conn option"

definition connectRoom :: "nat \<Rightarrow> string \<Rightarrow> int \<Rightarrow> roomSockets \<Rightarrow> roomSockets" where
  "connectRoom c roomID userID s = s\<lparr>rsHub := snd (connect c roomID userID (rsHub s)), rsReader := (rsReader s)(c := Reading),
     rsConn := (rsConn s)(c \<mapsto> freshConn)\<rparr>"

text \<open>\<^verbatim>\<open>ReadMessage\<close> fails on a closed connection.\<close>

definition receive :: "nat \<Rightarrow> inbound \<Rightarrow> roomSockets \<Rightarrow> roomSockets option" where
  "receive c x s =
     (if rsReader s c \<noteq> Reading then None
      else Some (s\<lparr>rsReader := (rsReader s)(c := Handling
        (if (case rsConn s c of None \<Rightarrow> False | Some cn \<Rightarrow> cnOpen cn) then x else ReadFailed))\<rparr>))"

definition endReader :: "nat \<Rightarrow> roomSockets \<Rightarrow> roomSockets" where
  "endReader c s = s\<lparr>rsReader := (rsReader s)(c := Gone), rsConn := (rsConn s)(c := map_option closeConn (rsConn s c))\<rparr>"

text \<open>The rest of the turn. A failed read ends the loop, and \<^verbatim>\<open>readPumpTurn\<close> has left the room then; after a panic
  the deferred call leaves it.\<close>

definition handleTurn :: "nat \<Rightarrow> inbound \<Rightarrow> roomSockets \<Rightarrow> roomSockets option" where
  "handleTurn c x s =
     (if rsReader s c \<noteq> Handling x then None
      else (case readPumpTurn c x (rsHub s) of
        None \<Rightarrow> None
      | Some (r, h) \<Rightarrow>
          if x = ReadFailed then Some (endReader c (s\<lparr>rsHub := h\<rparr>))
          else (case r of
            Inl _ \<Rightarrow> Some (endReader c (s\<lparr>rsHub := snd (LeaveRoom c h)\<rparr>))
          | Inr _ \<Rightarrow> Some (s\<lparr>rsHub := h, rsReader := (rsReader s)(c := Reading)\<rparr>))))"

definition roomWriteTurn :: "nat \<Rightarrow> wake \<Rightarrow> bool \<Rightarrow> roomSockets \<Rightarrow> roomSockets option" where
  "roomWriteTurn c wk ok s = (case (rsConn s c, rhClients (rsHub s) c) of
     (Some cn, Some cl) \<Rightarrow> (case writePump wk ok (rcBuf cl) (rcClosed cl) cn of
         None \<Rightarrow> None
       | Some (q, cn') \<Rightarrow> Some (s\<lparr>rsHub := (rsHub s)\<lparr>rhClients := (rhClients (rsHub s))(c \<mapsto> cl\<lparr>rcBuf := q\<rparr>)\<rparr>,
             rsConn := (rsConn s)(c \<mapsto> cn')\<rparr>))
   | _ \<Rightarrow> None)"

text \<open>What a broadcast and a turn of a reader put into channels.\<close>

definition takes :: "nat \<Rightarrow> payload \<Rightarrow> roomHub \<Rightarrow> (nat \<times> payload) list" where
  "takes c msg h = (case rhClients h c of
     None \<Rightarrow> [] | Some cl \<Rightarrow> if \<not> rcClosed cl \<and> int (length (rcBuf cl)) < clientSendCapacity then [(c, msg)] else [])"

definition alive :: "nat \<Rightarrow> roomHub \<Rightarrow> bool" where
  "alive c h \<longleftrightarrow> (case rhClients h c of None \<Rightarrow> False | Some cl \<Rightarrow> \<not> rcClosed cl)"

fun roomAccepted :: "string \<Rightarrow> payload \<Rightarrow> nat list \<Rightarrow> roomHub \<Rightarrow> (nat \<times> payload) list" where
  "roomAccepted roomID msg [] h = []"
| "roomAccepted roomID msg (c # cs) h =
     (if alive c h then takes c msg h @ roomAccepted roomID msg cs (snd (broadcastTo roomID msg [c] h)) else [])"

definition toRoom :: "string \<Rightarrow> payload \<Rightarrow> roomHub \<Rightarrow> (nat \<times> payload) list" where
  "toRoom roomID msg h = (case roomOf roomID h of None \<Rightarrow> [] | Some room \<Rightarrow> roomAccepted roomID msg (map snd room) h)"

fun answers :: "nat \<Rightarrow> inbound \<Rightarrow> roomHub \<Rightarrow> (nat \<times> payload) list" where
  "answers c ReadFailed h = []"
| "answers c (Malformed data) h = takes c (Encoded \<lparr>smType = ''error'', smError = ''malformed json''\<rparr>) h"
| "answers c (ClientMessage type data) h =
     (if type = ''ping'' then takes c (Encoded \<lparr>smType = ''pong'', smError = ''''\<rparr>) h
      else if type = ''chat'' then (case rhClients h c of None \<Rightarrow> [] | Some cl \<Rightarrow> toRoom (rcRoom cl) (Relayed data) h)
      else takes c (Encoded \<lparr>smType = ''error'', smError = ''unknown message type''\<rparr>) h)"

inductive room_socket_step :: "roomSockets \<Rightarrow> (nat \<times> payload) list \<Rightarrow> roomSockets \<Rightarrow> bool" where
  connects: "rsConn s c = None \<Longrightarrow> room_socket_step s [] (connectRoom c roomID userID s)"
| receives: "receive c x s = Some s' \<Longrightarrow> room_socket_step s [] s'"
| handles: "handleTurn c x s = Some s' \<Longrightarrow> room_socket_step s (answers c x (rsHub s)) s'"
| writes: "roomWriteTurn c wk ok s = Some s' \<Longrightarrow> room_socket_step s [] s'"
| broadcasts: "room_socket_step s (toRoom roomID msg (rsHub s)) (s\<lparr>rsHub := snd (BroadcastToRoom roomID msg (rsHub s))\<rparr>)"

section \<open>Delivery\<close>

definition waitingFor :: "nat \<Rightarrow> roomHub \<Rightarrow> payload list" where
  "waitingFor c h = (case rhClients h c of None \<Rightarrow> [] | Some cl \<Rightarrow> rcBuf cl)"

definition sentInRoom :: "nat \<Rightarrow> roomSockets \<Rightarrow> payload list" where
  "sentInRoom c s = (case rsConn s c of None \<Rightarrow> [] | Some cn \<Rightarrow> texts cn) @ waitingFor c (rsHub s)"

definition writingInRoom :: "nat \<Rightarrow> roomSockets \<Rightarrow> bool" where
  "writingInRoom c s \<longleftrightarrow> (case rsConn s c of None \<Rightarrow> False | Some cn \<Rightarrow> cnWriter cn)"

lemma waitingFor_sel [simp]: "waitingFor c (setRoom r v h) = waitingFor c h" "waitingFor c (dropEmptyRoom r h) = waitingFor c h"
  by (simp_all add: waitingFor_def)

lemma waiting_closeClient [simp]: "waitingFor u (snd (closeClient c h)) = waitingFor u h"
  by (simp add: waitingFor_def closeClient_def withClient_def fail_def putClient_def split: option.split)

lemma keeps_withClient: "(\<And>cl. keeps I (k cl)) \<Longrightarrow> keeps I (withClient c k)"
  by (auto simp: gives_def withClient_def split: option.split)

lemma waiting_LeaveRoom [simp]: "waitingFor u (snd (LeaveRoom c h)) = waitingFor u h"
proof -
  let ?I = "\<lambda>g. waitingFor u g = waitingFor u h"
  have r: "keeps ?I (readHub f)" for f :: "roomHub \<Rightarrow> 'x" by (simp add: gives_def readHub_def)
  have w: "keeps ?I (writeHub (setRoom r v))" "keeps ?I (writeHub (dropEmptyRoom r))" for r v by (simp_all add: gives_def writeHub_def)
  have c: "keeps ?I (closeClient c)" by (simp add: gives_def)
  have "keeps ?I (LeaveRoom c)"
    unfolding LeaveRoom_def
    by (intro keeps_withClient keeps_andThen r gives_case_option gives_if w c gives_intros TrueI)
  then show ?thesis using givesD by fastforce
qed

lemma waiting_broadcastTo: "waitingFor u (snd (broadcastTo r msg cs h)) = waitingFor u h @ forClient u (roomAccepted r msg cs h)"
proof (induction cs arbitrary: h)
  case (Cons c cs)
  show ?case
  proof (cases "alive c h")
    case False
    then show ?thesis
      by (auto simp: alive_def withClient_def andThen_def fail_def split: option.splits)
  next
    case True
    obtain cl where cl: "rhClients h c = Some cl" "\<not> rcClosed cl" using True by (auto simp: alive_def split: option.splits)
    let ?h = "snd (broadcastTo r msg [c] h)"
    have "broadcastTo r msg (c # cs) h = broadcastTo r msg cs ?h"
      using cl by (simp add: withClient_def andThen_def putClient_def writeHub_def closeClient_def ret_def)
    moreover have "waitingFor u ?h = waitingFor u h @ forClient u (takes c msg h)"
      using cl by (auto simp: withClient_def andThen_def putClient_def writeHub_def closeClient_def ret_def takes_def waitingFor_def)
    ultimately show ?thesis using Cons [of ?h] True by simp
  qed
qed (simp add: ret_def)

lemma waiting_BroadcastToRoom: "waitingFor u (snd (BroadcastToRoom r msg h)) = waitingFor u h @ forClient u (toRoom r msg h)"
proof (cases "roomOf r h")
  case (Some room)
  then show ?thesis using waiting_broadcastTo [of u r msg "map snd room" h]
    by (auto simp: BroadcastToRoom_def toRoom_def readHub_def andThen_def writeHub_def split: sum.split prod.split)
qed (simp add: BroadcastToRoom_def toRoom_def readHub_def andThen_def ret_def)

lemma waiting_SendJSON: "SendJSON c msg h = Some (r, h') \<Longrightarrow> waitingFor u h' = waitingFor u h @ forClient u (takes c (Encoded msg) h)"
  by (auto simp: SendJSON_def takes_def waitingFor_def putClient_def split: option.splits if_splits)

lemma waiting_readPumpTurn:
  assumes "readPumpTurn c x h = Some (r, h')"
  shows "waitingFor u h' = waitingFor u h @ forClient u (answers c x h)"
proof (cases x)
  case ReadFailed
  then show ?thesis using assms waiting_LeaveRoom [of u c h] by simp
next
  case (Malformed data)
  then show ?thesis using assms by (simp add: SendError_def waiting_SendJSON)
next
  case (ClientMessage type data)
  have chat: "waitingFor u h' = waitingFor u h @ forClient u (answers c x h)" if t: "type = ''chat''"
  proof (cases "rhClients h c")
    case None
    then show ?thesis using assms t ClientMessage by (simp add: withClient_def)
  next
    case (Some cl)
    then have "h' = snd (BroadcastToRoom (rcRoom cl) (Relayed data) h)" using assms t ClientMessage by (simp add: withClient_def)
    then show ?thesis using Some t ClientMessage by (simp add: waiting_BroadcastToRoom)
  qed
  show ?thesis
  proof (cases "type = ''chat''")
    case False
    then show ?thesis using assms ClientMessage by (auto simp: SendError_def waiting_SendJSON split: if_splits)
  qed (rule chat)
qed

text \<open>One step, for a client that is connected.\<close>

lemma end_sent: "sentInRoom c (endReader c' s) = sentInRoom c s" "writingInRoom c (endReader c' s) = writingInRoom c s"
    "rsHub (endReader c' s) = rsHub s" "rsConn s c \<noteq> None \<Longrightarrow> rsConn (endReader c' s) c \<noteq> None"
  by (auto simp: sentInRoom_def writingInRoom_def endReader_def split: option.split)

lemma sent_hub:
  assumes "rsConn s' = rsConn s" "waitingFor c (rsHub s') = waitingFor c (rsHub s) @ ms"
  shows "sentInRoom c s' = sentInRoom c s @ ms" "writingInRoom c s' = writingInRoom c s"
  using assms by (simp_all add: sentInRoom_def writingInRoom_def)

lemma handle_sent:
  assumes "handleTurn c' x s = Some s'"
  shows "sentInRoom c s' = sentInRoom c s @ forClient c (answers c' x (rsHub s))" "writingInRoom c s' = writingInRoom c s"
    "rsConn s c \<noteq> None \<Longrightarrow> rsConn s' c \<noteq> None"
proof -
  obtain r h where t: "readPumpTurn c' x (rsHub s) = Some (r, h)"
    using assms by (auto simp: handleTurn_def split: if_splits option.splits)
  note w = waiting_readPumpTurn [OF t, of c]
  have on: "sentInRoom c (s\<lparr>rsHub := g\<rparr>) = sentInRoom c s @ forClient c (answers c' x (rsHub s))"
      "writingInRoom c (s\<lparr>rsHub := g\<rparr>) = writingInRoom c s" if "waitingFor c g = waitingFor c h" for g
    using sent_hub [of "s\<lparr>rsHub := g\<rparr>" s c] w that by simp_all
  have rd: "sentInRoom c (u\<lparr>rsReader := f\<rparr>) = sentInRoom c u" "writingInRoom c (u\<lparr>rsReader := f\<rparr>) = writingInRoom c u" for u f
    by (simp_all add: sentInRoom_def writingInRoom_def)
  from assms t consider "s' = endReader c' (s\<lparr>rsHub := h\<rparr>)" | "s' = endReader c' (s\<lparr>rsHub := snd (LeaveRoom c' h)\<rparr>)"
    | "s' = s\<lparr>rsHub := h, rsReader := (rsReader s)(c' := Reading)\<rparr>"
    by (auto simp: handleTurn_def split: if_splits sum.splits)
  then have "sentInRoom c s' = sentInRoom c s @ forClient c (answers c' x (rsHub s)) \<and> writingInRoom c s' = writingInRoom c s
      \<and> (rsConn s c \<noteq> None \<longrightarrow> rsConn s' c \<noteq> None)"
  proof cases
    case 1
    then show ?thesis using on [of h] end_sent(4) [of "s\<lparr>rsHub := h\<rparr>" c c'] by (simp add: end_sent(1,2))
  next
    case 2
    then show ?thesis
      using on [of "snd (LeaveRoom c' h)"] end_sent(4) [of "s\<lparr>rsHub := snd (LeaveRoom c' h)\<rparr>" c c'] by (simp add: end_sent(1,2))
  next
    case 3
    then show ?thesis using on [of h] rd [where u = "s\<lparr>rsHub := h\<rparr>"] by simp
  qed
  then show "sentInRoom c s' = sentInRoom c s @ forClient c (answers c' x (rsHub s))" "writingInRoom c s' = writingInRoom c s"
    "rsConn s c \<noteq> None \<Longrightarrow> rsConn s' c \<noteq> None" by simp_all
qed

lemma room_write_sent:
  assumes "roomWriteTurn c' wk ok s = Some s'"
  shows "rsConn s c \<noteq> None \<Longrightarrow> rsConn s' c \<noteq> None" "writingInRoom c s' \<Longrightarrow> writingInRoom c s \<and> sentInRoom c s' = sentInRoom c s"
proof -
  obtain cn cl q cn' where cn: "rsConn s c' = Some cn" "rhClients (rsHub s) c' = Some cl"
    and w: "writePump wk ok (rcBuf cl) (rcClosed cl) cn = Some (q, cn')"
    and s': "s' = s\<lparr>rsHub := (rsHub s)\<lparr>rhClients := (rhClients (rsHub s))(c' \<mapsto> cl\<lparr>rcBuf := q\<rparr>)\<rparr>, rsConn := (rsConn s)(c' \<mapsto> cn')\<rparr>"
    using assms by (auto simp: roomWriteTurn_def split: option.splits)
  show "rsConn s c \<noteq> None \<Longrightarrow> rsConn s' c \<noteq> None" by (simp add: s')
  show "writingInRoom c s' \<Longrightarrow> writingInRoom c s \<and> sentInRoom c s' = sentInRoom c s"
    using writePump_moves [OF w] cn by (auto simp: s' writingInRoom_def sentInRoom_def waitingFor_def)
qed

lemma waiting_connect: "c' \<noteq> c \<Longrightarrow> waitingFor c (snd (connect c' r u h)) = waitingFor c h"
    "waitingFor c (snd (connect c r u h)) = []"
  by (simp_all add: connect_def NewClient_def JoinRoom_def withClient_def writeHub_def waitingFor_def)

lemma room_step_sent:
  assumes "room_socket_step s tr s'" "rsConn s c \<noteq> None"
  shows "rsConn s' c \<noteq> None" "writingInRoom c s' \<Longrightarrow> writingInRoom c s \<and> sentInRoom c s' = sentInRoom c s @ forClient c tr"
proof -
  have "rsConn s' c \<noteq> None \<and> (writingInRoom c s' \<longrightarrow> writingInRoom c s \<and> sentInRoom c s' = sentInRoom c s @ forClient c tr)"
    using assms
  proof (cases rule: room_socket_step.cases)
    case (connects c' roomID userID)
    then have "c \<noteq> c'" using assms(2) by auto
    then show ?thesis using connects assms(2)
      by (simp add: connectRoom_def sentInRoom_def writingInRoom_def waiting_connect(1) [of c' c])
  next
    case (receives c' x)
    then show ?thesis using assms(2) by (auto simp: receive_def sentInRoom_def writingInRoom_def split: if_splits)
  next
    case (handles c' x)
    then show ?thesis using handle_sent [of c' x s s' c] assms(2) by simp
  next
    case (writes c' wk ok)
    then show ?thesis using room_write_sent [of c' wk ok s s' c] assms(2) by simp
  next
    case (broadcasts roomID msg)
    then show ?thesis using assms(2) sent_hub [of s' s c] by (simp add: waiting_BroadcastToRoom)
  qed
  then show "rsConn s' c \<noteq> None" "writingInRoom c s' \<Longrightarrow> writingInRoom c s \<and> sentInRoom c s' = sentInRoom c s @ forClient c tr"
    by simp_all
qed

interpretation roomed: delivery room_socket_step "\<lambda>c s. rsConn s c \<noteq> None" writingInRoom sentInRoom
  by unfold_locales (use room_step_sent in blast)+

text \<open>(C29) Once a user's socket has joined a room, the chat messages of the room and the answers to his own messages
  reach the socket in the order in which they were accepted for it, none lost and none twice, the last ones still waiting in his
  channel, however the readers, writers and broadcasts of all sockets are interleaved, as long as his writer runs.\<close>

theorem room_client_gets_in_order:
  assumes "runs room_socket_step (connectRoom c roomID userID s0) tr s" "rsConn s c = Some cn" "cnWriter cn"
  shows "texts cn @ waitingFor c (rsHub s) = forClient c tr"
proof -
  let ?s = "connectRoom c roomID userID s0"
  have "rsConn ?s c \<noteq> None" "sentInRoom c ?s = []"
    by (simp_all add: connectRoom_def sentInRoom_def waiting_connect)
  moreover have "writingInRoom c s" using assms(2,3) by (simp add: writingInRoom_def)
  ultimately have "sentInRoom c s = forClient c tr" using roomed.all_sent [OF assms(1), of c] by simp
  then show ?thesis using assms(2) by (simp add: sentInRoom_def)
qed

section \<open>An example\<close>

definition noRoomSockets :: roomSockets where
  "noRoomSockets = \<lparr>rsHub = NewRoomHub, rsReader = (\<lambda>_. Gone), rsConn = (\<lambda>_. None)\<rparr>"

text \<open>User 7 says something in his room and it is written to him.\<close>

definition said :: roomSockets where
  "said = the (receive 3 (ClientMessage ''chat'' ''hello'') (connectRoom 3 ''r1'' 7 noRoomSockets))"

definition heard :: roomSockets where
  "heard = the (roomWriteTurn 3 OnSend True (the (handleTurn 3 (ClientMessage ''chat'' ''hello'') said)))"

lemma heard_runs: "runs room_socket_step (connectRoom 3 ''r1'' 7 noRoomSockets) [(3, Relayed ''hello'')] heard"
proof -
  let ?x = "ClientMessage ''chat'' ''hello''"
  have r: "room_socket_step (connectRoom 3 ''r1'' 7 noRoomSockets) [] said"
    unfolding said_def by (rule room_socket_step.receives [OF option.collapse [symmetric]]) code_simp
  have "handleTurn 3 ?x said \<noteq> None" "answers 3 ?x (rsHub said) = [(3, Relayed ''hello'')]" by code_simp+
  then have h: "room_socket_step said [(3, Relayed ''hello'')] (the (handleTurn 3 ?x said))"
    using room_socket_step.handles [OF option.collapse [symmetric], of 3 ?x said] by (simp del: option.collapse)
  have w: "room_socket_step (the (handleTurn 3 ?x said)) [] heard"
    unfolding heard_def by (rule room_socket_step.writes [OF option.collapse [symmetric]]) code_simp
  note more = runs.more [where step = room_socket_step]
  have "runs room_socket_step (connectRoom 3 ''r1'' 7 noRoomSockets) [] said" using more [OF runs.none r] by simp
  from more [OF more [OF this h] w] show ?thesis by simp
qed

lemma room_client_gets_in_order_witness:
  "texts (the (rsConn heard 3)) @ waitingFor 3 (rsHub heard) = [Relayed ''hello'']"
proof -
  have "rsConn heard 3 \<noteq> None" "cnWriter (the (rsConn heard 3))" by code_simp+
  then show ?thesis using room_client_gets_in_order [OF heard_runs, of "the (rsConn heard 3)"] by simp
qed

end
