(* ===== verification/Spec2Isabelle.thy ===== *)
theory Spec2Isabelle
  imports MatchScore FieldSafety MatchQueueFunc ChunkPool MineAssign ChunkTree ServerHistory ChunkIsolation ChunkRuns RedisRefinement Startup Requests Deliveries
    MapSocket RoomSocket
begin

text \<open>
  go-lobby is a game server: players log in, wait in a queue for a 1v1 or 2v2 match, meet in a room, and
  play on one shared minefield that covers a map; finished matches are settled into ranks by a
  worker process. This development models the server's own logic and proves what its parts
  promise each other.

  \<^bold>\<open>How the program is represented.\<close> A Go struct is a record, an integer of Go is a HOL integer whose
  arithmetic is wrapped by \<open>wrap64\<close> where the code does not bound the operands, a string is a list of
  bytes, a Go map an association list whose order stands for the order of a \<^verbatim>\<open>range\<close> loop, a
  \<^verbatim>\<open>float64\<close> is \<open>f64\<close> of \<open>Float64\<close> (finite values as rationals with round to nearest even, infinities,
  NaN). A function that may fail returns an error or a value (\<open>err + 'a\<close>); one that calls MySQL, Redis
  or RabbitMQ is a program \<open>'a io\<close> on the record \<open>world\<close> of \<open>World\<close>, which holds the tables, the keys and
  the published events, and two scripts of the environment: \<open>net\<close>, what happens to each of the next
  calls (it succeeds, it is lost, it takes effect but reports an error), and \<open>clock\<close>, what
  \<^verbatim>\<open>time.Now\<close> returns. So an invariant that is proved for every \<open>net\<close> holds under every pattern of
  store failures, on all error paths. HMAC-SHA256 of the mine layout is a parameter (\<open>mac\<close>), as is the random order of
  \<^verbatim>\<open>rand.Perm\<close>; nothing is assumed of either. Run-time panics are errors \<open>Panic\<close>.

  \<^bold>\<open>The theories\<close>, in the order in which they import each other:

  \<^item> \<open>Prelude\<close>: machine integers, maps, errors, programs, and the two ways to reason about programs,
    \<open>gives\<close> (an invariant kept on every path) and \<open>triple\<close> (before and after, for success and for failure).
    \<open>GoStrings\<close>: decimal numbers, \<^verbatim>\<open>strings.Split\<close>, \<^verbatim>\<open>strings.TrimSpace\<close>. \<open>Float64\<close>: binary64.
  \<^item> \<open>Geometry\<close>, \<open>Viewport\<close> (\<^verbatim>\<open>internal/model/chunk.go\<close>, \<^verbatim>\<open>mine_state.go\<close>): chunk ids, the grid of each level,
    cells, and which chunks a viewport shows. Ids round-trip, cell indices are a bijection, normalising a
    cell keeps its place, the visible range is exact.
  \<^item> \<open>Model\<close>, \<open>World\<close>: the structs of \<^verbatim>\<open>internal/model\<close>, \<^verbatim>\<open>internal/matchqueue\<close>, \<^verbatim>\<open>internal/event\<close> and the
    responses of \<^verbatim>\<open>internal/dto/res\<close>; the stored state.
  \<^item> \<open>MineGen\<close> (\<^verbatim>\<open>internal/model/mine.go\<close>): mines and counts, one fixed set of places of the world.
    \<open>Flood\<close>, \<open>ZeroArea\<close>: opening the area around a cell without neighbouring mines. The loop terminates by
    a measure (unvisited cells, then queue length) and opens the connected region.
  \<^item> \<open>MineStores\<close>: the three repositories of the minefield, with the locales \<open>keyed_store\<close>, \<open>flag_index\<close>
    and \<open>lock_table\<close> for what their clients rely on, each interpreted on the code's model.
  \<^item> \<open>MatchService\<close>, \<open>MineMatch\<close>, \<open>MatchScore\<close>, \<open>MineAssign\<close> (\<^verbatim>\<open>internal/service/match_service.go\<close>,
    \<^verbatim>\<open>mine_match_service.go\<close>, \<^verbatim>\<open>match_repository.go\<close>, \<^verbatim>\<open>mine_match_repository.go\<close>): match records, matches on the
    minefield. Creating a match is all or nothing, an event is published only for a finished row, the
    winner on points does not depend on the order of a Go map, a match gets a clean chunk of its own
    and never touches the lock of another.
  \<^item> \<open>ChunkService\<close>, \<open>ChunkInv\<close>, \<open>ChunkFunc\<close>, \<open>ChunkExample\<close>, \<open>ChunkViews\<close>, \<open>ChunkTree\<close>, \<open>FieldSafety\<close>
    (\<^verbatim>\<open>internal/service/chunk_service.go\<close>): opening and flagging cells, closing and reopening chunks, and the
    queries. \<open>FieldSafety\<close> proves for every reachable world that what is stored of a chunk never lies about
    the mines; \<open>ChunkFunc\<close> says what each branch of the two operations does; \<open>ChunkTree\<close> that the aggregate of
    a zoomed-out chunk is that of its four children.
  \<^item> \<open>ChunkWorker\<close>, \<open>ChunkPool\<close> (same file, from \<^verbatim>\<open>enqueueChunkOperation\<close> on): the goroutines that work on chunks,
    as a step relation over critical sections and channel operations. One worker per chunk, first in
    first out, nothing lost when idle workers end, and every waiting caller is answered. \<open>ChunkRuns\<close> puts the workers and the
    stored chunks together: concurrent requests have the effects and replies of a sequential execution.
  \<^item> \<open>RoomService\<close> (\<^verbatim>\<open>internal/service/room_service.go\<close>): a room plays exactly when everybody is ready.
  \<^item> \<open>MatchFrame\<close>: what the match code leaves alone, used by the invariants of the other parts.
  \<^item> \<open>MatchQueue\<close>, \<open>MatchQueueInv\<close>, \<open>MatchQueueFunc\<close> (\<^verbatim>\<open>internal/service/match_queue_service.go\<close>,
    \<^verbatim>\<open>match_queue_repository.go\<close>): match making. Under every failure a player is in at most one queue, once, and then
    marked as waiting for it; groups are formed first in first out; what join and cancel do on each branch.
  \<^item> \<open>RankService\<close>, \<open>RankLedger\<close>, \<open>RankWorker\<close> (\<^verbatim>\<open>internal/service/rank_service.go\<close>, \<^verbatim>\<open>rank_repository.go\<close>,
    \<^verbatim>\<open>leaderboard_repository.go\<close>, the loop of \<^verbatim>\<open>cmd/worker/main.go\<close>): ranks. The tables refine a ledger of settled
    results (\<open>book\<close>) under every failure, the worker gets through when failures end, the leaderboard lists the
    best players in order.
    \<open>Deliveries\<close> refines the worker's turns down to the bodies the broker delivers and how each is acknowledged.
  \<^item> \<open>MapHub\<close> (\<^verbatim>\<open>internal/ws/map_hub.go\<close>, the subscription message of \<^verbatim>\<open>map_client.go\<close>): who hears of which chunk.
    \<open>RoomHub\<close> (\<^verbatim>\<open>internal/ws/room_hub.go\<close>, \<^verbatim>\<open>client.go\<close>): broadcasts to a room never panic and reach exactly its
    clients, whose registration stays sound. \<open>Pump\<close>, \<open>MapSocket\<close>, \<open>RoomSocket\<close> (\<^verbatim>\<open>map_client.go\<close>, \<^verbatim>\<open>client.go\<close>): the two goroutines of
    each socket as step relations. The locale \<open>delivery\<close> is what both kinds of socket promise, interpreted on each
    of the two systems: what was accepted for a client is written to him in order, once each.
  \<^item> \<open>Accounts\<close>, \<open>AccountLaws\<close> (\<^verbatim>\<open>internal/service/user_service.go\<close>, \<^verbatim>\<open>user_repository.go\<close>, \<^verbatim>\<open>internal/auth\<close>,
    \<^verbatim>\<open>internal/middleware\<close>): accounts are unique under every failure; registration, login and the token fit together.
    bcrypt, the JWT library and the collation of names are the fields of \<open>deps\<close>; what is assumed of them
    are the hypotheses \<open>jwt_ok\<close> and \<open>coll_ok\<close>, which hold of the example \<open>plainDeps\<close>.
  \<^item> \<open>Handlers\<close> (\<^verbatim>\<open>internal/handler\<close>, the routes of \<^verbatim>\<open>cmd/api/main.go\<close>): all requests, \<open>handleRequest\<close> on the record
    \<open>server\<close>, which is the stored state and the two hubs. \<open>Requests\<close> (\<^verbatim>\<open>internal/dto/req\<close>): the bodies and what their
    \<^verbatim>\<open>binding\<close> tags accept.
  \<^item> \<open>Duration\<close>, \<open>Configuration\<close> (\<^verbatim>\<open>config/config.go\<close>): \<^verbatim>\<open>time.ParseDuration\<close>, and the configuration with the closing time
    of a chunk. \<open>Startup\<close> (the rest of \<^verbatim>\<open>cmd/api/main.go\<close> and \<^verbatim>\<open>cmd/worker/main.go\<close>, \<^verbatim>\<open>internal/mq/publisher.go\<close>,
    \<^verbatim>\<open>internal/cache/redis.go\<close>, the constructors of the services): the calls of both processes until they serve, as a log with
    arbitrary answers. A process that starts is complete; a publisher is set up or closed again.
  \<^item> \<open>Footprint\<close>: which operation leaves what alone. \<open>Server\<close>, \<open>ServerLaws\<close>: executions of the whole server. The locale
    \<open>request_invariant\<close> lists what an assertion about the stored state has to survive, and is interpreted on
    the reachable states of each component; so every execution of the server is one of each component. Nobody acts without a
    valid token, and what is done to a chunk is announced to those who watch it.
  \<^item> \<open>MatchPlay\<close>: an opening in a running match, functionally: a mine ends it, a cell scores, the last cell decides.
    \<open>ServerRuns\<close>, \<open>MatchInvariant\<close>, \<open>MatchHonest\<close>, \<open>MatchServer\<close>, \<open>ServerHistory\<close>: invariants that span the components, and what
    holds along every run. \<open>server_invariant\<close> is the contract of an assertion about one component's state with
    what all others do; it is interpreted for the growing set of opened cells and for the matches (\<open>playInv\<close>).
    Opened cells stay, points are earned by opened cells, finished matches are final, under every failure.
    \<open>ChunkIsolation\<close>: a request on one chunk leaves the other chunks and what goes on there alone. The locale
    \<open>worked_chunks\<close> of \<open>ChunkInv\<close> (an invariant of the minefield while only some chunks are worked on) is interpreted there
    on a single chunk.
  \<^item> \<open>RedisStore\<close>, \<open>RedisRefinement\<close> (the four repositories that use Redis): keys, commands and decimal numbers. The locale
    \<open>key_schema\<close> is what the keys have to give, interpreted on the key functions of the code; every repository operation on
    the one key space refines its model on the fields of \<open>world\<close>, so no client of the repositories can tell them apart.

  \<^bold>\<open>How the parts interact.\<close> \<open>Join\<close> of the match queue calls \<open>CreateMatchFromQueue\<close>, \<open>AssignChunkForMatch\<close> and
  \<open>CreateRoom\<close>; opening a cell asks \<open>AuthorizeChunkOperation\<close> for permission and reports to \<open>ApplyOpenResult\<close>, which
  finishes the match with \<open>SetMatchResult\<close>; that publishes the event which \<open>workerTurn\<close> hands to
  \<open>SettleMatchResult\<close>. The handlers call the services and hand their results to the hubs. The definitions call each other in the same way.

  \<^bold>\<open>Bounds.\<close> Loops are structural recursion or have a termination proof. The two runs with a
  number of turns state how many are enough: \<open>workerTurns\<close> as many as there are failures and deliveries,
  \<open>workerSpins\<close> two per request in hand. \<open>RedisRefinement\<close> asks that stored numbers fit 64 bits and scores stay below
  \<open>2 ^ 53\<close>, where a \<^verbatim>\<open>float64\<close> is exact.

  \<^bold>\<open>Concurrency.\<close> Each request of the services is one step of the model. That is what the code
  guarantees for the match queue, the rooms, the hub and the settlement (one mutex each) and for the operations on one chunk
  (one worker, \<open>ChunkRuns\<close>). Requests on different chunks interleave call by call in reality; by \<open>ChunkIsolation\<close> a request
  on one chunk, with whatever a match on it does when it ends, writes nothing that belongs to another chunk.

  \<^bold>\<open>Not modelled.\<close> Decoding and encoding of JSON and YAML and the parsing of numbers in queries (bodies and messages are given as
  decoded or refused), the deadlines of the sockets (a read or a write may fail at any time), the
  table definitions (their unique keys are part of the repositories) and static pages: input and output around the
  logic above. Of the stores, expiry of keys, the collations of other text columns and the range of 32-bit columns are left out.
  JSON documents are stored as the values they encode. Messages for people are Chinese in the code and English here.
\<close>

end
